(* ===== verification/GV_Prelude.thy ===== *)
theory GV_Prelude
  imports Main "HOL-Library.Word" "HOL-Library.Multiset"
begin

text \<open>
  Shared vocabulary of the development: the Rust integer types at their widths,
  the result type of fallible operations, the integer operations of the Rust
  standard library that the sources use, and the generic lemmas on lists, options
  and words that several components need.
\<close>

unbundle bit_operations_syntax

section \<open>Types\<close>

type_synonym u8 = "8 word"
type_synonym u16 = "16 word"
type_synonym u32 = "32 word"
type_synonym u64 = "64 word"
type_synonym i32 = "32 word"
type_synonym i64 = "64 word"

text \<open>
  \<open>usize\<close> is a natural number where it is a length, an index or a size that the
  code only compares and adds within bounds; atomic counters that wrap are words.
  A fallible operation returns \<open>('e, 'a) result\<close>; \<^term>\<open>Inl\<close> carries the error.
\<close>

type_synonym usize = nat
type_synonym ('e, 'a) result = "'e + 'a"

abbreviation Err :: "'e \<Rightarrow> ('e, 'a) result" where
  "Err e \<equiv> Inl e"

abbreviation Ok :: "'a \<Rightarrow> ('e, 'a) result" where
  "Ok a \<equiv> Inr a"

abbreviation u32_MAX :: u32 where
  "u32_MAX \<equiv> - 1"

abbreviation u64_MAX :: u64 where
  "u64_MAX \<equiv> - 1"

section \<open>Proof collections\<close>

named_theorems gv_wf \<open>operations preserve the well-formedness invariants of their component\<close>
named_theorems gv_abs \<open>operations commute with the abstraction function of their component\<close>

section \<open>Integer operations of the standard library\<close>

definition saturating_sub :: "'a::len word \<Rightarrow> 'a word \<Rightarrow> 'a word" where
  "saturating_sub a b = (if a < b then 0 else a - b)"

definition saturating_add :: "'a::len word \<Rightarrow> 'a word \<Rightarrow> 'a word" where
  "saturating_add a b = (if unat a + unat b < 2 ^ LENGTH('a) then a + b else - 1)"

lemma unat_saturating_sub: "unat (saturating_sub a b) = unat a - unat b"
  by (auto simp: saturating_sub_def word_less_nat_alt unat_sub word_le_nat_alt)

lemma unat_saturating_add:
  "unat (saturating_add (a::'a::len word) b) = min (unat a + unat b) (2 ^ LENGTH('a) - 1)"
  by (auto simp: saturating_add_def unat_add_lem[THEN iffD1] unsigned_minus_1_eq_mask
      mask_eq_exp_minus_1)

section \<open>Decimal printing and parsing of unsigned integers\<close>

text \<open>
  \<open>show_nat\<close> is what the \<open>Display\<close> instance of the unsigned integer types writes;
  \<open>parse_digits\<close> reads a non-empty run of decimal digits back, as \<open>str::parse\<close> does
  before its range check.
\<close>

definition digit_char :: "nat \<Rightarrow> char" where
  "digit_char d = char_of (48 + d)"

definition digit_val :: "char \<Rightarrow> nat option" where
  "digit_val c = (let n = of_char c :: nat in if 48 \<le> n \<and> n \<le> 57 then Some (n - 48) else None)"

fun show_nat :: "nat \<Rightarrow> string" where
  "show_nat n = (if n < 10 then [digit_char n] else show_nat (n div 10) @ [digit_char (n mod 10)])"

declare show_nat.simps [simp del]

fun parse_digits_acc :: "nat \<Rightarrow> string \<Rightarrow> nat option" where
  "parse_digits_acc acc [] = Some acc"
| "parse_digits_acc acc (c # cs) =
     (case digit_val c of None \<Rightarrow> None | Some d \<Rightarrow> parse_digits_acc (10 * acc + d) cs)"

definition parse_digits :: "string \<Rightarrow> nat option" where
  "parse_digits s = (if s = [] then None else parse_digits_acc 0 s)"

lemma digit_val_digit_char [simp]: "d < 10 \<Longrightarrow> digit_val (digit_char d) = Some d"
  by (simp add: digit_val_def digit_char_def)

lemma parse_digits_acc_append:
  "parse_digits_acc acc (xs @ ys) =
     (case parse_digits_acc acc xs of None \<Rightarrow> None | Some a \<Rightarrow> parse_digits_acc a ys)"
  by (induction xs arbitrary: acc) (auto split: option.splits)

lemma show_nat_nonempty [simp]: "show_nat n \<noteq> []"
  by (subst show_nat.simps) simp

lemma parse_show_acc: "parse_digits_acc 0 (show_nat n) = Some n"
proof (induction n rule: show_nat.induct)
  case (1 n)
  then show ?case
    by (subst show_nat.simps) (auto simp: parse_digits_acc_append)
qed

lemma parse_show_nat [simp]: "parse_digits (show_nat n) = Some n"
  by (simp add: parse_digits_def parse_show_acc)

section \<open>Lists\<close>

lemma distinct_butlast_last:
  "xs \<noteq> [] \<Longrightarrow> distinct xs \<Longrightarrow> last xs \<notin> set (butlast xs)"
  by (metis append_butlast_last_id distinct_butlast not_distinct_conv_prefix)

lemma set_butlast_last:
  "xs \<noteq> [] \<Longrightarrow> set xs = insert (last xs) (set (butlast xs))"
  by (metis Un_insert_right append_butlast_last_id list.simps(15) set_append set_empty sup_bot.right_neutral)

lemma card_set_butlast:
  "xs \<noteq> [] \<Longrightarrow> distinct xs \<Longrightarrow> set (butlast xs) = set xs - {last xs}"
  using distinct_butlast_last set_butlast_last by fastforce

section \<open>Positions modulo a ring size\<close>

lemma mod_add_cancel_left_nat:
  fixes x y :: nat
  assumes "(s + x) mod n = (s + y) mod n"
  shows "x mod n = y mod n"
proof -
  have *: "int z mod int n = ((int s + int z) mod int n - int s) mod int n" for z
    by (simp add: mod_diff_left_eq)
  have "(int s + int x) mod int n = (int s + int y) mod int n"
    using assms by (metis of_nat_add of_nat_mod)
  then have "int x mod int n = int y mod int n"
    using *[of x] *[of y] by simp
  then show ?thesis
    by (metis of_nat_eq_iff of_nat_mod)
qed

lemma mod_positions_differ:
  fixes x y :: nat
  assumes "x < n" "y < n" "x \<noteq> y"
  shows "(s + x) mod n \<noteq> (s + y) mod n"
  using assms mod_add_cancel_left_nat[of s x n y] by auto

section \<open>Sums over a family of threads\<close>

lemma sum_fun_upd:
  fixes f :: "'a \<Rightarrow> 'b::ab_group_add"
  assumes "(t::nat) < n"
  shows "(\<Sum>i<n. f ((g(t := v)) i)) = (\<Sum>i<n. f (g i)) - f (g t) + f v"
proof -
  have "(\<Sum>i<n. f ((g(t := v)) i)) = f v + (\<Sum>i\<in>{..<n} - {t}. f ((g(t := v)) i))"
    using assms by (subst sum.remove[of _ t]) auto
  also have "(\<Sum>i\<in>{..<n} - {t}. f ((g(t := v)) i)) = (\<Sum>i\<in>{..<n} - {t}. f (g i))"
    by (rule sum.cong) auto
  also have "\<dots> = (\<Sum>i<n. f (g i)) - f (g t)"
    using assms by (subst (2) sum.remove[of _ t]) auto
  finally show ?thesis
    by (simp add: algebra_simps)
qed

section \<open>Words\<close>

lemma unat_Suc_less:
  assumes "(a::'a::len word) < b"
  shows "unat (a + 1) = Suc (unat a)"
proof -
  have "1 + a \<noteq> 0"
    using assms by (metis add.commute add_eq_0_iff word_order.extremum_strict)
  then show ?thesis
    by (simp add: unatSuc add.commute)
qed

lemma less_plus_one_word:
  "(a::'a::len word) < b \<Longrightarrow> x < a + 1 \<longleftrightarrow> x < a \<or> x = a"
  by (metis less_Suc_eq unat_Suc_less word_less_nat_alt word_unat_eq_iff)

lemma unat_of_nat_lt: "k < 2 ^ LENGTH('a) \<Longrightarrow> unat (of_nat k :: 'a::len word) = k"
  by (simp add: unat_of_nat)

lemma card_below: "card {i :: 'a::len word. i < b} = unat b"
proof -
  have "{i :: 'a word. i < b} = of_nat ` {..<unat b}"
  proof (intro set_eqI iffI)
    fix i :: "'a word" assume "i \<in> {i. i < b}"
    then show "i \<in> of_nat ` {..<unat b}"
      by (intro image_eqI[of _ _ "unat i"]) (simp_all add: word_less_nat_alt)
  next
    fix i :: "'a word" assume "i \<in> of_nat ` {..<unat b}"
    then show "i \<in> {i. i < b}"
      by (auto simp: word_less_nat_alt unat_of_nat) (metis mod_less_eq_dividend order_le_less_trans)
  qed
  moreover have "inj_on (of_nat :: nat \<Rightarrow> 'a word) {..<unat b}"
  proof (rule inj_onI)
    fix x y assume "x \<in> {..<unat b}" "y \<in> {..<unat b}" "(of_nat x :: 'a word) = of_nat y"
    moreover have "unat b < 2 ^ LENGTH('a)" by (rule unsigned_less)
    ultimately show "x = y"
      by (metis lessThan_iff order_less_trans unat_of_nat_lt)
  qed
  ultimately show ?thesis
    by (simp add: card_image)
qed

section \<open>Refinement\<close>

text \<open>
  A concrete machine whose steps are steps of an abstract one keeps the abstract machine's
  invariant on every reachable state.
\<close>

locale refinement =
  fixes cstep :: "'c \<Rightarrow> 'c \<Rightarrow> bool"
    and astep :: "'a \<Rightarrow> 'a \<Rightarrow> bool"
    and abs :: "'c \<Rightarrow> 'a"
    and cinv :: "'c \<Rightarrow> bool"
    and ainv :: "'a \<Rightarrow> bool"
  assumes sim: "cinv c \<Longrightarrow> ainv (abs c) \<Longrightarrow> cstep c c' \<Longrightarrow> astep (abs c) (abs c') \<and> cinv c'"
    and keep: "astep a a' \<Longrightarrow> ainv a \<Longrightarrow> ainv a'"
begin

lemma reach:
  assumes "cstep\<^sup>*\<^sup>* c c'" "cinv c" "ainv (abs c)"
  shows "astep\<^sup>*\<^sup>* (abs c) (abs c') \<and> cinv c' \<and> ainv (abs c')"
  using assms
proof (induction rule: rtranclp_induct)
  case base
  then show ?case by simp
next
  case (step y z)
  then have y: "astep\<^sup>*\<^sup>* (abs c) (abs y)" "cinv y" "ainv (abs y)"
    by blast+
  note s = sim[OF y(2,3) step(2)]
  then show ?case
    using y(1) keep[of "abs y" "abs z"] y(3) by (meson rtranclp.rtrancl_into_rtrancl)
qed

end

end
