(* ===== verification/Core_Types.thy ===== *)
theory Core_Types
  imports GV_Prelude
begin

text \<open>
  The vocabulary of \<open>gvthread-core\<close>: the memory-layout constants
  (\<open>gvthread-core/src/lib.rs\<close>), thread identifiers (\<open>id.rs\<close>), thread states and
  priorities (\<open>state.rs\<close>), the error types (\<open>error.rs\<close>) and the metadata block at
  the start of every slot together with the per-worker state (\<open>metadata.rs\<close>).
\<close>

section \<open>Constants (\<open>lib.rs\<close>)\<close>

definition SLOT_SIZE :: usize where "SLOT_SIZE = 16 * 1024"
definition GUARD_SIZE :: usize where "GUARD_SIZE = 4096"
definition METADATA_SIZE :: usize where "METADATA_SIZE = 4096"
definition STACK_SIZE :: usize where "STACK_SIZE = SLOT_SIZE - METADATA_SIZE - GUARD_SIZE"
definition MAX_WORKERS :: usize where "MAX_WORKERS = 64"
definition DEFAULT_MAX_GVTHREADS :: usize where "DEFAULT_MAX_GVTHREADS = 65536"
definition GVTHREAD_NONE :: u32 where "GVTHREAD_NONE = u32_MAX"
definition CACHE_LINE_SIZE :: usize where "CACHE_LINE_SIZE = 64"

lemmas layout_constants = SLOT_SIZE_def GUARD_SIZE_def METADATA_SIZE_def STACK_SIZE_def

section \<open>Identifiers (\<open>id.rs\<close>)\<close>

text \<open>\<open>GVThreadId\<close> is a transparent wrapper around \<open>u32\<close>.\<close>

type_synonym GVThreadId = u32

definition GVThreadId_NONE :: GVThreadId where
  "GVThreadId_NONE = u32_MAX"

definition as_usize :: "GVThreadId \<Rightarrow> usize" where
  "as_usize i = unat i"

definition is_none :: "GVThreadId \<Rightarrow> bool" where
  "is_none i \<longleftrightarrow> i = u32_MAX"

definition is_some :: "GVThreadId \<Rightarrow> bool" where
  "is_some i \<longleftrightarrow> i \<noteq> u32_MAX"

definition to_option :: "GVThreadId \<Rightarrow> GVThreadId option" where
  "to_option i = (if is_none i then None else Some i)"

definition GVThreadId_debug :: "GVThreadId \<Rightarrow> string" where
  "GVThreadId_debug i =
     (if is_none i then ''GVThreadId(NONE)'' else ''GVThreadId('' @ show_nat (unat i) @ '')'')"

definition GVThreadId_display :: "GVThreadId \<Rightarrow> string" where
  "GVThreadId_display i = (if is_none i then ''none'' else show_nat (unat i))"

section \<open>States and priorities (\<open>state.rs\<close>)\<close>

datatype GVThreadState =
  Created | Ready | Running | Blocked | Preempted | Finished | Cancelled

definition is_runnable :: "GVThreadState \<Rightarrow> bool" where
  "is_runnable s = (case s of Ready \<Rightarrow> True | _ \<Rightarrow> False)"

definition is_terminated :: "GVThreadState \<Rightarrow> bool" where
  "is_terminated s = (case s of Finished \<Rightarrow> True | Cancelled \<Rightarrow> True | _ \<Rightarrow> False)"

definition needs_full_restore :: "GVThreadState \<Rightarrow> bool" where
  "needs_full_restore s = (case s of Preempted \<Rightarrow> True | _ \<Rightarrow> False)"

definition GVThreadState_from_u8 :: "u8 \<Rightarrow> GVThreadState" where
  "GVThreadState_from_u8 v =
     (if v = 0 then Created
      else if v = 1 then Ready
      else if v = 2 then Running
      else if v = 3 then Blocked
      else if v = 4 then Preempted
      else if v = 5 then Finished
      else if v = 6 then Cancelled
      else Created)"

primrec GVThreadState_to_u8 :: "GVThreadState \<Rightarrow> u8" where
  "GVThreadState_to_u8 Created = 0"
| "GVThreadState_to_u8 Ready = 1"
| "GVThreadState_to_u8 Running = 2"
| "GVThreadState_to_u8 Blocked = 3"
| "GVThreadState_to_u8 Preempted = 4"
| "GVThreadState_to_u8 Finished = 5"
| "GVThreadState_to_u8 Cancelled = 6"

lemma GVThreadState_roundtrip [simp]: "GVThreadState_from_u8 (GVThreadState_to_u8 s) = s"
  by (cases s) (simp_all add: GVThreadState_from_u8_def)

datatype Priority = Critical | High | Normal | Low

definition Priority_COUNT :: usize where
  "Priority_COUNT = 4"

primrec as_index :: "Priority \<Rightarrow> usize" where
  "as_index Critical = 0"
| "as_index High = 1"
| "as_index Normal = 2"
| "as_index Low = 3"

definition from_index :: "usize \<Rightarrow> Priority option" where
  "from_index idx =
     (if idx = 0 then Some Critical
      else if idx = 1 then Some High
      else if idx = 2 then Some Normal
      else if idx = 3 then Some Low
      else None)"

definition Priority_iter :: "Priority list" where
  "Priority_iter = [Critical, High, Normal, Low]"

definition Priority_default :: Priority where
  "Priority_default = Normal"

definition Priority_from_u8 :: "u8 \<Rightarrow> Priority" where
  "Priority_from_u8 v =
     (if v = 0 then Critical
      else if v = 1 then High
      else if v = 2 then Normal
      else if v = 3 then Low
      else Normal)"

primrec Priority_to_u8 :: "Priority \<Rightarrow> u8" where
  "Priority_to_u8 Critical = 0"
| "Priority_to_u8 High = 1"
| "Priority_to_u8 Normal = 2"
| "Priority_to_u8 Low = 3"

primrec Priority_display :: "Priority \<Rightarrow> string" where
  "Priority_display Critical = ''CRITICAL''"
| "Priority_display High = ''HIGH''"
| "Priority_display Normal = ''NORMAL''"
| "Priority_display Low = ''LOW''"

lemma Priority_roundtrip [simp]: "Priority_from_u8 (Priority_to_u8 p) = p"
  by (cases p) (simp_all add: Priority_from_u8_def)

lemma from_index_as_index [simp]: "from_index (as_index p) = Some p"
  by (cases p) (simp_all add: from_index_def)

lemma as_index_less [simp]: "as_index p < Priority_COUNT"
  by (cases p) (simp_all add: Priority_COUNT_def)

text \<open>The derived \<open>Ord\<close> of \<open>Priority\<close>: declaration order, Critical first.\<close>

instantiation Priority :: linorder
begin

definition less_eq_Priority :: "Priority \<Rightarrow> Priority \<Rightarrow> bool" where
  "p \<le> q \<longleftrightarrow> as_index p \<le> as_index q"

definition less_Priority :: "Priority \<Rightarrow> Priority \<Rightarrow> bool" where
  "p < q \<longleftrightarrow> as_index p < as_index q"

instance
proof
  fix p q r :: Priority
  show "p < q \<longleftrightarrow> p \<le> q \<and> \<not> q \<le> p"
    by (auto simp: less_eq_Priority_def less_Priority_def)
  show "p \<le> p"
    by (simp add: less_eq_Priority_def)
  show "p \<le> q \<Longrightarrow> q \<le> r \<Longrightarrow> p \<le> r"
    by (simp add: less_eq_Priority_def)
  show "p \<le> q \<Longrightarrow> q \<le> p \<Longrightarrow> p = q"
    unfolding less_eq_Priority_def by (metis eq_iff from_index_as_index option.inject)
  show "p \<le> q \<or> q \<le> p"
    by (auto simp: less_eq_Priority_def)
qed

end

lemma Priority_iter_sorted: "sorted Priority_iter" "distinct Priority_iter" "set Priority_iter = UNIV"
  by (auto simp: Priority_iter_def less_eq_Priority_def intro: Priority.exhaust)

section \<open>Errors (\<open>error.rs\<close>)\<close>

datatype MemoryError =
    AllocationFailed
  | ProtectionFailed
  | AdviseFailed
  | MemoryAlreadyInitialized
  | TooManySlots
  | InvalidSlot

datatype WorkerError =
    SpawnFailed
  | Panicked
  | AffinityFailed
  | SignalSetupFailed

datatype SchedError =
    SchedCancelled
  | Timeout
  | ChannelClosed
  | ChannelFull
  | ChannelEmpty
  | NoSlotsAvailable
  | GVThreadNotFound
  | InvalidState
  | NotInitialized
  | AlreadyInitialized
  | SchedMemoryError MemoryError
  | SchedWorkerError WorkerError
  | PlatformError i32

type_synonym 'a SchedResult = "(SchedError, 'a) result"

datatype 'a TrySendError = TrySendError 'a
datatype TryRecvError = TryRecvError

primrec MemoryError_display :: "MemoryError \<Rightarrow> string" where
  "MemoryError_display AllocationFailed = ''memory allocation failed''"
| "MemoryError_display ProtectionFailed = ''memory protection change failed''"
| "MemoryError_display AdviseFailed = ''memory advise failed''"
| "MemoryError_display MemoryAlreadyInitialized = ''memory region already initialized''"
| "MemoryError_display TooManySlots = ''too many slots requested''"
| "MemoryError_display InvalidSlot = ''invalid slot ID''"

primrec WorkerError_display :: "WorkerError \<Rightarrow> string" where
  "WorkerError_display SpawnFailed = ''failed to spawn worker thread''"
| "WorkerError_display Panicked = ''worker thread panicked''"
| "WorkerError_display AffinityFailed = ''failed to set thread affinity''"
| "WorkerError_display SignalSetupFailed = ''signal setup failed''"

definition show_i32 :: "i32 \<Rightarrow> string" where
  "show_i32 w = (if sint w < 0 then ''-'' @ show_nat (nat (- sint w)) else show_nat (nat (sint w)))"

primrec SchedError_display :: "SchedError \<Rightarrow> string" where
  "SchedError_display SchedCancelled = ''operation cancelled''"
| "SchedError_display Timeout = ''operation timed out''"
| "SchedError_display ChannelClosed = ''channel closed''"
| "SchedError_display ChannelFull = ''channel full''"
| "SchedError_display ChannelEmpty = ''channel empty''"
| "SchedError_display NoSlotsAvailable = ''no GVThread slots available''"
| "SchedError_display GVThreadNotFound = ''GVThread not found''"
| "SchedError_display InvalidState = ''invalid GVThread state''"
| "SchedError_display NotInitialized = ''scheduler not initialized''"
| "SchedError_display AlreadyInitialized = ''scheduler already initialized''"
| "SchedError_display (SchedMemoryError e) = ''memory error: '' @ MemoryError_display e"
| "SchedError_display (SchedWorkerError e) = ''worker error: '' @ WorkerError_display e"
| "SchedError_display (PlatformError code) = ''platform error: '' @ show_i32 code"

text \<open>The \<open>From\<close> conversions the \<open>?\<close> operator applies.\<close>

definition SchedError_from_MemoryError :: "MemoryError \<Rightarrow> SchedError" where
  "SchedError_from_MemoryError e = SchedMemoryError e"

definition SchedError_from_WorkerError :: "WorkerError \<Rightarrow> SchedError" where
  "SchedError_from_WorkerError e = SchedWorkerError e"

section \<open>Thread metadata (\<open>metadata.rs\<close>)\<close>

record VoluntarySavedRegs =
  v_rsp :: u64
  v_rip :: u64
  v_rbx :: u64
  v_rbp :: u64
  v_r12 :: u64
  v_r13 :: u64
  v_r14 :: u64
  v_r15 :: u64

definition VoluntarySavedRegs_default :: VoluntarySavedRegs where
  "VoluntarySavedRegs_default =
     \<lparr> v_rsp = 0, v_rip = 0, v_rbx = 0, v_rbp = 0, v_r12 = 0, v_r13 = 0, v_r14 = 0, v_r15 = 0 \<rparr>"

record ForcedSavedRegs =
  f_rax :: u64
  f_rbx :: u64
  f_rcx :: u64
  f_rdx :: u64
  f_rsi :: u64
  f_rdi :: u64
  f_rbp :: u64
  f_rsp :: u64
  f_r8 :: u64
  f_r9 :: u64
  f_r10 :: u64
  f_r11 :: u64
  f_r12 :: u64
  f_r13 :: u64
  f_r14 :: u64
  f_r15 :: u64
  f_rip :: u64
  f_rflags :: u64
  f_cs :: u64
  f_ss :: u64
  f_fpu_state_ptr :: u64

definition ForcedSavedRegs_default :: ForcedSavedRegs where
  "ForcedSavedRegs_default =
     \<lparr> f_rax = 0, f_rbx = 0, f_rcx = 0, f_rdx = 0, f_rsi = 0, f_rdi = 0, f_rbp = 0, f_rsp = 0,
       f_r8 = 0, f_r9 = 0, f_r10 = 0, f_r11 = 0, f_r12 = 0, f_r13 = 0, f_r14 = 0, f_r15 = 0,
       f_rip = 0, f_rflags = 0, f_cs = 0, f_ss = 0, f_fpu_state_ptr = 0 \<rparr>"

record GVThreadMetadata =
  m_preempt_flag :: u8
  m_cancelled :: u8
  m_state :: u8
  m_priority :: u8
  m_gvthread_id :: u32
  m_parent_id :: u32
  m_worker_id :: u32
  m_entry_fn :: u64
  m_entry_arg :: u64
  m_result_ptr :: u64
  m_generation :: u32
  m_sleep_flag :: u32
  m_wake_time_ns :: u64
  m_voluntary_regs :: VoluntarySavedRegs
  m_forced_regs :: ForcedSavedRegs

definition GVThreadMetadata_new :: GVThreadMetadata where
  "GVThreadMetadata_new =
     \<lparr> m_preempt_flag = 0, m_cancelled = 0,
       m_state = GVThreadState_to_u8 Created, m_priority = Priority_to_u8 Normal,
       m_gvthread_id = GVTHREAD_NONE, m_parent_id = GVTHREAD_NONE, m_worker_id = GVTHREAD_NONE,
       m_entry_fn = 0, m_entry_arg = 0, m_result_ptr = 0,
       m_generation = 0, m_sleep_flag = 0, m_wake_time_ns = 0,
       m_voluntary_regs = VoluntarySavedRegs_default,
       m_forced_regs = ForcedSavedRegs_default \<rparr>"

definition metadata_init ::
  "GVThreadId \<Rightarrow> GVThreadId \<Rightarrow> Priority \<Rightarrow> GVThreadMetadata \<Rightarrow> GVThreadMetadata" where
  "metadata_init i parent pr m =
     m\<lparr> m_preempt_flag := 0, m_cancelled := 0, m_state := GVThreadState_to_u8 Created,
        m_priority := Priority_to_u8 pr, m_gvthread_id := i, m_parent_id := parent,
        m_worker_id := GVTHREAD_NONE, m_generation := m_generation m + 1 \<rparr>"

definition get_state :: "GVThreadMetadata \<Rightarrow> GVThreadState" where
  "get_state m = GVThreadState_from_u8 (m_state m)"

definition set_state :: "GVThreadState \<Rightarrow> GVThreadMetadata \<Rightarrow> GVThreadMetadata" where
  "set_state s m = m\<lparr> m_state := GVThreadState_to_u8 s \<rparr>"

definition get_priority :: "GVThreadMetadata \<Rightarrow> Priority" where
  "get_priority m = Priority_from_u8 (m_priority m)"

definition is_preempt_requested :: "GVThreadMetadata \<Rightarrow> bool" where
  "is_preempt_requested m \<longleftrightarrow> m_preempt_flag m \<noteq> 0"

definition request_preempt :: "GVThreadMetadata \<Rightarrow> GVThreadMetadata" where
  "request_preempt m = m\<lparr> m_preempt_flag := 1 \<rparr>"

definition clear_preempt :: "GVThreadMetadata \<Rightarrow> GVThreadMetadata" where
  "clear_preempt m = m\<lparr> m_preempt_flag := 0 \<rparr>"

definition metadata_is_cancelled :: "GVThreadMetadata \<Rightarrow> bool" where
  "metadata_is_cancelled m \<longleftrightarrow> m_cancelled m \<noteq> 0"

definition request_cancel :: "GVThreadMetadata \<Rightarrow> GVThreadMetadata" where
  "request_cancel m = m\<lparr> m_cancelled := 1 \<rparr>"

definition get_id :: "GVThreadMetadata \<Rightarrow> GVThreadId" where
  "get_id m = m_gvthread_id m"

definition get_generation :: "GVThreadMetadata \<Rightarrow> u32" where
  "get_generation m = m_generation m"

lemma get_set_state [simp]: "get_state (set_state s m) = s"
  by (simp add: get_state_def set_state_def)

lemma set_state_other [simp]:
  "m_gvthread_id (set_state s m) = m_gvthread_id m"
  "m_generation (set_state s m) = m_generation m"
  "m_priority (set_state s m) = m_priority m"
  "m_worker_id (set_state s m) = m_worker_id m"
  "m_sleep_flag (set_state s m) = m_sleep_flag m"
  "m_voluntary_regs (set_state s m) = m_voluntary_regs m"
  by (simp_all add: set_state_def)

lemma metadata_init_state [simp]:
  "get_state (metadata_init i p pr m) = Created"
  "get_priority (metadata_init i p pr m) = pr"
  "get_id (metadata_init i p pr m) = i"
  "get_generation (metadata_init i p pr m) = get_generation m + 1"
  "\<not> metadata_is_cancelled (metadata_init i p pr m)"
  "\<not> is_preempt_requested (metadata_init i p pr m)"
  by (simp_all add: metadata_init_def GVThreadState_from_u8_def get_state_def get_priority_def get_id_def
      get_generation_def metadata_is_cancelled_def is_preempt_requested_def)

section \<open>Memory layout of the metadata block\<close>

text \<open>
  \<open>GVThreadMetadata\<close> is \<open>repr(C)\<close>: every field is placed at the next multiple of its
  alignment. The context switch of \<open>arch/x86_64\<close> addresses the saved registers by the
  offset computed here.
\<close>

definition align_up :: "nat \<Rightarrow> nat \<Rightarrow> nat" where
  "align_up al off = (off + al - 1) div al * al"

fun repr_C_offsets :: "nat \<Rightarrow> (string \<times> nat \<times> nat) list \<Rightarrow> (string \<times> nat) list" where
  "repr_C_offsets off [] = []"
| "repr_C_offsets off ((nm, sz, al) # fs) =
     (nm, align_up al off) # repr_C_offsets (align_up al off + sz) fs"

definition metadata_fields :: "(string \<times> nat \<times> nat) list" where
  "metadata_fields =
     [(''preempt_flag'', 1, 1), (''cancelled'', 1, 1), (''state'', 1, 1), (''priority'', 1, 1),
      (''gvthread_id'', 4, 4), (''parent_id'', 4, 4), (''worker_id'', 4, 4),
      (''entry_fn'', 8, 8), (''entry_arg'', 8, 8), (''result_ptr'', 8, 8),
      (''generation'', 4, 4), (''sleep_flag'', 4, 4), (''wake_time_ns'', 8, 8),
      (''_reserved'', 8, 1), (''voluntary_regs'', 64, 8), (''forced_regs'', 256, 8)]"

section \<open>Worker state (\<open>metadata.rs\<close>)\<close>

record WorkerState =
  w_current_gthread :: u32
  w_activity_counter :: u32
  w_run_start_ns :: u64
  w_last_activity_ns :: u64
  w_thread_id :: u64
  w_is_parked :: bool
  w_is_low_priority :: bool
  w_worker_index :: u8

definition WorkerState_new :: WorkerState where
  "WorkerState_new =
     \<lparr> w_current_gthread = GVTHREAD_NONE, w_activity_counter = 0, w_run_start_ns = 0,
       w_last_activity_ns = 0, w_thread_id = 0, w_is_parked = True, w_is_low_priority = False,
       w_worker_index = 0 \<rparr>"

definition WorkerState_init :: "u8 \<Rightarrow> bool \<Rightarrow> WorkerState \<Rightarrow> WorkerState" where
  "WorkerState_init index is_low w =
     w\<lparr> w_current_gthread := GVTHREAD_NONE, w_activity_counter := 0, w_run_start_ns := 0,
        w_last_activity_ns := 0, w_is_parked := True, w_is_low_priority := is_low,
        w_worker_index := index \<rparr>"

definition start_running :: "GVThreadId \<Rightarrow> u64 \<Rightarrow> WorkerState \<Rightarrow> WorkerState" where
  "start_running i now_ns w =
     w\<lparr> w_activity_counter := 0, w_run_start_ns := now_ns, w_last_activity_ns := now_ns,
        w_current_gthread := i, w_is_parked := False \<rparr>"

definition stop_running :: "WorkerState \<Rightarrow> WorkerState" where
  "stop_running w = w\<lparr> w_current_gthread := GVTHREAD_NONE \<rparr>"

definition record_activity :: "u64 \<Rightarrow> WorkerState \<Rightarrow> WorkerState" where
  "record_activity now_ns w =
     w\<lparr> w_activity_counter := w_activity_counter w + 1, w_last_activity_ns := now_ns \<rparr>"

definition get_current_gthread :: "WorkerState \<Rightarrow> GVThreadId" where
  "get_current_gthread w = w_current_gthread w"

definition is_idle :: "WorkerState \<Rightarrow> bool" where
  "is_idle w \<longleftrightarrow> w_current_gthread w = GVTHREAD_NONE"

lemma is_idle_simps [simp]:
  "is_idle (stop_running w)"
  "is_idle (start_running i t w) \<longleftrightarrow> is_none i"
  "is_idle (record_activity t w) \<longleftrightarrow> is_idle w"
  "is_idle (WorkerState_init n l w)"
  by (auto simp: is_idle_def stop_running_def start_running_def record_activity_def
      WorkerState_init_def is_none_def GVTHREAD_NONE_def)

end
