(* ===== verification/Slots.thy ===== *)
theory Slots
  imports Core_Types
begin

text \<open>
  The slot allocator of \<open>gvthread-core/src/slot.rs\<close>: a LIFO stack of recycled slot
  numbers in front of a counter of never-used ones. The operations are first given as
  functions on the allocator's fields, as one thread sees them when it runs alone; the
  second part splits \<open>allocate\<close> and \<open>release\<close> into the atomic accesses the code makes
  and lets any number of threads interleave them.
\<close>

section \<open>The allocator and its operations\<close>

text \<open>\<open>free_stack\<close> is a \<open>Vec\<close> used as a stack: the top is the last element.\<close>

record SlotAllocator =
  free_stack :: "u32 list"
  next_fresh :: u32
  max_slots :: u32
  allocated_count :: u32

definition SlotAllocator_new :: "usize \<Rightarrow> SlotAllocator" where
  "SlotAllocator_new n =
     \<lparr> free_stack = [], next_fresh = 0, max_slots = of_nat n, allocated_count = 0 \<rparr>"

definition allocate :: "SlotAllocator \<Rightarrow> GVThreadId SchedResult \<times> SlotAllocator" where
  "allocate a =
     (if free_stack a \<noteq> [] then
        (Ok (last (free_stack a)),
         a\<lparr> free_stack := butlast (free_stack a), allocated_count := allocated_count a + 1 \<rparr>)
      else if next_fresh a \<ge> max_slots a then (Err NoSlotsAvailable, a)
      else
        (Ok (next_fresh a),
         a\<lparr> next_fresh := next_fresh a + 1, allocated_count := allocated_count a + 1 \<rparr>))"

definition release :: "GVThreadId \<Rightarrow> SlotAllocator \<Rightarrow> SlotAllocator" where
  "release i a =
     (if is_none i then a
      else a\<lparr> free_stack := free_stack a @ [i], allocated_count := allocated_count a - 1 \<rparr>)"

definition release_batch :: "GVThreadId list \<Rightarrow> SlotAllocator \<Rightarrow> SlotAllocator" where
  "release_batch ids a =
     (if ids = [] then a
      else a\<lparr> free_stack := free_stack a @ filter (\<lambda>i. \<not> is_none i) ids,
              allocated_count := allocated_count a - of_nat (length ids) \<rparr>)"

definition fresh_remaining :: "SlotAllocator \<Rightarrow> u32" where
  "fresh_remaining a = saturating_sub (max_slots a) (next_fresh a)"

definition free_stack_size :: "SlotAllocator \<Rightarrow> usize" where
  "free_stack_size a = length (free_stack a)"

definition is_valid :: "GVThreadId \<Rightarrow> SlotAllocator \<Rightarrow> bool" where
  "is_valid i a \<longleftrightarrow> \<not> is_none i \<and> i < max_slots a"

section \<open>Well-formedness and the set of slots in use\<close>

definition slot_inv :: "SlotAllocator \<Rightarrow> bool" where
  "slot_inv a \<longleftrightarrow>
     distinct (free_stack a) \<and> (\<forall>i\<in>set (free_stack a). i < next_fresh a)
     \<and> next_fresh a \<le> max_slots a"

text \<open>The slots that have been handed out and not given back.\<close>

definition in_use :: "SlotAllocator \<Rightarrow> u32 set" where
  "in_use a = {i. i < next_fresh a} - set (free_stack a)"

lemma slot_inv_new [gv_wf]: "slot_inv (SlotAllocator_new n)"
  by (simp add: slot_inv_def SlotAllocator_new_def)

lemma in_use_new [gv_abs]: "in_use (SlotAllocator_new n) = {}"
  by (simp add: in_use_def SlotAllocator_new_def)

lemma allocate_cases:
  obtains (recycled) "free_stack a \<noteq> []"
    "allocate a = (Ok (last (free_stack a)),
       a\<lparr> free_stack := butlast (free_stack a), allocated_count := allocated_count a + 1 \<rparr>)"
  | (full) "free_stack a = []" "next_fresh a \<ge> max_slots a" "allocate a = (Err NoSlotsAvailable, a)"
  | (fresh) "free_stack a = []" "next_fresh a < max_slots a"
    "allocate a = (Ok (next_fresh a),
       a\<lparr> next_fresh := next_fresh a + 1, allocated_count := allocated_count a + 1 \<rparr>)"
  by (cases "free_stack a = []"; cases "next_fresh a \<ge> max_slots a")
    (simp_all add: allocate_def)

lemma slot_inv_allocate [gv_wf]:
  assumes "slot_inv a"
  shows "slot_inv (snd (allocate a))"
proof (cases a rule: allocate_cases)
  case recycled
  with assms show ?thesis
    by (auto simp: slot_inv_def distinct_butlast dest: in_set_butlastD)
next
  case full
  with assms show ?thesis by simp
next
  case fresh
  with assms show ?thesis
    by (simp add: slot_inv_def inc_le)
qed

lemma in_use_allocate [gv_abs]:
  assumes "slot_inv a" "allocate a = (Ok i, a')"
  shows "i \<notin> in_use a" "in_use a' = insert i (in_use a)"
  using assms
  by (cases a rule: allocate_cases;
      force simp: slot_inv_def in_use_def less_plus_one_word card_set_butlast)+

lemma allocate_in_range:
  assumes "slot_inv a" "allocate a = (Ok i, a')"
  shows "i < max_slots a" "max_slots a' = max_slots a" "allocated_count a' = allocated_count a + 1"
proof -
  show "i < max_slots a"
    using assms last_in_set[of "free_stack a"]
    by (cases a rule: allocate_cases) (auto simp: slot_inv_def intro: less_le_trans)
  show "max_slots a' = max_slots a" "allocated_count a' = allocated_count a + 1"
    using assms(2) by (cases a rule: allocate_cases; force)+
qed

lemma slot_inv_release [gv_wf]:
  assumes "slot_inv a" "i \<in> in_use a"
  shows "slot_inv (release i a)"
  using assms by (auto simp: slot_inv_def in_use_def release_def)

lemma in_use_not_none: "slot_inv a \<Longrightarrow> i \<in> in_use a \<Longrightarrow> \<not> is_none i"
  by (auto simp: slot_inv_def in_use_def is_none_def)

lemma in_use_release [gv_abs]:
  assumes "slot_inv a" "i \<in> in_use a"
  shows "in_use (release i a) = in_use a - {i}"
  using assms in_use_not_none[OF assms] by (auto simp: in_use_def release_def)

lemma finite_in_use [simp]: "finite (in_use a)"
  by simp

text \<open>The full allocator has every slot of the region in use.\<close>

lemma in_use_full:
  assumes "slot_inv a" "allocate a = (Err e, a')"
  shows "e = NoSlotsAvailable" "a' = a" "in_use a = {i. i < max_slots a}"
  using assms by (cases a rule: allocate_cases; force simp: slot_inv_def in_use_def)+

section \<open>The interface: a pool of identifiers\<close>

text \<open>
  What the scheduler relies on when it allocates a slot per thread and gives it back when
  the thread finishes. \<open>run_pool\<close> is a client that keeps the identifiers it received in
  a list and gives back one of them, chosen by position, at a time.
\<close>

datatype pool_op = OpAllocate | OpRelease nat

fun run_pool ::
  "('s \<Rightarrow> ('e, 'i) result \<times> 's) \<Rightarrow> ('i \<Rightarrow> 's \<Rightarrow> 's) \<Rightarrow> pool_op list \<Rightarrow> 'i list \<times> 's \<Rightarrow> 'i list \<times> 's"
where
  "run_pool al rel [] hs = hs"
| "run_pool al rel (OpAllocate # ops) (held, s) =
     (case al s of
        (Inl e, s') \<Rightarrow> run_pool al rel ops (held, s')
      | (Inr i, s') \<Rightarrow> run_pool al rel ops (i # held, s'))"
| "run_pool al rel (OpRelease k # ops) (held, s) =
     (if k < length held
      then run_pool al rel ops (take k held @ drop (Suc k) held, rel (held ! k) s)
      else run_pool al rel ops (held, s))"

locale id_pool =
  fixes al :: "'s \<Rightarrow> ('e, 'i) result \<times> 's"
    and rel :: "'i \<Rightarrow> 's \<Rightarrow> 's"
    and used :: "'s \<Rightarrow> 'i set"
    and inv :: "'s \<Rightarrow> bool"
    and cnt :: "'s \<Rightarrow> u32"
  assumes al_Ok: "inv s \<Longrightarrow> al s = (Inr i, s') \<Longrightarrow>
      inv s' \<and> i \<notin> used s \<and> used s' = insert i (used s) \<and> cnt s' = cnt s + 1"
    and al_Err: "inv s \<Longrightarrow> al s = (Inl e, s') \<Longrightarrow> s' = s"
    and rel_used: "inv s \<Longrightarrow> i \<in> used s \<Longrightarrow>
      inv (rel i s) \<and> used (rel i s) = used s - {i} \<and> cnt (rel i s) = cnt s - 1"
begin

lemma held_drop:
  assumes "distinct held" "k < length held"
  shows "distinct (take k held @ drop (Suc k) held)"
    and "set (take k held @ drop (Suc k) held) = set held - {held ! k}"
    and "length held = Suc (length (take k held @ drop (Suc k) held))"
proof -
  have e: "held = take k held @ held ! k # drop (Suc k) held"
    using assms(2) by (rule id_take_nth_drop)
  show "distinct (take k held @ drop (Suc k) held)"
    using assms(1) by (subst (asm) e) simp
  show "set (take k held @ drop (Suc k) held) = set held - {held ! k}"
    using assms(1) by (subst (3) e, subst (asm) e) auto
  show "length held = Suc (length (take k held @ drop (Suc k) held))"
    using assms(2) by simp
qed

lemma run_pool_holds:
  assumes "inv s" "distinct held" "set held = used s" "cnt s = of_nat (length held)"
    and "run_pool al rel ops (held, s) = (held', s')"
  shows "inv s' \<and> distinct held' \<and> set held' = used s' \<and> cnt s' = of_nat (length held')"
  using assms
proof (induction ops arbitrary: held s)
  case Nil
  then show ?case by simp
next
  case (Cons op ops)
  show ?case
  proof (cases op)
    case OpAllocate
    show ?thesis
    proof (cases "al s")
      case (Pair r s1)
      show ?thesis
      proof (cases r)
        case (Inl e)
        then have "s1 = s" "run_pool al rel ops (held, s) = (held', s')"
          using Pair OpAllocate Cons.prems al_Err by auto
        then show ?thesis
          using Cons.IH Cons.prems by blast
      next
        case (Inr i)
        then have run: "run_pool al rel ops (i # held, s1) = (held', s')"
          using Pair OpAllocate Cons.prems by simp
        have "inv s1" "i \<notin> used s" "used s1 = insert i (used s)" "cnt s1 = cnt s + 1"
          using al_Ok[OF Cons.prems(1)] Pair Inr by auto
        then show ?thesis
          using run Cons.prems by (intro Cons.IH[of s1 "i # held"]) (auto simp: add.commute)
      qed
    qed
  next
    case (OpRelease k)
    show ?thesis
    proof (cases "k < length held")
      case True
      let ?held = "take k held @ drop (Suc k) held"
      have "held ! k \<in> used s"
        using True Cons.prems(3) nth_mem by blast
      note r = rel_used[OF Cons.prems(1) this]
      note d = held_drop[OF Cons.prems(2) True]
      have "inv (rel (held ! k) s)" "distinct ?held"
        using r d(1) by blast+
      moreover have "set ?held = used (rel (held ! k) s)"
        using r d(2) Cons.prems(3) by metis
      moreover have "cnt (rel (held ! k) s) = of_nat (length ?held)"
        using r d(3) Cons.prems(4) by (metis add_diff_cancel_left' of_nat_Suc)
      moreover have "run_pool al rel ops (?held, rel (held ! k) s) = (held', s')"
        using Cons.prems(5) OpRelease True by simp
      ultimately show ?thesis
        by (intro Cons.IH)
    next
      case False
      with OpRelease Cons show ?thesis by auto
    qed
  qed
qed

end

lemma count_release: "slot_inv a \<Longrightarrow> i \<in> in_use a \<Longrightarrow> allocated_count (release i a) = allocated_count a - 1"
  using in_use_not_none by (simp add: release_def)

interpretation slots: id_pool allocate release in_use slot_inv allocated_count
proof (unfold_locales, goal_cases)
  case (1 s i s')
  then show ?case
    using slot_inv_allocate[of s] in_use_allocate[of s i s'] allocate_in_range(3)[of s i s'] by simp
next
  case (2 s e s')
  then show ?case
    using in_use_full by blast
next
  case (3 s i)
  then show ?case
    by (simp add: slot_inv_release in_use_release count_release)
qed

section \<open>Interleaved allocation\<close>

text \<open>
  Threads \<open>t < n\<close> share one allocator. Between two atomic accesses of one call any other
  thread may run; \<open>slot_pc\<close> records the access a thread makes next. The accesses made
  under the free-stack lock are one step; \<open>compare_exchange_weak\<close> may fail spuriously.
  \<open>held t\<close> is the set of slots thread \<open>t\<close> was given and has not released.
\<close>

datatype slot_pc = PcIdle | PcPop | PcLoad | PcCas u32 | PcCount | PcUncount

record slot_sys =
  sys_alloc :: SlotAllocator
  sys_pc :: "nat \<Rightarrow> slot_pc"
  sys_held :: "nat \<Rightarrow> u32 set"

definition slot_sys_init :: "usize \<Rightarrow> slot_sys" where
  "slot_sys_init m =
     \<lparr> sys_alloc = SlotAllocator_new m, sys_pc = (\<lambda>_. PcIdle), sys_held = (\<lambda>_. {}) \<rparr>"

inductive slot_step :: "nat \<Rightarrow> slot_sys \<Rightarrow> slot_sys \<Rightarrow> bool" for n where
  call_allocate: "t < n \<Longrightarrow> sys_pc s t = PcIdle \<Longrightarrow>
     slot_step n s (s\<lparr> sys_pc := (sys_pc s)(t := PcPop) \<rparr>)"
| pop_recycled: "t < n \<Longrightarrow> sys_pc s t = PcPop \<Longrightarrow> free_stack (sys_alloc s) \<noteq> [] \<Longrightarrow>
     i = last (free_stack (sys_alloc s)) \<Longrightarrow>
     slot_step n s
       (s\<lparr> sys_alloc := (sys_alloc s)\<lparr> free_stack := butlast (free_stack (sys_alloc s)) \<rparr>,
          sys_held := (sys_held s)(t := insert i (sys_held s t)),
          sys_pc := (sys_pc s)(t := PcCount) \<rparr>)"
| pop_none: "t < n \<Longrightarrow> sys_pc s t = PcPop \<Longrightarrow> free_stack (sys_alloc s) = [] \<Longrightarrow>
     slot_step n s (s\<lparr> sys_pc := (sys_pc s)(t := PcLoad) \<rparr>)"
| load_full: "t < n \<Longrightarrow> sys_pc s t = PcLoad \<Longrightarrow>
     next_fresh (sys_alloc s) \<ge> max_slots (sys_alloc s) \<Longrightarrow>
     slot_step n s (s\<lparr> sys_pc := (sys_pc s)(t := PcIdle) \<rparr>)"
| load_fresh: "t < n \<Longrightarrow> sys_pc s t = PcLoad \<Longrightarrow>
     next_fresh (sys_alloc s) < max_slots (sys_alloc s) \<Longrightarrow>
     slot_step n s (s\<lparr> sys_pc := (sys_pc s)(t := PcCas (next_fresh (sys_alloc s))) \<rparr>)"
| cas_ok: "t < n \<Longrightarrow> sys_pc s t = PcCas c \<Longrightarrow> next_fresh (sys_alloc s) = c \<Longrightarrow>
     slot_step n s
       (s\<lparr> sys_alloc := (sys_alloc s)\<lparr> next_fresh := c + 1 \<rparr>,
          sys_held := (sys_held s)(t := insert c (sys_held s t)),
          sys_pc := (sys_pc s)(t := PcCount) \<rparr>)"
| cas_fail: "t < n \<Longrightarrow> sys_pc s t = PcCas c \<Longrightarrow>
     slot_step n s (s\<lparr> sys_pc := (sys_pc s)(t := PcLoad) \<rparr>)"
| count_up: "t < n \<Longrightarrow> sys_pc s t = PcCount \<Longrightarrow>
     slot_step n s
       (s\<lparr> sys_alloc := (sys_alloc s)\<lparr> allocated_count := allocated_count (sys_alloc s) + 1 \<rparr>,
          sys_pc := (sys_pc s)(t := PcIdle) \<rparr>)"
| call_release: "t < n \<Longrightarrow> sys_pc s t = PcIdle \<Longrightarrow> i \<in> sys_held s t \<Longrightarrow> \<not> is_none i \<Longrightarrow>
     slot_step n s
       (s\<lparr> sys_alloc := (sys_alloc s)\<lparr> free_stack := free_stack (sys_alloc s) @ [i] \<rparr>,
          sys_held := (sys_held s)(t := sys_held s t - {i}),
          sys_pc := (sys_pc s)(t := PcUncount) \<rparr>)"
| count_down: "t < n \<Longrightarrow> sys_pc s t = PcUncount \<Longrightarrow>
     slot_step n s
       (s\<lparr> sys_alloc := (sys_alloc s)\<lparr> allocated_count := allocated_count (sys_alloc s) - 1 \<rparr>,
          sys_pc := (sys_pc s)(t := PcIdle) \<rparr>)"

text \<open>
  The counter lags behind the claims by the accesses still to be made: one more for a
  thread at \<open>PcCount\<close>, one less for a thread at \<open>PcUncount\<close>.
\<close>

fun pending_count :: "slot_pc \<Rightarrow> u32" where
  "pending_count PcCount = 1"
| "pending_count PcUncount = - 1"
| "pending_count _ = 0"

definition slot_own_inv :: "nat \<Rightarrow> slot_sys \<Rightarrow> bool" where
  "slot_own_inv n s \<longleftrightarrow>
     slot_inv (sys_alloc s)
     \<and> (\<forall>t<n. \<forall>c. sys_pc s t = PcCas c \<longrightarrow> c < max_slots (sys_alloc s))
     \<and> (\<Union>t<n. sys_held s t) = in_use (sys_alloc s)
     \<and> (\<forall>t<n. \<forall>t'<n. t \<noteq> t' \<longrightarrow> sys_held s t \<inter> sys_held s t' = {})"

definition slot_cnt_inv :: "nat \<Rightarrow> slot_sys \<Rightarrow> bool" where
  "slot_cnt_inv n s \<longleftrightarrow>
     (\<Sum>t<n. of_nat (card (sys_held s t)))
       = allocated_count (sys_alloc s) + (\<Sum>t<n. pending_count (sys_pc s t))"

lemma slot_own_inv_init: "slot_own_inv n (slot_sys_init m)"
  by (auto simp: slot_own_inv_def slot_sys_init_def slot_inv_new in_use_new)

lemma slot_cnt_inv_init: "slot_cnt_inv n (slot_sys_init m)"
  by (simp add: slot_cnt_inv_def slot_sys_init_def SlotAllocator_new_def)

lemma UN_claim:
  assumes "t < n"
  shows "(\<Union>k<n. (h(t := insert i (h t))) k) = insert i (\<Union>k<n. h k)"
  using assms by auto

lemma UN_drop:
  assumes "t < (n::nat)" "\<forall>k<n. k \<noteq> t \<longrightarrow> i \<notin> h k"
  shows "(\<Union>k<n. (h(t := h t - {i})) k) = (\<Union>k<n. h k) - {i}"
  using assms by (auto split: if_splits)

lemma claim_disjoint:
  assumes "\<forall>t<n. \<forall>t'<n. t \<noteq> t' \<longrightarrow> h t \<inter> h t' = {}" "i \<notin> (\<Union>t<n. h t)"
  shows "\<forall>k<n. \<forall>k'<n. k \<noteq> k' \<longrightarrow>
    (h(t := insert i (h t))) k \<inter> (h(t := insert i (h t))) k' = {}"
  using assms by auto

lemma drop_disjoint:
  assumes "\<forall>t<n. \<forall>t'<n. t \<noteq> t' \<longrightarrow> h t \<inter> h t' = {}"
  shows "\<forall>k<n. \<forall>k'<n. k \<noteq> k' \<longrightarrow> (h(t := h t - {i})) k \<inter> (h(t := h t - {i})) k' = {}"
  using assms by auto

lemma slot_own_inv_claim:
  assumes "slot_own_inv n s" "t < n" "i \<notin> in_use (sys_alloc s)"
    and "sys_held s' = (sys_held s)(t := insert i (sys_held s t))"
    and "sys_pc s' = (sys_pc s)(t := PcCount)"
    and "slot_inv (sys_alloc s')" "in_use (sys_alloc s') = insert i (in_use (sys_alloc s))"
    and "max_slots (sys_alloc s') = max_slots (sys_alloc s)"
  shows "slot_own_inv n s'"
proof -
  have u: "i \<notin> (\<Union>t<n. sys_held s t)"
    using assms(1,3) by (simp add: slot_own_inv_def)
  have "(\<Union>t<n. sys_held s' t) = in_use (sys_alloc s')"
    using assms(1,7) UN_claim[OF assms(2), of "sys_held s" i]
    by (simp only: assms(4) slot_own_inv_def)
  moreover have "\<forall>k<n. \<forall>k'<n. k \<noteq> k' \<longrightarrow> sys_held s' k \<inter> sys_held s' k' = {}"
    unfolding assms(4) using assms(1) u by (intro claim_disjoint) (auto simp: slot_own_inv_def)
  moreover have "\<forall>k<n. \<forall>c. sys_pc s' k = PcCas c \<longrightarrow> c < max_slots (sys_alloc s')"
    using assms(1,5,8) by (simp add: slot_own_inv_def)
  ultimately show ?thesis
    using assms(6) by (simp add: slot_own_inv_def)
qed

lemma slot_own_inv_pop:
  assumes "slot_inv a" "free_stack a \<noteq> []"
  shows "last (free_stack a) \<notin> in_use a"
    and "slot_inv (a\<lparr> free_stack := butlast (free_stack a) \<rparr>)"
    and "in_use (a\<lparr> free_stack := butlast (free_stack a) \<rparr>) = insert (last (free_stack a)) (in_use a)"
proof -
  show "last (free_stack a) \<notin> in_use a"
    using assms by (simp add: in_use_def)
  show "slot_inv (a\<lparr> free_stack := butlast (free_stack a) \<rparr>)"
    using assms by (auto simp: slot_inv_def distinct_butlast dest: in_set_butlastD)
  show "in_use (a\<lparr> free_stack := butlast (free_stack a) \<rparr>) = insert (last (free_stack a)) (in_use a)"
    using assms by (force simp: in_use_def slot_inv_def card_set_butlast)
qed

lemma slot_own_inv_fresh:
  assumes "slot_inv a" "next_fresh a < max_slots a"
  shows "next_fresh a \<notin> in_use a"
    and "slot_inv (a\<lparr> next_fresh := next_fresh a + 1 \<rparr>)"
    and "in_use (a\<lparr> next_fresh := next_fresh a + 1 \<rparr>) = insert (next_fresh a) (in_use a)"
proof -
  show "next_fresh a \<notin> in_use a"
    by (simp add: in_use_def)
  show "slot_inv (a\<lparr> next_fresh := next_fresh a + 1 \<rparr>)"
    using assms less_plus_one_word[OF assms(2)] by (auto simp: slot_inv_def inc_le)
  show "in_use (a\<lparr> next_fresh := next_fresh a + 1 \<rparr>) = insert (next_fresh a) (in_use a)"
    using assms less_plus_one_word[OF assms(2)] by (auto simp: slot_inv_def in_use_def)
qed

lemma slot_own_inv_push:
  assumes "slot_own_inv n s" "t < n" "i \<in> sys_held s t"
    and h: "sys_held s' = (sys_held s)(t := sys_held s t - {i})"
    and p: "sys_pc s' = (sys_pc s)(t := PcUncount)"
    and a: "sys_alloc s' = (sys_alloc s)\<lparr> free_stack := free_stack (sys_alloc s) @ [i] \<rparr>"
  shows "slot_own_inv n s'"
proof -
  have i: "i \<in> in_use (sys_alloc s)" "\<forall>k<n. k \<noteq> t \<longrightarrow> i \<notin> sys_held s k"
    using assms(1,2,3) unfolding slot_own_inv_def by blast+
  have "slot_inv (sys_alloc s')" "in_use (sys_alloc s') = in_use (sys_alloc s) - {i}"
    using i(1) assms(1) by (auto simp: a slot_own_inv_def slot_inv_def in_use_def)
  moreover have "(\<Union>t<n. sys_held s' t) = (\<Union>t<n. sys_held s t) - {i}"
    unfolding h by (rule UN_drop[OF assms(2) i(2)])
  moreover have "\<forall>k<n. \<forall>k'<n. k \<noteq> k' \<longrightarrow> sys_held s' k \<inter> sys_held s' k' = {}"
    unfolding h using assms(1) by (intro drop_disjoint) (simp add: slot_own_inv_def)
  moreover have "\<forall>k<n. \<forall>c. sys_pc s' k = PcCas c \<longrightarrow> c < max_slots (sys_alloc s')"
    using assms(1) by (simp add: p a slot_own_inv_def)
  ultimately show ?thesis
    using assms(1) by (simp add: slot_own_inv_def)
qed

lemma slot_own_inv_step:
  assumes "slot_step n s s'" "slot_own_inv n s"
  shows "slot_own_inv n s'"
  using assms
proof (induction rule: slot_step.induct)
  case (pop_recycled t s i)
  then have "slot_inv (sys_alloc s)" by (simp add: slot_own_inv_def)
  note pop = slot_own_inv_pop[OF this pop_recycled(3)]
  show ?case
    by (rule slot_own_inv_claim[OF pop_recycled(5,1), of i]) (simp_all add: pop pop_recycled(4))
next
  case (load_fresh t s)
  then show ?case by (auto simp: slot_own_inv_def)
next
  case (cas_ok t s c)
  then have "slot_inv (sys_alloc s)" "next_fresh (sys_alloc s) < max_slots (sys_alloc s)"
    by (auto simp: slot_own_inv_def)
  note fresh = slot_own_inv_fresh[OF this]
  show ?case
    using cas_ok(3) by (intro slot_own_inv_claim[OF cas_ok(4,1), of c]) (auto simp: fresh)
next
  case (call_release t s i)
  show ?case
    by (rule slot_own_inv_push[OF call_release(5,1,3)]) simp_all
qed (auto simp: slot_own_inv_def slot_inv_def in_use_def)

lemma held_sum_insert:
  fixes h :: "nat \<Rightarrow> u32 set"
  assumes "t < n" "i \<notin> (\<Union>t<n. h t)"
  shows "(\<Sum>k<n. of_nat (card ((h(t := insert i (h t))) k))) = (\<Sum>k<n. of_nat (card (h k))) + (1::u32)"
proof -
  have "i \<notin> h t" using assms(1,2) by blast
  then have "(of_nat (card (insert i (h t))) :: u32) = of_nat (card (h t)) + 1"
    by (simp add: add.commute)
  then show ?thesis
    unfolding sum_fun_upd[OF assms(1), of "\<lambda>x. of_nat (card x) :: u32"] by simp
qed

lemma held_sum_remove:
  fixes h :: "nat \<Rightarrow> u32 set"
  assumes "t < n" "i \<in> h t"
  shows "(\<Sum>k<n. of_nat (card ((h(t := h t - {i})) k))) = (\<Sum>k<n. of_nat (card (h k))) - (1::u32)"
proof -
  have "card (h t) = Suc (card (h t - {i}))"
    using card.remove[of "h t" i] assms(2) by simp
  then have "(of_nat (card (h t)) :: u32) = of_nat (card (h t - {i})) + 1"
    by (simp add: add.commute)
  then show ?thesis
    unfolding sum_fun_upd[OF assms(1), of "\<lambda>x. of_nat (card x) :: u32"] by simp
qed

lemma pending_sum:
  assumes "t < (n::nat)"
  shows "(\<Sum>k<n. pending_count ((f(t := v)) k)) =
    (\<Sum>k<n. pending_count (f k)) - pending_count (f t) + pending_count v"
  by (rule sum_fun_upd[OF assms])

lemma slot_cnt_inv_step:
  assumes "slot_step n s s'" "slot_own_inv n s" "slot_cnt_inv n s"
  shows "slot_cnt_inv n s'"
proof -
  have un: "(\<Union>t<n. sys_held s t) = in_use (sys_alloc s)" and inv: "slot_inv (sys_alloc s)"
    using assms(2) by (simp_all add: slot_own_inv_def)
  note cnt = assms(3)[unfolded slot_cnt_inv_def]
  show ?thesis
    using assms(1)
  proof cases
    case (pop_recycled t i)
    have "i \<notin> (\<Union>t<n. sys_held s t)"
      unfolding un pop_recycled(5) using slot_own_inv_pop(1)[OF inv pop_recycled(4)] .
    from held_sum_insert[OF pop_recycled(2) this] show ?thesis
      using cnt pop_recycled(1,2,3) by (simp add: slot_cnt_inv_def pending_sum del: fun_upd_apply)
  next
    case (cas_ok t c)
    have "c \<notin> (\<Union>t<n. sys_held s t)"
      unfolding un using cas_ok(4) by (simp add: in_use_def)
    from held_sum_insert[OF cas_ok(2) this] show ?thesis
      using cnt cas_ok(1,2,3) by (simp add: slot_cnt_inv_def pending_sum del: fun_upd_apply)
  next
    case (call_release t i)
    from held_sum_remove[of t n i "sys_held s", OF call_release(2,4)] show ?thesis
      using cnt call_release(1,2,3) by (simp add: slot_cnt_inv_def pending_sum del: fun_upd_apply)
  qed (use cnt in \<open>simp_all add: slot_cnt_inv_def pending_sum del: fun_upd_apply\<close>)
qed

lemma slot_sys_reachable:
  assumes "(slot_step n)\<^sup>*\<^sup>* (slot_sys_init m) s"
  shows "slot_own_inv n s \<and> slot_cnt_inv n s"
  using assms
  by (induction rule: rtranclp_induct)
    (auto simp: slot_own_inv_init slot_cnt_inv_init intro: slot_own_inv_step slot_cnt_inv_step)

lemma in_use_subset: "slot_inv a \<Longrightarrow> in_use a \<subseteq> {i. i < max_slots a}"
  by (auto simp: slot_inv_def in_use_def)

lemma allocate_fails_iff:
  assumes "slot_inv a"
  shows "(\<exists>e. fst (allocate a) = Inl e) \<longleftrightarrow> in_use a = {i. i < max_slots a}"
proof
  assume "\<exists>e. fst (allocate a) = Inl e"
  then show "in_use a = {i. i < max_slots a}"
    using in_use_full(3)[OF assms] by (metis prod.collapse)
next
  assume full: "in_use a = {i. i < max_slots a}"
  show "\<exists>e. fst (allocate a) = Inl e"
  proof (cases "fst (allocate a)")
    case (Inr i)
    then have "allocate a = (Ok i, snd (allocate a))" by (metis prod.collapse)
    then show ?thesis
      using in_use_allocate(1)[OF assms] allocate_in_range(1)[OF assms] full by blast
  qed auto
qed

lemma max_slots_release [simp]: "max_slots (release i a) = max_slots a"
  by (simp add: release_def)

lemma max_slots_allocate [simp]: "max_slots (snd (allocate a)) = max_slots a"
  by (simp add: allocate_def)

lemma run_pool_max_slots:
  "max_slots (snd (run_pool allocate release ops (held, a))) = max_slots a"
proof (induction ops arbitrary: held a)
  case (Cons op ops)
  then show ?case
    using max_slots_allocate[of a]
    by (cases op) (auto split: prod.splits sum.splits simp del: max_slots_allocate)
qed simp

section \<open>Properties\<close>

text \<open>
  C4: However the threads interleave the atomic accesses of \<open>allocate\<close> and \<open>release\<close>, no
  slot is ever held by two threads, every held slot lies in the region and none is on the
  free stack; when no call is in progress the counter equals the number of held slots.
\<close>

theorem slots_exclusive:
  assumes "(slot_step n)\<^sup>*\<^sup>* (slot_sys_init m) s"
  shows "(\<forall>t<n. \<forall>t'<n. t \<noteq> t' \<longrightarrow> sys_held s t \<inter> sys_held s t' = {})
    \<and> (\<forall>t<n. \<forall>i\<in>sys_held s t.
          i < max_slots (sys_alloc s) \<and> i \<notin> set (free_stack (sys_alloc s)))
    \<and> ((\<forall>t<n. sys_pc s t = PcIdle) \<longrightarrow>
          allocated_count (sys_alloc s) = (\<Sum>t<n. of_nat (card (sys_held s t))))"
proof -
  have own: "slot_own_inv n s" and cnt: "slot_cnt_inv n s"
    using slot_sys_reachable[OF assms] by auto
  have "i \<in> in_use (sys_alloc s)" if "t < n" "i \<in> sys_held s t" for t i
    using own that unfolding slot_own_inv_def by blast
  moreover have "in_use (sys_alloc s) \<subseteq> {i. i < max_slots (sys_alloc s)}"
    using own by (simp add: slot_own_inv_def in_use_subset)
  moreover have "(\<forall>t<n. sys_pc s t = PcIdle) \<longrightarrow> (\<Sum>t<n. pending_count (sys_pc s t)) = 0"
    by simp
  ultimately show ?thesis
    using own cnt by (auto simp: slot_own_inv_def slot_cnt_inv_def in_use_def)
qed

lemma slot_trace_example:
  "(slot_step 2)\<^sup>*\<^sup>* (slot_sys_init 4)
     \<lparr> sys_alloc = \<lparr> free_stack = [], next_fresh = 1, max_slots = 4, allocated_count = 1 \<rparr>,
       sys_pc = (\<lambda>_. PcIdle)(1 := PcLoad, 0 := PcIdle), sys_held = (\<lambda>_. {})(0 := {0}) \<rparr>"
proof -
  let ?st = "\<lambda>nf c p1 p0 h. \<lparr> sys_alloc = \<lparr> free_stack = [], next_fresh = nf, max_slots = 4, allocated_count = c \<rparr>,
       sys_pc = (\<lambda>_. PcIdle)(1 := p1, 0 := p0), sys_held = (\<lambda>_. {})(0 := h) \<rparr> :: slot_sys"
  have init: "slot_sys_init 4 = ?st 0 0 PcIdle PcIdle {}"
    by (simp add: slot_sys_init_def SlotAllocator_new_def fun_eq_iff)
  have "slot_step 2 (?st 0 0 PcIdle PcIdle {}) (?st 0 0 PcIdle PcPop {})"
    using call_allocate[of 0 2 "?st 0 0 PcIdle PcIdle {}"] by (simp add: fun_upd_twist)
  moreover have "slot_step 2 (?st 0 0 PcIdle PcPop {}) (?st 0 0 PcPop PcPop {})"
    using call_allocate[of 1 2 "?st 0 0 PcIdle PcPop {}"] by (simp add: fun_upd_twist)
  moreover have "slot_step 2 (?st 0 0 PcPop PcPop {}) (?st 0 0 PcLoad PcPop {})"
    using pop_none[of 1 2 "?st 0 0 PcPop PcPop {}"] by (simp add: fun_upd_twist)
  moreover have "slot_step 2 (?st 0 0 PcLoad PcPop {}) (?st 0 0 PcLoad PcLoad {})"
    using pop_none[of 0 2 "?st 0 0 PcLoad PcPop {}"] by (simp add: fun_upd_twist)
  moreover have "slot_step 2 (?st 0 0 PcLoad PcLoad {}) (?st 0 0 PcLoad (PcCas 0) {})"
    using load_fresh[of 0 2 "?st 0 0 PcLoad PcLoad {}"] by (simp add: fun_upd_twist)
  moreover have "slot_step 2 (?st 0 0 PcLoad (PcCas 0) {}) (?st 1 0 PcLoad PcCount {0})"
    using cas_ok[of 0 2 "?st 0 0 PcLoad (PcCas 0) {}" 0] by (simp add: fun_upd_twist)
  moreover have "slot_step 2 (?st 1 0 PcLoad PcCount {0}) (?st 1 1 PcLoad PcIdle {0})"
    using count_up[of 0 2 "?st 1 0 PcLoad PcCount {0}"] by (simp add: fun_upd_twist)
  ultimately show ?thesis
    unfolding init by (meson converse_rtranclp_into_rtranclp rtranclp.rtrancl_refl)
qed

theorem slots_exclusive_witness:
  "\<exists>s. (slot_step 2)\<^sup>*\<^sup>* (slot_sys_init 4) s \<and> sys_held s 0 = {0} \<and> sys_pc s 1 = PcLoad
     \<and> sys_held s 0 \<inter> sys_held s 1 = {} \<and> (\<forall>i\<in>sys_held s 0. i < max_slots (sys_alloc s))"
  using slots_exclusive[OF slot_trace_example]
  by (intro exI[of _ "\<lparr> sys_alloc = \<lparr> free_stack = [], next_fresh = 1, max_slots = 4,
        allocated_count = 1 \<rparr>, sys_pc = (\<lambda>_. PcIdle)(1 := PcLoad, 0 := PcIdle),
        sys_held = (\<lambda>_. {})(0 := {0}) \<rparr>"] conjI slot_trace_example) simp_all

text \<open>
  A client that allocates and gives back slots in any order from a fresh allocator
  of \<open>m\<close> slots holds pairwise different slots, exactly the allocator's slots in use, with
  the allocation counter equal to their number; and the next \<open>allocate\<close> fails, with
  \<open>NoSlotsAvailable\<close>, exactly when it holds all \<open>m\<close>.
\<close>

theorem slots_sequential:
  assumes "m < 2 ^ 32"
    and "run_pool allocate release ops ([], SlotAllocator_new m) = (held, a)"
  shows "distinct held \<and> set held = in_use a \<and> allocated_count a = of_nat (length held)
    \<and> (fst (allocate a) = Err NoSlotsAvailable \<longleftrightarrow> length held = m)"
proof -
  have h: "slot_inv a \<and> distinct held \<and> set held = in_use a
      \<and> allocated_count a = of_nat (length held)"
    using slots.run_pool_holds[of "SlotAllocator_new m" "[]" ops held a] assms(2)
    by (simp add: slot_inv_new in_use_new) (simp add: SlotAllocator_new_def)
  have m: "unat (max_slots a) = m"
    using run_pool_max_slots[of ops "[]" "SlotAllocator_new m"] assms
    by (simp add: SlotAllocator_new_def unat_of_nat_lt)
  have "length held = m \<longleftrightarrow> in_use a = {i. i < max_slots a}"
  proof
    assume "length held = m"
    then have "card (in_use a) = card {i. i < max_slots a}"
      using h distinct_card[of held] by (simp add: card_below m)
    then show "in_use a = {i. i < max_slots a}"
      using in_use_subset[of a] h by (intro card_subset_eq) auto
  next
    assume "in_use a = {i. i < max_slots a}"
    then show "length held = m"
      using h distinct_card[of held] by (simp add: card_below m)
  qed
  moreover have "fst (allocate a) = Err NoSlotsAvailable \<longleftrightarrow> (\<exists>e. fst (allocate a) = Inl e)"
    using in_use_full(1)[of a] h by (cases "allocate a") auto
  ultimately show ?thesis
    using h allocate_fails_iff[of a] by simp
qed

theorem slots_sequential_witness:
  "run_pool allocate release [OpAllocate, OpAllocate, OpRelease 1, OpAllocate] ([], SlotAllocator_new 2)
     = ([0, 1], \<lparr> free_stack = [], next_fresh = 2, max_slots = 2, allocated_count = 2 \<rparr>)
   \<and> fst (allocate \<lparr> free_stack = [], next_fresh = 2, max_slots = 2, allocated_count = 2 \<rparr>)
     = Err NoSlotsAvailable"
proof -
  have run: "run_pool allocate release [OpAllocate, OpAllocate, OpRelease 1, OpAllocate]
      ([], SlotAllocator_new 2)
     = ([0, 1], \<lparr> free_stack = [], next_fresh = 2, max_slots = 2, allocated_count = 2 \<rparr>)"
    by (simp add: allocate_def release_def SlotAllocator_new_def is_none_def word_le_nat_alt)
  show ?thesis
    using run slots_sequential[OF _ run] by simp
qed

text \<open>
  \<open>release_batch\<close> counts the \<open>NONE\<close> identifiers it skips: the free stack receives only
  the real slots, the counter goes down by the length of the whole batch. A batch of one
  \<open>NONE\<close> therefore leaves the slots in use unchanged and takes one off the counter.
\<close>

theorem release_batch_miscounts:
  "free_stack (release_batch ids a) = free_stack a @ filter is_some ids
   \<and> allocated_count (release_batch ids a) = allocated_count a - of_nat (length ids)
   \<and> in_use (release_batch [GVThreadId_NONE] a) = in_use a
   \<and> allocated_count (release_batch [GVThreadId_NONE] a) = allocated_count a - 1"
proof -
  have "(\<lambda>i. \<not> is_none i) = is_some"
    by (simp add: is_none_def is_some_def fun_eq_iff)
  then show ?thesis
    by (simp add: release_batch_def in_use_def GVThreadId_NONE_def is_some_def)
qed

end
