(* ===== verification/Bitmap.thy ===== *)
theory Bitmap
  imports Core_Types
begin

text \<open>
  The ready bitmaps of \<open>gvthread-core/src/bitmap.rs\<close>: one bit per thread in blocks of
  64, one bitmap per priority. The operations are refined to operations on the set of
  ready threads; the last part interleaves the atomic accesses of concurrent claims.
\<close>

section \<open>Bit counting on blocks\<close>

definition BITS_PER_BLOCK :: usize where
  "BITS_PER_BLOCK = 64"

definition trailing_zeros :: "u64 \<Rightarrow> nat" where
  "trailing_zeros w = length (takeWhile (\<lambda>i. \<not> bit w i) [0..<64])"

definition count_ones :: "u64 \<Rightarrow> nat" where
  "count_ones w = length (filter (bit w) [0..<64])"

lemma bit_u64_less: "bit (w::u64) n \<Longrightarrow> n < 64"
  using bit_imp_le_length[of w n] by simp

lemma u64_nonzero_bit: "(w::u64) \<noteq> 0 \<longleftrightarrow> (\<exists>n<64. bit w n)"
  using bit_u64_less by (metis bit_0_eq bit_eq_iff bot_apply bot_bool_def)

lemma trailing_zeros_bit:
  assumes "w \<noteq> 0"
  shows "trailing_zeros w < 64" "bit w (trailing_zeros w)"
proof -
  let ?P = "\<lambda>i. \<not> bit w i"
  have "\<not> (\<forall>i\<in>set [0..<64]. ?P i)"
    using assms u64_nonzero_bit[of w] by auto
  then have l: "length (takeWhile ?P [0..<64]) < length [0..<64::nat]"
    by (metis length_takeWhile_le nat_less_le takeWhile_eq_all_conv takeWhile_eq_take take_all_iff
        verit_comp_simplify1(2))
  then show "trailing_zeros w < 64"
    by (simp add: trailing_zeros_def)
  show "bit w (trailing_zeros w)"
    using nth_length_takeWhile[OF l] l by (simp add: trailing_zeros_def)
qed

section \<open>One bitmap\<close>

record ReadyBitmap =
  blocks :: "u64 list"
  num_blocks :: usize
  max_id :: u32

definition ReadyBitmap_new :: "usize \<Rightarrow> ReadyBitmap" where
  "ReadyBitmap_new n =
     (let nb = (n + BITS_PER_BLOCK - 1) div BITS_PER_BLOCK in
      \<lparr> blocks = replicate nb 0, num_blocks = nb, max_id = of_nat n \<rparr>)"

definition bitmap_set :: "GVThreadId \<Rightarrow> ReadyBitmap \<Rightarrow> ReadyBitmap" where
  "bitmap_set i bm =
     (let idx = as_usize i in
      if idx \<ge> unat (max_id bm) then bm
      else let b = idx div BITS_PER_BLOCK; k = idx mod BITS_PER_BLOCK in
        bm\<lparr> blocks := (blocks bm)[b := blocks bm ! b OR push_bit k 1] \<rparr>)"

definition bitmap_clear :: "GVThreadId \<Rightarrow> ReadyBitmap \<Rightarrow> ReadyBitmap" where
  "bitmap_clear i bm =
     (let idx = as_usize i in
      if idx \<ge> unat (max_id bm) then bm
      else let b = idx div BITS_PER_BLOCK; k = idx mod BITS_PER_BLOCK in
        bm\<lparr> blocks := (blocks bm)[b := blocks bm ! b AND NOT (push_bit k 1)] \<rparr>)"

definition bitmap_is_set :: "GVThreadId \<Rightarrow> ReadyBitmap \<Rightarrow> bool" where
  "bitmap_is_set i bm =
     (let idx = as_usize i in
      if idx \<ge> unat (max_id bm) then False
      else let b = idx div BITS_PER_BLOCK; k = idx mod BITS_PER_BLOCK in
        blocks bm ! b AND push_bit k 1 \<noteq> 0)"

text \<open>
  \<open>try_claim_from_block\<close> as it runs with no other thread in between: the compare-exchange
  finds the value just loaded.
\<close>

definition try_claim_from_block :: "nat \<Rightarrow> ReadyBitmap \<Rightarrow> nat option \<times> ReadyBitmap" where
  "try_claim_from_block b bm =
     (let current = blocks bm ! b in
      if current = 0 then (None, bm)
      else let k = trailing_zeros current in
        (Some k, bm\<lparr> blocks := (blocks bm)[b := current AND NOT (push_bit k 1)] \<rparr>))"

fun claim_scan :: "nat \<Rightarrow> nat list \<Rightarrow> ReadyBitmap \<Rightarrow> GVThreadId option \<times> ReadyBitmap" where
  "claim_scan start [] bm = (None, bm)"
| "claim_scan start (i # is) bm =
     (let b = (start + i) mod num_blocks bm in
      if blocks bm ! b = 0 then claim_scan start is bm
      else case try_claim_from_block b bm of
             (Some k, bm') \<Rightarrow> (Some (of_nat (b * BITS_PER_BLOCK + k)), bm')
           | (None, bm') \<Rightarrow> claim_scan start is bm')"

text \<open>\<open>None\<close>: the remainder by \<open>num_blocks = 0\<close> panics.\<close>

definition bitmap_find_and_claim ::
  "nat \<Rightarrow> ReadyBitmap \<Rightarrow> (GVThreadId option \<times> ReadyBitmap) option" where
  "bitmap_find_and_claim hint bm =
     (if num_blocks bm = 0 then None
      else Some (claim_scan (hint mod num_blocks bm) [0..<num_blocks bm] bm))"

definition bitmap_any_ready :: "ReadyBitmap \<Rightarrow> bool" where
  "bitmap_any_ready bm = list_ex (\<lambda>w. w \<noteq> 0) (blocks bm)"

definition bitmap_count_ready :: "ReadyBitmap \<Rightarrow> usize" where
  "bitmap_count_ready bm = sum_list (map count_ones (blocks bm))"

section \<open>The set of ready threads\<close>

definition bit_at :: "ReadyBitmap \<Rightarrow> nat \<Rightarrow> bool" where
  "bit_at bm n \<longleftrightarrow> n div 64 < length (blocks bm) \<and> bit (blocks bm ! (n div 64)) (n mod 64)"

definition bitmap_inv :: "ReadyBitmap \<Rightarrow> bool" where
  "bitmap_inv bm \<longleftrightarrow>
     length (blocks bm) = num_blocks bm \<and> unat (max_id bm) \<le> 64 * num_blocks bm
     \<and> (\<forall>n. bit_at bm n \<longrightarrow> n < unat (max_id bm))"

definition ready_set :: "ReadyBitmap \<Rightarrow> GVThreadId set" where
  "ready_set bm = {i. bit_at bm (unat i)}"

lemma bit_at_less: "bit_at bm n \<Longrightarrow> n < 64 * length (blocks bm)"
  unfolding bit_at_def by (metis div_less_iff_less_mult mult.commute zero_less_numeral)

lemma bit_at_update:
  assumes "b < length (blocks bm)"
  shows "bit_at (bm\<lparr> blocks := (blocks bm)[b := w] \<rparr>) n \<longleftrightarrow>
    (if n div 64 = b then bit w (n mod 64) else bit_at bm n)"
  using assms by (auto simp: bit_at_def nth_list_update)

lemma split_idx: "k < 64 \<Longrightarrow> n div 64 = b \<and> n mod 64 = k \<longleftrightarrow> n = b * 64 + k" for n b k :: nat
  by auto

lemma bit_pow: "bit ((2::u64) ^ k) m \<longleftrightarrow> m = k \<and> k < 64"
  by (auto simp: bit_exp_iff)

lemma bit_at_set:
  assumes "n < 64 * length (blocks bm)"
  shows "bit_at (bm\<lparr> blocks := (blocks bm)[n div 64 := blocks bm ! (n div 64) OR push_bit (n mod 64) 1] \<rparr>) m
    \<longleftrightarrow> bit_at bm m \<or> m = n"
proof -
  have b: "n div 64 < length (blocks bm)"
    using assms by (simp add: less_mult_imp_div_less mult.commute)
  have "m = n \<longleftrightarrow> m div 64 = n div 64 \<and> m mod 64 = n mod 64"
    by (metis div_mult_mod_eq)
  then show ?thesis
    using b unfolding bit_at_update[OF b] by (auto simp: bit_or_iff bit_pow bit_at_def)
qed

lemma bit_at_clear:
  assumes "n < 64 * length (blocks bm)"
  shows "bit_at (bm\<lparr> blocks := (blocks bm)[n div 64 := blocks bm ! (n div 64) AND NOT (push_bit (n mod 64) 1)] \<rparr>) m
    \<longleftrightarrow> bit_at bm m \<and> m \<noteq> n"
proof -
  have b: "n div 64 < length (blocks bm)"
    using assms by (simp add: less_mult_imp_div_less mult.commute)
  have "m = n \<longleftrightarrow> m div 64 = n div 64 \<and> m mod 64 = n mod 64"
    by (metis div_mult_mod_eq)
  then show ?thesis
    using b bit_u64_less[of "blocks bm ! (n div 64)" "m mod 64"] unfolding bit_at_update[OF b]
    by (auto simp: bit_and_iff bit_not_iff bit_pow bit_at_def)
qed

lemma bitmap_inv_new [gv_wf]: "bitmap_inv (ReadyBitmap_new n)"
proof -
  have "unat (of_nat n :: u32) \<le> n"
    by (simp add: unat_of_nat)
  moreover have "n \<le> 64 * ((n + 63) div 64)"
    by linarith
  ultimately show ?thesis
    by (auto simp: bitmap_inv_def ReadyBitmap_new_def BITS_PER_BLOCK_def bit_at_def Let_def)
qed

lemma ready_set_new [gv_abs]: "ready_set (ReadyBitmap_new n) = {}"
  by (auto simp: ready_set_def ReadyBitmap_new_def bit_at_def Let_def)

lemma bitmap_set_eq:
  assumes "bitmap_inv bm"
  shows "bit_at (bitmap_set i bm) m \<longleftrightarrow> bit_at bm m \<or> (m = unat i \<and> i < max_id bm)"
    and "num_blocks (bitmap_set i bm) = num_blocks bm" "max_id (bitmap_set i bm) = max_id bm"
    and "length (blocks (bitmap_set i bm)) = length (blocks bm)"
  using assms bit_at_set[of "unat i" bm m]
  by (auto simp: bitmap_set_def bitmap_inv_def as_usize_def BITS_PER_BLOCK_def Let_def
      word_less_nat_alt not_le simp del: push_bit_of_1)

lemma bitmap_clear_eq:
  assumes "bitmap_inv bm"
  shows "bit_at (bitmap_clear i bm) m \<longleftrightarrow> bit_at bm m \<and> m \<noteq> unat i"
    and "num_blocks (bitmap_clear i bm) = num_blocks bm" "max_id (bitmap_clear i bm) = max_id bm"
    and "length (blocks (bitmap_clear i bm)) = length (blocks bm)"
  using assms bit_at_clear[of "unat i" bm m]
  by (auto simp: bitmap_clear_def bitmap_inv_def as_usize_def BITS_PER_BLOCK_def Let_def
      word_less_nat_alt not_le simp del: push_bit_of_1)

lemma bitmap_is_set_eq: "bitmap_inv bm \<Longrightarrow> bitmap_is_set i bm \<longleftrightarrow> i \<in> ready_set bm"
proof -
  assume inv: "bitmap_inv bm"
  have *: "w AND 2 ^ (k mod 64) \<noteq> 0 \<longleftrightarrow> bit w (k mod 64)" for w :: u64 and k :: nat
    unfolding u64_nonzero_bit by (auto simp: bit_and_iff bit_pow)
  have "unat i < unat (max_id bm) \<Longrightarrow> unat i div 64 < length (blocks bm)"
    using inv by (simp add: bitmap_inv_def less_mult_imp_div_less mult.commute)
  then show ?thesis
    using inv *[of "blocks bm ! (unat i div 64)" "unat i"]
    by (auto simp: bitmap_is_set_def ready_set_def bit_at_def as_usize_def BITS_PER_BLOCK_def
        Let_def bitmap_inv_def not_le)
qed

lemma bitmap_inv_set [gv_wf]: "bitmap_inv bm \<Longrightarrow> bitmap_inv (bitmap_set i bm)"
  using bitmap_set_eq[of bm i] by (auto simp: bitmap_inv_def word_less_nat_alt)

lemma bitmap_inv_clear [gv_wf]: "bitmap_inv bm \<Longrightarrow> bitmap_inv (bitmap_clear i bm)"
  using bitmap_clear_eq[of bm i] by (auto simp: bitmap_inv_def)

lemma ready_set_set [gv_abs]:
  "bitmap_inv bm \<Longrightarrow>
   ready_set (bitmap_set i bm) = (if i < max_id bm then insert i (ready_set bm) else ready_set bm)"
  using bitmap_set_eq(1)[of bm i] by (auto simp: ready_set_def word_unat_eq_iff)

lemma ready_set_clear [gv_abs]:
  "bitmap_inv bm \<Longrightarrow> ready_set (bitmap_clear i bm) = ready_set bm - {i}"
  by (auto simp: ready_set_def word_unat_eq_iff bitmap_clear_eq(1))

lemma unat_ready:
  assumes "bitmap_inv bm" "bit_at bm n"
  shows "unat (of_nat n :: u32) = n"
proof -
  have "n < unat (max_id bm)"
    using assms by (simp add: bitmap_inv_def)
  also have "\<dots> < 2 ^ 32"
    using unsigned_less[of "max_id bm"] by simp
  finally show ?thesis
    by (simp add: unat_of_nat_lt)
qed

lemma ready_set_empty:
  assumes "bitmap_inv bm"
  shows "ready_set bm = {} \<longleftrightarrow> (\<forall>b<num_blocks bm. blocks bm ! b = 0)"
proof
  assume e: "ready_set bm = {}"
  show "\<forall>b<num_blocks bm. blocks bm ! b = 0"
  proof (intro allI impI, rule ccontr)
    fix b assume b: "b < num_blocks bm" "blocks bm ! b \<noteq> 0"
    then obtain k where k: "k < 64" "bit (blocks bm ! b) k"
      using u64_nonzero_bit by blast
    then have "bit_at bm (b * 64 + k)"
      using b assms by (simp add: bit_at_def bitmap_inv_def)
    then have "of_nat (b * 64 + k) \<in> ready_set bm"
      using unat_ready[OF assms] by (simp add: ready_set_def del: of_nat_add of_nat_mult)
    then show False using e by blast
  qed
next
  assume "\<forall>b<num_blocks bm. blocks bm ! b = 0"
  then show "ready_set bm = {}"
    using assms by (auto simp: ready_set_def bit_at_def bitmap_inv_def)
qed

lemma claim_block:
  assumes "bitmap_inv bm" "b < num_blocks bm" "blocks bm ! b \<noteq> 0"
    and "try_claim_from_block b bm = (r, bm')"
  obtains k i where "r = Some k" "i = (of_nat (b * BITS_PER_BLOCK + k) :: u32)"
    "i \<in> ready_set bm" "bm' = bitmap_clear i bm"
proof -
  let ?k = "trailing_zeros (blocks bm ! b)"
  let ?n = "b * 64 + ?k"
  have k: "?k < 64" "bit (blocks bm ! b) ?k"
    using trailing_zeros_bit[OF assms(3)] by auto
  then have at: "bit_at bm ?n"
    using assms(1,2) by (simp add: bit_at_def bitmap_inv_def)
  note u = unat_ready[OF assms(1) at]
  have lt: "?n < unat (max_id bm)"
    using at assms(1) by (simp add: bitmap_inv_def)
  have "bm' = bitmap_clear (of_nat ?n) bm"
    using assms(3,4) k(1) u lt
    by (simp add: try_claim_from_block_def bitmap_clear_def as_usize_def BITS_PER_BLOCK_def Let_def
        del: of_nat_add of_nat_mult)
  moreover have "of_nat ?n \<in> ready_set bm"
    using at u by (simp add: ready_set_def del: of_nat_add of_nat_mult)
  moreover have "r = Some ?k"
    using assms(3,4) by (simp add: try_claim_from_block_def Let_def)
  ultimately show ?thesis
    using that[of ?k "of_nat ?n"] by (simp add: BITS_PER_BLOCK_def)
qed

lemma claim_scan_spec:
  assumes "bitmap_inv bm" "num_blocks bm > 0" "claim_scan start is bm = (r, bm')"
  shows "case r of
      None \<Rightarrow> bm' = bm \<and> (\<forall>i\<in>set is. blocks bm ! ((start + i) mod num_blocks bm) = 0)
    | Some i \<Rightarrow> i \<in> ready_set bm \<and> bm' = bitmap_clear i bm"
  using assms(3)
proof (induction "is")
  case Nil
  then show ?case by simp
next
  case (Cons j js)
  let ?b = "(start + j) mod num_blocks bm"
  show ?case
  proof (cases "blocks bm ! ?b = 0")
    case True
    with Cons show ?thesis by (auto simp: Let_def split: option.splits)
  next
    case False
    obtain r1 bm1 where c: "try_claim_from_block ?b bm = (r1, bm1)"
      by fastforce
    from claim_block[OF assms(1) _ False c] assms(2) obtain k i where
      "r1 = Some k" "i = (of_nat (?b * BITS_PER_BLOCK + k) :: u32)" "i \<in> ready_set bm"
      "bm1 = bitmap_clear i bm"
      by auto
    with Cons.prems False c show ?thesis by (auto simp: Let_def)
  qed
qed

lemma scan_all_blocks:
  assumes "nb > 0"
  shows "(\<lambda>i. (start + i) mod nb) ` {0..<nb} = {0..<(nb::nat)}"
proof -
  have "inj_on (\<lambda>i. (start + i) mod nb) {0..<nb}"
    by (meson atLeastLessThan_iff inj_onI mod_positions_differ)
  moreover have "(\<lambda>i. (start + i) mod nb) ` {0..<nb} \<subseteq> {0..<nb}"
    using assms by auto
  ultimately show ?thesis
    by (simp add: endo_inj_surj)
qed

lemma find_and_claim_cases:
  assumes "bitmap_inv bm" "bitmap_find_and_claim hint bm = Some (r, bm')"
  obtains "r = None" "bm' = bm" "ready_set bm = {}"
  | i where "r = Some i" "i \<in> ready_set bm" "bm' = bitmap_clear i bm"
proof -
  have nb: "num_blocks bm > 0"
    and c: "claim_scan (hint mod num_blocks bm) [0..<num_blocks bm] bm = (r, bm')"
    using assms(2) by (auto simp: bitmap_find_and_claim_def split: if_splits)
  show ?thesis
  proof (cases r)
    case None
    then have z: "bm' = bm"
      "\<forall>i\<in>{0..<num_blocks bm}. blocks bm ! ((hint mod num_blocks bm + i) mod num_blocks bm) = 0"
      using claim_scan_spec[OF assms(1) nb c] by auto
    have "\<forall>b<num_blocks bm. blocks bm ! b = 0"
    proof (intro allI impI)
      fix b assume "b < num_blocks bm"
      then have "b \<in> (\<lambda>i. (hint mod num_blocks bm + i) mod num_blocks bm) ` {0..<num_blocks bm}"
        using scan_all_blocks[OF nb] by simp
      then show "blocks bm ! b = 0" using z(2) by auto
    qed
    then show ?thesis
      using that(1) None z(1) ready_set_empty[OF assms(1)] by blast
  next
    case (Some i)
    then show ?thesis
      using claim_scan_spec[OF assms(1) nb c] that(2) by auto
  qed
qed

section \<open>The interface: a source of ready items\<close>

text \<open>
  What a worker relies on: taking yields an item that was present and removes just that
  item, and yields nothing only when nothing is present. \<open>drain\<close> is the worker that
  takes until nothing is left or its hints are used up.
\<close>

fun drain :: "(nat \<Rightarrow> 's \<Rightarrow> 'i option \<times> 's) \<Rightarrow> nat list \<Rightarrow> 's \<Rightarrow> 'i list \<times> 's" where
  "drain tk [] s = ([], s)"
| "drain tk (h # hs) s =
     (case tk h s of
        (None, s') \<Rightarrow> ([], s')
      | (Some i, s') \<Rightarrow> (case drain tk hs s' of (is, s'') \<Rightarrow> (i # is, s'')))"

locale claim_source =
  fixes tk :: "nat \<Rightarrow> 's \<Rightarrow> 'i option \<times> 's"
    and contents :: "'s \<Rightarrow> 'i set"
    and inv :: "'s \<Rightarrow> bool"
  assumes take_None: "inv s \<Longrightarrow> tk h s = (None, s') \<Longrightarrow> contents s' = {} \<and> contents s = {} \<and> inv s'"
    and take_Some: "inv s \<Longrightarrow> tk h s = (Some i, s') \<Longrightarrow>
      i \<in> contents s \<and> contents s' = contents s - {i} \<and> inv s'"
    and finite_contents: "inv s \<Longrightarrow> finite (contents s)"
begin

lemma drain_all:
  assumes "inv s" "card (contents s) \<le> length hs" "drain tk hs s = (is, s')"
  shows "distinct is \<and> set is = contents s \<and> contents s' = {} \<and> inv s'"
  using assms
proof (induction hs arbitrary: s "is" s')
  case Nil
  then show ?case using finite_contents by simp
next
  case (Cons h hs)
  show ?case
  proof (cases "tk h s")
    case (Pair r s1)
    show ?thesis
    proof (cases r)
      case None
      then show ?thesis using Cons.prems Pair take_None by auto
    next
      case (Some i)
      obtain js s2 where d: "drain tk hs s1 = (js, s2)" by fastforce
      have i: "i \<in> contents s" "contents s1 = contents s - {i}" "inv s1"
        using take_Some Cons.prems(1) Pair Some by auto
      then have "card (contents s1) \<le> length hs"
        using Cons.prems(2) finite_contents[OF Cons.prems(1)] by simp
      then have "distinct js \<and> set js = contents s1 \<and> contents s2 = {} \<and> inv s2"
        using Cons.IH d i(3) by blast
      then show ?thesis
        using Cons.prems(3) Pair Some d i by auto
    qed
  qed
qed

end

definition bitmap_take :: "nat \<Rightarrow> ReadyBitmap \<Rightarrow> GVThreadId option \<times> ReadyBitmap" where
  "bitmap_take h bm = the (bitmap_find_and_claim h bm)"

lemma bitmap_take_claim:
  "num_blocks bm > 0 \<Longrightarrow> bitmap_find_and_claim h bm = Some (bitmap_take h bm)"
  by (simp add: bitmap_take_def bitmap_find_and_claim_def)

interpretation bm: claim_source bitmap_take ready_set "\<lambda>bm. bitmap_inv bm \<and> num_blocks bm > 0"
proof (unfold_locales, goal_cases)
  case (1 s h s')
  then have "bitmap_find_and_claim h s = Some (None, s')"
    using bitmap_take_claim[of s h] by simp
  from find_and_claim_cases[OF conjunct1[OF 1(1)] this] show ?case
    using 1 by cases auto
next
  case (2 s h i s')
  then have "bitmap_find_and_claim h s = Some (Some i, s')"
    using bitmap_take_claim[of s h] by simp
  from find_and_claim_cases[OF conjunct1[OF 2(1)] this] show ?case
    using 2 by cases (auto simp: ready_set_clear bitmap_inv_clear bitmap_clear_eq)
next
  case (3 s)
  then show ?case by simp
qed

section \<open>Bitmaps of all priorities\<close>

record ReadyBitmaps =
  bitmaps :: "ReadyBitmap list"
  worker_rng :: "u64 list"

definition ReadyBitmaps_new :: "usize \<Rightarrow> usize \<Rightarrow> ReadyBitmaps" where
  "ReadyBitmaps_new max_gvthreads num_workers =
     \<lparr> bitmaps = [ReadyBitmap_new max_gvthreads, ReadyBitmap_new max_gvthreads,
                  ReadyBitmap_new max_gvthreads, ReadyBitmap_new max_gvthreads],
       worker_rng = replicate num_workers 12345 \<rparr>"

definition set_ready :: "GVThreadId \<Rightarrow> Priority \<Rightarrow> ReadyBitmaps \<Rightarrow> ReadyBitmaps" where
  "set_ready i p bs =
     bs\<lparr> bitmaps := (bitmaps bs)[as_index p := bitmap_set i (bitmaps bs ! as_index p)] \<rparr>"

definition clear_ready :: "GVThreadId \<Rightarrow> Priority \<Rightarrow> ReadyBitmaps \<Rightarrow> ReadyBitmaps" where
  "clear_ready i p bs =
     bs\<lparr> bitmaps := (bitmaps bs)[as_index p := bitmap_clear i (bitmaps bs ! as_index p)] \<rparr>"

definition xorshift :: "u64 \<Rightarrow> u64" where
  "xorshift x =
     (let x1 = x XOR push_bit 13 x;
          x2 = x1 XOR drop_bit 7 x1
      in x2 XOR push_bit 17 x2)"

definition next_hint :: "nat \<Rightarrow> ReadyBitmaps \<Rightarrow> nat \<times> ReadyBitmaps" where
  "next_hint w bs =
     (if w < length (worker_rng bs) then
        let x = xorshift (worker_rng bs ! w) in
        (unat x, bs\<lparr> worker_rng := (worker_rng bs)[w := x] \<rparr>)
      else (0, bs))"

fun claim_priorities ::
  "nat \<Rightarrow> Priority list \<Rightarrow> ReadyBitmaps \<Rightarrow> ((GVThreadId \<times> Priority) option \<times> ReadyBitmaps) option"
where
  "claim_priorities hint [] bs = Some (None, bs)"
| "claim_priorities hint (p # ps) bs =
     (case bitmap_find_and_claim hint (bitmaps bs ! as_index p) of
        None \<Rightarrow> None
      | Some (Some i, bm) \<Rightarrow>
          Some (Some (i, p), bs\<lparr> bitmaps := (bitmaps bs)[as_index p := bm] \<rparr>)
      | Some (None, bm) \<Rightarrow>
          claim_priorities hint ps (bs\<lparr> bitmaps := (bitmaps bs)[as_index p := bm] \<rparr>))"

definition find_and_claim ::
  "nat \<Rightarrow> bool \<Rightarrow> ReadyBitmaps \<Rightarrow> ((GVThreadId \<times> Priority) option \<times> ReadyBitmaps) option" where
  "find_and_claim w low_priority_only bs =
     (case next_hint w bs of
        (hint, bs') \<Rightarrow>
          claim_priorities hint (if low_priority_only then [Low] else Priority_iter) bs')"

definition any_ready :: "ReadyBitmaps \<Rightarrow> bool" where
  "any_ready bs = list_ex bitmap_any_ready (bitmaps bs)"

definition any_ready_at :: "Priority \<Rightarrow> ReadyBitmaps \<Rightarrow> bool" where
  "any_ready_at p bs = bitmap_any_ready (bitmaps bs ! as_index p)"

definition total_ready :: "ReadyBitmaps \<Rightarrow> usize" where
  "total_ready bs = sum_list (map bitmap_count_ready (bitmaps bs))"

definition bitmaps_inv :: "ReadyBitmaps \<Rightarrow> bool" where
  "bitmaps_inv bs \<longleftrightarrow>
     length (bitmaps bs) = Priority_COUNT
     \<and> (\<forall>p. bitmap_inv (bitmaps bs ! as_index p) \<and> num_blocks (bitmaps bs ! as_index p) > 0)"

definition ready_at :: "ReadyBitmaps \<Rightarrow> Priority \<Rightarrow> GVThreadId set" where
  "ready_at bs p = ready_set (bitmaps bs ! as_index p)"

lemma as_index_inj [simp]: "as_index p = as_index q \<longleftrightarrow> p = q"
  by (cases p; cases q) simp_all

lemma nth_bitmaps_update:
  "length (bitmaps bs) = Priority_COUNT \<Longrightarrow>
   (bitmaps bs)[as_index p := bm] ! as_index q = (if p = q then bm else bitmaps bs ! as_index q)"
  using as_index_less[of p] by (simp add: nth_list_update)

lemma bitmaps_inv_new [gv_wf]:
  assumes "n > 0"
  shows "bitmaps_inv (ReadyBitmaps_new n k)"
proof -
  have "num_blocks (ReadyBitmap_new n) > 0"
    using assms by (simp add: ReadyBitmap_new_def BITS_PER_BLOCK_def Let_def div_greater_zero_iff)
  moreover have "bitmaps (ReadyBitmaps_new n k) ! as_index p = ReadyBitmap_new n" for p
    by (cases p) (simp_all add: ReadyBitmaps_new_def)
  ultimately show ?thesis
    by (simp add: bitmaps_inv_def bitmap_inv_new) (simp add: ReadyBitmaps_new_def Priority_COUNT_def)
qed

lemma ready_at_new [gv_abs]: "ready_at (ReadyBitmaps_new n k) p = {}"
  by (cases p) (simp_all add: ready_at_def ReadyBitmaps_new_def ready_set_new)

lemma set_ready_spec [gv_abs]:
  assumes "bitmaps_inv bs" "i < max_id (bitmaps bs ! as_index p)"
  shows "ready_at (set_ready i p bs) = (ready_at bs)(p := insert i (ready_at bs p))"
  using assms
  by (auto simp: fun_eq_iff ready_at_def set_ready_def bitmaps_inv_def nth_bitmaps_update ready_set_set)

lemma clear_ready_spec [gv_abs]:
  assumes "bitmaps_inv bs"
  shows "ready_at (clear_ready i p bs) = (ready_at bs)(p := ready_at bs p - {i})"
  using assms
  by (auto simp: fun_eq_iff ready_at_def clear_ready_def bitmaps_inv_def nth_bitmaps_update
      ready_set_clear)

lemma bitmaps_inv_set_ready [gv_wf]: "bitmaps_inv bs \<Longrightarrow> bitmaps_inv (set_ready i p bs)"
  by (auto simp: bitmaps_inv_def set_ready_def nth_bitmaps_update bitmap_inv_set bitmap_set_eq)

lemma bitmaps_inv_clear_ready [gv_wf]: "bitmaps_inv bs \<Longrightarrow> bitmaps_inv (clear_ready i p bs)"
  by (auto simp: bitmaps_inv_def clear_ready_def nth_bitmaps_update bitmap_inv_clear bitmap_clear_eq)

lemma next_hint_bitmaps [simp]: "bitmaps (snd (next_hint w bs)) = bitmaps bs"
  by (simp add: next_hint_def Let_def)

lemma claim_priorities_spec:
  assumes "bitmaps_inv bs" "distinct ps" "sorted ps"
  obtains bs' where "claim_priorities hint ps bs = Some (None, bs')"
      "bitmaps_inv bs'" "ready_at bs' = ready_at bs" "\<forall>p\<in>set ps. ready_at bs p = {}"
  | i p bs' where "claim_priorities hint ps bs = Some (Some (i, p), bs')"
      "bitmaps_inv bs'" "p \<in> set ps" "i \<in> ready_at bs p"
      "ready_at bs' = (ready_at bs)(p := ready_at bs p - {i})"
      "\<forall>q\<in>set ps. q < p \<longrightarrow> ready_at bs q = {}"
  using assms
proof (induction ps arbitrary: bs thesis)
  case Nil
  then show ?case by simp
next
  case (Cons p ps)
  let ?bm = "bitmaps bs ! as_index p"
  have bm: "bitmap_inv ?bm" "num_blocks ?bm > 0" and len: "length (bitmaps bs) = Priority_COUNT"
    using Cons.prems(3) by (auto simp: bitmaps_inv_def)
  obtain r bm' where c: "bitmap_find_and_claim hint ?bm = Some (r, bm')"
    using bitmap_take_claim[OF bm(2)] by (metis surj_pair)
  let ?bs = "bs\<lparr> bitmaps := (bitmaps bs)[as_index p := bm'] \<rparr>"
  from find_and_claim_cases[OF bm(1) c] show ?case
  proof cases
    case 1
    then have same: "?bs = bs" and e: "ready_at bs p = {}"
      by (simp_all add: ready_at_def)
    have step: "claim_priorities hint (p # ps) bs = claim_priorities hint ps bs"
      using c 1 same by simp
    show ?thesis
    proof (rule Cons.IH[of bs], goal_cases)
      case (1 bs')
      then show ?case using Cons.prems(1)[of bs'] step e by auto
    next
      case (2 i q bs')
      then show ?case using Cons.prems(2)[of i q bs'] step e by auto
    qed (use Cons.prems in auto)
  next
    case (2 i)
    have "bitmaps_inv ?bs"
      using Cons.prems(3) 2 len
      by (auto simp: bitmaps_inv_def nth_bitmaps_update bitmap_inv_clear bitmap_clear_eq)
    moreover have "ready_at ?bs = (ready_at bs)(p := ready_at bs p - {i})"
      using 2 len bm(1) by (auto simp: fun_eq_iff ready_at_def nth_bitmaps_update ready_set_clear)
    moreover have "\<forall>q\<in>set (p # ps). q < p \<longrightarrow> ready_at bs q = {}"
      using Cons.prems(5) by auto
    moreover have "i \<in> ready_at bs p"
      using 2 by (simp add: ready_at_def)
    ultimately show ?thesis
      using Cons.prems(2)[of i p ?bs] c 2(1) by simp
  qed
qed

lemma Priority_iter_Low: "sorted (if low then [Low] else Priority_iter)"
  "distinct (if low then [Low] else Priority_iter)"
  using Priority_iter_sorted by auto

lemma bitmaps_inv_hint: "bitmaps_inv (snd (next_hint w bs)) = bitmaps_inv bs"
  by (simp add: bitmaps_inv_def)

lemma ready_at_hint: "ready_at (snd (next_hint w bs)) = ready_at bs"
  by (simp add: ready_at_def fun_eq_iff)

text \<open>Everything ready, with its priority, and the worker of all priorities as a claim source.\<close>

definition all_ready :: "ReadyBitmaps \<Rightarrow> (GVThreadId \<times> Priority) set" where
  "all_ready bs = {(i, p). i \<in> ready_at bs p}"

definition worker_take :: "nat \<Rightarrow> ReadyBitmaps \<Rightarrow> (GVThreadId \<times> Priority) option \<times> ReadyBitmaps" where
  "worker_take w bs = the (find_and_claim w False bs)"

lemma worker_take_cases:
  assumes "bitmaps_inv bs"
  obtains "fst (worker_take w bs) = None" "bitmaps_inv (snd (worker_take w bs))"
      "ready_at (snd (worker_take w bs)) = ready_at bs" "\<forall>p. ready_at bs p = {}"
  | i p where "fst (worker_take w bs) = Some (i, p)" "bitmaps_inv (snd (worker_take w bs))"
      "i \<in> ready_at bs p" "ready_at (snd (worker_take w bs)) = (ready_at bs)(p := ready_at bs p - {i})"
      "\<forall>q<p. ready_at bs q = {}"
proof -
  have inv: "bitmaps_inv (snd (next_hint w bs))"
    using assms by (simp add: bitmaps_inv_hint)
  have f: "find_and_claim w False bs =
      claim_priorities (fst (next_hint w bs)) Priority_iter (snd (next_hint w bs))"
    by (simp add: find_and_claim_def split_beta)
  from claim_priorities_spec[where hint = "fst (next_hint w bs)", OF inv Priority_iter_sorted(2,1)]
  show ?thesis
  proof cases
    case (1 bs')
    then show ?thesis
      using that(1) by (simp add: worker_take_def f ready_at_hint Priority_iter_sorted(3))
  next
    case (2 i p bs')
    then show ?thesis
      using that(2) by (simp add: worker_take_def f ready_at_hint Priority_iter_sorted(3))
  qed
qed

lemma finite_Priority [simp]: "finite (A :: Priority set)"
proof (rule finite_subset)
  show "A \<subseteq> set Priority_iter" by (simp add: Priority_iter_sorted(3))
qed simp

interpretation wk: claim_source worker_take all_ready bitmaps_inv
proof (unfold_locales, goal_cases)
  case (1 s h s')
  from worker_take_cases[where w = h, OF 1(1)] show ?case
    by cases (use 1(2) in \<open>simp_all add: all_ready_def\<close>)
next
  case (2 s h i s')
  from worker_take_cases[where w = h, OF 2(1)] show ?case
    by cases (use 2(2) in \<open>auto simp: all_ready_def split: if_splits\<close>)
next
  case (3 s)
  have "finite ((UNIV :: u32 set) \<times> (UNIV :: Priority set))"
    by (rule finite_cartesian_product) simp_all
  then show ?case by (rule rev_finite_subset) auto
qed

section \<open>Counting\<close>

lemma bits_card:
  fixes ws :: "u64 list"
  shows "card {n. n div 64 < length ws \<and> bit (ws ! (n div 64)) (n mod 64)}
    = sum_list (map count_ones ws)"
proof (induction ws rule: rev_induct)
  case Nil
  then show ?case by simp
next
  case (snoc w ws)
  let ?S = "\<lambda>ws. {n. n div 64 < length ws \<and> bit (ws ! (n div 64)) (n mod 64)}"
  let ?N = "(\<lambda>k. 64 * length ws + k) ` {k. k < 64 \<and> bit w k}"
  have fin: "finite (?S ws)"
    by (rule finite_subset[of _ "{..<64 * length ws}"]) (auto simp: div_less_iff_less_mult mult.commute)
  have eq: "?S (ws @ [w]) = ?S ws \<union> ?N"
  proof (intro set_eqI iffI)
    fix n assume "n \<in> ?S (ws @ [w])"
    then have n: "n div 64 \<le> length ws" "bit ((ws @ [w]) ! (n div 64)) (n mod 64)"
      by auto
    show "n \<in> ?S ws \<union> ?N"
    proof (cases "n div 64 = length ws")
      case True
      then have "n = 64 * length ws + n mod 64" "bit w (n mod 64)"
        using n(2) by (metis mult_div_mod_eq, simp)
      then show ?thesis
        by (metis (mono_tags, lifting) UnI2 image_eqI mem_Collect_eq mod_less_divisor zero_less_numeral)
    next
      case False
      then show ?thesis using n by (auto simp: nth_append)
    qed
  qed (auto simp: nth_append)
  have "{k. k < 64 \<and> bit w k} = set (filter (bit w) [0..<64])"
    by auto
  then have "card {k. k < 64 \<and> bit w k} = count_ones w"
    unfolding count_ones_def by (metis distinct_card distinct_filter distinct_upt)
  then have "card ?N = count_ones w"
    by (subst card_image) (simp_all add: inj_on_def)
  moreover have "?S ws \<inter> ?N = {}"
    by auto
  ultimately show ?case
    using snoc.IH fin eq by (simp add: card_Un_disjoint)
qed

lemma bitmap_count_card:
  assumes "bitmap_inv bm"
  shows "bitmap_count_ready bm = card (ready_set bm)"
proof -
  have "unat ` ready_set bm = {n. bit_at bm n}"
    using unat_ready[OF assms] by (auto simp: ready_set_def image_iff) metis
  then have "card {n. bit_at bm n} = card (ready_set bm)"
    by (metis card_image inj_on_def word_unat_eq_iff)
  then show ?thesis
    by (simp add: bitmap_count_ready_def bit_at_def bits_card)
qed

section \<open>Interleaved claims\<close>

text \<open>
  Any number of threads run \<open>set\<close>, \<open>clear\<close> and \<open>find_and_claim\<close> on one bitmap; each
  load, read-modify-write and compare-exchange of a block is one step. \<open>cs_sets i\<close> and
  \<open>cs_claims i\<close> count how often thread \<open>i\<close> was marked ready and was claimed.
\<close>

datatype claim_pc = ClIdle | ClScan nat nat | ClLoad nat nat | ClCas nat nat u64

record claim_sys =
  cs_bm :: ReadyBitmap
  cs_pc :: "nat \<Rightarrow> claim_pc"
  cs_sets :: "GVThreadId \<Rightarrow> nat"
  cs_claims :: "GVThreadId \<Rightarrow> nat"

definition claim_init :: "usize \<Rightarrow> claim_sys" where
  "claim_init n =
     \<lparr> cs_bm = ReadyBitmap_new n, cs_pc = (\<lambda>_. ClIdle), cs_sets = (\<lambda>_. 0), cs_claims = (\<lambda>_. 0) \<rparr>"

abbreviation scan_block :: "claim_sys \<Rightarrow> nat \<Rightarrow> nat \<Rightarrow> nat" where
  "scan_block s start i \<equiv> (start + i) mod num_blocks (cs_bm s)"

inductive claim_step :: "claim_sys \<Rightarrow> claim_sys \<Rightarrow> bool" where
  call_set: "cs_pc s t = ClIdle \<Longrightarrow> i < max_id (cs_bm s) \<Longrightarrow>
     claim_step s (s\<lparr> cs_bm := bitmap_set i (cs_bm s),
                     cs_sets := (cs_sets s)(i := Suc (cs_sets s i)) \<rparr>)"
| call_clear: "cs_pc s t = ClIdle \<Longrightarrow>
     claim_step s (s\<lparr> cs_bm := bitmap_clear i (cs_bm s) \<rparr>)"
| call_claim: "cs_pc s t = ClIdle \<Longrightarrow> num_blocks (cs_bm s) > 0 \<Longrightarrow>
     claim_step s (s\<lparr> cs_pc := (cs_pc s)(t := ClScan (hint mod num_blocks (cs_bm s)) 0) \<rparr>)"
| scan_end: "cs_pc s t = ClScan start i \<Longrightarrow> i \<ge> num_blocks (cs_bm s) \<Longrightarrow>
     claim_step s (s\<lparr> cs_pc := (cs_pc s)(t := ClIdle) \<rparr>)"
| scan_empty: "cs_pc s t = ClScan start i \<Longrightarrow> i < num_blocks (cs_bm s) \<Longrightarrow>
     blocks (cs_bm s) ! scan_block s start i = 0 \<Longrightarrow>
     claim_step s (s\<lparr> cs_pc := (cs_pc s)(t := ClScan start (Suc i)) \<rparr>)"
| scan_hit: "cs_pc s t = ClScan start i \<Longrightarrow> i < num_blocks (cs_bm s) \<Longrightarrow>
     blocks (cs_bm s) ! scan_block s start i \<noteq> 0 \<Longrightarrow>
     claim_step s (s\<lparr> cs_pc := (cs_pc s)(t := ClLoad start i) \<rparr>)"
| load_empty: "cs_pc s t = ClLoad start i \<Longrightarrow>
     blocks (cs_bm s) ! scan_block s start i = 0 \<Longrightarrow>
     claim_step s (s\<lparr> cs_pc := (cs_pc s)(t := ClScan start (Suc i)) \<rparr>)"
| load_bits: "cs_pc s t = ClLoad start i \<Longrightarrow>
     blocks (cs_bm s) ! scan_block s start i = current \<Longrightarrow> current \<noteq> 0 \<Longrightarrow>
     claim_step s (s\<lparr> cs_pc := (cs_pc s)(t := ClCas start i current) \<rparr>)"
| cas_fail: "cs_pc s t = ClCas start i current \<Longrightarrow>
     claim_step s (s\<lparr> cs_pc := (cs_pc s)(t := ClLoad start i) \<rparr>)"
| cas_ok: "cs_pc s t = ClCas start i current \<Longrightarrow> b = scan_block s start i \<Longrightarrow>
     blocks (cs_bm s) ! b = current \<Longrightarrow> k = trailing_zeros current \<Longrightarrow>
     c = of_nat (b * BITS_PER_BLOCK + k) \<Longrightarrow>
     claim_step s
       (s\<lparr> cs_bm := (cs_bm s)\<lparr> blocks := (blocks (cs_bm s))[b := current AND NOT (push_bit k 1)] \<rparr>,
          cs_claims := (cs_claims s)(c := Suc (cs_claims s c)),
          cs_pc := (cs_pc s)(t := ClIdle) \<rparr>)"

fun claim_pc_ok :: "claim_pc \<Rightarrow> bool" where
  "claim_pc_ok (ClCas start i current) = (current \<noteq> 0)"
| "claim_pc_ok _ = True"

definition claim_inv :: "claim_sys \<Rightarrow> bool" where
  "claim_inv s \<longleftrightarrow>
     bitmap_inv (cs_bm s)
     \<and> (\<forall>t. claim_pc_ok (cs_pc s t))
     \<and> (\<forall>t. cs_pc s t \<noteq> ClIdle \<longrightarrow> num_blocks (cs_bm s) > 0)
     \<and> (\<forall>i. cs_claims s i + of_bool (i \<in> ready_set (cs_bm s)) \<le> cs_sets s i)"

lemma claim_inv_init: "claim_inv (claim_init n)"
  by (simp add: claim_inv_def claim_init_def bitmap_inv_new ready_set_new)

lemma claim_inv_pc:
  assumes "claim_inv s" "claim_pc_ok v" "cs_pc s t \<noteq> ClIdle \<or> num_blocks (cs_bm s) > 0"
  shows "claim_inv (s\<lparr> cs_pc := (cs_pc s)(t := v) \<rparr>)"
  using assms by (auto simp: claim_inv_def)

lemma claim_cas_clears:
  assumes "claim_inv s" "cs_pc s t = ClCas start i current" "b = scan_block s start i"
    and "blocks (cs_bm s) ! b = current" "k = trailing_zeros current" "c = of_nat (b * BITS_PER_BLOCK + k)"
  shows "c \<in> ready_set (cs_bm s)"
    "(cs_bm s)\<lparr> blocks := (blocks (cs_bm s))[b := current AND NOT (push_bit k 1)] \<rparr> = bitmap_clear c (cs_bm s)"
proof -
  have inv: "bitmap_inv (cs_bm s)" and ok: "claim_pc_ok (cs_pc s t)"
    using assms(1) unfolding claim_inv_def by blast+
  have nb: "num_blocks (cs_bm s) > 0"
    using assms(1,2) unfolding claim_inv_def by (metis claim_pc.distinct(5))
  have b: "b < num_blocks (cs_bm s)" and nz: "blocks (cs_bm s) ! b \<noteq> 0"
    using assms(2-4) ok nb by simp_all
  have "try_claim_from_block b (cs_bm s) = (Some k,
      (cs_bm s)\<lparr> blocks := (blocks (cs_bm s))[b := current AND NOT (push_bit k 1)] \<rparr>)"
    using assms(4,5) nz by (simp add: try_claim_from_block_def Let_def)
  from claim_block[OF inv b nz this] show "c \<in> ready_set (cs_bm s)"
    "(cs_bm s)\<lparr> blocks := (blocks (cs_bm s))[b := current AND NOT (push_bit k 1)] \<rparr> = bitmap_clear c (cs_bm s)"
    using assms(6) by auto
qed

lemma claim_inv_step:
  assumes "claim_step s s'" "claim_inv s"
  shows "claim_inv s'"
proof -
  have nb: "cs_pc s t \<noteq> ClIdle \<Longrightarrow> num_blocks (cs_bm s) > 0" for t
    using assms(2) by (auto simp: claim_inv_def)
  have inv: "bitmap_inv (cs_bm s)"
    using assms(2) by (simp add: claim_inv_def)
  have le: "cs_claims s i + of_bool (i \<in> ready_set (cs_bm s)) \<le> cs_sets s i" for i
    using assms(2) by (simp add: claim_inv_def)
  have le1: "cs_claims s i \<le> cs_sets s i" for i
    using le[of i] by linarith
  show ?thesis
    using assms(1)
  proof cases
    case (call_set t i)
    have "cs_claims s' j + of_bool (j \<in> ready_set (cs_bm s')) \<le> cs_sets s' j" for j
      using le[of j] le1[of i] call_set(1,3) inv by (simp add: ready_set_set)
    with call_set(1) assms(2) inv show ?thesis
      by (simp add: claim_inv_def bitmap_inv_set bitmap_set_eq)
  next
    case (call_clear t i)
    have "cs_claims s' j + of_bool (j \<in> ready_set (cs_bm s')) \<le> cs_sets s' j" for j
      using le[of j] call_clear(1) inv by (auto simp: ready_set_clear)
    with call_clear(1) assms(2) inv show ?thesis
      by (simp add: claim_inv_def bitmap_inv_clear bitmap_clear_eq)
  next
    case (cas_ok t start i current b k c)
    have c: "c \<in> ready_set (cs_bm s)" and bm: "cs_bm s' = bitmap_clear c (cs_bm s)"
      using claim_cas_clears[OF assms(2) cas_ok(2-6)] cas_ok(1) by simp_all
    have "cs_claims s' j + of_bool (j \<in> ready_set (cs_bm s')) \<le> cs_sets s' j" for j
      using le[of j] le[of c] cas_ok(1) c unfolding bm
      by (auto simp: ready_set_clear[OF inv])
    moreover have "claim_pc_ok (cs_pc s' j)" "cs_pc s' j \<noteq> ClIdle \<longrightarrow> num_blocks (cs_bm s') > 0" for j
      using assms(2) cas_ok(1) nb by (auto simp: claim_inv_def bm bitmap_clear_eq[OF inv])
    ultimately show ?thesis
      unfolding claim_inv_def using bitmap_inv_clear[OF inv] by (simp add: bm)
  qed (use assms(2) in \<open>auto intro!: claim_inv_pc\<close>)
qed

lemma claim_reachable: "claim_step\<^sup>*\<^sup>* (claim_init n) s \<Longrightarrow> claim_inv s"
  by (induction rule: rtranclp_induct) (auto simp: claim_inv_init intro: claim_inv_step)

section \<open>Properties\<close>

lemma claim_keeps_ready:
  assumes "claim_step s s'" "claim_inv s" "i \<in> ready_set (cs_bm s)"
  shows "i \<in> ready_set (cs_bm s') \<or> cs_claims s' i = cs_claims s i + 1 \<or> cs_bm s' = bitmap_clear i (cs_bm s)"
proof -
  have inv: "bitmap_inv (cs_bm s)"
    using assms(2) by (simp add: claim_inv_def)
  show ?thesis
    using assms(1)
  proof cases
    case (call_set t j)
    then show ?thesis
      using assms(3) inv by (simp add: ready_set_set)
  next
    case (call_clear t j)
    then show ?thesis
      using assms(3) inv by (cases "i = j") (auto simp: ready_set_clear)
  next
    case (cas_ok t start j current b k c)
    then have "cs_bm s' = bitmap_clear c (cs_bm s)"
      using claim_cas_clears(2)[OF assms(2) cas_ok(2-6)] by simp
    then show ?thesis
      using assms(3) inv cas_ok(1) by (cases "i = c") (auto simp: ready_set_clear)
  qed (use assms(3) in simp_all)
qed

text \<open>
  C2: However threads interleave marking, clearing and claiming, a thread has been claimed at most as often
  as it was marked ready, one time less while its mark is still there; and a mark goes away only by being claimed
  or by a call that clears it.
\<close>

theorem bitmap_no_double_claim:
  assumes "claim_step\<^sup>*\<^sup>* (claim_init n) s"
  shows "cs_claims s i + of_bool (i \<in> ready_set (cs_bm s)) \<le> cs_sets s i \<and>
    (\<forall>s'. claim_step s s' \<and> i \<in> ready_set (cs_bm s) \<longrightarrow>
      i \<in> ready_set (cs_bm s') \<or> cs_claims s' i = cs_claims s i + 1 \<or> cs_bm s' = bitmap_clear i (cs_bm s))"
  using claim_reachable[OF assms] claim_keeps_ready by (auto simp: claim_inv_def dest: spec[of _ i])

lemma claim_trace_example:
  "claim_step\<^sup>*\<^sup>* (claim_init 64)
     \<lparr> cs_bm = ReadyBitmap_new 64, cs_pc = (\<lambda>_. ClIdle), cs_sets = (\<lambda>_. 0)(0 := 1),
       cs_claims = (\<lambda>_. 0)(0 := 1) \<rparr>"
proof -
  let ?st = "\<lambda>w p c. \<lparr> cs_bm = \<lparr> blocks = [w], num_blocks = 1, max_id = 64 \<rparr>,
       cs_pc = (\<lambda>_. ClIdle)(0 := p), cs_sets = (\<lambda>_. 0)(0 := 1), cs_claims = c \<rparr> :: claim_sys"
  let ?z = "(\<lambda>_. 0) :: u32 \<Rightarrow> nat"
  have new: "ReadyBitmap_new 64 = \<lparr> blocks = [0], num_blocks = 1, max_id = 64 \<rparr>"
    by (simp add: ReadyBitmap_new_def BITS_PER_BLOCK_def Let_def)
  have tz: "trailing_zeros 1 = 0"
    by (simp add: trailing_zeros_def upt_rec)
  have "claim_step (claim_init 64) (?st 1 ClIdle ?z)"
    using call_set[of "claim_init 64" 0 0]
    by (simp add: claim_init_def new bitmap_set_def as_usize_def BITS_PER_BLOCK_def fun_upd_idem)
  moreover have "claim_step (?st 1 ClIdle ?z) (?st 1 (ClScan 0 0) ?z)"
    using call_claim[of "?st 1 ClIdle ?z" 0 7] by simp
  moreover have "claim_step (?st 1 (ClScan 0 0) ?z) (?st 1 (ClLoad 0 0) ?z)"
    using scan_hit[of "?st 1 (ClScan 0 0) ?z" 0 0 0] by simp
  moreover have "claim_step (?st 1 (ClLoad 0 0) ?z) (?st 1 (ClCas 0 0 1) ?z)"
    using load_bits[of "?st 1 (ClLoad 0 0) ?z" 0 0 0 1] by simp
  moreover have "claim_step (?st 1 (ClCas 0 0 1) ?z) (?st 0 ClIdle (?z(0 := 1)))"
    using cas_ok[of "?st 1 (ClCas 0 0 1) ?z" 0 0 0 1 0 0 0] by (simp add: tz)
  ultimately have "claim_step\<^sup>*\<^sup>* (claim_init 64) (?st 0 ClIdle (?z(0 := 1)))"
    by (meson converse_rtranclp_into_rtranclp rtranclp.rtrancl_refl)
  then show ?thesis
    by (simp add: new fun_upd_idem)
qed

theorem bitmap_no_double_claim_witness:
  "\<exists>s. claim_step\<^sup>*\<^sup>* (claim_init 64) s \<and> cs_claims s 0 = 1 \<and> cs_claims s 0 \<le> cs_sets s 0"
  using claim_trace_example conjunct1[OF bitmap_no_double_claim[OF claim_trace_example, of 0]]
  by (intro exI conjI) (assumption, simp_all)

definition two_ready :: ReadyBitmaps where
  "two_ready = set_ready 1 Low (set_ready 2 High (ReadyBitmaps_new 64 1))"

lemma two_ready_inv: "bitmaps_inv two_ready"
  by (simp add: two_ready_def bitmaps_inv_set_ready bitmaps_inv_new)

lemma two_ready_at: "ready_at two_ready = (\<lambda>_. {})(High := {2}, Low := {1})"
proof -
  let ?bs = "set_ready 2 High (ReadyBitmaps_new 64 1)"
  have inv: "bitmaps_inv (ReadyBitmaps_new 64 1)"
    by (simp add: bitmaps_inv_new)
  have m: "max_id (ReadyBitmap_new 64) = 64"
    by (simp add: ReadyBitmap_new_def Let_def)
  have "ready_at ?bs = (\<lambda>_. {})(High := {2})"
    using set_ready_spec[OF inv, of 2 High] ready_at_new[of 64 1]
    by (simp add: ReadyBitmaps_new_def m word_less_nat_alt fun_eq_iff)
  moreover have "1 < max_id (bitmaps ?bs ! as_index Low)"
    by (simp add: set_ready_def ReadyBitmaps_new_def m word_less_nat_alt)
  ultimately show ?thesis
    using set_ready_spec[OF bitmaps_inv_set_ready[OF inv], of 1 2 High Low]
    by (simp add: two_ready_def)
qed

text \<open>
  C27: A worker takes a ready thread of the highest priority that has one, marks exactly it
  as not ready, and finds nothing only when nothing is ready.
\<close>

theorem find_and_claim_priority:
  assumes "bitmaps_inv bs"
  shows "\<exists>r bs'. find_and_claim w False bs = Some (r, bs') \<and>
    (case r of
       None \<Rightarrow> (\<forall>p. ready_at bs p = {}) \<and> ready_at bs' = ready_at bs
     | Some (i, p) \<Rightarrow> i \<in> ready_at bs p \<and> (\<forall>q<p. ready_at bs q = {})
         \<and> ready_at bs' = (ready_at bs)(p := ready_at bs p - {i}))"
proof -
  have inv: "bitmaps_inv (snd (next_hint w bs))"
    using assms by (simp add: bitmaps_inv_hint)
  have f: "find_and_claim w False bs =
      claim_priorities (fst (next_hint w bs)) Priority_iter (snd (next_hint w bs))"
    by (simp add: find_and_claim_def split_beta)
  from claim_priorities_spec[where hint = "fst (next_hint w bs)", OF inv Priority_iter_sorted(2,1)]
  show ?thesis
    by cases (simp_all add: f ready_at_hint Priority_iter_sorted(3))
qed

theorem find_and_claim_priority_witness:
  "\<exists>r bs'. find_and_claim 0 False two_ready = Some (r, bs') \<and> r = Some (2, High)"
proof -
  obtain r bs' where r: "find_and_claim 0 False two_ready = Some (r, bs')"
    "case r of
       None \<Rightarrow> (\<forall>p. ready_at two_ready p = {}) \<and> ready_at bs' = ready_at two_ready
     | Some (i, p) \<Rightarrow> i \<in> ready_at two_ready p \<and> (\<forall>q<p. ready_at two_ready q = {})
         \<and> ready_at bs' = (ready_at two_ready)(p := ready_at two_ready p - {i})"
    using find_and_claim_priority[OF two_ready_inv, of 0] by blast
  have "High < Low" by (simp add: less_Priority_def)
  with r(2) have "r = Some (2, High)"
    by (auto simp: two_ready_at split: option.splits if_splits)
  with r(1) show ?thesis by blast
qed

text \<open>
  Workers that keep claiming get every ready thread exactly once, with its priority,
  whatever their random hints; enough claims leave nothing ready.
\<close>

theorem drain_exact:
  assumes "bitmaps_inv bs" "card (all_ready bs) \<le> length workers"
    and "drain worker_take workers bs = (claimed, bs')"
  shows "distinct claimed \<and> set claimed = all_ready bs \<and> all_ready bs' = {}"
  using wk.drain_all[OF assms] by simp

theorem drain_exact_witness:
  "\<exists>claimed bs'. drain worker_take [0, 3] two_ready = (claimed, bs')
     \<and> set claimed = {(2, High), (1, Low)} \<and> all_ready bs' = {}"
proof -
  have a: "all_ready two_ready = {(2, High), (1, Low)}"
    by (auto simp: all_ready_def two_ready_at split: if_splits)
  obtain claimed bs' where d: "drain worker_take [0, 3] two_ready = (claimed, bs')"
    by fastforce
  then show ?thesis
    using drain_exact[OF two_ready_inv _ d] a by auto
qed

text \<open>
  \<open>count_ready\<close> counts the ready threads and \<open>any_ready\<close> says whether there is one.
\<close>

theorem bitmap_count_exact:
  assumes "bitmap_inv bm"
  shows "bitmap_count_ready bm = card (ready_set bm) \<and> (bitmap_any_ready bm \<longleftrightarrow> ready_set bm \<noteq> {})"
proof -
  have "bitmap_any_ready bm \<longleftrightarrow> (\<exists>b<num_blocks bm. blocks bm ! b \<noteq> 0)"
    using assms by (auto simp: bitmap_any_ready_def list_ex_iff bitmap_inv_def in_set_conv_nth Bex_def)
  then show ?thesis
    using bitmap_count_card[OF assms] ready_set_empty[OF assms] by blast
qed

theorem bitmap_count_exact_witness:
  "bitmap_count_ready (bitmap_set 5 (ReadyBitmap_new 100)) = 1
   \<and> bitmap_any_ready (bitmap_set 5 (ReadyBitmap_new 100))"
proof -
  have "ready_set (bitmap_set 5 (ReadyBitmap_new 100)) = {5}"
    using bitmap_inv_new[of 100] by (simp add: ready_set_set ready_set_new)
      (simp add: ReadyBitmap_new_def Let_def word_less_nat_alt)
  then show ?thesis
    using bitmap_count_exact[OF bitmap_inv_set[OF bitmap_inv_new, of 5 100]] by simp
qed

end
