(* ===== verification/Fifo.thy ===== *)
theory Fifo
  imports GV_Prelude
begin

text \<open>
  The contract of a bounded first-in first-out buffer, shared by the channels, the
  per-worker run queues and the submission and completion rings. The provider's
  operations are abstracted to lists; a client that mixes insertions and removals in any
  order gets back what was accepted, in order, without loss or duplication.
\<close>

datatype 'a fifo_op = Put 'a | Get

text \<open>
  \<open>run_fifo\<close> returns the accepted and the delivered values, in order, and the final state.
\<close>

fun run_fifo ::
  "('a \<Rightarrow> 's \<Rightarrow> 's option) \<Rightarrow> ('s \<Rightarrow> ('a \<times> 's) option) \<Rightarrow> 'a fifo_op list \<Rightarrow>
   's \<Rightarrow> 'a list \<times> 'a list \<times> 's"
where
  "run_fifo enq deq [] s = ([], [], s)"
| "run_fifo enq deq (Put x # ops) s =
     (case enq x s of
        None \<Rightarrow> run_fifo enq deq ops s
      | Some s' \<Rightarrow> (case run_fifo enq deq ops s' of (acc, del, s'') \<Rightarrow> (x # acc, del, s'')))"
| "run_fifo enq deq (Get # ops) s =
     (case deq s of
        None \<Rightarrow> run_fifo enq deq ops s
      | Some (x, s') \<Rightarrow> (case run_fifo enq deq ops s' of (acc, del, s'') \<Rightarrow> (acc, x # del, s'')))"

locale bounded_fifo =
  fixes enq :: "'a \<Rightarrow> 's \<Rightarrow> 's option"
    and deq :: "'s \<Rightarrow> ('a \<times> 's) option"
    and items :: "'s \<Rightarrow> 'a list"
    and cap :: "'s \<Rightarrow> nat"
    and inv :: "'s \<Rightarrow> bool"
  assumes enq_full: "inv s \<Longrightarrow> enq x s = None \<longleftrightarrow> cap s \<le> length (items s)"
    and enq_ok: "inv s \<Longrightarrow> enq x s = Some s' \<Longrightarrow> inv s' \<and> items s' = items s @ [x] \<and> cap s' = cap s"
    and deq_empty: "inv s \<Longrightarrow> deq s = None \<longleftrightarrow> items s = []"
    and deq_ok: "inv s \<Longrightarrow> deq s = Some (x, s') \<Longrightarrow> inv s' \<and> items s = x # items s' \<and> cap s' = cap s"
begin

lemma run_fifo_conserves:
  assumes "inv s" "run_fifo enq deq ops s = (acc, del, s')"
  shows "inv s' \<and> items s @ acc = del @ items s' \<and> cap s' = cap s"
  using assms
proof (induction ops arbitrary: s acc del)
  case Nil
  then show ?case by simp
next
  case (Cons op ops)
  show ?case
  proof (cases op)
    case (Put x)
    show ?thesis
    proof (cases "enq x s")
      case None
      with Put Cons show ?thesis by auto
    next
      case (Some s1)
      then obtain acc1 where "run_fifo enq deq ops s1 = (acc1, del, s')" "acc = x # acc1"
        using Cons.prems Put by (auto split: prod.splits)
      then show ?thesis
        using Cons.IH[of s1 acc1 del] enq_ok[OF Cons.prems(1) Some] by auto
    qed
  next
    case Get
    show ?thesis
    proof (cases "deq s")
      case None
      with Get Cons show ?thesis by auto
    next
      case (Some p)
      then obtain x s1 del1 where "deq s = Some (x, s1)"
        "run_fifo enq deq ops s1 = (acc, del1, s')" "del = x # del1"
        using Cons.prems Get by (cases p) (auto split: prod.splits)
      then show ?thesis
        using Cons.IH[of s1 acc del1] deq_ok[OF Cons.prems(1)] by auto
    qed
  qed
qed

lemma run_fifo_bounded:
  assumes "inv s" "length (items s) \<le> cap s" "run_fifo enq deq ops s = (acc, del, s')"
  shows "length (items s') \<le> cap s'"
  using assms
proof (induction ops arbitrary: s acc del)
  case Nil
  then show ?case by simp
next
  case (Cons op ops)
  show ?case
  proof (cases op)
    case (Put x)
    then show ?thesis
      using Cons enq_ok[OF Cons.prems(1), of x] enq_full[OF Cons.prems(1), of x]
      by (cases "enq x s") (auto split: prod.splits)
  next
    case Get
    then show ?thesis
      using Cons deq_ok[OF Cons.prems(1)]
      by (cases "deq s") (fastforce split: prod.splits)+
  qed
qed

text \<open>A put followed by as many gets as there are items delivers the value put last.\<close>

lemma put_get_last:
  assumes "inv s" "length (items s) < cap s"
  shows "\<exists>s'. enq x s = Some s' \<and> last (items s') = x \<and> length (items s') = Suc (length (items s))"
  using assms enq_full[OF assms(1), of x] enq_ok[OF assms(1), of x] by (cases "enq x s") auto

end

end
