(* ===== verification/Channel.thy ===== *)
theory Channel
  imports Core_Types Fifo
begin

text \<open>
  The bounded channel of \<open>gvthread-core/src/channel.rs\<close>. The state is the shared
  \<open>ChannelInner\<close>; \<open>send\<close> and \<open>recv\<close> retry until they succeed, so they are given
  with fuel and with the effect other threads have while they yield. The last part splits
  the operations at their locks and interleaves them.
\<close>

section \<open>State and operations\<close>

record 'a ChannelInner =
  buffer :: "'a list"
  capacity :: usize
  send_waiters :: "GVThreadId list"
  recv_waiters :: "GVThreadId list"
  closed :: bool
  sender_count :: usize
  receiver_count :: usize

definition channel :: "usize \<Rightarrow> 'a ChannelInner" where
  "channel cap =
     \<lparr> buffer = [], capacity = cap, send_waiters = [], recv_waiters = [], closed = False,
       sender_count = 1, receiver_count = 1 \<rparr>"

definition try_send_inner ::
  "'a \<Rightarrow> 'a ChannelInner \<Rightarrow> ('a TrySendError, unit) result \<times> 'a ChannelInner" where
  "try_send_inner v ch =
     (if length (buffer ch) \<ge> capacity ch then (Err (TrySendError v), ch)
      else (Ok (), ch\<lparr> buffer := buffer ch @ [v] \<rparr>))"

definition wake_receiver :: "'a ChannelInner \<Rightarrow> 'a ChannelInner" where
  "wake_receiver ch =
     (case recv_waiters ch of [] \<Rightarrow> ch | _ # ws \<Rightarrow> ch\<lparr> recv_waiters := ws \<rparr>)"

definition try_send ::
  "'a \<Rightarrow> 'a ChannelInner \<Rightarrow> ('a TrySendError, unit) result \<times> 'a ChannelInner" where
  "try_send v ch =
     (if closed ch then (Err (TrySendError v), ch)
      else case try_send_inner v ch of
             (Ok _, ch') \<Rightarrow> (Ok (), wake_receiver ch')
           | (Err e, ch') \<Rightarrow> (Err e, ch'))"

definition try_recv_inner ::
  "'a ChannelInner \<Rightarrow> (TryRecvError, 'a) result \<times> 'a ChannelInner" where
  "try_recv_inner ch =
     (case buffer ch of
        [] \<Rightarrow> (Err TryRecvError, ch)
      | v # vs \<Rightarrow> (Ok v, ch\<lparr> buffer := vs \<rparr>))"

definition wake_sender :: "'a ChannelInner \<Rightarrow> 'a ChannelInner" where
  "wake_sender ch =
     (case send_waiters ch of [] \<Rightarrow> ch | _ # ws \<Rightarrow> ch\<lparr> send_waiters := ws \<rparr>)"

definition try_recv :: "'a ChannelInner \<Rightarrow> (TryRecvError, 'a) result \<times> 'a ChannelInner" where
  "try_recv ch =
     (case try_recv_inner ch of
        (Ok v, ch') \<Rightarrow> (Ok v, wake_sender ch')
      | (Err e, ch') \<Rightarrow> (Err e, ch'))"

text \<open>
  \<open>env\<close> is what the other threads do to the channel while this one yields or spins.
  \<open>None\<close>: the fuel ran out before the call returned.
\<close>

fun send ::
  "nat \<Rightarrow> ('a ChannelInner \<Rightarrow> 'a ChannelInner) \<Rightarrow> 'a \<Rightarrow> 'a ChannelInner \<Rightarrow>
   (unit SchedResult \<times> 'a ChannelInner) option"
where
  "send 0 env v ch = None"
| "send (Suc n) env v ch =
     (if closed ch then Some (Err ChannelClosed, ch)
      else case try_send_inner v ch of
             (Ok _, ch1) \<Rightarrow> Some (Ok (), wake_receiver ch1)
           | (Err (TrySendError v1), ch1) \<Rightarrow>
               (case try_send_inner v1 (env ch1) of
                  (Ok _, ch2) \<Rightarrow> Some (Ok (), wake_receiver ch2)
                | (Err (TrySendError v2), ch2) \<Rightarrow> send n env v2 (env ch2)))"

fun recv ::
  "nat \<Rightarrow> ('a ChannelInner \<Rightarrow> 'a ChannelInner) \<Rightarrow> 'a ChannelInner \<Rightarrow>
   ('a SchedResult \<times> 'a ChannelInner) option"
where
  "recv 0 env ch = None"
| "recv (Suc n) env ch =
     (case try_recv_inner ch of
        (Ok v, ch1) \<Rightarrow> Some (Ok v, wake_sender ch1)
      | (Err _, ch1) \<Rightarrow>
          if sender_count ch1 = 0 then Some (Err ChannelClosed, ch1)
          else recv n env (env ch1))"

definition clone_sender :: "'a ChannelInner \<Rightarrow> 'a ChannelInner" where
  "clone_sender ch = ch\<lparr> sender_count := sender_count ch + 1 \<rparr>"

definition drop_sender :: "'a ChannelInner \<Rightarrow> 'a ChannelInner" where
  "drop_sender ch =
     (let ch1 = ch\<lparr> sender_count := sender_count ch - 1 \<rparr> in
      if sender_count ch1 = 0 then ch1\<lparr> closed := True, recv_waiters := [] \<rparr> else ch1)"

definition clone_receiver :: "'a ChannelInner \<Rightarrow> 'a ChannelInner" where
  "clone_receiver ch = ch\<lparr> receiver_count := receiver_count ch + 1 \<rparr>"

definition drop_receiver :: "'a ChannelInner \<Rightarrow> 'a ChannelInner" where
  "drop_receiver ch =
     (let ch1 = ch\<lparr> receiver_count := receiver_count ch - 1 \<rparr> in
      if receiver_count ch1 = 0 then ch1\<lparr> closed := True, send_waiters := [] \<rparr> else ch1)"

lemmas channel_defs = try_send_inner_def wake_receiver_def try_send_def try_recv_inner_def
  wake_sender_def try_recv_def clone_sender_def drop_sender_def clone_receiver_def
  drop_receiver_def Let_def

lemma wake_receiver_fields [simp]:
  "buffer (wake_receiver ch) = buffer ch" "capacity (wake_receiver ch) = capacity ch"
  "closed (wake_receiver ch) = closed ch" "sender_count (wake_receiver ch) = sender_count ch"
  "receiver_count (wake_receiver ch) = receiver_count ch"
  "send_waiters (wake_receiver ch) = send_waiters ch"
  by (simp_all add: wake_receiver_def split: list.splits)

lemma wake_sender_fields [simp]:
  "buffer (wake_sender ch) = buffer ch" "capacity (wake_sender ch) = capacity ch"
  "closed (wake_sender ch) = closed ch" "sender_count (wake_sender ch) = sender_count ch"
  "receiver_count (wake_sender ch) = receiver_count ch"
  "recv_waiters (wake_sender ch) = recv_waiters ch"
  by (simp_all add: wake_sender_def split: list.splits)

section \<open>An open channel is a bounded fifo\<close>

definition chan_enq :: "'a \<Rightarrow> 'a ChannelInner \<Rightarrow> 'a ChannelInner option" where
  "chan_enq v ch = (case try_send v ch of (Ok _, ch') \<Rightarrow> Some ch' | (Err _, _) \<Rightarrow> None)"

definition chan_deq :: "'a ChannelInner \<Rightarrow> ('a \<times> 'a ChannelInner) option" where
  "chan_deq ch = (case try_recv ch of (Ok v, ch') \<Rightarrow> Some (v, ch') | (Err _, _) \<Rightarrow> None)"

interpretation chan: bounded_fifo chan_enq chan_deq buffer capacity "\<lambda>ch. \<not> closed ch"
  by unfold_locales
    (auto simp: chan_enq_def chan_deq_def channel_defs split: list.splits if_splits)

section \<open>Interleaved senders and receivers\<close>

text \<open>
  Every lock region of the code is one step. \<open>cy_sent\<close> and \<open>cy_got\<close> list the values
  accepted into and taken out of the buffer, in order; \<open>cy_result t\<close> is the last result of
  a \<open>recv\<close> of thread \<open>t\<close>. A handle can be cloned or dropped whenever one exists, even
  while a call is in progress, which is more than the borrow rules allow; the trace of
  the race below drops the sender between calls.
\<close>

datatype 'a chan_pc = ChIdle | SCheck 'a | STry 'a | SRetry 'a | RTry | RCount

record 'a chan_sys =
  cy_ch :: "'a ChannelInner"
  cy_pc :: "nat \<Rightarrow> 'a chan_pc"
  cy_sent :: "'a list"
  cy_got :: "'a list"
  cy_result :: "nat \<Rightarrow> 'a SchedResult option"

definition chan_init :: "usize \<Rightarrow> 'a chan_sys" where
  "chan_init cap =
     \<lparr> cy_ch = channel cap, cy_pc = (\<lambda>_. ChIdle), cy_sent = [], cy_got = [],
       cy_result = (\<lambda>_. None) \<rparr>"

inductive chan_step :: "'a chan_sys \<Rightarrow> 'a chan_sys \<Rightarrow> bool" where
  call_send: "cy_pc s t = ChIdle \<Longrightarrow> sender_count (cy_ch s) > 0 \<Longrightarrow>
     chan_step s (s\<lparr> cy_pc := (cy_pc s)(t := SCheck v) \<rparr>)"
| check_closed: "cy_pc s t = SCheck v \<Longrightarrow> closed (cy_ch s) \<Longrightarrow>
     chan_step s (s\<lparr> cy_pc := (cy_pc s)(t := ChIdle) \<rparr>)"
| check_open: "cy_pc s t = SCheck v \<Longrightarrow> \<not> closed (cy_ch s) \<Longrightarrow>
     chan_step s (s\<lparr> cy_pc := (cy_pc s)(t := STry v) \<rparr>)"
| send_ok: "cy_pc s t = STry v \<or> cy_pc s t = SRetry v \<Longrightarrow>
     try_send_inner v (cy_ch s) = (Ok (), ch) \<Longrightarrow>
     chan_step s (s\<lparr> cy_ch := wake_receiver ch, cy_sent := cy_sent s @ [v],
                    cy_pc := (cy_pc s)(t := ChIdle) \<rparr>)"
| try_full: "cy_pc s t = STry v \<Longrightarrow> try_send_inner v (cy_ch s) = (Err e, ch) \<Longrightarrow>
     chan_step s (s\<lparr> cy_pc := (cy_pc s)(t := SRetry v) \<rparr>)"
| retry_full: "cy_pc s t = SRetry v \<Longrightarrow> try_send_inner v (cy_ch s) = (Err e, ch) \<Longrightarrow>
     chan_step s (s\<lparr> cy_pc := (cy_pc s)(t := SCheck v) \<rparr>)"
| call_recv: "cy_pc s t = ChIdle \<Longrightarrow> receiver_count (cy_ch s) > 0 \<Longrightarrow>
     chan_step s (s\<lparr> cy_pc := (cy_pc s)(t := RTry), cy_result := (cy_result s)(t := None) \<rparr>)"
| recv_ok: "cy_pc s t = RTry \<Longrightarrow> try_recv_inner (cy_ch s) = (Ok v, ch) \<Longrightarrow>
     chan_step s (s\<lparr> cy_ch := wake_sender ch, cy_got := cy_got s @ [v],
                    cy_result := (cy_result s)(t := Some (Ok v)),
                    cy_pc := (cy_pc s)(t := ChIdle) \<rparr>)"
| recv_empty: "cy_pc s t = RTry \<Longrightarrow> try_recv_inner (cy_ch s) = (Err e, ch) \<Longrightarrow>
     chan_step s (s\<lparr> cy_pc := (cy_pc s)(t := RCount) \<rparr>)"
| count_closed: "cy_pc s t = RCount \<Longrightarrow> sender_count (cy_ch s) = 0 \<Longrightarrow>
     chan_step s (s\<lparr> cy_result := (cy_result s)(t := Some (Err ChannelClosed)),
                    cy_pc := (cy_pc s)(t := ChIdle) \<rparr>)"
| count_open: "cy_pc s t = RCount \<Longrightarrow> sender_count (cy_ch s) > 0 \<Longrightarrow>
     chan_step s (s\<lparr> cy_pc := (cy_pc s)(t := RTry) \<rparr>)"
| new_sender: "sender_count (cy_ch s) > 0 \<Longrightarrow>
     chan_step s (s\<lparr> cy_ch := clone_sender (cy_ch s) \<rparr>)"
| del_sender: "sender_count (cy_ch s) > 0 \<Longrightarrow>
     chan_step s (s\<lparr> cy_ch := drop_sender (cy_ch s) \<rparr>)"
| new_receiver: "receiver_count (cy_ch s) > 0 \<Longrightarrow>
     chan_step s (s\<lparr> cy_ch := clone_receiver (cy_ch s) \<rparr>)"
| del_receiver: "receiver_count (cy_ch s) > 0 \<Longrightarrow>
     chan_step s (s\<lparr> cy_ch := drop_receiver (cy_ch s) \<rparr>)"

definition chan_inv :: "usize \<Rightarrow> 'a chan_sys \<Rightarrow> bool" where
  "chan_inv cap s \<longleftrightarrow>
     cy_sent s = cy_got s @ buffer (cy_ch s)
     \<and> capacity (cy_ch s) = cap \<and> length (buffer (cy_ch s)) \<le> cap
     \<and> send_waiters (cy_ch s) = [] \<and> recv_waiters (cy_ch s) = []
     \<and> (closed (cy_ch s) \<longleftrightarrow> sender_count (cy_ch s) = 0 \<or> receiver_count (cy_ch s) = 0)"

lemma chan_inv_init: "chan_inv cap (chan_init cap)"
  by (simp add: chan_inv_def chan_init_def channel_def)

lemma chan_inv_step:
  assumes "chan_step s s'" "chan_inv cap s"
  shows "chan_inv cap s'"
  using assms
  by (induction rule: chan_step.induct)
    (auto simp: chan_inv_def channel_defs split: if_splits list.splits)

lemma chan_reachable: "chan_step\<^sup>*\<^sup>* (chan_init cap) s \<Longrightarrow> chan_inv cap s"
  by (induction rule: rtranclp_induct) (auto simp: chan_inv_init intro: chan_inv_step)

section \<open>Blocking calls\<close>

lemma recv_alone:
  "recv n id ch =
     (if n = 0 then None
      else case buffer ch of
             v # vs \<Rightarrow> Some (Ok v, wake_sender (ch\<lparr> buffer := vs \<rparr>))
           | [] \<Rightarrow> if sender_count ch = 0 then Some (Err ChannelClosed, ch) else None)"
  by (induction n) (auto simp: try_recv_inner_def split: list.splits)

lemma send_alone_stuck:
  "\<not> closed ch \<Longrightarrow> capacity ch \<le> length (buffer ch) \<Longrightarrow> send n id v ch = None"
  by (induction n) (simp_all add: try_send_inner_def)

lemma send_room:
  assumes "\<not> closed ch" "capacity ch \<le> length (buffer ch)"
    and "length (buffer (env ch)) < capacity (env ch)"
  shows "send (Suc n) env v ch =
    Some (Ok (), wake_receiver ((env ch)\<lparr> buffer := buffer (env ch) @ [v] \<rparr>))"
  using assms by (simp add: try_send_inner_def)

section \<open>Properties\<close>

text \<open>
  C3: Under every interleaving of senders and receivers the values received so far,
  followed by the buffer, are exactly the values accepted so far, in order; the buffer
  never exceeds the capacity; the channel is closed exactly when one side has no handle
  left; and the waiter lists stay empty.
\<close>

theorem channel_fifo:
  assumes "chan_step\<^sup>*\<^sup>* (chan_init cap) s"
  shows "cy_sent s = cy_got s @ buffer (cy_ch s)
    \<and> length (buffer (cy_ch s)) \<le> cap
    \<and> (closed (cy_ch s) \<longleftrightarrow> sender_count (cy_ch s) = 0 \<or> receiver_count (cy_ch s) = 0)
    \<and> send_waiters (cy_ch s) = [] \<and> recv_waiters (cy_ch s) = []"
  using chan_reachable[OF assms] by (simp add: chan_inv_def)

lemma chan_trace_example:
  "chan_step\<^sup>*\<^sup>* (chan_init 1 :: nat chan_sys)
     \<lparr> cy_ch = channel 1 \<lparr> buffer := [5] \<rparr>, cy_pc = (\<lambda>_. ChIdle)(0 := ChIdle), cy_sent = [5],
       cy_got = [], cy_result = (\<lambda>_. None) \<rparr>"
proof -
  let ?st = "\<lambda>b p. \<lparr> cy_ch = channel 1 \<lparr> buffer := b \<rparr>, cy_pc = (\<lambda>_. ChIdle)(0 := p), cy_sent = b,
      cy_got = [], cy_result = (\<lambda>_. None) \<rparr> :: nat chan_sys"
  have init: "chan_init 1 = ?st [] ChIdle"
    by (simp add: chan_init_def channel_def fun_eq_iff)
  have "chan_step (?st [] ChIdle) (?st [] (SCheck 5))"
    using call_send[of "?st [] ChIdle" 0 5] by (simp add: channel_def)
  moreover have "chan_step (?st [] (SCheck 5)) (?st [] (STry 5))"
    using check_open[of "?st [] (SCheck 5)" 0 5] by (simp add: channel_def)
  moreover have "chan_step (?st [] (STry 5)) (?st [5] ChIdle)"
    using send_ok[of "?st [] (STry 5)" 0 5]
    by (simp add: channel_def try_send_inner_def wake_receiver_def)
  ultimately show ?thesis
    unfolding init by (meson converse_rtranclp_into_rtranclp rtranclp.rtrancl_refl)
qed

theorem channel_fifo_witness:
  "\<exists>s. chan_step\<^sup>*\<^sup>* (chan_init 1 :: nat chan_sys) s \<and> buffer (cy_ch s) = [5]
     \<and> cy_sent s = cy_got s @ buffer (cy_ch s)"
  using chan_trace_example channel_fifo[OF chan_trace_example]
  by (intro exI conjI) (assumption, simp_all)

text \<open>
  \<open>recv\<close> may report \<open>ChannelClosed\<close> with a message still in the buffer: the last sender
  sends and goes away between the receiver's look at the buffer and its look at the
  sender count. The documentation promises the error only for an empty buffer.
\<close>

theorem recv_closed_loses_message:
  "\<exists>s. chan_step\<^sup>*\<^sup>* (chan_init 1 :: nat chan_sys) s
     \<and> cy_result s 0 = Some (Err ChannelClosed) \<and> buffer (cy_ch s) = [42]
     \<and> cy_sent s = [42] \<and> cy_got s = []"
proof -
  let ?st = "\<lambda>b cl sc p0 p1 r.
      \<lparr> cy_ch = \<lparr> buffer = b, capacity = 1, send_waiters = [], recv_waiters = [], closed = cl,
                  sender_count = sc, receiver_count = 1 \<rparr>,
        cy_pc = (\<lambda>_. ChIdle)(1 := p1, 0 := p0), cy_sent = b, cy_got = [],
        cy_result = (\<lambda>_. None)(0 := r) \<rparr> :: nat chan_sys"
  have init: "chan_init 1 = ?st [] False 1 ChIdle ChIdle None"
    by (simp add: chan_init_def channel_def fun_eq_iff)
  have "chan_step (?st [] False 1 ChIdle ChIdle None) (?st [] False 1 RTry ChIdle None)"
    using call_recv[of "?st [] False 1 ChIdle ChIdle None" 0] by (simp add: fun_upd_twist)
  moreover have "chan_step (?st [] False 1 RTry ChIdle None) (?st [] False 1 RCount ChIdle None)"
    using recv_empty[of "?st [] False 1 RTry ChIdle None" 0 TryRecvError]
    by (simp add: try_recv_inner_def fun_upd_twist)
  moreover have "chan_step (?st [] False 1 RCount ChIdle None) (?st [] False 1 RCount (SCheck 42) None)"
    using call_send[of "?st [] False 1 RCount ChIdle None" 1 42] by (simp add: fun_upd_twist)
  moreover have "chan_step (?st [] False 1 RCount (SCheck 42) None) (?st [] False 1 RCount (STry 42) None)"
    using check_open[of "?st [] False 1 RCount (SCheck 42) None" 1 42] by (simp add: fun_upd_twist)
  moreover have "chan_step (?st [] False 1 RCount (STry 42) None) (?st [42] False 1 RCount ChIdle None)"
    using send_ok[of "?st [] False 1 RCount (STry 42) None" 1 42]
    by (simp add: try_send_inner_def wake_receiver_def fun_upd_twist)
  moreover have "chan_step (?st [42] False 1 RCount ChIdle None) (?st [42] True 0 RCount ChIdle None)"
    using del_sender[of "?st [42] False 1 RCount ChIdle None"] by (simp add: drop_sender_def)
  moreover have "chan_step (?st [42] True 0 RCount ChIdle None)
      (?st [42] True 0 ChIdle ChIdle (Some (Err ChannelClosed)))"
    using count_closed[of "?st [42] True 0 RCount ChIdle None" 0] by (simp add: fun_upd_twist)
  ultimately have "chan_step\<^sup>*\<^sup>* (chan_init 1) (?st [42] True 0 ChIdle ChIdle (Some (Err ChannelClosed)))"
    unfolding init by (meson converse_rtranclp_into_rtranclp rtranclp.rtrancl_refl)
  then show ?thesis
    by (intro exI conjI) (assumption, simp_all)
qed

text \<open>
  A receiver alone with the channel gets the oldest buffered value at once, gets
  \<open>ChannelClosed\<close> when the buffer is empty and no sender is left, and otherwise never
  returns; a sender alone with a full open channel never returns, and returns in the same
  round when the others make room while it yields.
\<close>

theorem blocking_calls:
  "recv (Suc n) id ch =
     (case buffer ch of
        v # vs \<Rightarrow> Some (Ok v, wake_sender (ch\<lparr> buffer := vs \<rparr>))
      | [] \<Rightarrow> if sender_count ch = 0 then Some (Err ChannelClosed, ch) else None)
   \<and> (\<not> closed ch \<and> capacity ch \<le> length (buffer ch) \<longrightarrow>
        (\<forall>m. send m id v ch = None)
        \<and> (length (buffer (env ch)) < capacity (env ch) \<longrightarrow>
             send (Suc n) env v ch =
               Some (Ok (), wake_receiver ((env ch)\<lparr> buffer := buffer (env ch) @ [v] \<rparr>))))"
  using recv_alone[of "Suc n" ch] send_alone_stuck[of ch] send_room[of ch env]
  by (simp del: recv.simps send.simps)

theorem blocking_calls_witness:
  "recv 1 id (channel 1 \<lparr> buffer := [7::nat] \<rparr>)
     = Some (Ok 7, wake_sender (channel 1))
   \<and> (\<forall>m. send m id 8 (channel 1 \<lparr> buffer := [7::nat] \<rparr>) = None)
   \<and> send 1 (\<lambda>_. channel 1) 8 (channel 1 \<lparr> buffer := [7::nat] \<rparr>)
     = Some (Ok (), wake_receiver (channel 1 \<lparr> buffer := [8] \<rparr>))"
  using blocking_calls[of 0 "channel 1 \<lparr> buffer := [7::nat] \<rparr>" 8 "\<lambda>_. channel 1"]
  by (simp add: channel_def del: recv.simps send.simps)

text \<open>
  Through \<open>try_send\<close> and \<open>try_recv\<close> an open channel is a bounded queue: whatever the
  order of calls, the values delivered followed by the buffer are those it held followed
  by those accepted.
\<close>

theorem channel_try_ops:
  assumes "\<not> closed ch" "length (buffer ch) \<le> capacity ch"
    and "run_fifo chan_enq chan_deq ops ch = (acc, del, ch')"
  shows "buffer ch @ acc = del @ buffer ch' \<and> length (buffer ch') \<le> capacity ch"
  using chan.run_fifo_conserves[OF assms(1,3)] chan.run_fifo_bounded[OF assms] by auto

theorem channel_try_ops_witness:
  "run_fifo chan_enq chan_deq [Put 1, Put 2, Put 3, Get, Put 4] (channel 2 :: nat ChannelInner)
     = ([1, 2, 4], [1], channel 2 \<lparr> buffer := [2, 4] \<rparr>)
   \<and> length (buffer (channel 2 \<lparr> buffer := [2, 4 :: nat] \<rparr>)) \<le> capacity (channel 2 :: nat ChannelInner)"
proof -
  have run: "run_fifo chan_enq chan_deq [Put 1, Put 2, Put 3, Get, Put 4] (channel 2 :: nat ChannelInner)
     = ([1, 2, 4], [1], channel 2 \<lparr> buffer := [2, 4] \<rparr>)"
    by (simp add: chan_enq_def chan_deq_def channel_defs channel_def)
  show ?thesis
    using run channel_try_ops[OF _ _ run] by (simp add: channel_def)
qed

end
