(* ===== verification/Locks.thy ===== *)
theory Locks
  imports Core_Types
begin

text \<open>
  The spinlock (\<open>gvthread-core/src/spinlock.rs\<close>) and the scheduler-aware mutex
  (\<open>mutex.rs\<close>). Both are one atomic flag in front of the protected data. The contract
  \<open>data_lock\<close> says what the flag operations promise; mutual exclusion and the absence of
  lost updates are proved once from it, for any number of threads, and both locks are
  shown to satisfy it.
\<close>

section \<open>SpinLock\<close>

record 'd SpinLock =
  sl_locked :: bool
  sl_data :: 'd

definition SpinLock_new :: "'d \<Rightarrow> 'd SpinLock" where
  "SpinLock_new v = \<lparr> sl_locked = False, sl_data = v \<rparr>"

text \<open>\<open>Some\<close>: the compare-exchange succeeded and the caller holds the guard.\<close>

definition SpinLock_try_lock :: "'d SpinLock \<Rightarrow> 'd SpinLock option" where
  "SpinLock_try_lock l = (if \<not> sl_locked l then Some (l\<lparr> sl_locked := True \<rparr>) else None)"

definition SpinLockGuard_drop :: "'d SpinLock \<Rightarrow> 'd SpinLock" where
  "SpinLockGuard_drop l = l\<lparr> sl_locked := False \<rparr>"

definition SpinLock_is_locked :: "'d SpinLock \<Rightarrow> bool" where
  "SpinLock_is_locked l = sl_locked l"

text \<open>
  \<open>lock\<close> spins: \<open>env\<close> is what the other threads do between two attempts. The inner
  wait loop only reads the flag, so a round is one attempt followed by \<open>env\<close>.
\<close>

fun SpinLock_lock :: "nat \<Rightarrow> ('d SpinLock \<Rightarrow> 'd SpinLock) \<Rightarrow> 'd SpinLock \<Rightarrow> 'd SpinLock option" where
  "SpinLock_lock 0 env l = None"
| "SpinLock_lock (Suc n) env l =
     (case SpinLock_try_lock l of
        Some l' \<Rightarrow> Some l'
      | None \<Rightarrow> SpinLock_lock n env (env l))"

section \<open>SchedMutex\<close>

record 'd SchedMutex =
  mx_locked :: bool
  mx_data :: 'd
  mx_waiters :: "GVThreadId list"

definition SchedMutex_new :: "'d \<Rightarrow> 'd SchedMutex" where
  "SchedMutex_new v = \<lparr> mx_locked = False, mx_data = v, mx_waiters = [] \<rparr>"

definition SchedMutex_try_lock :: "'d SchedMutex \<Rightarrow> 'd SchedMutex option" where
  "SchedMutex_try_lock m = (if \<not> mx_locked m then Some (m\<lparr> mx_locked := True \<rparr>) else None)"

fun SchedMutex_lock_slow ::
  "nat \<Rightarrow> ('d SchedMutex \<Rightarrow> 'd SchedMutex) \<Rightarrow> 'd SchedMutex \<Rightarrow> ('d SchedMutex) SchedResult option"
where
  "SchedMutex_lock_slow 0 env m = None"
| "SchedMutex_lock_slow (Suc n) env m =
     (if \<not> mx_locked m then Some (Ok (m\<lparr> mx_locked := True \<rparr>))
      else SchedMutex_lock_slow n env (env m))"

definition SchedMutex_lock ::
  "nat \<Rightarrow> ('d SchedMutex \<Rightarrow> 'd SchedMutex) \<Rightarrow> 'd SchedMutex \<Rightarrow> ('d SchedMutex) SchedResult option"
where
  "SchedMutex_lock n env m =
     (if \<not> mx_locked m then Some (Ok (m\<lparr> mx_locked := True \<rparr>))
      else SchedMutex_lock_slow n env (env m))"

definition SchedMutex_is_locked :: "'d SchedMutex \<Rightarrow> bool" where
  "SchedMutex_is_locked m = mx_locked m"

definition SchedMutex_unlock :: "'d SchedMutex \<Rightarrow> 'd SchedMutex" where
  "SchedMutex_unlock m =
     (case mx_waiters m of
        _ # ws \<Rightarrow> m\<lparr> mx_waiters := ws \<rparr>
      | [] \<Rightarrow> m\<lparr> mx_locked := False \<rparr>)"

section \<open>The interface: a lock around data\<close>

text \<open>
  The client: threads enter the critical section, read the data, write back \<open>f\<close> of what
  they read, and leave. \<open>cr_done\<close> counts the writes.
\<close>

datatype 'd crit_pc = Outside | Inside | HasRead 'd | Written

record ('s, 'd) crit_sys =
  cr_lock :: 's
  cr_pc :: "nat \<Rightarrow> 'd crit_pc"
  cr_done :: nat

inductive crit_step ::
  "('s \<Rightarrow> 's option) \<Rightarrow> ('s \<Rightarrow> 's) \<Rightarrow> ('s \<Rightarrow> 'd) \<Rightarrow> ('d \<Rightarrow> 's \<Rightarrow> 's) \<Rightarrow> ('d \<Rightarrow> 'd) \<Rightarrow>
   ('s, 'd) crit_sys \<Rightarrow> ('s, 'd) crit_sys \<Rightarrow> bool"
  for acq rel rd wr f where
  crit_enter: "cr_pc s t = Outside \<Longrightarrow> acq (cr_lock s) = Some l \<Longrightarrow>
     crit_step acq rel rd wr f s (s\<lparr> cr_lock := l, cr_pc := (cr_pc s)(t := Inside) \<rparr>)"
| crit_spin: "cr_pc s t = Outside \<Longrightarrow> crit_step acq rel rd wr f s s"
| crit_read: "cr_pc s t = Inside \<Longrightarrow>
     crit_step acq rel rd wr f s (s\<lparr> cr_pc := (cr_pc s)(t := HasRead (rd (cr_lock s))) \<rparr>)"
| crit_write: "cr_pc s t = HasRead d \<Longrightarrow>
     crit_step acq rel rd wr f s
       (s\<lparr> cr_lock := wr (f d) (cr_lock s), cr_pc := (cr_pc s)(t := Written),
          cr_done := Suc (cr_done s) \<rparr>)"
| crit_leave: "cr_pc s t = Inside \<or> cr_pc s t = Written \<Longrightarrow>
     crit_step acq rel rd wr f s
       (s\<lparr> cr_lock := rel (cr_lock s), cr_pc := (cr_pc s)(t := Outside) \<rparr>)"

definition crit_init :: "'s \<Rightarrow> ('s, 'd) crit_sys" where
  "crit_init l = \<lparr> cr_lock = l, cr_pc = (\<lambda>_. Outside), cr_done = 0 \<rparr>"

locale data_lock =
  fixes acq :: "'s \<Rightarrow> 's option"
    and rel :: "'s \<Rightarrow> 's"
    and rd :: "'s \<Rightarrow> 'd"
    and wr :: "'d \<Rightarrow> 's \<Rightarrow> 's"
    and locked :: "'s \<Rightarrow> bool"
    and inv :: "'s \<Rightarrow> bool"
  assumes acq_Some: "inv l \<Longrightarrow> acq l = Some l' \<Longrightarrow> \<not> locked l \<and> locked l' \<and> rd l' = rd l \<and> inv l'"
    and acq_None: "inv l \<Longrightarrow> acq l = None \<Longrightarrow> locked l"
    and rel_unlocks: "inv l \<Longrightarrow> \<not> locked (rel l) \<and> rd (rel l) = rd l \<and> inv (rel l)"
    and wr_sets: "inv l \<Longrightarrow> rd (wr d l) = d \<and> locked (wr d l) = locked l \<and> inv (wr d l)"
begin

definition crit_inv :: "('d \<Rightarrow> 'd) \<Rightarrow> 'd \<Rightarrow> ('s, 'd) crit_sys \<Rightarrow> bool" where
  "crit_inv f d0 s \<longleftrightarrow>
     inv (cr_lock s)
     \<and> (\<forall>t. cr_pc s t \<noteq> Outside \<longrightarrow> locked (cr_lock s))
     \<and> (\<forall>t t'. cr_pc s t \<noteq> Outside \<and> cr_pc s t' \<noteq> Outside \<longrightarrow> t = t')
     \<and> (\<forall>t d. cr_pc s t = HasRead d \<longrightarrow> d = rd (cr_lock s))
     \<and> rd (cr_lock s) = (f ^^ cr_done s) d0"

lemma crit_inv_init: "inv l \<Longrightarrow> crit_inv f (rd l) (crit_init l)"
  by (simp add: crit_inv_def crit_init_def)

lemma others_outside:
  "crit_inv f d0 s \<Longrightarrow> cr_pc s t \<noteq> Outside \<Longrightarrow> t' \<noteq> t \<Longrightarrow> cr_pc s t' = Outside"
  unfolding crit_inv_def by blast

lemma crit_inv_single:
  assumes "inv (cr_lock s)" "\<And>t'. t' \<noteq> t \<Longrightarrow> cr_pc s t' = Outside"
    and "cr_pc s t \<noteq> Outside \<longrightarrow> locked (cr_lock s)" "\<And>d. cr_pc s t = HasRead d \<Longrightarrow> d = rd (cr_lock s)"
    and "rd (cr_lock s) = (f ^^ cr_done s) d0"
  shows "crit_inv f d0 s"
proof -
  have "t' = t" if "cr_pc s t' \<noteq> Outside" for t'
    using that assms(2) by blast
  then show ?thesis
    using assms(1,3,4,5) unfolding crit_inv_def by (metis crit_pc.distinct(3))
qed

lemma crit_inv_step:
  assumes "crit_step acq rel rd wr f s s'" "crit_inv f d0 s"
  shows "crit_inv f d0 s'"
proof -
  have i: "inv (cr_lock s)" and r: "rd (cr_lock s) = (f ^^ cr_done s) d0"
    using assms(2) by (simp_all add: crit_inv_def)
  show ?thesis
    using assms(1)
  proof cases
    case (crit_enter t l)
    note a = acq_Some[OF i crit_enter(3)]
    have "\<And>t. cr_pc s t = Outside"
      using a assms(2) unfolding crit_inv_def by blast
    then show ?thesis
      using a r crit_enter(1) by (intro crit_inv_single[of _ t]) simp_all
  next
    case (crit_read t)
    then show ?thesis
      using i r others_outside[OF assms(2), of t] assms(2)
      by (intro crit_inv_single[of _ t]) (auto simp: crit_inv_def)
  next
    case (crit_write t d)
    have "d = rd (cr_lock s)" "locked (cr_lock s)"
      using assms(2) crit_write(2) unfolding crit_inv_def by (blast, metis crit_pc.distinct(3))
    then show ?thesis
      using crit_write r others_outside[OF assms(2), of t] wr_sets[OF i, of "f d"]
      by (intro crit_inv_single[of _ t]) simp_all
  next
    case (crit_leave t)
    have "\<And>t'. t' \<noteq> t \<Longrightarrow> cr_pc s t' = Outside"
      using crit_leave(2) others_outside[OF assms(2), of t] by auto
    then show ?thesis
      using crit_leave r rel_unlocks[OF i] by (intro crit_inv_single[of _ t]) simp_all
  qed (use assms(2) in simp)
qed

lemma crit_reachable:
  assumes "inv l" "(crit_step acq rel rd wr f)\<^sup>*\<^sup>* (crit_init l) s"
  shows "crit_inv f (rd l) s"
  using assms(2) by (induction rule: rtranclp_induct) (auto simp: crit_inv_init assms(1) intro: crit_inv_step)

lemma mutual_exclusion:
  assumes "inv l" "(crit_step acq rel rd wr f)\<^sup>*\<^sup>* (crit_init l) s"
  shows "(cr_pc s t \<noteq> Outside \<and> cr_pc s t' \<noteq> Outside \<longrightarrow> t = t')
    \<and> rd (cr_lock s) = (f ^^ cr_done s) (rd l)"
  using crit_reachable[OF assms] unfolding crit_inv_def by blast

end

interpretation spin: data_lock SpinLock_try_lock SpinLockGuard_drop sl_data
    "\<lambda>d l. l\<lparr> sl_data := d \<rparr>" sl_locked "\<lambda>_. True"
  by unfold_locales (auto simp: SpinLock_try_lock_def SpinLockGuard_drop_def split: if_splits)

interpretation smutex: data_lock SchedMutex_try_lock SchedMutex_unlock mx_data
    "\<lambda>d m. m\<lparr> mx_data := d \<rparr>" mx_locked "\<lambda>m. mx_waiters m = []"
  by unfold_locales (auto simp: SchedMutex_try_lock_def SchedMutex_unlock_def split: if_splits)

section \<open>Acquisition in rounds\<close>

lemma lock_slow_returns:
  assumes "\<not> mx_locked ((env ^^ k) m)" "\<forall>j<k. mx_locked ((env ^^ j) m)"
  shows "SchedMutex_lock_slow (Suc k) env m = Some (Ok (((env ^^ k) m)\<lparr> mx_locked := True \<rparr>))"
  using assms
proof (induction k arbitrary: m)
  case 0
  then show ?case by simp
next
  case (Suc k)
  have "mx_locked m" using Suc.prems(2) by auto
  moreover have "\<forall>j<k. mx_locked ((env ^^ j) (env m))"
    using Suc.prems(2) by (metis Suc_less_eq funpow_swap1 funpow_simps_right(2) comp_apply)
  ultimately show ?case
    using Suc.IH[of "env m"] Suc.prems(1) by (simp add: funpow_swap1)
qed

lemma spin_lock_returns:
  assumes "\<not> sl_locked ((env ^^ k) l)" "\<forall>j<k. sl_locked ((env ^^ j) l)"
  shows "SpinLock_lock (Suc k) env l = Some (((env ^^ k) l)\<lparr> sl_locked := True \<rparr>)"
  using assms
proof (induction k arbitrary: l)
  case 0
  then show ?case by (simp add: SpinLock_try_lock_def)
next
  case (Suc k)
  have "sl_locked l" using Suc.prems(2) by auto
  moreover have "\<forall>j<k. sl_locked ((env ^^ j) (env l))"
    using Suc.prems(2) by (metis Suc_less_eq funpow_swap1 funpow_simps_right(2) comp_apply)
  ultimately show ?case
    using Suc.IH[of "env l"] Suc.prems(1) by (simp add: funpow_swap1 SpinLock_try_lock_def)
qed

section \<open>Properties\<close>

text \<open>
  C6: With any number of threads running read-modify-write sections under a \<open>SchedMutex\<close>,
  at most one is inside at a time and no update is lost: the data is the initial value
  with the update applied once per completed write.
\<close>

theorem mutex_no_lost_update:
  assumes "(crit_step SchedMutex_try_lock SchedMutex_unlock mx_data (\<lambda>d m. m\<lparr> mx_data := d \<rparr>) f)\<^sup>*\<^sup>*
    (crit_init (SchedMutex_new d0)) s"
  shows "(cr_pc s t \<noteq> Outside \<and> cr_pc s t' \<noteq> Outside \<longrightarrow> t = t')
    \<and> mx_data (cr_lock s) = (f ^^ cr_done s) d0"
  using smutex.mutual_exclusion[OF _ assms] by (simp add: SchedMutex_new_def)

lemma mutex_trace_example:
  "(crit_step SchedMutex_try_lock SchedMutex_unlock mx_data (\<lambda>d m. m\<lparr> mx_data := d \<rparr>) Suc)\<^sup>*\<^sup>*
    (crit_init (SchedMutex_new 3))
    \<lparr> cr_lock = SchedMutex_new 4, cr_pc = (\<lambda>_. Outside)(0 := Outside), cr_done = 1 \<rparr>"
proof -
  let ?step = "crit_step SchedMutex_try_lock SchedMutex_unlock mx_data (\<lambda>d m. m\<lparr> mx_data := d \<rparr>) Suc"
  let ?st = "\<lambda>l d p n. \<lparr> cr_lock = \<lparr> mx_locked = l, mx_data = d, mx_waiters = [] \<rparr>,
      cr_pc = (\<lambda>_. Outside)(0 := p), cr_done = n \<rparr> :: (nat SchedMutex, nat) crit_sys"
  have "?step (?st False 3 Outside 0) (?st True 3 Inside 0)"
    using crit_enter[of "?st False 3 Outside 0" 0] by (simp add: SchedMutex_try_lock_def)
  moreover have "?step (?st True 3 Inside 0) (?st True 3 (HasRead 3) 0)"
    using crit_read[of "?st True 3 Inside 0" 0 SchedMutex_try_lock SchedMutex_unlock mx_data] by simp
  moreover have "?step (?st True 3 (HasRead 3) 0) (?st True 4 Written 1)"
    using crit_write[of "?st True 3 (HasRead 3) 0" 0 3 SchedMutex_try_lock SchedMutex_unlock mx_data
        "\<lambda>d m. m\<lparr> mx_data := d \<rparr>" Suc] by simp
  moreover have "?step (?st True 4 Written 1) (?st False 4 Outside 1)"
    using crit_leave[of "?st True 4 Written 1" 0 SchedMutex_try_lock SchedMutex_unlock]
    by (simp add: SchedMutex_unlock_def)
  ultimately have "?step\<^sup>*\<^sup>* (?st False 3 Outside 0) (?st False 4 Outside 1)"
    by (meson converse_rtranclp_into_rtranclp rtranclp.rtrancl_refl)
  then show ?thesis
    by (simp add: crit_init_def SchedMutex_new_def fun_upd_idem)
qed

theorem mutex_no_lost_update_witness:
  "\<exists>s. (crit_step SchedMutex_try_lock SchedMutex_unlock mx_data (\<lambda>d m. m\<lparr> mx_data := d \<rparr>) Suc)\<^sup>*\<^sup>*
     (crit_init (SchedMutex_new 3)) s \<and> cr_done s = 1 \<and> mx_data (cr_lock s) = (Suc ^^ 1) 3"
  using mutex_trace_example mutex_no_lost_update[OF mutex_trace_example, of 0 0]
  by (intro exI conjI) (assumption, simp_all)

text \<open>
  The same for the spinlock: no two threads hold its guard and no update of the
  protected data is lost.
\<close>

theorem spinlock_no_lost_update:
  assumes "(crit_step SpinLock_try_lock SpinLockGuard_drop sl_data (\<lambda>d l. l\<lparr> sl_data := d \<rparr>) f)\<^sup>*\<^sup>*
    (crit_init (SpinLock_new d0)) s"
  shows "(cr_pc s t \<noteq> Outside \<and> cr_pc s t' \<noteq> Outside \<longrightarrow> t = t')
    \<and> sl_data (cr_lock s) = (f ^^ cr_done s) d0"
  using spin.mutual_exclusion[OF _ assms] by (simp add: SpinLock_new_def)

lemma spin_trace_example:
  "(crit_step SpinLock_try_lock SpinLockGuard_drop sl_data (\<lambda>d l. l\<lparr> sl_data := d \<rparr>) f)\<^sup>*\<^sup>*
    (crit_init (SpinLock_new d))
    \<lparr> cr_lock = \<lparr> sl_locked = True, sl_data = d \<rparr>, cr_pc = (\<lambda>_. Outside)(0 := Inside), cr_done = 0 \<rparr>"
  using crit_enter[of "crit_init (SpinLock_new d)" 0 SpinLock_try_lock _ SpinLockGuard_drop sl_data
      "\<lambda>d l. l\<lparr> sl_data := d \<rparr>" f]
  by (intro r_into_rtranclp) (simp add: crit_init_def SpinLock_new_def SpinLock_try_lock_def)

theorem spinlock_no_lost_update_witness:
  "\<exists>s. (crit_step SpinLock_try_lock SpinLockGuard_drop sl_data (\<lambda>d l. l\<lparr> sl_data := d \<rparr>) Suc)\<^sup>*\<^sup>*
     (crit_init (SpinLock_new 3)) s \<and> cr_pc s 0 = Inside \<and> cr_pc s 1 = Outside"
  using spin_trace_example[of Suc 3] spinlock_no_lost_update[OF spin_trace_example[of Suc 3], of 0 1]
  by (intro exI conjI) (assumption, simp_all)

text \<open>
  \<open>lock\<close> of the mutex never fails and returns, holding the lock, in the first round in
  which the other threads have left it free; a spinlock does the same.
\<close>

theorem lock_returns_when_free:
  assumes "mx_locked m" "\<forall>j<k. mx_locked ((env ^^ j) (env m))" "\<not> mx_locked ((env ^^ k) (env m))"
    and "\<forall>j<k. sl_locked ((env' ^^ j) l)" "\<not> sl_locked ((env' ^^ k) l)"
  shows "SchedMutex_lock (Suc k) env m = Some (Ok (((env ^^ k) (env m))\<lparr> mx_locked := True \<rparr>))
    \<and> SpinLock_lock (Suc k) env' l = Some (((env' ^^ k) l)\<lparr> sl_locked := True \<rparr>)"
  using lock_slow_returns[OF assms(3,2)] spin_lock_returns[OF assms(5,4)] assms(1)
  by (simp add: SchedMutex_lock_def del: SchedMutex_lock_slow.simps SpinLock_lock.simps)

theorem lock_returns_when_free_witness:
  "SchedMutex_lock 1 SchedMutex_unlock (SchedMutex_new 5 \<lparr> mx_locked := True \<rparr>)
     = Some (Ok (SchedMutex_new 5 \<lparr> mx_locked := True \<rparr>))
   \<and> SpinLock_lock 1 id (SpinLock_new 6) = Some (SpinLock_new 6 \<lparr> sl_locked := True \<rparr>)"
  using lock_returns_when_free[of "SchedMutex_new 5 \<lparr> mx_locked := True \<rparr>" 0 SchedMutex_unlock
      id "SpinLock_new 6"]
  by (simp add: SchedMutex_new_def SchedMutex_unlock_def SpinLock_new_def
      del: SpinLock_lock.simps)

end
