(* ===== verification/Cancel.thy ===== *)
theory Cancel
  imports Core_Types "HOL-Library.Monad_Syntax"
begin

text \<open>
  Cancellation tokens (\<open>gvthread-core/src/cancel.rs\<close>). A token is a reference: to a
  heap-allocated flag with an optional parent token, to the cancelled byte of a thread's
  metadata, or to nothing. The store holds what the references point to.
\<close>

section \<open>Tokens and operations\<close>

datatype CancellationToken = Owned nat | Metadata nat | Dummy

record OwnedCancellation =
  oc_cancelled :: bool
  oc_parent :: "CancellationToken option"

record cancel_store =
  st_arcs :: "OwnedCancellation list"
  st_meta :: "nat \<Rightarrow> u8"

definition token_new :: "cancel_store \<Rightarrow> CancellationToken \<times> cancel_store" where
  "token_new st =
     (Owned (length (st_arcs st)),
      st\<lparr> st_arcs := st_arcs st @ [\<lparr> oc_cancelled = False, oc_parent = None \<rparr>] \<rparr>)"

definition token_from_metadata :: "nat \<Rightarrow> CancellationToken" where
  "token_from_metadata addr = Metadata addr"

definition token_dummy :: CancellationToken where
  "token_dummy = Dummy"

definition token_child :: "CancellationToken \<Rightarrow> cancel_store \<Rightarrow> CancellationToken \<times> cancel_store" where
  "token_child tok st =
     (Owned (length (st_arcs st)),
      st\<lparr> st_arcs := st_arcs st @ [\<lparr> oc_cancelled = False, oc_parent = Some tok \<rparr>] \<rparr>)"

text \<open>The walk up the parent chain; \<open>None\<close> stands for a walk that never ends.\<close>

partial_function (option) is_cancelled :: "cancel_store \<Rightarrow> CancellationToken \<Rightarrow> bool option" where
  "is_cancelled st tok =
     (case tok of
        Owned a \<Rightarrow>
          if oc_cancelled (st_arcs st ! a) then Some True
          else (case oc_parent (st_arcs st ! a) of
                  Some parent \<Rightarrow> is_cancelled st parent
                | None \<Rightarrow> Some False)
      | Metadata p \<Rightarrow> Some (st_meta st p \<noteq> 0)
      | Dummy \<Rightarrow> Some False)"

declare is_cancelled.simps [code]

definition token_cancel :: "CancellationToken \<Rightarrow> cancel_store \<Rightarrow> cancel_store" where
  "token_cancel tok st =
     (case tok of
        Owned a \<Rightarrow> st\<lparr> st_arcs := (st_arcs st)[a := (st_arcs st ! a)\<lparr> oc_cancelled := True \<rparr>] \<rparr>
      | Metadata p \<Rightarrow> st\<lparr> st_meta := (st_meta st)(p := 1) \<rparr>
      | Dummy \<Rightarrow> st)"

definition token_check :: "cancel_store \<Rightarrow> CancellationToken \<Rightarrow> unit SchedResult option" where
  "token_check st tok =
     do { c \<leftarrow> is_cancelled st tok; Some (if c then Err SchedCancelled else Ok ()) }"

definition token_check_and_yield :: "cancel_store \<Rightarrow> CancellationToken \<Rightarrow> unit SchedResult option" where
  "token_check_and_yield st tok = token_check st tok"

definition token_reset :: "CancellationToken \<Rightarrow> cancel_store \<Rightarrow> cancel_store" where
  "token_reset tok st =
     (case tok of
        Owned a \<Rightarrow> st\<lparr> st_arcs := (st_arcs st)[a := (st_arcs st ! a)\<lparr> oc_cancelled := False \<rparr>] \<rparr>
      | Metadata p \<Rightarrow> st\<lparr> st_meta := (st_meta st)(p := 0) \<rparr>
      | Dummy \<Rightarrow> st)"

section \<open>Well-formed stores and ancestors\<close>

text \<open>A parent exists when its child is created: it lies further down in the store.\<close>

fun token_below :: "nat \<Rightarrow> CancellationToken \<Rightarrow> bool" where
  "token_below n (Owned a) = (a < n)"
| "token_below n _ = True"

definition store_inv :: "cancel_store \<Rightarrow> bool" where
  "store_inv st \<longleftrightarrow>
     (\<forall>a<length (st_arcs st). \<forall>p. oc_parent (st_arcs st ! a) = Some p \<longrightarrow> token_below a p)"

abbreviation valid_token :: "cancel_store \<Rightarrow> CancellationToken \<Rightarrow> bool" where
  "valid_token st \<equiv> token_below (length (st_arcs st))"

inductive is_ancestor :: "cancel_store \<Rightarrow> CancellationToken \<Rightarrow> CancellationToken \<Rightarrow> bool" for st where
  anc_self: "is_ancestor st tok tok"
| anc_parent: "oc_parent (st_arcs st ! a) = Some p \<Longrightarrow> is_ancestor st q p \<Longrightarrow> is_ancestor st q (Owned a)"

inductive_simps anc_Owned: "is_ancestor st q (Owned a)"
inductive_simps anc_Metadata: "is_ancestor st q (Metadata p)"
inductive_simps anc_Dummy: "is_ancestor st q Dummy"

fun own_flag :: "cancel_store \<Rightarrow> CancellationToken \<Rightarrow> bool" where
  "own_flag st (Owned a) = oc_cancelled (st_arcs st ! a)"
| "own_flag st (Metadata p) = (st_meta st p \<noteq> 0)"
| "own_flag st Dummy = False"

lemma is_cancelled_ancestors:
  assumes "store_inv st" "valid_token st tok"
  shows "is_cancelled st tok = Some (\<exists>q. is_ancestor st q tok \<and> own_flag st q)"
proof (cases tok)
  case (Owned a)
  have "a < length (st_arcs st) \<Longrightarrow>
    is_cancelled st (Owned a) = Some (\<exists>q. is_ancestor st q (Owned a) \<and> own_flag st q)" for a
  proof (induction a rule: less_induct)
    case (less a)
    show ?case
    proof (cases "oc_cancelled (st_arcs st ! a)")
      case True
      then show ?thesis
        by (subst is_cancelled.simps) (auto intro: anc_self exI[of _ "Owned a"])
    next
      case False
      show ?thesis
      proof (cases "oc_parent (st_arcs st ! a)")
        case None
        with False show ?thesis
          by (subst is_cancelled.simps) (auto simp: anc_Owned)
      next
        case (Some p)
        then have below: "token_below a p"
          using assms(1) less.prems by (simp add: store_inv_def)
        have "is_cancelled st p = Some (\<exists>q. is_ancestor st q p \<and> own_flag st q)"
        proof (cases p)
          case (Owned b)
          then show ?thesis using less.IH[of b] below less.prems by simp
        qed (subst is_cancelled.simps, auto simp: anc_Metadata anc_Dummy)+
        moreover have "is_ancestor st q (Owned a) \<longleftrightarrow> q = Owned a \<or> is_ancestor st q p" for q
          using Some by (auto simp: anc_Owned)
        ultimately show ?thesis
          using False Some by (subst is_cancelled.simps) auto
      qed
    qed
  qed
  then show ?thesis
    using assms(2) Owned by simp
qed (subst is_cancelled.simps, auto simp: anc_Metadata anc_Dummy)+

lemma store_inv_child [gv_wf]:
  "store_inv st \<Longrightarrow> valid_token st tok \<Longrightarrow> store_inv (snd (token_child tok st))"
  by (auto simp: store_inv_def token_child_def nth_append less_Suc_eq)

lemma store_inv_new [gv_wf]: "store_inv st \<Longrightarrow> store_inv (snd (token_new st))"
  by (auto simp: store_inv_def token_new_def nth_append less_Suc_eq)

lemma oc_parent_update:
  "oc_parent ((st_arcs st)[a := (st_arcs st ! a)\<lparr> oc_cancelled := v \<rparr>] ! b) = oc_parent (st_arcs st ! b)"
  by (cases "a = b"; cases "b < length (st_arcs st)") (simp_all add: list_update_beyond)

lemma parent_cancel [simp]: "oc_parent (st_arcs (token_cancel tok st) ! b) = oc_parent (st_arcs st ! b)"
  by (simp add: token_cancel_def oc_parent_update split: CancellationToken.split)

lemma length_cancel [simp]: "length (st_arcs (token_cancel tok st)) = length (st_arcs st)"
  by (simp add: token_cancel_def split: CancellationToken.split)

lemma store_inv_cancel [gv_wf]: "store_inv st \<Longrightarrow> store_inv (token_cancel tok st)"
  by (simp add: store_inv_def)

lemma is_ancestor_cancel: "is_ancestor (token_cancel tok st) q c \<longleftrightarrow> is_ancestor st q c"
proof
  assume "is_ancestor (token_cancel tok st) q c"
  then show "is_ancestor st q c"
    by induction (auto intro: is_ancestor.intros)
next
  assume "is_ancestor st q c"
  then show "is_ancestor (token_cancel tok st) q c"
    by induction (auto intro: is_ancestor.intros)
qed

lemma own_flag_cancel:
  "valid_token st tok \<Longrightarrow> own_flag (token_cancel tok st) q \<longleftrightarrow> own_flag st q \<or> (q = tok \<and> tok \<noteq> Dummy)"
  by (cases q; cases tok) (auto simp: token_cancel_def nth_list_update split: if_splits)

section \<open>Properties\<close>

text \<open>
  C28: On every store the operations build, checking a token terminates and reports exactly
  whether the token or one of its ancestors was cancelled; cancelling a token is seen by
  it and all its descendants, and by no other token.
\<close>

theorem cancel_propagation:
  assumes "store_inv st" "valid_token st tok" "valid_token st c" "tok \<noteq> Dummy"
  shows "\<exists>b. is_cancelled st c = Some b
    \<and> b = (\<exists>q. is_ancestor st q c \<and> own_flag st q)
    \<and> is_cancelled (token_cancel tok st) c = Some (b \<or> is_ancestor st tok c)
    \<and> token_check (token_cancel tok st) c =
        Some (if b \<or> is_ancestor st tok c then Err SchedCancelled else Ok ())"
proof -
  let ?b = "\<exists>q. is_ancestor st q c \<and> own_flag st q"
  have "is_cancelled st c = Some ?b"
    by (rule is_cancelled_ancestors[OF assms(1,3)])
  moreover have "is_cancelled (token_cancel tok st) c = Some (?b \<or> is_ancestor st tok c)"
    using is_cancelled_ancestors[OF store_inv_cancel[OF assms(1), of tok], of c] assms(3,4)
      own_flag_cancel[OF assms(2)] by (auto simp: is_ancestor_cancel)
  ultimately show ?thesis
    by (simp add: token_check_def)
qed

theorem cancel_propagation_witness:
  "let (p, st1) = token_new \<lparr> st_arcs = [], st_meta = (\<lambda>_. 0) \<rparr>; (c, st2) = token_child p st1 in
     is_cancelled st2 c = Some False
     \<and> is_cancelled (token_cancel p st2) c = Some True
     \<and> is_cancelled (token_cancel c st2) p = Some False"
proof -
  let ?st = "\<lparr> st_arcs = [\<lparr> oc_cancelled = False, oc_parent = None \<rparr>,
      \<lparr> oc_cancelled = False, oc_parent = Some (Owned 0) \<rparr>], st_meta = (\<lambda>_. 0) \<rparr>"
  have inv: "store_inv ?st"
    by (auto simp: store_inv_def less_Suc_eq nth_Cons')
  have "is_ancestor ?st (Owned 0) (Owned 1)"
    by (auto simp: anc_Owned intro: anc_self)
  moreover have "\<not> is_ancestor ?st (Owned 1) (Owned 0)"
    by (simp add: anc_Owned)
  moreover have "is_cancelled ?st (Owned 1) = Some False" "is_cancelled ?st (Owned 0) = Some False"
    by (simp_all add: is_cancelled.simps)
  ultimately show ?thesis
    using cancel_propagation[OF inv, of "Owned 0" "Owned 1"]
      cancel_propagation[OF inv, of "Owned 1" "Owned 0"]
    by (auto simp: token_new_def token_child_def Let_def)
qed

end
