(* ===== verification/Ready_Queue.thy ===== *)
theory Ready_Queue
  imports Core_Types Fifo
begin

text \<open>
  The ready queue of \<open>gvthread-runtime/src/ready_queue/simple.rs\<close>: a bounded local queue
  per worker, a global queue, and stealing from random victims. The trait \<open>ReadyQueue\<close>
  is the contract \<open>ready_bag\<close>: pushing adds one entry and popping takes one out, so no
  thread is lost or duplicated on the way through the queues.
\<close>

section \<open>Local queues\<close>

definition LOCAL_CAPACITY :: usize where
  "LOCAL_CAPACITY = 256"

definition GLOBAL_CHECK_INTERVAL :: u32 where
  "GLOBAL_CHECK_INTERVAL = 61"

text \<open>\<open>lq_len\<close> is the atomic copy of the length that is read without the lock.\<close>

record LocalQueue =
  lq_queue :: "u32 list"
  lq_len :: usize

definition LocalQueue_new :: LocalQueue where
  "LocalQueue_new = \<lparr> lq_queue = [], lq_len = 0 \<rparr>"

definition LocalQueue_push :: "u32 \<Rightarrow> LocalQueue \<Rightarrow> bool \<times> LocalQueue" where
  "LocalQueue_push i lq =
     (if length (lq_queue lq) \<ge> LOCAL_CAPACITY then (False, lq)
      else let q = lq_queue lq @ [i] in (True, lq\<lparr> lq_queue := q, lq_len := length q \<rparr>))"

definition LocalQueue_pop :: "LocalQueue \<Rightarrow> u32 option \<times> LocalQueue" where
  "LocalQueue_pop lq =
     (if lq_len lq = 0 then (None, lq)
      else case lq_queue lq of
             [] \<Rightarrow> (None, lq\<lparr> lq_len := 0 \<rparr>)
           | i # q \<Rightarrow> (Some i, lq\<lparr> lq_queue := q, lq_len := length q \<rparr>))"

definition steal_half :: "LocalQueue \<Rightarrow> u32 list \<times> LocalQueue" where
  "steal_half lq =
     (if lq_len lq = 0 then ([], lq)
      else let n = length (lq_queue lq) div 2 in
        if n = 0 then ([], lq)
        else let q = drop n (lq_queue lq) in
          (take n (lq_queue lq), lq\<lparr> lq_queue := q, lq_len := length q \<rparr>))"

definition LocalQueue_len :: "LocalQueue \<Rightarrow> usize" where
  "LocalQueue_len lq = lq_len lq"

section \<open>Global queue\<close>

text \<open>\<open>gq_notified\<close> counts the condition-variable notifications sent to parked workers.\<close>

record GlobalQueue =
  gq_queue :: "u32 list"
  gq_len :: usize
  gq_parked :: usize
  gq_notified :: nat

definition GlobalQueue_new :: GlobalQueue where
  "GlobalQueue_new = \<lparr> gq_queue = [], gq_len = 0, gq_parked = 0, gq_notified = 0 \<rparr>"

definition GlobalQueue_wake_one :: "GlobalQueue \<Rightarrow> GlobalQueue" where
  "GlobalQueue_wake_one gq = gq\<lparr> gq_notified := gq_notified gq + 1 \<rparr>"

definition GlobalQueue_push :: "u32 \<Rightarrow> GlobalQueue \<Rightarrow> GlobalQueue" where
  "GlobalQueue_push i gq =
     (let q = gq_queue gq @ [i]; gq1 = gq\<lparr> gq_queue := q, gq_len := length q \<rparr> in
      if gq_parked gq1 > 0 then GlobalQueue_wake_one gq1 else gq1)"

definition GlobalQueue_pop :: "GlobalQueue \<Rightarrow> u32 option \<times> GlobalQueue" where
  "GlobalQueue_pop gq =
     (if gq_len gq = 0 then (None, gq)
      else case gq_queue gq of
             [] \<Rightarrow> (None, gq\<lparr> gq_len := 0 \<rparr>)
           | i # q \<Rightarrow> (Some i, gq\<lparr> gq_queue := q, gq_len := length q \<rparr>))"

definition pop_batch :: "usize \<Rightarrow> GlobalQueue \<Rightarrow> u32 list \<times> GlobalQueue" where
  "pop_batch mx gq =
     (if gq_len gq = 0 then ([], gq)
      else let n = min (length (gq_queue gq)) mx; q = drop n (gq_queue gq) in
        (take n (gq_queue gq), gq\<lparr> gq_queue := q, gq_len := length q \<rparr>))"

text \<open>
  \<open>park\<close> registers, waits only if the queue is empty under the lock, and deregisters; the
  state change of the wait itself is made by other threads and is the parameter \<open>env\<close>.
\<close>

definition GlobalQueue_park :: "(GlobalQueue \<Rightarrow> GlobalQueue) \<Rightarrow> GlobalQueue \<Rightarrow> GlobalQueue" where
  "GlobalQueue_park env gq =
     (let gq1 = gq\<lparr> gq_parked := gq_parked gq + 1 \<rparr>;
          gq2 = (if gq_queue gq1 = [] then env gq1 else gq1)
      in gq2\<lparr> gq_parked := gq_parked gq2 - 1 \<rparr>)"

definition GlobalQueue_len :: "GlobalQueue \<Rightarrow> usize" where
  "GlobalQueue_len gq = gq_len gq"

definition parked_count :: "GlobalQueue \<Rightarrow> usize" where
  "parked_count gq = gq_parked gq"

section \<open>SimpleQueue\<close>

record SimpleQueue =
  sq_local :: "LocalQueue list"
  sq_global :: GlobalQueue
  sq_num_workers :: usize
  sq_counters :: "u64 list"
  sq_rng :: "u64 list"
  sq_initialized :: bool

definition SimpleQueue_new :: SimpleQueue where
  "SimpleQueue_new =
     \<lparr> sq_local = [], sq_global = GlobalQueue_new, sq_num_workers = 0, sq_counters = [],
       sq_rng = [], sq_initialized = False \<rparr>"

definition SimpleQueue_init :: "usize \<Rightarrow> SimpleQueue \<Rightarrow> SimpleQueue" where
  "SimpleQueue_init num_workers sq =
     (if sq_initialized sq then sq
      else sq\<lparr> sq_initialized := True,
               sq_local := map (\<lambda>_. LocalQueue_new) [0..<num_workers],
               sq_counters := map (\<lambda>_. 0) [0..<num_workers],
               sq_rng := map (\<lambda>i. of_nat i * 2654435761 + 1) [0..<num_workers],
               sq_num_workers := num_workers \<rparr>)"

definition random_victim :: "nat \<Rightarrow> SimpleQueue \<Rightarrow> nat \<times> SimpleQueue" where
  "random_victim w sq =
     (if sq_num_workers sq \<le> 1 then (0, sq)
      else let new = (sq_rng sq ! w) * 1103515245 + 12345 in
        (unat new mod sq_num_workers sq, sq\<lparr> sq_rng := (sq_rng sq)[w := new] \<rparr>))"

fun keep_stolen :: "nat \<Rightarrow> u32 list \<Rightarrow> SimpleQueue \<Rightarrow> SimpleQueue" where
  "keep_stolen w [] sq = sq"
| "keep_stolen w (i # is) sq =
     (case LocalQueue_push i (sq_local sq ! w) of
        (True, lq) \<Rightarrow> keep_stolen w is (sq\<lparr> sq_local := (sq_local sq)[w := lq] \<rparr>)
      | (False, _) \<Rightarrow> keep_stolen w is (sq\<lparr> sq_global := GlobalQueue_push i (sq_global sq) \<rparr>))"

fun steal_tries :: "nat \<Rightarrow> nat \<Rightarrow> SimpleQueue \<Rightarrow> u32 option \<times> SimpleQueue" where
  "steal_tries 0 w sq = (None, sq)"
| "steal_tries (Suc n) w sq =
     (case random_victim w sq of
        (victim, sq1) \<Rightarrow>
          if victim = w then steal_tries n w sq1
          else case steal_half (sq_local sq1 ! victim) of
                 ([], lq) \<Rightarrow> steal_tries n w (sq1\<lparr> sq_local := (sq_local sq1)[victim := lq] \<rparr>)
               | (i # is, lq) \<Rightarrow>
                   (Some i, keep_stolen w is (sq1\<lparr> sq_local := (sq_local sq1)[victim := lq] \<rparr>)))"

definition try_steal :: "nat \<Rightarrow> SimpleQueue \<Rightarrow> u32 option \<times> SimpleQueue" where
  "try_steal w sq = steal_tries (min (sq_num_workers sq) 4) w sq"

fun keep_batch :: "nat \<Rightarrow> u32 list \<Rightarrow> SimpleQueue \<Rightarrow> SimpleQueue" where
  "keep_batch w [] sq = sq"
| "keep_batch w (i # is) sq =
     keep_batch w is
       (sq\<lparr> sq_local := (sq_local sq)[w := snd (LocalQueue_push i (sq_local sq ! w))] \<rparr>)"

definition notify_parked :: "GlobalQueue \<Rightarrow> GlobalQueue" where
  "notify_parked gq = (if parked_count gq > 0 then GlobalQueue_wake_one gq else gq)"

definition rq_push_global :: "u32 \<Rightarrow> SimpleQueue \<Rightarrow> SimpleQueue" where
  "rq_push_global i sq = sq\<lparr> sq_global := notify_parked (GlobalQueue_push i (sq_global sq)) \<rparr>"

definition rq_push :: "GVThreadId \<Rightarrow> Priority \<Rightarrow> nat option \<Rightarrow> SimpleQueue \<Rightarrow> SimpleQueue" where
  "rq_push i pr hint sq =
     (case hint of
        Some w \<Rightarrow>
          if w < sq_num_workers sq \<and> fst (LocalQueue_push i (sq_local sq ! w)) then
            sq\<lparr> sq_local := (sq_local sq)[w := snd (LocalQueue_push i (sq_local sq ! w))],
                sq_global := notify_parked (sq_global sq) \<rparr>
          else rq_push_global i sq
      | None \<Rightarrow> rq_push_global i sq)"

definition rq_pop_tail :: "nat \<Rightarrow> SimpleQueue \<Rightarrow> u32 option \<times> SimpleQueue" where
  "rq_pop_tail w sq =
     (case LocalQueue_pop (sq_local sq ! w) of
        (Some i, lq) \<Rightarrow> (Some i, sq\<lparr> sq_local := (sq_local sq)[w := lq] \<rparr>)
      | (None, lq) \<Rightarrow>
          let sq1 = sq\<lparr> sq_local := (sq_local sq)[w := lq] \<rparr> in
          case GlobalQueue_pop (sq_global sq1) of
            (Some i, gq) \<Rightarrow>
              (case pop_batch (LOCAL_CAPACITY div 2) gq of
                 (batch, gq1) \<Rightarrow> (Some i, keep_batch w batch (sq1\<lparr> sq_global := gq1 \<rparr>)))
          | (None, gq) \<Rightarrow> try_steal w (sq1\<lparr> sq_global := gq \<rparr>))"

definition rq_pop :: "nat \<Rightarrow> SimpleQueue \<Rightarrow> (GVThreadId \<times> Priority) option \<times> SimpleQueue" where
  "rq_pop w sq =
     (if w \<ge> sq_num_workers sq then (None, sq)
      else
        let cnt = ucast (sq_counters sq ! w) :: u32;
            sq1 = sq\<lparr> sq_counters := (sq_counters sq)[w := sq_counters sq ! w + 1] \<rparr>;
            (r, sq2) =
              (if cnt mod GLOBAL_CHECK_INTERVAL = 0 then
                 case GlobalQueue_pop (sq_global sq1) of
                   (Some i, gq) \<Rightarrow> (Some i, sq1\<lparr> sq_global := gq \<rparr>)
                 | (None, gq) \<Rightarrow> rq_pop_tail w (sq1\<lparr> sq_global := gq \<rparr>)
               else rq_pop_tail w sq1)
        in (map_option (\<lambda>i. (i, Normal)) r, sq2))"

definition rq_park :: "(GlobalQueue \<Rightarrow> GlobalQueue) \<Rightarrow> SimpleQueue \<Rightarrow> SimpleQueue" where
  "rq_park env sq = sq\<lparr> sq_global := GlobalQueue_park env (sq_global sq) \<rparr>"

definition rq_wake_one :: "SimpleQueue \<Rightarrow> SimpleQueue" where
  "rq_wake_one sq = sq\<lparr> sq_global := GlobalQueue_wake_one (sq_global sq) \<rparr>"

definition rq_wake_all :: "SimpleQueue \<Rightarrow> SimpleQueue" where
  "rq_wake_all sq =
     sq\<lparr> sq_global := (sq_global sq)\<lparr> gq_notified := gq_notified (sq_global sq) + gq_parked (sq_global sq) \<rparr> \<rparr>"

definition rq_len :: "SimpleQueue \<Rightarrow> usize" where
  "rq_len sq = fold (\<lambda>lq total. total + LocalQueue_len lq) (sq_local sq) (GlobalQueue_len (sq_global sq))"

section \<open>Local queues as bounded fifos\<close>

definition lq_inv :: "LocalQueue \<Rightarrow> bool" where
  "lq_inv lq \<longleftrightarrow> lq_len lq = length (lq_queue lq) \<and> length (lq_queue lq) \<le> LOCAL_CAPACITY"

definition lq_enq :: "u32 \<Rightarrow> LocalQueue \<Rightarrow> LocalQueue option" where
  "lq_enq i lq = (case LocalQueue_push i lq of (True, lq') \<Rightarrow> Some lq' | (False, _) \<Rightarrow> None)"

definition lq_deq :: "LocalQueue \<Rightarrow> (u32 \<times> LocalQueue) option" where
  "lq_deq lq = (case LocalQueue_pop lq of (Some i, lq') \<Rightarrow> Some (i, lq') | (None, _) \<Rightarrow> None)"

lemmas lq_defs = LocalQueue_push_def LocalQueue_pop_def lq_enq_def lq_deq_def Let_def

interpretation lq: bounded_fifo lq_enq lq_deq lq_queue "\<lambda>_. LOCAL_CAPACITY" lq_inv
  by unfold_locales (auto simp: lq_defs lq_inv_def split: list.splits if_splits)

section \<open>The interface: a bag of ready threads\<close>

datatype ('i, 'h, 'w) bag_op = Push 'i 'h | Pop 'w

text \<open>\<open>run_bag\<close> collects what was pushed and what was popped.\<close>

fun run_bag ::
  "('i \<Rightarrow> 'h \<Rightarrow> 's \<Rightarrow> 's) \<Rightarrow> ('w \<Rightarrow> 's \<Rightarrow> 'i option \<times> 's) \<Rightarrow> ('i, 'h, 'w) bag_op list \<Rightarrow>
   's \<Rightarrow> 'i list \<times> 'i list \<times> 's"
where
  "run_bag push pop [] s = ([], [], s)"
| "run_bag push pop (Push i h # ops) s =
     (case run_bag push pop ops (push i h s) of (ins, outs, s') \<Rightarrow> (i # ins, outs, s'))"
| "run_bag push pop (Pop w # ops) s =
     (case pop w s of
        (None, s1) \<Rightarrow> run_bag push pop ops s1
      | (Some i, s1) \<Rightarrow> (case run_bag push pop ops s1 of (ins, outs, s') \<Rightarrow> (ins, i # outs, s')))"

locale ready_bag =
  fixes push :: "'i \<Rightarrow> 'h \<Rightarrow> 's \<Rightarrow> 's"
    and pop :: "'w \<Rightarrow> 's \<Rightarrow> 'i option \<times> 's"
    and contents :: "'s \<Rightarrow> 'i multiset"
    and inv :: "'s \<Rightarrow> bool"
  assumes push_adds: "inv s \<Longrightarrow> inv (push i h s) \<and> contents (push i h s) = add_mset i (contents s)"
    and pop_takes: "inv s \<Longrightarrow> pop w s = (r, s') \<Longrightarrow>
      inv s' \<and> contents s = (case r of None \<Rightarrow> contents s' | Some i \<Rightarrow> add_mset i (contents s'))"
begin

lemma run_bag_conserves:
  assumes "inv s" "run_bag push pop ops s = (ins, outs, s')"
  shows "inv s' \<and> contents s + mset ins = mset outs + contents s'"
  using assms
proof (induction ops arbitrary: s ins outs)
  case Nil
  then show ?case by simp
next
  case (Cons op ops)
  show ?case
  proof (cases op)
    case (Push i h)
    then obtain ins1 where "run_bag push pop ops (push i h s) = (ins1, outs, s')" "ins = i # ins1"
      using Cons.prems by (auto split: prod.splits)
    then show ?thesis
      using Cons.IH[of "push i h s" ins1 outs] push_adds[OF Cons.prems(1), of i h] by simp
  next
    case (Pop w)
    obtain r s1 where p: "pop w s = (r, s1)" by fastforce
    note t = pop_takes[OF Cons.prems(1) p]
    show ?thesis
    proof (cases r)
      case None
      then show ?thesis
        using Cons.IH[of s1 ins outs] Cons.prems(2) Pop p t by simp
    next
      case (Some i)
      then obtain outs1 where "run_bag push pop ops s1 = (ins, outs1, s')" "outs = i # outs1"
        using Cons.prems(2) Pop p by (auto split: prod.splits)
      then show ?thesis
        using Cons.IH[of s1 ins outs1] t Some by simp
    qed
  qed
qed

end

section \<open>The queues as one bag\<close>

definition local_mset :: "LocalQueue list \<Rightarrow> u32 multiset" where
  "local_mset ls = sum_list (map (\<lambda>lq. mset (lq_queue lq)) ls)"

definition queued :: "SimpleQueue \<Rightarrow> u32 multiset" where
  "queued sq = mset (gq_queue (sq_global sq)) + local_mset (sq_local sq)"

definition sq_inv :: "SimpleQueue \<Rightarrow> bool" where
  "sq_inv sq \<longleftrightarrow>
     length (sq_local sq) = sq_num_workers sq \<and> length (sq_counters sq) = sq_num_workers sq
     \<and> length (sq_rng sq) = sq_num_workers sq
     \<and> (\<forall>lq\<in>set (sq_local sq). lq_inv lq)
     \<and> gq_len (sq_global sq) = length (gq_queue (sq_global sq))"

lemma local_mset_update:
  "w < length ls \<Longrightarrow>
   local_mset (ls[w := lq]) + mset (lq_queue (ls ! w)) = local_mset ls + mset (lq_queue lq)"
proof (induction ls arbitrary: w)
  case (Cons l ls)
  then show ?case
    by (cases w) (simp_all add: local_mset_def ac_simps)
qed simp

lemma local_mset_same: "w < length ls \<Longrightarrow> lq_queue lq = lq_queue (ls ! w) \<Longrightarrow> local_mset (ls[w := lq]) = local_mset ls"
  using local_mset_update[of w ls lq] by simp

lemma sq_inv_local: "sq_inv sq \<Longrightarrow> w < sq_num_workers sq \<Longrightarrow> lq_inv (sq_local sq ! w)"
  by (simp add: sq_inv_def)

lemma sq_inv_set_local:
  "sq_inv sq \<Longrightarrow> lq_inv lq \<Longrightarrow> sq_inv (sq\<lparr> sq_local := (sq_local sq)[w := lq] \<rparr>)"
  by (auto simp: sq_inv_def dest!: set_update_subset_insert[THEN subsetD])

lemma sq_inv_set_global:
  "sq_inv sq \<Longrightarrow> gq_len gq = length (gq_queue gq) \<Longrightarrow> sq_inv (sq\<lparr> sq_global := gq \<rparr>)"
  by (simp add: sq_inv_def)

lemma notify_parked_queue [simp]:
  "gq_queue (notify_parked gq) = gq_queue gq" "gq_len (notify_parked gq) = gq_len gq"
  by (simp_all add: notify_parked_def GlobalQueue_wake_one_def)

lemma GlobalQueue_push_queue [simp]:
  "gq_queue (GlobalQueue_push i gq) = gq_queue gq @ [i]"
  "gq_len (GlobalQueue_push i gq) = Suc (length (gq_queue gq))"
  by (simp_all add: GlobalQueue_push_def GlobalQueue_wake_one_def Let_def)

lemma GlobalQueue_pop_cases:
  assumes "gq_len gq = length (gq_queue gq)"
  obtains "gq_queue gq = []" "GlobalQueue_pop gq = (None, gq)"
  | i q where "gq_queue gq = i # q"
      "GlobalQueue_pop gq = (Some i, gq\<lparr> gq_queue := q, gq_len := length q \<rparr>)"
  using assms by (cases "gq_queue gq") (auto simp: GlobalQueue_pop_def)

lemma LocalQueue_pop_cases:
  assumes "lq_inv lq"
  obtains "lq_queue lq = []" "LocalQueue_pop lq = (None, lq)"
  | i q where "lq_queue lq = i # q"
      "LocalQueue_pop lq = (Some i, lq\<lparr> lq_queue := q, lq_len := length q \<rparr>)"
  using assms by (cases "lq_queue lq") (auto simp: LocalQueue_pop_def lq_inv_def)

lemma LocalQueue_push_cases:
  obtains "length (lq_queue lq) \<ge> LOCAL_CAPACITY" "LocalQueue_push i lq = (False, lq)"
  | "length (lq_queue lq) < LOCAL_CAPACITY"
    "LocalQueue_push i lq = (True, lq\<lparr> lq_queue := lq_queue lq @ [i], lq_len := Suc (length (lq_queue lq)) \<rparr>)"
  by (cases "length (lq_queue lq) \<ge> LOCAL_CAPACITY") (simp_all add: LocalQueue_push_def Let_def)

lemma sq_inv_new [gv_wf]: "sq_inv (SimpleQueue_init n SimpleQueue_new)"
  by (auto simp: sq_inv_def SimpleQueue_init_def SimpleQueue_new_def GlobalQueue_new_def
      LocalQueue_new_def lq_inv_def)

lemma queued_new [gv_abs]: "queued (SimpleQueue_init n SimpleQueue_new) = {#}"
proof -
  have "local_mset (map (\<lambda>_. LocalQueue_new) xs) = {#}" for xs :: "nat list"
    by (induction xs) (simp_all add: local_mset_def LocalQueue_new_def)
  then show ?thesis
    by (simp add: queued_def SimpleQueue_init_def SimpleQueue_new_def GlobalQueue_new_def)
qed

lemma push_global_bag:
  assumes "sq_inv sq"
  shows "sq_inv (rq_push_global i sq)" "queued (rq_push_global i sq) = add_mset i (queued sq)"
  using assms by (auto simp: rq_push_global_def queued_def intro: sq_inv_set_global)

lemma rq_push_bag [gv_abs]:
  assumes "sq_inv sq"
  shows "sq_inv (rq_push i pr h sq) \<and> queued (rq_push i pr h sq) = add_mset i (queued sq)"
proof (cases "\<exists>w. h = Some w \<and> w < sq_num_workers sq \<and> fst (LocalQueue_push i (sq_local sq ! w))")
  case False
  then have "rq_push i pr h sq = rq_push_global i sq"
    by (auto simp: rq_push_def split: option.splits)
  then show ?thesis using push_global_bag[OF assms] by simp
next
  case True
  then obtain w where w: "h = Some w" "w < sq_num_workers sq"
    "fst (LocalQueue_push i (sq_local sq ! w))" by blast
  let ?lq = "snd (LocalQueue_push i (sq_local sq ! w))"
  have lq: "lq_inv ?lq" "lq_queue ?lq = lq_queue (sq_local sq ! w) @ [i]"
    using w(3) sq_inv_local[OF assms w(2)]
    by (cases rule: LocalQueue_push_cases[of "sq_local sq ! w" i]; simp add: lq_inv_def)+
  have "local_mset ((sq_local sq)[w := ?lq]) = add_mset i (local_mset (sq_local sq))"
    using local_mset_update[of w "sq_local sq" ?lq] w(2) assms lq(2) by (simp add: sq_inv_def)
  moreover have "sq_inv (sq\<lparr> sq_local := (sq_local sq)[w := ?lq] \<rparr>)"
    by (rule sq_inv_set_local[OF assms lq(1)])
  ultimately show ?thesis
    using w assms by (simp add: rq_push_def queued_def sq_inv_def)
qed

lemma local_append_bag:
  assumes "sq_inv sq" "w < sq_num_workers sq" "LocalQueue_push i (sq_local sq ! w) = (True, lq)"
  shows "sq_inv (sq\<lparr> sq_local := (sq_local sq)[w := lq] \<rparr>)"
    and "queued (sq\<lparr> sq_local := (sq_local sq)[w := lq] \<rparr>) = add_mset i (queued sq)"
    and "lq_queue lq = lq_queue (sq_local sq ! w) @ [i]"
proof -
  have lq: "lq_inv lq" "lq_queue lq = lq_queue (sq_local sq ! w) @ [i]"
    using assms(3) sq_inv_local[OF assms(1,2)]
    by (cases rule: LocalQueue_push_cases[of "sq_local sq ! w" i]; force simp: lq_inv_def)+
  then show "lq_queue lq = lq_queue (sq_local sq ! w) @ [i]" by simp
  show "sq_inv (sq\<lparr> sq_local := (sq_local sq)[w := lq] \<rparr>)"
    by (rule sq_inv_set_local[OF assms(1) lq(1)])
  show "queued (sq\<lparr> sq_local := (sq_local sq)[w := lq] \<rparr>) = add_mset i (queued sq)"
    using local_mset_update[of w "sq_local sq" lq] assms(1,2) lq(2)
    by (simp add: queued_def sq_inv_def)
qed

lemma keep_stolen_bag:
  assumes "sq_inv sq" "w < sq_num_workers sq"
  shows "sq_inv (keep_stolen w is sq) \<and> queued (keep_stolen w is sq) = mset is + queued sq"
  using assms
proof (induction "is" arbitrary: sq)
  case (Cons i "is")
  show ?case
  proof (cases rule: LocalQueue_push_cases[of "sq_local sq ! w" i])
    case 1
    have "sq_inv (sq\<lparr> sq_global := GlobalQueue_push i (sq_global sq) \<rparr>)"
      using Cons.prems(1) by (intro sq_inv_set_global) simp_all
    then show ?thesis
      using Cons.IH[of "sq\<lparr> sq_global := GlobalQueue_push i (sq_global sq) \<rparr>"] Cons.prems 1
      by (simp add: queued_def)
  next
    case 2
    note a = local_append_bag[OF Cons.prems 2(2)]
    show ?thesis
      using Cons.IH[OF a(1)] a(2) Cons.prems 2 by simp
  qed
qed simp

lemma keep_batch_bag:
  assumes "sq_inv sq" "w < sq_num_workers sq"
    and "length (lq_queue (sq_local sq ! w)) + length is \<le> LOCAL_CAPACITY"
  shows "sq_inv (keep_batch w is sq) \<and> queued (keep_batch w is sq) = mset is + queued sq"
  using assms
proof (induction "is" arbitrary: sq)
  case (Cons i "is")
  obtain lq where lq: "LocalQueue_push i (sq_local sq ! w) = (True, lq)"
    using Cons.prems(3) by (cases rule: LocalQueue_push_cases[of "sq_local sq ! w" i]) auto
  note a = local_append_bag[OF Cons.prems(1,2) lq]
  have "w < length (sq_local sq)"
    using Cons.prems(1,2) by (simp add: sq_inv_def)
  then show ?case
    using Cons.IH[OF a(1)] a(2,3) Cons.prems(2,3) lq by simp
qed simp

lemma steal_half_split:
  assumes "lq_inv lq" "steal_half lq = (xs, lq')"
  shows "lq_inv lq'" "lq_queue lq = xs @ lq_queue lq'" "xs = [] \<longleftrightarrow> length (lq_queue lq) \<le> 1"
proof -
  show "lq_inv lq'" "lq_queue lq = xs @ lq_queue lq'"
    using assms by (auto simp: steal_half_def lq_inv_def Let_def split: if_splits)
  show "xs = [] \<longleftrightarrow> length (lq_queue lq) \<le> 1"
    using assms by (auto simp: steal_half_def lq_inv_def Let_def div_eq_0_iff split: if_splits)
qed

lemma random_victim_bag:
  assumes "sq_inv sq" "random_victim w sq = (v, sq1)" "sq_num_workers sq > 0"
  shows "sq_inv sq1" "queued sq1 = queued sq" "sq_num_workers sq1 = sq_num_workers sq"
    "v < sq_num_workers sq" "sq_local sq1 = sq_local sq" "sq_global sq1 = sq_global sq"
  using assms by (auto simp: random_victim_def sq_inv_def queued_def Let_def split: if_splits)

lemma steal_tries_bag:
  assumes "sq_inv sq" "w < sq_num_workers sq" "steal_tries n w sq = (r, sq')"
  shows "sq_inv sq' \<and> queued sq = (case r of None \<Rightarrow> queued sq' | Some i \<Rightarrow> add_mset i (queued sq'))"
  using assms
proof (induction n arbitrary: sq)
  case (Suc n)
  obtain v sq1 where v: "random_victim w sq = (v, sq1)" by fastforce
  have pos: "sq_num_workers sq > 0" using Suc.prems(2) by simp
  note rv = random_victim_bag[OF Suc.prems(1) v pos]
  show ?case
  proof (cases "v = w")
    case True
    then show ?thesis
      using Suc.IH[OF rv(1)] Suc.prems(2,3) v rv by simp
  next
    case False
    obtain xs lq where x: "steal_half (sq_local sq1 ! v) = (xs, lq)" by fastforce
    have vl: "v < length (sq_local sq1)" using rv by (simp add: sq_inv_def)
    have linv: "lq_inv (sq_local sq1 ! v)"
      using sq_inv_local[OF rv(1)] rv by simp
    note sh = steal_half_split[OF linv x]
    let ?sq2 = "sq1\<lparr> sq_local := (sq_local sq1)[v := lq] \<rparr>"
    have inv2: "sq_inv ?sq2" by (rule sq_inv_set_local[OF rv(1) sh(1)])
    have q2: "queued sq1 = mset xs + queued ?sq2"
      using local_mset_update[OF vl, of lq] sh(2) by (simp add: queued_def add.commute)
    show ?thesis
    proof (cases xs)
      case Nil
      then show ?thesis
        using Suc.IH[OF inv2] Suc.prems(2,3) v x False rv q2 by simp
    next
      case (Cons i ys)
      then have "r = Some i" "sq' = keep_stolen w ys ?sq2"
        using Suc.prems(3) v x False by simp_all
      then show ?thesis
        using keep_stolen_bag[OF inv2, of w ys] Suc.prems(2) rv q2 Cons by simp
    qed
  qed
qed simp

lemma rq_pop_tail_bag:
  assumes "sq_inv sq" "w < sq_num_workers sq" "rq_pop_tail w sq = (r, sq')"
  shows "sq_inv sq' \<and> queued sq = (case r of None \<Rightarrow> queued sq' | Some i \<Rightarrow> add_mset i (queued sq'))"
proof -
  have wl: "w < length (sq_local sq)" and gl: "gq_len (sq_global sq) = length (gq_queue (sq_global sq))"
    using assms(1,2) by (simp_all add: sq_inv_def)
  note li = sq_inv_local[OF assms(1,2)]
  show ?thesis
  proof (cases rule: LocalQueue_pop_cases[OF li])
    case 1
    have same: "sq\<lparr> sq_local := (sq_local sq)[w := sq_local sq ! w] \<rparr> = sq"
      using wl by simp
    show ?thesis
    proof (cases rule: GlobalQueue_pop_cases[OF gl])
      case 1
      then show ?thesis
        using assms \<open>LocalQueue_pop (sq_local sq ! w) = _\<close> same steal_tries_bag[OF assms(1,2)]
        by (simp add: rq_pop_tail_def try_steal_def Let_def)
    next
      case (2 i q)
      let ?gq = "(sq_global sq)\<lparr> gq_queue := q, gq_len := length q \<rparr>"
      obtain batch gq1 where b: "pop_batch (LOCAL_CAPACITY div 2) ?gq = (batch, gq1)" by fastforce
      then have b': "q = batch @ gq_queue gq1" "length batch \<le> LOCAL_CAPACITY div 2"
        "gq_len gq1 = length (gq_queue gq1)"
        by (auto simp: pop_batch_def Let_def split: if_splits)
      let ?sq1 = "sq\<lparr> sq_global := gq1 \<rparr>"
      have inv1: "sq_inv ?sq1" by (rule sq_inv_set_global[OF assms(1) b'(3)])
      have kb: "sq_inv (keep_batch w batch ?sq1)
          \<and> queued (keep_batch w batch ?sq1) = mset batch + queued ?sq1"
        using inv1 assms(2) b'(2) 1(1) by (intro keep_batch_bag) (simp_all add: LOCAL_CAPACITY_def)
      have "r = Some i" "sq' = keep_batch w batch ?sq1"
        using assms(3) 1(2) 2(2) b same by (simp_all add: rq_pop_tail_def Let_def)
      then show ?thesis
        using kb 2(1) b'(1) by (simp add: queued_def)
    qed
  next
    case (2 i q)
    let ?lq = "(sq_local sq ! w)\<lparr> lq_queue := q, lq_len := length q \<rparr>"
    have "lq_inv ?lq" using li 2(1) by (simp add: lq_inv_def)
    then have "sq_inv (sq\<lparr> sq_local := (sq_local sq)[w := ?lq] \<rparr>)"
      by (rule sq_inv_set_local[OF assms(1)])
    then show ?thesis
      using assms(3) 2 local_mset_update[OF wl, of ?lq] by (auto simp: rq_pop_tail_def queued_def)
  qed
qed

lemma rq_pop_bag [gv_abs]:
  assumes "sq_inv sq" "rq_pop w sq = (r, sq')"
  shows "sq_inv sq' \<and> queued sq = (case r of None \<Rightarrow> queued sq' | Some (i, p) \<Rightarrow> add_mset i (queued sq'))"
proof (cases "w < sq_num_workers sq")
  case False
  then show ?thesis using assms by (simp add: rq_pop_def)
next
  case True
  let ?sq1 = "sq\<lparr> sq_counters := (sq_counters sq)[w := sq_counters sq ! w + 1] \<rparr>"
  have inv1: "sq_inv ?sq1" and q1: "queued ?sq1 = queued sq" and w1: "w < sq_num_workers ?sq1"
    using assms(1) True by (simp_all add: sq_inv_def queued_def)
  have tail: "sq_inv sq2 \<and> queued sq = (case x of None \<Rightarrow> queued sq2 | Some i \<Rightarrow> add_mset i (queued sq2))"
    if "rq_pop_tail w ?sq1 = (x, sq2)" for x sq2
    using rq_pop_tail_bag[OF inv1 w1 that] q1 by simp
  have gl: "gq_len (sq_global sq) = length (gq_queue (sq_global sq))"
    using assms(1) by (simp add: sq_inv_def)
  show ?thesis
  proof (cases rule: GlobalQueue_pop_cases[OF gl])
    case 1
    then have "rq_pop w sq = map_prod (map_option (\<lambda>i. (i, Normal))) id (rq_pop_tail w ?sq1)"
      using True by (simp add: rq_pop_def Let_def split: prod.splits)
    then show ?thesis
      using assms(2) tail by (cases "rq_pop_tail w ?sq1") (auto split: option.splits)
  next
    case (2 i q)
    let ?sq2 = "?sq1\<lparr> sq_global := (sq_global sq)\<lparr> gq_queue := q, gq_len := length q \<rparr> \<rparr>"
    have g: "sq_inv ?sq2" "queued sq = add_mset i (queued ?sq2)"
      using inv1 2(1) by (simp_all add: sq_inv_def queued_def)
    show ?thesis
    proof (cases "(ucast (sq_counters sq ! w) :: u32) mod GLOBAL_CHECK_INTERVAL = 0")
      case True
      then show ?thesis
        using assms(2) 2(2) \<open>w < sq_num_workers sq\<close> g by (auto simp: rq_pop_def Let_def)
    next
      case False
      then have "rq_pop w sq = map_prod (map_option (\<lambda>i. (i, Normal))) id (rq_pop_tail w ?sq1)"
        using True by (simp add: rq_pop_def Let_def split: prod.splits)
      then show ?thesis
        using assms(2) tail by (cases "rq_pop_tail w ?sq1") (auto split: option.splits)
    qed
  qed
qed

text \<open>The trait operations as the bag interface has them: the priority is ignored.\<close>

definition sq_push :: "GVThreadId \<Rightarrow> Priority \<times> nat option \<Rightarrow> SimpleQueue \<Rightarrow> SimpleQueue" where
  "sq_push i ph sq = rq_push i (fst ph) (snd ph) sq"

definition sq_pop :: "nat \<Rightarrow> SimpleQueue \<Rightarrow> GVThreadId option \<times> SimpleQueue" where
  "sq_pop w sq = map_prod (map_option fst) id (rq_pop w sq)"

interpretation rq: ready_bag sq_push sq_pop queued sq_inv
proof (unfold_locales, goal_cases)
  case (1 s i h)
  then show ?case by (simp add: sq_push_def rq_push_bag)
next
  case (2 s w r s')
  obtain x where x: "rq_pop w s = (x, s')" "r = map_option fst x"
    using 2(2) by (cases "rq_pop w s") (auto simp: sq_pop_def)
  then show ?case
    using rq_pop_bag[OF 2(1) x(1)] by (auto split: option.splits)
qed

section \<open>Fairness towards the global queue\<close>

lemma keep_batch_counters [simp]:
  "sq_counters (keep_batch w is sq) = sq_counters sq" "sq_num_workers (keep_batch w is sq) = sq_num_workers sq"
  by (induction "is" arbitrary: sq) simp_all

lemma pop_global_head:
  assumes "sq_inv sq" "w < sq_num_workers sq" "gq_queue (sq_global sq) = g # gs"
  shows "(\<exists>sq'. rq_pop w sq = (Some (g, Normal), sq'))
    \<or> ((ucast (sq_counters sq ! w) :: u32) mod GLOBAL_CHECK_INTERVAL \<noteq> 0
       \<and> (\<exists>r sq'. rq_pop w sq = (r, sq') \<and> sq_inv sq' \<and> gq_queue (sq_global sq') = g # gs
            \<and> sq_counters sq' ! w = sq_counters sq ! w + 1 \<and> sq_num_workers sq' = sq_num_workers sq))"
proof -
  let ?sq1 = "sq\<lparr> sq_counters := (sq_counters sq)[w := sq_counters sq ! w + 1] \<rparr>"
  have gl: "gq_len (sq_global sq) = length (gq_queue (sq_global sq))"
    and wl: "w < length (sq_counters sq)" "w < length (sq_local sq)"
    using assms(1,2) by (simp_all add: sq_inv_def)
  have gp: "GlobalQueue_pop (sq_global sq) =
      (Some g, (sq_global sq)\<lparr> gq_queue := gs, gq_len := length gs \<rparr>)"
    using assms(3) gl by (cases rule: GlobalQueue_pop_cases[OF gl]) auto
  show ?thesis
  proof (cases "(ucast (sq_counters sq ! w) :: u32) mod GLOBAL_CHECK_INTERVAL = 0")
    case True
    then show ?thesis using gp assms(2) by (simp add: rq_pop_def Let_def)
  next
    case False
    then have pt: "rq_pop w sq = map_prod (map_option (\<lambda>i. (i, Normal))) id (rq_pop_tail w ?sq1)"
      using assms(2) by (simp add: rq_pop_def Let_def split: prod.splits)
    show ?thesis
    proof (cases rule: LocalQueue_pop_cases[OF sq_inv_local[OF assms(1,2)]])
      case 1
      then have "fst (rq_pop_tail w ?sq1) = Some g"
        using gp wl by (simp add: rq_pop_tail_def Let_def split: prod.splits)
      then show ?thesis
        using pt by (cases "rq_pop_tail w ?sq1") simp
    next
      case (2 i q)
      let ?sq' = "?sq1\<lparr> sq_local := (sq_local sq)[w := (sq_local sq ! w)\<lparr> lq_queue := q, lq_len := length q \<rparr>] \<rparr>"
      have p: "rq_pop w sq = (Some (i, Normal), ?sq')"
        using pt 2 by (simp add: rq_pop_tail_def)
      moreover have "sq_inv ?sq'"
        using rq_pop_bag[OF assms(1) p] by simp
      ultimately show ?thesis
        using False assms(3) wl by simp
    qed
  qed
qed

fun pops :: "nat \<Rightarrow> nat \<Rightarrow> SimpleQueue \<Rightarrow> (GVThreadId \<times> Priority) option list" where
  "pops 0 w sq = []"
| "pops (Suc n) w sq = (case rq_pop w sq of (r, sq') \<Rightarrow> r # pops n w sq')"

lemma ucast_Suc: "(ucast (c + 1 :: u64) :: u32) = ucast c + 1"
proof -
  have "take_bit 32 (take_bit 64 k + 1) = take_bit 32 (k + 1)" for k :: int
  proof -
    have "take_bit 32 (take_bit 64 k + 1) = take_bit 32 (take_bit 32 (take_bit 64 k) + take_bit 32 1)"
      by (rule take_bit_add [symmetric])
    also have "\<dots> = take_bit 32 (take_bit 32 k + take_bit 32 1)"
      by simp
    also have "\<dots> = take_bit 32 (k + 1)"
      by (rule take_bit_add)
    finally show ?thesis .
  qed
  then show ?thesis
    by transfer simp
qed

lemma pops_reach_global:
  assumes "sq_inv sq" "w < sq_num_workers sq" "gq_queue (sq_global sq) = g # gs"
    and "((ucast (sq_counters sq ! w) :: u32) + of_nat d) mod GLOBAL_CHECK_INTERVAL = 0"
  shows "Some (g, Normal) \<in> set (pops (Suc d) w sq)"
  using assms
proof (induction d arbitrary: sq)
  case 0
  then show ?case
    using pop_global_head[OF 0(1,2,3)] by auto
next
  case (Suc d)
  from pop_global_head[OF Suc.prems(1,2,3)] show ?case
  proof (elim disjE exE conjE)
    fix sq' assume "rq_pop w sq = (Some (g, Normal), sq')"
    then show ?thesis by simp
  next
    fix r sq'
    assume p: "rq_pop w sq = (r, sq')" "sq_inv sq'" "gq_queue (sq_global sq') = g # gs"
      "sq_counters sq' ! w = sq_counters sq ! w + 1" "sq_num_workers sq' = sq_num_workers sq"
    have "((ucast (sq_counters sq' ! w) :: u32) + of_nat d) mod GLOBAL_CHECK_INTERVAL = 0"
      using Suc.prems(4) unfolding p(4) ucast_Suc by (simp add: add.assoc)
    then have "Some (g, Normal) \<in> set (pops (Suc d) w sq')"
      using p(5) Suc.prems(2) by (intro Suc.IH[OF p(2) _ p(3)]) simp_all
    then show ?thesis
      using p(1) by simp
  qed
qed

lemma counter_due:
  obtains d where "d < 61" "((x::u32) + of_nat d) mod GLOBAL_CHECK_INTERVAL = 0"
proof (cases "unat x + 60 < 2 ^ 32")
  case True
  define r where "r = unat x mod 61"
  define d where "d = (if r = 0 then 0 else 61 - r)"
  have "r < 61" by (simp add: r_def)
  then have d: "d < 61" "(r + d) mod 61 = 0"
    unfolding d_def by auto
  then have d2: "(unat x + d) mod 61 = 0"
    unfolding r_def by (metis mod_add_left_eq)
  have "unat (x + of_nat d) = unat x + d"
    using True d(1) by (subst unat_add_lem[THEN iffD1]) (simp_all add: unat_of_nat_lt)
  then have "unat ((x + of_nat d) mod GLOBAL_CHECK_INTERVAL) = 0"
    using d2 by (simp add: unat_mod_distrib GLOBAL_CHECK_INTERVAL_def)
  then show ?thesis
    using that[of d] d(1) by (simp add: unat_eq_zero)
next
  case False
  define d where "d = 2 ^ 32 - unat x"
  have "unat x < 2 ^ 32" using unsigned_less[of x] by simp
  then have d: "d < 61" "unat x + d = 2 ^ 32"
    using False unfolding d_def by auto
  have "x + of_nat d = of_nat (unat x + d)"
    by simp
  also have "\<dots> = 0"
    unfolding d(2) by simp
  finally have "x + of_nat d = 0" .
  then show ?thesis
    using that[of d] d(1) by simp
qed

lemma pops_mono: "m \<le> n \<Longrightarrow> set (pops m w sq) \<subseteq> set (pops n w sq)"
proof (induction m arbitrary: n sq)
  case (Suc m)
  then obtain n' where "n = Suc n'" "m \<le> n'" by (cases n) auto
  with Suc.IH[of n'] show ?case by (auto split: prod.splits)
qed simp

section \<open>What stealing leaves behind\<close>

lemma steal_tries_singletons:
  assumes "sq_inv sq" "w < sq_num_workers sq"
    and "\<forall>v < sq_num_workers sq. v \<noteq> w \<longrightarrow> length (lq_queue (sq_local sq ! v)) \<le> 1"
  shows "fst (steal_tries n w sq) = None"
  using assms
proof (induction n arbitrary: sq)
  case (Suc n)
  obtain v sq1 where v: "random_victim w sq = (v, sq1)" by fastforce
  have pos: "sq_num_workers sq > 0" using Suc.prems(2) by simp
  note rv = random_victim_bag[OF Suc.prems(1) v pos]
  show ?case
  proof (cases "v = w")
    case True
    then show ?thesis using Suc v rv by simp
  next
    case False
    have li: "lq_inv (sq_local sq1 ! v)" and le: "length (lq_queue (sq_local sq1 ! v)) \<le> 1"
      using sq_inv_local[OF rv(1)] rv Suc.prems(3) False by simp_all
    then have sh: "steal_half (sq_local sq1 ! v) = ([], sq_local sq1 ! v)"
      by (auto simp: steal_half_def Let_def div_eq_0_iff)
    have "sq1\<lparr> sq_local := (sq_local sq1)[v := sq_local sq1 ! v] \<rparr> = sq1"
      by simp
    then have "steal_tries (Suc n) w sq = steal_tries n w sq1"
      using v sh False by simp
    then show ?thesis
      using Suc.IH[OF rv(1)] Suc.prems(2,3) rv(3,5) by simp
  qed
qed simp

lemma rq_pop_empty:
  assumes "sq_inv sq" "w < sq_num_workers sq"
    and "gq_queue (sq_global sq) = []" "lq_queue (sq_local sq ! w) = []"
  shows "fst (rq_pop w sq) =
    map_option (\<lambda>i. (i, Normal)) (fst (try_steal w (sq\<lparr> sq_counters := (sq_counters sq)[w := sq_counters sq ! w + 1] \<rparr>)))"
proof -
  have gl: "gq_len (sq_global sq) = 0" and wl: "w < length (sq_local sq)"
    using assms(1,2,3) by (simp_all add: sq_inv_def)
  have "GlobalQueue_pop (sq_global sq) = (None, sq_global sq)"
    using gl by (simp add: GlobalQueue_pop_def)
  moreover have "LocalQueue_pop (sq_local sq ! w) = (None, sq_local sq ! w)"
    using sq_inv_local[OF assms(1,2)] assms(4) by (simp add: LocalQueue_pop_def lq_inv_def)
  ultimately show ?thesis
    using assms(2) wl by (simp add: rq_pop_def rq_pop_tail_def Let_def split: prod.splits)
qed

lemma rq_pop_None_empty:
  assumes "sq_inv sq" "w < sq_num_workers sq" "fst (rq_pop w sq) = None"
  shows "gq_queue (sq_global sq) = [] \<and> lq_queue (sq_local sq ! w) = []"
proof -
  have gl: "gq_len (sq_global sq) = length (gq_queue (sq_global sq))"
    using assms(1) by (simp add: sq_inv_def)
  have g: "gq_queue (sq_global sq) = []"
  proof (rule ccontr)
    assume "gq_queue (sq_global sq) \<noteq> []"
    then obtain g gs where gs: "gq_queue (sq_global sq) = g # gs" by (cases "gq_queue (sq_global sq)") auto
    let ?sq1 = "sq\<lparr> sq_counters := (sq_counters sq)[w := sq_counters sq ! w + 1] \<rparr>"
    have "fst (rq_pop_tail w ?sq1) \<noteq> None"
      using gs gl
      by (cases rule: LocalQueue_pop_cases[OF sq_inv_local[OF assms(1,2)]])
        (auto simp: rq_pop_tail_def GlobalQueue_pop_def Let_def split: prod.splits)
    then show False
      using assms(2,3) gs gl
      by (auto simp: rq_pop_def GlobalQueue_pop_def Let_def split: prod.splits if_splits)
  qed
  moreover have "lq_queue (sq_local sq ! w) = []"
  proof (rule ccontr)
    assume "lq_queue (sq_local sq ! w) \<noteq> []"
    then show False
      using assms(2,3) g gl
      by (cases rule: LocalQueue_pop_cases[OF sq_inv_local[OF assms(1,2)]])
        (auto simp: rq_pop_def rq_pop_tail_def GlobalQueue_pop_def Let_def split: prod.splits if_splits)
  qed
  ultimately show ?thesis by blast
qed

section \<open>Properties\<close>

text \<open>
  C5: Whatever pushes and pops the workers make on an initialised queue, with whatever
  hints, the threads pushed are exactly the threads popped plus the threads still queued:
  none is lost or handed out twice on the way through local queues, batches and steals.
\<close>

theorem ready_queue_conserves:
  assumes "run_bag sq_push sq_pop ops (SimpleQueue_init n SimpleQueue_new) = (ins, outs, sq)"
  shows "mset ins = mset outs + queued sq"
  using rq.run_bag_conserves[OF sq_inv_new assms] by (simp add: queued_new)

theorem ready_queue_conserves_witness:
  "\<exists>ins outs sq. run_bag sq_push sq_pop
       [Push 7 (Normal, Some 0), Push 8 (Low, Some 0), Push 9 (Normal, None), Pop 1, Pop 0]
       (SimpleQueue_init 2 SimpleQueue_new) = (ins, outs, sq)
     \<and> mset ins = mset outs + queued sq \<and> mset ins = {# 7, 8, 9 #}"
proof -
  let ?ops = "[Push 7 (Normal, Some 0), Push 8 (Low, Some 0), Push 9 (Normal, None), Pop 1, Pop 0]"
  obtain ins outs sq where r: "run_bag sq_push sq_pop ?ops (SimpleQueue_init 2 SimpleQueue_new) = (ins, outs, sq)"
    by (metis surj_pair)
  have "mset ins = {# 7, 8, 9 #}"
    using r by (auto split: prod.splits option.splits)
  then show ?thesis
    using ready_queue_conserves[OF r] r by blast
qed

text \<open>
  The head of the global queue is not starved by a busy worker: any worker that keeps
  popping gets it within 61 pops, also when its 32-bit pop counter wraps around.
\<close>

theorem global_head_within_61_pops:
  assumes "sq_inv sq" "w < sq_num_workers sq" "gq_queue (sq_global sq) = g # gs"
  shows "Some (g, Normal) \<in> set (pops 61 w sq)"
proof -
  obtain d where d: "d < 61"
    "((ucast (sq_counters sq ! w) :: u32) + of_nat d) mod GLOBAL_CHECK_INTERVAL = 0"
    by (rule counter_due)
  have "Some (g, Normal) \<in> set (pops (Suc d) w sq)"
    by (rule pops_reach_global[OF assms d(2)])
  then show ?thesis
    using pops_mono[of "Suc d" 61 w sq] d(1) by auto
qed

theorem global_head_within_61_pops_witness:
  "Some (5, Normal) \<in> set (pops 61 0 (rq_push 5 Normal None (SimpleQueue_init 2 SimpleQueue_new)))"
proof (rule global_head_within_61_pops)
  show "sq_inv (rq_push 5 Normal None (SimpleQueue_init 2 SimpleQueue_new))"
    using rq_push_bag[OF sq_inv_new] by blast
qed (simp_all add: rq_push_def rq_push_global_def SimpleQueue_init_def SimpleQueue_new_def GlobalQueue_new_def)

text \<open>
  A worker that finds no work has an empty local queue and the global queue is empty;
  but work may remain: a thread that is alone in another worker's local queue is never
  stolen, so the pop finds nothing when the other local queues hold at most one thread
  each.
\<close>

theorem pop_none_and_singletons:
  assumes "sq_inv sq" "w < sq_num_workers sq"
  shows "(fst (rq_pop w sq) = None \<longrightarrow>
      gq_queue (sq_global sq) = [] \<and> lq_queue (sq_local sq ! w) = [])
    \<and> (gq_queue (sq_global sq) = [] \<and> lq_queue (sq_local sq ! w) = []
        \<and> (\<forall>v < sq_num_workers sq. length (lq_queue (sq_local sq ! v)) \<le> 1)
      \<longrightarrow> fst (rq_pop w sq) = None)"
proof -
  let ?sq1 = "sq\<lparr> sq_counters := (sq_counters sq)[w := sq_counters sq ! w + 1] \<rparr>"
  have inv1: "sq_inv ?sq1"
    using assms by (simp add: sq_inv_def)
  have "\<forall>v < sq_num_workers sq. length (lq_queue (sq_local sq ! v)) \<le> 1 \<Longrightarrow>
      fst (try_steal w ?sq1) = None"
    unfolding try_steal_def using assms by (intro steal_tries_singletons[OF inv1]) simp_all
  then show ?thesis
    using rq_pop_None_empty[OF assms] rq_pop_empty[OF assms] by simp
qed

theorem pop_none_and_singletons_witness:
  "queued (rq_push 5 Normal (Some 0) (SimpleQueue_init 2 SimpleQueue_new)) = {# 5 #}
   \<and> fst (rq_pop 1 (rq_push 5 Normal (Some 0) (SimpleQueue_init 2 SimpleQueue_new))) = None"
proof -
  let ?sq = "rq_push 5 Normal (Some 0) (SimpleQueue_init 2 SimpleQueue_new)"
  have q: "sq_inv ?sq" "queued ?sq = {# 5 #}"
    using rq_push_bag[OF sq_inv_new] by (simp_all add: queued_new)
  have e: "?sq = \<lparr> sq_local = [\<lparr> lq_queue = [5], lq_len = 1 \<rparr>, LocalQueue_new], sq_global = GlobalQueue_new,
      sq_num_workers = 2, sq_counters = [0, 0], sq_rng = [1, 2654435762], sq_initialized = True \<rparr>"
    by (simp add: rq_push_def SimpleQueue_init_def SimpleQueue_new_def LocalQueue_push_def
        LocalQueue_new_def LOCAL_CAPACITY_def notify_parked_def parked_count_def GlobalQueue_new_def
        upt_rec)
  show ?thesis
    using pop_none_and_singletons[OF q(1), of 1] q(2) unfolding e
    by (auto simp: LocalQueue_new_def GlobalQueue_new_def less_2_cases_iff)
qed

end
