(* ===== verification/Timer_Heap.thy ===== *)
theory Timer_Heap
  imports Core_Types "HOL-Library.Product_Lexorder" "HOL-Library.Multiset"
begin

text \<open>
  The timer subsystem of \<open>gvthread-runtime/src/timer\<close>: timer entries (\<open>entry.rs\<close>), the
  binary-heap backend with lazy cancellation (\<open>impls/heap.rs\<close>), the scheduling front end
  (\<open>registry.rs\<close>) and the polling thread (\<open>worker.rs\<close>). Instants and durations are
  natural numbers of nanoseconds; readings of the clock are parameters.
\<close>

section \<open>Entries (\<open>entry.rs\<close>)\<close>

type_synonym TimerHandle = u64

datatype TimerType = Preempt | Sleep | TimeoutTimer | Periodic nat

definition is_periodic :: "TimerType \<Rightarrow> bool" where
  "is_periodic ty = (case ty of Periodic _ \<Rightarrow> True | _ \<Rightarrow> False)"

definition periodic_interval :: "TimerType \<Rightarrow> nat option" where
  "periodic_interval ty = (case ty of Periodic interval \<Rightarrow> Some interval | _ \<Rightarrow> None)"

record TimerEntry =
  te_handle :: TimerHandle
  te_deadline :: nat
  te_gvt_id :: u32
  te_affinity :: "u8 option"
  te_type :: TimerType

text \<open>The process-wide handle counter is passed along; every new entry takes the next value.\<close>

definition TimerHandle_new :: "u64 \<Rightarrow> TimerHandle \<times> u64" where
  "TimerHandle_new ctr = (ctr, ctr + 1)"

definition TimerEntry_at ::
  "u32 \<Rightarrow> nat \<Rightarrow> u8 option \<Rightarrow> TimerType \<Rightarrow> u64 \<Rightarrow> TimerEntry \<times> u64" where
  "TimerEntry_at gvt deadline aff ty ctr =
     (case TimerHandle_new ctr of (h, ctr') \<Rightarrow>
       (\<lparr> te_handle = h, te_deadline = deadline, te_gvt_id = gvt, te_affinity = aff, te_type = ty \<rparr>,
        ctr'))"

definition TimerEntry_new ::
  "u32 \<Rightarrow> nat \<Rightarrow> u8 option \<Rightarrow> TimerType \<Rightarrow> u64 \<Rightarrow> TimerEntry \<times> u64" where
  "TimerEntry_new gvt deadline aff ty ctr =
     (case TimerHandle_new ctr of (h, ctr') \<Rightarrow>
       (\<lparr> te_handle = h, te_deadline = deadline, te_gvt_id = gvt, te_affinity = aff, te_type = ty \<rparr>,
        ctr'))"

definition TimerEntry_preempt :: "nat \<Rightarrow> u32 \<Rightarrow> u8 \<Rightarrow> nat \<Rightarrow> u64 \<Rightarrow> TimerEntry \<times> u64" where
  "TimerEntry_preempt now gvt w time_slice ctr =
     (case TimerHandle_new ctr of (h, ctr') \<Rightarrow>
       (\<lparr> te_handle = h, te_deadline = now + time_slice, te_gvt_id = gvt, te_affinity = Some w,
          te_type = Preempt \<rparr>, ctr'))"

definition TimerEntry_sleep :: "nat \<Rightarrow> u32 \<Rightarrow> nat \<Rightarrow> u8 option \<Rightarrow> u64 \<Rightarrow> TimerEntry \<times> u64" where
  "TimerEntry_sleep now gvt duration aff ctr =
     (case TimerHandle_new ctr of (h, ctr') \<Rightarrow>
       (\<lparr> te_handle = h, te_deadline = now + duration, te_gvt_id = gvt, te_affinity = aff,
          te_type = Sleep \<rparr>, ctr'))"

definition TimerEntry_timeout :: "nat \<Rightarrow> u32 \<Rightarrow> nat \<Rightarrow> u8 option \<Rightarrow> u64 \<Rightarrow> TimerEntry \<times> u64" where
  "TimerEntry_timeout now gvt duration aff ctr =
     (case TimerHandle_new ctr of (h, ctr') \<Rightarrow>
       (\<lparr> te_handle = h, te_deadline = now + duration, te_gvt_id = gvt, te_affinity = aff,
          te_type = TimeoutTimer \<rparr>, ctr'))"

definition TimerEntry_periodic :: "nat \<Rightarrow> u32 \<Rightarrow> nat \<Rightarrow> u8 option \<Rightarrow> u64 \<Rightarrow> TimerEntry \<times> u64" where
  "TimerEntry_periodic now gvt interval aff ctr =
     (case TimerHandle_new ctr of (h, ctr') \<Rightarrow>
       (\<lparr> te_handle = h, te_deadline = now + interval, te_gvt_id = gvt, te_affinity = aff,
          te_type = Periodic interval \<rparr>, ctr'))"

definition is_expired :: "nat \<Rightarrow> TimerEntry \<Rightarrow> bool" where
  "is_expired now e \<longleftrightarrow> now \<ge> te_deadline e"

definition remaining :: "nat \<Rightarrow> TimerEntry \<Rightarrow> nat" where
  "remaining now e = te_deadline e - now"

text \<open>\<open>reschedule\<close> reads the clock itself: \<open>now\<close> is that reading.\<close>

definition reschedule :: "nat \<Rightarrow> TimerEntry \<Rightarrow> u64 \<Rightarrow> TimerEntry option \<times> u64" where
  "reschedule now e ctr =
     (case te_type e of
        Periodic interval \<Rightarrow>
          (case TimerHandle_new ctr of (h, ctr') \<Rightarrow>
            (Some \<lparr> te_handle = h, te_deadline = now + interval, te_gvt_id = te_gvt_id e,
                    te_affinity = te_affinity e, te_type = te_type e \<rparr>, ctr'))
      | _ \<Rightarrow> (None, ctr))"

section \<open>The heap backend (\<open>impls/heap.rs\<close>)\<close>

text \<open>
  The \<open>BinaryHeap\<close> of \<open>HeapEntry\<close> pops in the order of deadline, then handle: it is the
  list of its entries in that order.
\<close>

definition heap_key :: "TimerEntry \<Rightarrow> nat \<times> u64" where
  "heap_key e = (te_deadline e, te_handle e)"

record HeapInner =
  hp_heap :: "TimerEntry list"
  hp_cancelled :: "TimerHandle set"
  hp_total_inserted :: u64
  hp_total_fired :: u64
  hp_total_cancelled :: u64

record ExpiredTimer =
  ex_gvt_id :: u32
  ex_affinity :: "u8 option"
  ex_type :: TimerType

record HeapTimerStats =
  hs_active :: usize
  hs_pending_cancellations :: usize
  hs_total_inserted :: u64
  hs_total_fired :: u64
  hs_total_cancelled :: u64

definition HeapInner_new :: HeapInner where
  "HeapInner_new =
     \<lparr> hp_heap = [], hp_cancelled = {}, hp_total_inserted = 0, hp_total_fired = 0,
       hp_total_cancelled = 0 \<rparr>"

definition heap_stats :: "HeapInner \<Rightarrow> HeapTimerStats" where
  "heap_stats hp =
     \<lparr> hs_active = length (hp_heap hp), hs_pending_cancellations = card (hp_cancelled hp),
       hs_total_inserted = hp_total_inserted hp, hs_total_fired = hp_total_fired hp,
       hs_total_cancelled = hp_total_cancelled hp \<rparr>"

definition timer_insert :: "TimerEntry \<Rightarrow> HeapInner \<Rightarrow> TimerHandle \<times> HeapInner" where
  "timer_insert e hp =
     (te_handle e,
      hp\<lparr> hp_heap := insort_key heap_key e (hp_heap hp),
          hp_total_inserted := hp_total_inserted hp + 1 \<rparr>)"

definition timer_cancel :: "TimerHandle \<Rightarrow> HeapInner \<Rightarrow> bool \<times> HeapInner" where
  "timer_cancel h hp =
     (if h \<notin> hp_cancelled hp
      then (True, hp\<lparr> hp_cancelled := insert h (hp_cancelled hp),
                      hp_total_cancelled := hp_total_cancelled hp + 1 \<rparr>)
      else (False, hp))"

definition expired_of :: "TimerEntry \<Rightarrow> ExpiredTimer" where
  "expired_of e = \<lparr> ex_gvt_id = te_gvt_id e, ex_affinity = te_affinity e, ex_type = te_type e \<rparr>"

text \<open>
  The \<open>while let\<close> loop: it consumes the heap from the front and returns the entries that
  fired, the rescheduled ones, the handle counter, the rest of the heap and the cancelled
  set. \<open>clk h\<close> is the clock reading when the entry with handle \<open>h\<close> is rescheduled.
\<close>

fun poll_loop ::
  "nat \<Rightarrow> (u64 \<Rightarrow> nat) \<Rightarrow> u64 \<Rightarrow> TimerEntry list \<Rightarrow> TimerHandle set \<Rightarrow>
   TimerEntry list \<times> TimerEntry list \<times> u64 \<times> TimerEntry list \<times> TimerHandle set"
where
  "poll_loop now clk ctr [] cs = ([], [], ctr, [], cs)"
| "poll_loop now clk ctr (e # es) cs =
     (if te_deadline e > now then ([], [], ctr, e # es, cs)
      else if te_handle e \<in> cs then poll_loop now clk ctr es (cs - {te_handle e})
      else case reschedule (clk (te_handle e)) e ctr of
             (ro, ctr1) \<Rightarrow>
               (case poll_loop now clk ctr1 es cs of
                  (fired, resched, ctr2, rest, cs') \<Rightarrow>
                    (e # fired, (case ro of Some r \<Rightarrow> r # resched | None \<Rightarrow> resched), ctr2, rest, cs')))"

definition poll_expired ::
  "nat \<Rightarrow> (u64 \<Rightarrow> nat) \<Rightarrow> u64 \<Rightarrow> HeapInner \<Rightarrow> ExpiredTimer list \<times> u64 \<times> HeapInner" where
  "poll_expired now clk ctr hp =
     (case poll_loop now clk ctr (hp_heap hp) (hp_cancelled hp) of
        (fired, resched, ctr', rest, cs) \<Rightarrow>
          let heap = fold (insort_key heap_key) resched rest in
          (map expired_of fired, ctr',
           hp\<lparr> hp_heap := heap,
               hp_cancelled := (if heap = [] then {} else cs),
               hp_total_fired := hp_total_fired hp + of_nat (length fired) \<rparr>))"

definition next_deadline :: "HeapInner \<Rightarrow> nat option" where
  "next_deadline hp = (case hp_heap hp of [] \<Rightarrow> None | e # _ \<Rightarrow> Some (te_deadline e))"

definition timer_len :: "HeapInner \<Rightarrow> usize" where
  "timer_len hp = length (hp_heap hp) - card (hp_cancelled hp)"

section \<open>The registry (\<open>registry.rs\<close>)\<close>

definition insert_new :: "(u64 \<Rightarrow> TimerEntry \<times> u64) \<Rightarrow> u64 \<Rightarrow> HeapInner \<Rightarrow> TimerHandle \<times> u64 \<times> HeapInner" where
  "insert_new mk ctr hp =
     (case mk ctr of (e, ctr') \<Rightarrow> (case timer_insert e hp of (h, hp') \<Rightarrow> (h, ctr', hp')))"

definition schedule_preempt where
  "schedule_preempt now gvt w time_slice = insert_new (TimerEntry_preempt now gvt w time_slice)"

definition schedule_sleep where
  "schedule_sleep now gvt duration aff = insert_new (TimerEntry_sleep now gvt duration aff)"

definition schedule_sleep_until where
  "schedule_sleep_until gvt deadline aff = insert_new (TimerEntry_at gvt deadline aff Sleep)"

definition schedule_timeout where
  "schedule_timeout now gvt duration aff = insert_new (TimerEntry_timeout now gvt duration aff)"

definition schedule_timeout_at where
  "schedule_timeout_at gvt deadline aff = insert_new (TimerEntry_at gvt deadline aff TimeoutTimer)"

definition schedule_periodic where
  "schedule_periodic now gvt interval aff = insert_new (TimerEntry_periodic now gvt interval aff)"

definition registry_is_empty :: "HeapInner \<Rightarrow> bool" where
  "registry_is_empty hp \<longleftrightarrow> timer_len hp = 0"

definition time_until_next :: "nat \<Rightarrow> HeapInner \<Rightarrow> nat option" where
  "time_until_next now hp = map_option (\<lambda>d. d - now) (next_deadline hp)"

section \<open>The polling thread (\<open>worker.rs\<close>)\<close>

record TimerThreadConfig =
  tc_max_poll_interval :: nat
  tc_min_sleep :: nat
  tc_thread_name :: string
  tc_stack_size :: "usize option"

definition TimerThreadConfig_default :: TimerThreadConfig where
  "TimerThreadConfig_default =
     \<lparr> tc_max_poll_interval = 1000000, tc_min_sleep = 50000, tc_thread_name = ''gvt-timer'',
       tc_stack_size = None \<rparr>"

definition TimerThreadConfig_low_latency :: TimerThreadConfig where
  "TimerThreadConfig_low_latency =
     \<lparr> tc_max_poll_interval = 100000, tc_min_sleep = 10000, tc_thread_name = ''gvt-timer'',
       tc_stack_size = None \<rparr>"

definition TimerThreadConfig_low_cpu :: TimerThreadConfig where
  "TimerThreadConfig_low_cpu =
     \<lparr> tc_max_poll_interval = 10000000, tc_min_sleep = 500000, tc_thread_name = ''gvt-timer'',
       tc_stack_size = None \<rparr>"

record TimerStats =
  ts_poll_count :: u64
  ts_timers_fired :: u64
  ts_poll_time :: nat
  ts_max_batch_size :: usize

definition TimerStats_default :: TimerStats where
  "TimerStats_default =
     \<lparr> ts_poll_count = 0, ts_timers_fired = 0, ts_poll_time = 0, ts_max_batch_size = 0 \<rparr>"

definition calculate_sleep :: "nat option \<Rightarrow> TimerThreadConfig \<Rightarrow> nat \<Rightarrow> nat" where
  "calculate_sleep nd cfg now =
     (case nd of
        Some deadline \<Rightarrow>
          if deadline \<le> now then 0
          else max (min (deadline - now) (tc_max_poll_interval cfg)) (tc_min_sleep cfg)
      | None \<Rightarrow> tc_max_poll_interval cfg)"

text \<open>
  One round of the loop: \<open>t0\<close> is the reading before the poll, \<open>t1\<close> after the callbacks,
  \<open>t2\<close> in \<open>calculate_sleep\<close>. The result lists the timers handed to the callback and the
  time to sleep.
\<close>

definition timer_round ::
  "TimerThreadConfig \<Rightarrow> nat \<Rightarrow> nat \<Rightarrow> nat \<Rightarrow> (u64 \<Rightarrow> nat) \<Rightarrow> u64 \<Rightarrow> TimerStats \<Rightarrow> HeapInner \<Rightarrow>
   ExpiredTimer list \<times> nat \<times> u64 \<times> TimerStats \<times> HeapInner"
where
  "timer_round cfg t0 t1 t2 clk ctr st hp =
     (case poll_expired t0 clk ctr hp of
        (expired, ctr', hp') \<Rightarrow>
          (expired, calculate_sleep (next_deadline hp') cfg t2, ctr',
           st\<lparr> ts_poll_count := ts_poll_count st + 1,
               ts_timers_fired := ts_timers_fired st + of_nat (length expired),
               ts_max_batch_size := max (ts_max_batch_size st) (length expired),
               ts_poll_time := ts_poll_time st + (t1 - t0) \<rparr>,
           hp'))"

text \<open>
  The loop over its rounds. A round lists what the outside world decides: whether the
  shutdown flag reads set, the clock readings, and what other threads do to the backend
  and the handle counter before the poll.
\<close>

record TimerRound =
  tr_shutdown :: bool
  tr_poll_start :: nat
  tr_elapsed_at :: nat
  tr_sleep_at :: nat
  tr_clk :: "u64 \<Rightarrow> nat"
  tr_env :: "u64 \<times> HeapInner \<Rightarrow> u64 \<times> HeapInner"

fun timer_loop ::
  "TimerThreadConfig \<Rightarrow> TimerRound list \<Rightarrow> u64 \<Rightarrow> TimerStats \<Rightarrow> HeapInner \<Rightarrow>
   ExpiredTimer list list \<times> TimerStats \<times> u64 \<times> HeapInner"
where
  "timer_loop cfg [] ctr st hp = ([], st, ctr, hp)"
| "timer_loop cfg (r # rs) ctr st hp =
     (if tr_shutdown r then ([], st, ctr, hp)
      else case tr_env r (ctr, hp) of (ctr0, hp0) \<Rightarrow>
        (case timer_round cfg (tr_poll_start r) (tr_elapsed_at r) (tr_sleep_at r) (tr_clk r) ctr0 st hp0 of
           (expired, _, ctr1, st1, hp1) \<Rightarrow>
             (case timer_loop cfg rs ctr1 st1 hp1 of
                (batches, res) \<Rightarrow> (expired # batches, res))))"

section \<open>The contract of a timer backend\<close>

datatype TimerOp = OpSchedule TimerEntry | OpCancel TimerHandle | OpPoll nat "u64 \<Rightarrow> nat"

text \<open>A sequence of calls on a backend, with the entries it fired, in order.\<close>

fun run_timers ::
  "(TimerEntry \<Rightarrow> 's \<Rightarrow> TimerHandle \<times> 's) \<Rightarrow> (TimerHandle \<Rightarrow> 's \<Rightarrow> 's) \<Rightarrow>
   (nat \<Rightarrow> (u64 \<Rightarrow> nat) \<Rightarrow> 's \<Rightarrow> TimerEntry list \<times> 's) \<Rightarrow> TimerOp list \<Rightarrow> 's \<Rightarrow>
   TimerEntry list \<times> 's"
where
  "run_timers sched cancel poll [] s = ([], s)"
| "run_timers sched cancel poll (OpSchedule e # ops) s =
     run_timers sched cancel poll ops (snd (sched e s))"
| "run_timers sched cancel poll (OpCancel h # ops) s =
     run_timers sched cancel poll ops (cancel h s)"
| "run_timers sched cancel poll (OpPoll now clk # ops) s =
     (case poll now clk s of (fs, s') \<Rightarrow>
       (case run_timers sched cancel poll ops s' of (gs, s'') \<Rightarrow> (fs @ gs, s'')))"

text \<open>
  What the calls must respect: handles are not exhausted, and only handles that were
  issued are cancelled.
\<close>

fun ops_allowed ::
  "('s \<Rightarrow> bool) \<Rightarrow> ('s \<Rightarrow> TimerHandle \<Rightarrow> bool) \<Rightarrow>
   (TimerEntry \<Rightarrow> 's \<Rightarrow> TimerHandle \<times> 's) \<Rightarrow> (TimerHandle \<Rightarrow> 's \<Rightarrow> 's) \<Rightarrow>
   (nat \<Rightarrow> (u64 \<Rightarrow> nat) \<Rightarrow> 's \<Rightarrow> TimerEntry list \<times> 's) \<Rightarrow> TimerOp list \<Rightarrow> 's \<Rightarrow> bool"
where
  "ops_allowed room issued sched cancel poll [] s = True"
| "ops_allowed room issued sched cancel poll (OpSchedule e # ops) s =
     (room s \<and> ops_allowed room issued sched cancel poll ops (snd (sched e s)))"
| "ops_allowed room issued sched cancel poll (OpCancel h # ops) s =
     (issued s h \<and> ops_allowed room issued sched cancel poll ops (cancel h s))"
| "ops_allowed room issued sched cancel poll (OpPoll now clk # ops) s =
     (room s \<and> ops_allowed room issued sched cancel poll ops (snd (poll now clk s)))"

locale timer_backend =
  fixes inv :: "'s \<Rightarrow> bool"
    and room :: "'s \<Rightarrow> bool"
    and issued :: "'s \<Rightarrow> TimerHandle \<Rightarrow> bool"
    and live :: "'s \<Rightarrow> TimerEntry set"
    and sched :: "TimerEntry \<Rightarrow> 's \<Rightarrow> TimerHandle \<times> 's"
    and cancel :: "TimerHandle \<Rightarrow> 's \<Rightarrow> 's"
    and poll :: "nat \<Rightarrow> (u64 \<Rightarrow> nat) \<Rightarrow> 's \<Rightarrow> TimerEntry list \<times> 's"
    and nxt :: "'s \<Rightarrow> nat option"
  assumes live_issued: "inv s \<Longrightarrow> e \<in> live s \<Longrightarrow> issued s (te_handle e)"
    and sched_law: "inv s \<Longrightarrow> room s \<Longrightarrow> sched e s = (h, s') \<Longrightarrow>
          inv s' \<and> \<not> issued s h \<and> (\<forall>g. issued s' g \<longleftrightarrow> g = h \<or> issued s g) \<and>
          live s' = insert (e\<lparr>te_handle := h\<rparr>) (live s)"
    and cancel_law: "inv s \<Longrightarrow> issued s h \<Longrightarrow>
          inv (cancel h s) \<and> (\<forall>g. issued (cancel h s) g \<longleftrightarrow> issued s g) \<and>
          live (cancel h s) = {e \<in> live s. te_handle e \<noteq> h}"
    and poll_law: "inv s \<Longrightarrow> room s \<Longrightarrow> poll now clk s = (fs, s') \<Longrightarrow>
          inv s' \<and> set fs = {e \<in> live s. te_deadline e \<le> now} \<and> distinct (map te_handle fs) \<and>
          sorted (map te_deadline fs) \<and> (\<forall>g. issued s g \<longrightarrow> issued s' g) \<and>
          (\<forall>e \<in> live s. now < te_deadline e \<longrightarrow> e \<in> live s') \<and>
          (\<forall>e \<in> live s'. issued s (te_handle e) \<longrightarrow> e \<in> live s \<and> now < te_deadline e)"
    and unique_law: "inv s \<Longrightarrow> inj_on te_handle (live s)"
    and next_law: "inv s \<Longrightarrow> e \<in> live s \<Longrightarrow> \<exists>d. nxt s = Some d \<and> d \<le> te_deadline e"
begin

definition dead :: "'s \<Rightarrow> TimerHandle \<Rightarrow> bool" where
  "dead s h \<longleftrightarrow> issued s h \<and> h \<notin> te_handle ` live s"

lemma dead_sched: "inv s \<Longrightarrow> room s \<Longrightarrow> dead s h \<Longrightarrow> dead (snd (sched e s)) h"
  using sched_law[of s e "fst (sched e s)" "snd (sched e s)"] by (auto simp: dead_def)

lemma dead_cancel: "inv s \<Longrightarrow> issued s g \<Longrightarrow> dead s h \<Longrightarrow> dead (cancel g s) h"
  using cancel_law[of s g] by (auto simp: dead_def)

lemma cancelled_dead: "inv s \<Longrightarrow> issued s g \<Longrightarrow> dead (cancel g s) g"
  using cancel_law[of s g] by (auto simp: dead_def)

lemma dead_poll:
  assumes "inv s" "room s" "poll now clk s = (fs, s')" "dead s h"
  shows "dead s' h \<and> h \<notin> te_handle ` set fs"
  using poll_law[OF assms(1-3)] assms(4) unfolding dead_def by blast

lemma fired_dead:
  assumes "inv s" "room s" "poll now clk s = (fs, s')" "e \<in> set fs"
  shows "dead s' (te_handle e)"
proof -
  note law = poll_law[OF assms(1-3)]
  have e: "e \<in> live s" "te_deadline e \<le> now"
    using law assms(4) by auto
  have "e' \<in> live s' \<Longrightarrow> te_handle e' \<noteq> te_handle e" for e'
  proof
    assume e': "e' \<in> live s'" and eq: "te_handle e' = te_handle e"
    have "e' \<in> live s" "now < te_deadline e'"
      using law e' eq live_issued[OF assms(1) e(1)] by auto
    then show False
      using unique_law[OF assms(1)] e eq by (metis inj_onD leD)
  qed
  then have "te_handle e \<notin> te_handle ` live s'"
    by (metis imageE)
  then show ?thesis
    using law live_issued[OF assms(1) e(1)] unfolding dead_def by blast
qed

lemma run_fires_once:
  assumes "inv s" "ops_allowed room issued sched cancel poll ops s"
    and "run_timers sched cancel poll ops s = (fs, s')"
  shows "inv s' \<and> distinct (map te_handle fs) \<and> (\<forall>h. dead s h \<longrightarrow> h \<notin> te_handle ` set fs)"
  using assms
proof (induction ops arbitrary: s fs)
  case Nil
  then show ?case by auto
next
  case (Cons oper ops)
  show ?case
  proof (cases oper)
    case (OpSchedule e)
    then show ?thesis
      using Cons.prems Cons.IH[of "snd (sched e s)" fs] dead_sched[of s _ e]
        sched_law[of s e "fst (sched e s)" "snd (sched e s)"] by auto
  next
    case (OpCancel h)
    then show ?thesis
      using Cons.prems Cons.IH[of "cancel h s" fs] dead_cancel[of s h] cancel_law[of s h] by auto
  next
    case (OpPoll now clk)
    obtain gs t where p: "poll now clk s = (gs, t)"
      by (cases "poll now clk s")
    obtain hs where r: "run_timers sched cancel poll ops t = (hs, s')" and fs: "fs = gs @ hs"
      using Cons.prems(3) by (auto simp: OpPoll p split: prod.splits)
    have rm: "room s"
      using Cons.prems(2) by (simp add: OpPoll)
    have al: "ops_allowed room issued sched cancel poll ops t"
      using Cons.prems(2) by (simp add: OpPoll p)
    note law = poll_law[OF Cons.prems(1) rm p]
    have ih: "inv s' \<and> distinct (map te_handle hs) \<and> (\<forall>h. dead t h \<longrightarrow> h \<notin> te_handle ` set hs)"
      using Cons.IH[OF _ al r] law by blast
    have "te_handle ` set gs \<inter> te_handle ` set hs = {}"
      using ih fired_dead[OF Cons.prems(1) rm p] by fastforce
    then have "distinct (map te_handle fs)"
      using ih law by (simp add: fs)
    moreover have "h \<notin> te_handle ` set fs" if "dead s h" for h
      using dead_poll[OF Cons.prems(1) rm p that] ih by (simp add: fs image_Un)
    ultimately show ?thesis
      using ih by blast
  qed
qed

lemma sleep_bound:
  assumes "inv s" "e \<in> live s"
  shows "calculate_sleep (nxt s) cfg now \<le> max (te_deadline e - now) (tc_min_sleep cfg) \<and>
    (te_deadline e \<le> now \<longrightarrow> calculate_sleep (nxt s) cfg now = 0)"
  using next_law[OF assms] by (auto simp: calculate_sleep_def)

end

section \<open>The heap backend meets the contract\<close>

text \<open>The state of the subsystem is the handle counter with the heap.\<close>

type_synonym timer_state = "u64 \<times> HeapInner"

fun heap_inv :: "timer_state \<Rightarrow> bool" where
  "heap_inv (ctr, hp) \<longleftrightarrow>
     sorted (map heap_key (hp_heap hp)) \<and> distinct (map te_handle (hp_heap hp)) \<and>
     (\<forall>e \<in> set (hp_heap hp). te_handle e < ctr) \<and> (\<forall>h \<in> hp_cancelled hp. h < ctr)"

fun heap_room :: "timer_state \<Rightarrow> bool" where
  "heap_room (ctr, hp) \<longleftrightarrow> unat ctr + length (hp_heap hp) + 1 < 2 ^ 64"

fun heap_issued :: "timer_state \<Rightarrow> TimerHandle \<Rightarrow> bool" where
  "heap_issued (ctr, hp) h \<longleftrightarrow> h < ctr"

fun heap_live :: "timer_state \<Rightarrow> TimerEntry set" where
  "heap_live (ctr, hp) = {e \<in> set (hp_heap hp). te_handle e \<notin> hp_cancelled hp}"

fun heap_sched :: "TimerEntry \<Rightarrow> timer_state \<Rightarrow> TimerHandle \<times> timer_state" where
  "heap_sched e (ctr, hp) =
     insert_new (TimerEntry_at (te_gvt_id e) (te_deadline e) (te_affinity e) (te_type e)) ctr hp"

fun heap_cancel :: "TimerHandle \<Rightarrow> timer_state \<Rightarrow> timer_state" where
  "heap_cancel h (ctr, hp) = (ctr, snd (timer_cancel h hp))"

fun heap_poll :: "nat \<Rightarrow> (u64 \<Rightarrow> nat) \<Rightarrow> timer_state \<Rightarrow> TimerEntry list \<times> timer_state" where
  "heap_poll now clk (ctr, hp) =
     (fst (poll_loop now clk ctr (hp_heap hp) (hp_cancelled hp)), snd (poll_expired now clk ctr hp))"

fun heap_next :: "timer_state \<Rightarrow> nat option" where
  "heap_next (ctr, hp) = next_deadline hp"

definition due_live :: "nat \<Rightarrow> TimerHandle set \<Rightarrow> TimerEntry \<Rightarrow> bool" where
  "due_live now cs e \<longleftrightarrow> te_deadline e \<le> now \<and> te_handle e \<notin> cs"

definition renews :: "(u64 \<Rightarrow> nat) \<Rightarrow> TimerEntry \<Rightarrow> TimerEntry \<Rightarrow> bool" where
  "renews clk e r \<longleftrightarrow>
     (\<exists>iv. te_type e = Periodic iv \<and> te_deadline r = clk (te_handle e) + iv) \<and>
     te_gvt_id r = te_gvt_id e \<and> te_affinity r = te_affinity e \<and> te_type r = te_type e"

lemma heap_key_deadline: "heap_key a \<le> heap_key b \<Longrightarrow> te_deadline a \<le> te_deadline b"
  by (auto simp: heap_key_def less_eq_prod_def)

lemma reschedule_cases:
  "(\<not> is_periodic (te_type e) \<and> reschedule t e ctr = (None, ctr)) \<or>
   (is_periodic (te_type e) \<and>
    (\<exists>r. reschedule t e ctr = (Some r, ctr + 1) \<and> te_handle r = ctr \<and> renews (\<lambda>_. t) e r))"
  by (cases "te_type e") (auto simp: reschedule_def is_periodic_def TimerHandle_new_def renews_def)

lemma filter_late_all:
  assumes "sorted (map heap_key (e # es))" "now < te_deadline e"
  shows "filter (\<lambda>x. now < te_deadline x) (e # es) = e # es"
    and "filter (due_live now cs) (e # es) = []"
proof -
  have "\<forall>x \<in> set (e # es). now < te_deadline x"
    using assms by (auto dest!: heap_key_deadline)
  then show "filter (\<lambda>x. now < te_deadline x) (e # es) = e # es"
    and "filter (due_live now cs) (e # es) = []"
    by (auto simp: filter_id_conv filter_empty_conv due_live_def)
qed

text \<open>The loop takes exactly the due entries off the front, in order.\<close>

lemma poll_loop_spec:
  assumes "poll_loop now clk ctr es cs = (fired, resched, ctr', rest, cs')"
    and "sorted (map heap_key es)" "distinct (map te_handle es)"
  shows "fired = filter (due_live now cs) es \<and> rest = filter (\<lambda>e. now < te_deadline e) es \<and>
    cs' = cs - te_handle ` {e \<in> set es. te_deadline e \<le> now}"
  using assms
proof (induction es arbitrary: ctr cs fired resched ctr' rest cs')
  case Nil
  then show ?case by auto
next
  case (Cons e es)
  have so: "sorted (map heap_key es)" and di: "distinct (map te_handle es)"
    and ne: "te_handle e \<notin> te_handle ` set es"
    using Cons.prems by auto
  consider "now < te_deadline e" | "te_deadline e \<le> now" "te_handle e \<in> cs"
    | "te_deadline e \<le> now" "te_handle e \<notin> cs"
    by linarith
  then show ?case
  proof cases
    case 1
    have "{x \<in> set (e # es). te_deadline x \<le> now} = {}"
      using 1 Cons.prems(2) by (auto dest!: heap_key_deadline)
    then show ?thesis
      using 1 Cons.prems(1) filter_late_all[OF Cons.prems(2) 1] by auto
  next
    case 2
    have "poll_loop now clk ctr es (cs - {te_handle e}) = (fired, resched, ctr', rest, cs')"
      using 2 Cons.prems(1) by simp
    note ih = Cons.IH[OF this so di]
    have "filter (due_live now (cs - {te_handle e})) es = filter (due_live now cs) es"
      using ne by (intro filter_cong refl) (metis Diff_iff due_live_def image_eqI singletonD)
    moreover have "{x \<in> set (e # es). te_deadline x \<le> now} =
        insert e {x \<in> set es. te_deadline x \<le> now}" "\<not> due_live now cs e"
      using 2 by (auto simp: due_live_def)
    ultimately show ?thesis
      using ih 2 by auto
  next
    case 3
    obtain ro ctr1 where r: "reschedule (clk (te_handle e)) e ctr = (ro, ctr1)"
      by (cases "reschedule (clk (te_handle e)) e ctr")
    obtain f2 r2 where p: "poll_loop now clk ctr1 es cs = (f2, r2, ctr', rest, cs')"
      and f: "fired = e # f2"
      using 3 Cons.prems(1) r by (auto split: prod.splits)
    show ?thesis
      using Cons.IH[OF p so di] 3 f by (auto simp: due_live_def)
  qed
qed

text \<open>Each periodic entry that fires is renewed under the next handle.\<close>

lemma poll_loop_resched:
  assumes "poll_loop now clk ctr es cs = (fired, resched, ctr', rest, cs')"
  shows "list_all2 (renews clk) (filter (\<lambda>e. is_periodic (te_type e)) fired) resched \<and>
    map te_handle resched = map (\<lambda>i. ctr + of_nat i) [0..<length resched] \<and>
    ctr' = ctr + of_nat (length resched) \<and> length resched + length rest \<le> length es"
  using assms
proof (induction es arbitrary: ctr cs fired resched ctr' rest cs')
  case Nil
  then show ?case by auto
next
  case (Cons e es)
  show ?case
  proof (cases "now < te_deadline e \<or> te_handle e \<in> cs")
    case True
    then show ?thesis
      using Cons.prems Cons.IH[of ctr "cs - {te_handle e}"] by (auto split: if_splits)
  next
    case False
    obtain ro ctr1 where r: "reschedule (clk (te_handle e)) e ctr = (ro, ctr1)"
      by (cases "reschedule (clk (te_handle e)) e ctr")
    obtain f2 r2 where p: "poll_loop now clk ctr1 es cs = (f2, r2, ctr', rest, cs')"
      and f: "fired = e # f2" and rs: "resched = (case ro of Some x \<Rightarrow> x # r2 | None \<Rightarrow> r2)"
      using False Cons.prems r by (auto split: prod.splits)
    note ih = Cons.IH[OF p]
    show ?thesis
    proof (cases "is_periodic (te_type e)")
      case True
      then obtain x where x: "ro = Some x" "ctr1 = ctr + 1" "te_handle x = ctr"
          "renews clk e x"
        using reschedule_cases[of e "clk (te_handle e)" ctr] r by (auto simp: renews_def)
      have "map (\<lambda>i. ctr + of_nat i) [0..<Suc n] = ctr # map (\<lambda>i. ctr + 1 + of_nat i) [0..<n]" for n
        by (simp add: upt_conv_Cons map_Suc_upt [symmetric] add.assoc add.commute del: upt_Suc)
      then show ?thesis
        using ih x f rs True by (auto simp: algebra_simps simp del: upt_Suc)
    next
      case False
      then have "ro = None" "ctr1 = ctr"
        using reschedule_cases[of e "clk (te_handle e)" ctr] r by auto
      then show ?thesis
        using ih f rs False by auto
    qed
  qed
qed

lemma mset_fold_insort: "mset (fold (insort_key f) xs ys) = mset xs + mset ys"
  by (induction xs arbitrary: ys) auto

lemma set_fold_insort: "set (fold (insort_key f) xs ys) = set xs \<union> set ys"
  by (metis mset_append mset_fold_insort set_append set_mset_mset)

lemma sorted_fold_insort:
  "sorted (map f ys) \<Longrightarrow> sorted (map f (fold (insort_key f) xs ys))"
  by (induction xs arbitrary: ys) (auto simp: sorted_insort_key)

lemma distinct_map_fold_insort:
  "distinct (map g (fold (insort_key f) xs ys)) = distinct (map g (xs @ ys))"
  by (metis mset_append mset_eq_imp_distinct_iff mset_fold_insort mset_map)

lemma unat_add_small:
  fixes c :: u64
  assumes "unat c + n < 2 ^ 64"
  shows "unat (c + of_nat n) = unat c + n"
  using assms by (simp add: unat_word_ariths unat_of_nat_lt)

lemma renewed_handles:
  fixes ctr :: u64
  assumes "map te_handle rs = map (\<lambda>i. ctr + of_nat i) [0..<length rs]"
    and "unat ctr + length rs < 2 ^ 64"
  shows "distinct (map te_handle rs)"
    and "r \<in> set rs \<Longrightarrow> ctr \<le> te_handle r \<and> te_handle r < ctr + of_nat (length rs)"
    and "ctr \<le> ctr + of_nat (length rs)"
proof -
  have u: "unat (ctr + of_nat i) = unat ctr + i" if "i \<le> length rs" for i
    using that assms(2) by (intro unat_add_small) simp
  have "inj_on (\<lambda>i. ctr + of_nat i) {0..<length rs}"
  proof (rule inj_onI)
    fix i j assume a: "i \<in> {0..<length rs}" "j \<in> {0..<length rs}" "ctr + of_nat i = ctr + of_nat j"
    have "unat ctr + i = unat (ctr + of_nat i)"
      using u[of i] a(1) by (simp del: of_nat_add)
    also have "\<dots> = unat (ctr + of_nat j)"
      by (simp only: a(3))
    also have "\<dots> = unat ctr + j"
      using u[of j] a(2) by (simp del: of_nat_add)
    finally show "i = j" by simp
  qed
  then show "distinct (map te_handle rs)"
    by (simp add: assms(1) distinct_map)
  show "ctr \<le> te_handle r \<and> te_handle r < ctr + of_nat (length rs)" if "r \<in> set rs"
  proof -
    have "te_handle r \<in> set (map te_handle rs)"
      using that by simp
    then obtain i where i: "i < length rs" "te_handle r = ctr + of_nat i"
      by (subst (asm) assms(1)) auto
    then show ?thesis
      using u[of i] u[of "length rs"] by (simp add: word_le_nat_alt word_less_nat_alt)
  qed
  show "ctr \<le> ctr + of_nat (length rs)"
    using u[of "length rs"] by (simp add: word_le_nat_alt)
qed

text \<open>What one poll does to the counter and the heap, for a backend in order.\<close>

lemma heap_poll_spec:
  assumes inv: "heap_inv (ctr, hp)" and room: "heap_room (ctr, hp)"
    and pl: "poll_expired now clk ctr hp = (expired, ctr', hp')"
  shows "\<exists>resched. heap_inv (ctr', hp') \<and>
    fst (poll_loop now clk ctr (hp_heap hp) (hp_cancelled hp)) =
      filter (due_live now (hp_cancelled hp)) (hp_heap hp) \<and>
    expired = map expired_of (filter (due_live now (hp_cancelled hp)) (hp_heap hp)) \<and>
    list_all2 (renews clk)
      (filter (\<lambda>e. is_periodic (te_type e)) (filter (due_live now (hp_cancelled hp)) (hp_heap hp))) resched \<and>
    heap_live (ctr', hp') = {e \<in> heap_live (ctr, hp). now < te_deadline e} \<union> set resched \<and>
    (\<forall>r \<in> set resched. ctr \<le> te_handle r \<and> te_handle r < ctr') \<and> ctr \<le> ctr'"
proof -
  obtain fired resched c rest cs
    where l: "poll_loop now clk ctr (hp_heap hp) (hp_cancelled hp) = (fired, resched, c, rest, cs)"
    by (metis prod_cases5)
  let ?h = "fold (insort_key heap_key) resched rest"
  have so: "sorted (map heap_key (hp_heap hp))" and di: "distinct (map te_handle (hp_heap hp))"
    and lt: "\<forall>e \<in> set (hp_heap hp). te_handle e < ctr" and cl: "\<forall>h \<in> hp_cancelled hp. h < ctr"
    using inv by auto
  note sp = poll_loop_spec[OF l so di] and rs = poll_loop_resched[OF l]
  have c: "c = ctr'" and e: "expired = map expired_of fired" and h': "hp_heap hp' = ?h"
    and cs': "hp_cancelled hp' = (if ?h = [] then {} else cs)"
    using pl by (auto simp: poll_expired_def l Let_def)
  have small: "unat ctr + length resched < 2 ^ 64"
    using room rs by auto
  note rh = renewed_handles[OF conjunct1[OF conjunct2[OF rs]] small]
  have ctr': "ctr' = ctr + of_nat (length resched)"
    using rs c by simp
  have rest: "set rest \<subseteq> set (hp_heap hp)"
    using sp by auto
  have sub: "cs \<subseteq> hp_cancelled hp"
    using sp by auto
  have hs: "set ?h = set resched \<union> set rest"
    by (rule set_fold_insort)
  have fresh: "te_handle r \<notin> cs" "te_handle r \<notin> te_handle ` set rest" if "r \<in> set resched" for r
    using rh(2)[OF that] cl lt sub rest by (auto dest!: subsetD)
  have "sorted (map heap_key ?h)"
    using sp so by (intro sorted_fold_insort) (simp add: sorted_filter)
  moreover have "distinct (map te_handle rest)"
    using sp di by (simp add: distinct_map_filter)
  then have "distinct (map te_handle ?h)"
    using rh(1) fresh(2) by (auto simp: distinct_map_fold_insort)
  moreover have "\<forall>x \<in> set ?h. te_handle x < ctr'"
    using rh(2,3) lt rest ctr' by (auto simp: hs intro: less_le_trans)
  moreover have "\<forall>x \<in> hp_cancelled hp'. x < ctr'"
    using cs' sub cl rh(3) ctr' by (auto intro: less_le_trans)
  ultimately have inv': "heap_inv (ctr', hp')"
    by (simp add: h')
  have "te_handle x \<in> cs \<longleftrightarrow> te_handle x \<in> hp_cancelled hp" if x: "x \<in> set rest" for x
  proof -
    have x': "x \<in> set (hp_heap hp)" "now < te_deadline x"
      using x sp by auto
    have inj: "inj_on te_handle (set (hp_heap hp))"
      using di by (simp add: distinct_map)
    have "te_handle x \<notin> te_handle ` {y \<in> set (hp_heap hp). te_deadline y \<le> now}"
    proof
      assume "te_handle x \<in> te_handle ` {y \<in> set (hp_heap hp). te_deadline y \<le> now}"
      then obtain y where y: "y \<in> set (hp_heap hp)" "te_deadline y \<le> now" "te_handle x = te_handle y"
        by blast
      show False
        using inj_onD[OF inj y(3) x'(1) y(1)] x'(2) y(2) by simp
    qed
    moreover have "cs = hp_cancelled hp - te_handle ` {y \<in> set (hp_heap hp). te_deadline y \<le> now}"
      using sp by blast
    ultimately show ?thesis
      by blast
  qed
  then have live: "heap_live (ctr', hp') = {x \<in> set rest. te_handle x \<notin> hp_cancelled hp} \<union> set resched"
    using fresh(1) hs by (cases "?h = []") (auto simp: h' hs cs')
  have "set rest = {x \<in> set (hp_heap hp). now < te_deadline x}"
    using sp by auto
  then have live': "heap_live (ctr', hp') = {x \<in> heap_live (ctr, hp). now < te_deadline x} \<union> set resched"
    using live by auto
  have f: "fired = filter (due_live now (hp_cancelled hp)) (hp_heap hp)"
    using sp by blast
  show ?thesis
    using inv' live' f e rs rh(2,3) unfolding ctr' by (intro exI[of _ resched]) (simp add: l)
qed

lemma heap_sched_spec:
  assumes "heap_inv (ctr, hp)" "heap_room (ctr, hp)"
    and "heap_sched e (ctr, hp) = (h, s')"
  shows "heap_inv s' \<and> h = ctr \<and> (\<forall>g. heap_issued s' g \<longleftrightarrow> g = h \<or> g < ctr) \<and>
    heap_live s' = insert (e\<lparr>te_handle := h\<rparr>) (heap_live (ctr, hp))"
proof -
  let ?e = "e\<lparr>te_handle := ctr\<rparr>"
  have s': "h = ctr" "s' = (ctr + 1, snd (timer_insert ?e hp))"
    using assms(3)
    by (cases e; auto simp: insert_new_def TimerEntry_at_def TimerHandle_new_def timer_insert_def)+
  have u: "unat (ctr + 1) = unat ctr + 1"
    using unat_add_small[of ctr 1] assms(2) by simp
  have lt: "g < ctr + 1 \<longleftrightarrow> g = ctr \<or> g < ctr" for g
    by (auto simp: word_less_nat_alt u less_Suc_eq word_unat_eq_iff)
  have "distinct (map te_handle (insort_key heap_key ?e (hp_heap hp)))"
    using assms(1) distinct_map_fold_insort[of te_handle heap_key "[?e]" "hp_heap hp"] by auto
  then show ?thesis
    using assms(1) by (auto simp: s' timer_insert_def sorted_insort_key set_insort_key lt)
qed

lemma heap_cancel_spec:
  assumes "heap_inv (ctr, hp)" "h < ctr"
  shows "heap_inv (heap_cancel h (ctr, hp)) \<and>
    heap_live (heap_cancel h (ctr, hp)) = {e \<in> heap_live (ctr, hp). te_handle e \<noteq> h}"
  using assms by (auto simp: timer_cancel_def)

lemma heap_poll_law:
  assumes "heap_inv s" "heap_room s" "heap_poll now clk s = (fs, s')"
  shows "heap_inv s' \<and> set fs = {e \<in> heap_live s. te_deadline e \<le> now} \<and> distinct (map te_handle fs) \<and>
    sorted (map te_deadline fs) \<and> (\<forall>g. heap_issued s g \<longrightarrow> heap_issued s' g) \<and>
    (\<forall>e \<in> heap_live s. now < te_deadline e \<longrightarrow> e \<in> heap_live s') \<and>
    (\<forall>e \<in> heap_live s'. heap_issued s (te_handle e) \<longrightarrow> e \<in> heap_live s \<and> now < te_deadline e)"
proof -
  obtain ctr hp where s: "s = (ctr, hp)" by (cases s)
  obtain ex ctr' hp' where p: "poll_expired now clk ctr hp = (ex, ctr', hp')"
    by (metis prod_cases3)
  have s': "s' = (ctr', hp')" and fs: "fs = fst (poll_loop now clk ctr (hp_heap hp) (hp_cancelled hp))"
    using assms(3) by (auto simp: s p)
  obtain rs where sp: "heap_inv s'" "fs = filter (due_live now (hp_cancelled hp)) (hp_heap hp)"
      "heap_live s' = {e \<in> heap_live s. now < te_deadline e} \<union> set rs"
      "\<forall>r \<in> set rs. ctr \<le> te_handle r \<and> te_handle r < ctr'" "ctr \<le> ctr'"
    using heap_poll_spec[OF assms(1)[unfolded s] assms(2)[unfolded s] p] s s' fs by blast
  have so: "sorted (map heap_key (hp_heap hp))" and di: "distinct (map te_handle (hp_heap hp))"
    using assms(1) by (auto simp: s)
  have "sorted (map heap_key fs)"
    using so by (simp add: sp(2) sorted_filter)
  then have "sorted (map te_deadline fs)"
    by (auto simp: sorted_wrt_map intro: sorted_wrt_mono_rel[rotated] heap_key_deadline)
  moreover have "distinct (map te_handle fs)"
    using di by (simp add: sp(2) distinct_map_filter)
  moreover have "set fs = {e \<in> heap_live s. te_deadline e \<le> now}"
    by (auto simp: sp(2) s due_live_def)
  moreover have "\<forall>g. heap_issued s g \<longrightarrow> heap_issued s' g"
    using sp(5) by (auto simp: s s')
  moreover have "\<forall>e \<in> heap_live s'. heap_issued s (te_handle e) \<longrightarrow> e \<in> heap_live s \<and> now < te_deadline e"
    using sp(3,4) by (auto simp: s)
  ultimately show ?thesis
    using sp(1,3) by blast
qed

lemma heap_next_law:
  assumes "heap_inv s" "e \<in> heap_live s"
  shows "\<exists>d. heap_next s = Some d \<and> d \<le> te_deadline e"
proof -
  obtain ctr hp where s: "s = (ctr, hp)" by (cases s)
  then have e: "e \<in> set (hp_heap hp)" and so: "sorted (map heap_key (hp_heap hp))"
    using assms by auto
  then show ?thesis
    by (cases "hp_heap hp") (auto simp: s next_deadline_def dest: heap_key_deadline)
qed

interpretation hb: timer_backend heap_inv heap_room heap_issued heap_live heap_sched heap_cancel
  heap_poll heap_next
proof
  fix s e h s' now clk fs
  show "heap_issued s (te_handle e)" if "heap_inv s" "e \<in> heap_live s"
    using that by (cases s) auto
  show "heap_inv s' \<and> \<not> heap_issued s h \<and> (\<forall>g. heap_issued s' g \<longleftrightarrow> g = h \<or> heap_issued s g) \<and>
      heap_live s' = insert (e\<lparr>te_handle := h\<rparr>) (heap_live s)"
    if "heap_inv s" "heap_room s" "heap_sched e s = (h, s')"
    using that heap_sched_spec[of "fst s" "snd s" e h s'] by (cases s) auto
  show "heap_inv (heap_cancel h s) \<and> (\<forall>g. heap_issued (heap_cancel h s) g \<longleftrightarrow> heap_issued s g) \<and>
      heap_live (heap_cancel h s) = {e \<in> heap_live s. te_handle e \<noteq> h}"
    if "heap_inv s" "heap_issued s h"
    using that heap_cancel_spec[of "fst s" "snd s" h] by (cases s) auto
  show "inj_on te_handle (heap_live s)" if "heap_inv s"
    using that by (cases s) (auto simp: distinct_map intro: inj_on_subset)
qed (fact heap_poll_law heap_next_law)+

section \<open>Properties\<close>

text \<open>
  C17: a poll of the timer heap reports exactly the timers that are due and not cancelled,
  in the order of their deadlines, keeps every other live timer, and re-arms each periodic
  timer that fired, one interval after the clock reading of its renewal.
\<close>

theorem poll_expired_exact:
  assumes "heap_inv (ctr, hp)" "heap_room (ctr, hp)"
    and "poll_expired now clk ctr hp = (expired, ctr', hp')"
  shows "expired = map expired_of (filter (due_live now (hp_cancelled hp)) (hp_heap hp)) \<and>
    sorted (map te_deadline (filter (due_live now (hp_cancelled hp)) (hp_heap hp))) \<and>
    heap_inv (ctr', hp') \<and>
    (\<exists>resched. list_all2 (renews clk)
        (filter (\<lambda>e. is_periodic (te_type e)) (filter (due_live now (hp_cancelled hp)) (hp_heap hp))) resched \<and>
      heap_live (ctr', hp') = {e \<in> heap_live (ctr, hp). now < te_deadline e} \<union> set resched)"
proof -
  have p: "heap_poll now clk (ctr, hp) =
      (fst (poll_loop now clk ctr (hp_heap hp) (hp_cancelled hp)), (ctr', hp'))"
    by (simp add: assms(3))
  have eq: "fst (poll_loop now clk ctr (hp_heap hp) (hp_cancelled hp)) =
      filter (due_live now (hp_cancelled hp)) (hp_heap hp)"
    using heap_poll_spec[OF assms] by blast
  have "sorted (map te_deadline (filter (due_live now (hp_cancelled hp)) (hp_heap hp)))"
    using hb.poll_law[OF assms(1,2) p] unfolding eq by blast
  then show ?thesis
    using heap_poll_spec[OF assms] by blast
qed

definition demo_entry :: "nat \<Rightarrow> TimerType \<Rightarrow> TimerEntry" where
  "demo_entry d ty =
     \<lparr> te_handle = 0, te_deadline = d, te_gvt_id = 7, te_affinity = None, te_type = ty \<rparr>"

definition demo_timers :: timer_state where
  "demo_timers =
     heap_cancel 2 (snd (heap_sched (demo_entry 30 Sleep)
       (snd (heap_sched (demo_entry 20 TimeoutTimer)
         (snd (heap_sched (demo_entry 10 (Periodic 50)) (1, HeapInner_new)))))))"

lemmas demo_simps = demo_timers_def demo_entry_def HeapInner_new_def insert_new_def
  TimerEntry_at_def TimerHandle_new_def timer_insert_def timer_cancel_def heap_key_def
  poll_expired_def reschedule_def less_eq_prod_def less_prod_def

theorem poll_expired_exact_witness:
  "heap_inv demo_timers \<and> heap_room demo_timers \<and>
   fst (poll_expired 25 (\<lambda>_. 26) (fst demo_timers) (snd demo_timers)) =
     map expired_of (filter (due_live 25 (hp_cancelled (snd demo_timers))) (hp_heap (snd demo_timers))) \<and>
   length (fst (poll_expired 25 (\<lambda>_. 26) (fst demo_timers) (snd demo_timers))) = 1"
proof -
  have i: "heap_inv (fst demo_timers, snd demo_timers)" "heap_room (fst demo_timers, snd demo_timers)"
    by (simp_all add: demo_simps)
  obtain ex c h where p: "poll_expired 25 (\<lambda>_. 26) (fst demo_timers) (snd demo_timers) = (ex, c, h)"
    by (metis prod_cases3)
  have "length (fst (poll_expired 25 (\<lambda>_. 26) (fst demo_timers) (snd demo_timers))) = 1"
    by (simp add: demo_simps Let_def)
  then show ?thesis
    using poll_expired_exact[OF i p] i p by simp
qed

text \<open>
  C14: whatever sequence of scheduling, cancelling and polling calls is made, no timer
  handle ever fires twice, and a handle that was already dead at the start (it fired, or it
  was cancelled) never fires.
\<close>

theorem timers_fire_once:
  assumes "heap_inv s"
    and "ops_allowed heap_room heap_issued heap_sched heap_cancel heap_poll ops s"
    and "run_timers heap_sched heap_cancel heap_poll ops s = (fired, s')"
  shows "heap_inv s' \<and> distinct (map te_handle fired) \<and>
    (\<forall>h. heap_issued s h \<and> h \<notin> te_handle ` heap_live s \<longrightarrow> h \<notin> te_handle ` set fired)"
  using hb.run_fires_once[OF assms] by (simp add: hb.dead_def)

theorem timers_fire_once_witness:
  "distinct (map te_handle (fst (run_timers heap_sched heap_cancel heap_poll
     [OpPoll 25 (\<lambda>_. 26), OpSchedule (demo_entry 28 Sleep), OpPoll 100 (\<lambda>_. 101)] demo_timers))) \<and>
   map te_handle (fst (run_timers heap_sched heap_cancel heap_poll
     [OpPoll 25 (\<lambda>_. 26), OpSchedule (demo_entry 28 Sleep), OpPoll 100 (\<lambda>_. 101)] demo_timers)) = [1, 5, 3, 4]"
proof -
  let ?ops = "[OpPoll 25 (\<lambda>_. 26), OpSchedule (demo_entry 28 Sleep), OpPoll 100 (\<lambda>_. 101)]"
  have i: "heap_inv demo_timers"
    by (simp add: demo_simps)
  have a: "ops_allowed heap_room heap_issued heap_sched heap_cancel heap_poll ?ops demo_timers"
    by (simp add: demo_simps Let_def)
  obtain fs s' where r: "run_timers heap_sched heap_cancel heap_poll ?ops demo_timers = (fs, s')"
    by (cases "run_timers heap_sched heap_cancel heap_poll ?ops demo_timers")
  have "map te_handle (fst (run_timers heap_sched heap_cancel heap_poll ?ops demo_timers)) = [1, 5, 3, 4]"
    by (simp add: demo_simps Let_def)
  then show ?thesis
    using timers_fire_once[OF i a r] r by simp
qed

text \<open>The counters of the polling thread add up the batches it delivered.\<close>

lemma timer_loop_stats:
  "timer_loop cfg rs ctr st hp = (bs, st', ctr', hp') \<Longrightarrow>
   ts_poll_count st' = ts_poll_count st + of_nat (length bs) \<and>
   ts_timers_fired st' = ts_timers_fired st + of_nat (sum_list (map length bs)) \<and>
   ts_max_batch_size st' = fold max (map length bs) (ts_max_batch_size st)"
proof (induction rs arbitrary: ctr st hp bs)
  case Nil
  then show ?case by simp
next
  case (Cons r rs)
  show ?case
  proof (cases "tr_shutdown r")
    case True
    then show ?thesis using Cons.prems by simp
  next
    case False
    obtain c0 h0 where en: "tr_env r (ctr, hp) = (c0, h0)"
      by (cases "tr_env r (ctr, hp)")
    obtain ex sl c1 st1 h1 where rd: "timer_round cfg (tr_poll_start r) (tr_elapsed_at r)
        (tr_sleep_at r) (tr_clk r) c0 st h0 = (ex, sl, c1, st1, h1)"
      by (metis prod_cases5)
    obtain bs' where lp: "timer_loop cfg rs c1 st1 h1 = (bs', st', ctr', hp')" and bs: "bs = ex # bs'"
      using Cons.prems False by (auto simp: en rd split: prod.splits)
    have "ts_poll_count st1 = ts_poll_count st + 1"
        "ts_timers_fired st1 = ts_timers_fired st + of_nat (length ex)"
        "ts_max_batch_size st1 = max (length ex) (ts_max_batch_size st)"
      using rd by (auto simp: timer_round_def split: prod.splits)
    then show ?thesis
      using Cons.IH[OF lp] by (simp add: bs)
  qed
qed

text \<open>
  the polling thread sleeps at most until the deadline of any live timer, or for the
  minimum sleep when that is longer; it does not sleep at all while a live timer is due,
  and it never sleeps longer than the larger of its poll interval and its minimum sleep.
\<close>

theorem timer_sleep_bound:
  assumes "heap_inv (ctr, hp)" "e \<in> heap_live (ctr, hp)"
  shows "calculate_sleep (next_deadline hp) cfg now \<le> max (te_deadline e - now) (tc_min_sleep cfg) \<and>
    (te_deadline e \<le> now \<longrightarrow> calculate_sleep (next_deadline hp) cfg now = 0) \<and>
    calculate_sleep (next_deadline hp) cfg now \<le> max (tc_max_poll_interval cfg) (tc_min_sleep cfg)"
  using hb.sleep_bound[OF assms, of cfg now]
  by (auto simp: calculate_sleep_def split: option.splits)

theorem timer_sleep_bound_witness:
  "calculate_sleep (next_deadline (snd demo_timers)) TimerThreadConfig_default 12 = 0 \<and>
   calculate_sleep (next_deadline (snd demo_timers)) TimerThreadConfig_default 5 \<le> max 5 50000"
proof -
  let ?e = "(demo_entry 10 (Periodic 50))\<lparr>te_handle := 1\<rparr>"
  have i: "heap_inv (fst demo_timers, snd demo_timers)"
    by (simp add: demo_simps)
  have l: "?e \<in> heap_live (fst demo_timers, snd demo_timers)"
    by (simp add: demo_simps)
  show ?thesis
    using timer_sleep_bound[OF i l, of TimerThreadConfig_default 5]
      timer_sleep_bound[OF i l, of TimerThreadConfig_default 12]
    by (simp add: demo_entry_def TimerThreadConfig_default_def)
qed

text \<open>
  a periodic timer cannot be stopped with the handle its owner holds once it has fired:
  the renewal has a handle of its own, so cancelling the original handle after the first
  firing leaves a live entry of the same thread and interval in the heap.
\<close>

theorem periodic_outlives_cancel:
  assumes "heap_inv (ctr, hp)" "heap_room (ctr, hp)"
    and "e \<in> heap_live (ctr, hp)" "te_type e = Periodic iv" "te_deadline e \<le> now"
    and "poll_expired now clk ctr hp = (expired, ctr', hp')"
  shows "\<exists>r \<in> heap_live (ctr', snd (timer_cancel (te_handle e) hp')).
    te_gvt_id r = te_gvt_id e \<and> te_type r = Periodic iv \<and> te_deadline r = clk (te_handle e) + iv"
proof -
  let ?f = "filter (\<lambda>x. is_periodic (te_type x)) (filter (due_live now (hp_cancelled hp)) (hp_heap hp))"
  obtain rs where rs: "list_all2 (renews clk) ?f rs"
      "heap_live (ctr', hp') = {x \<in> heap_live (ctr, hp). now < te_deadline x} \<union> set rs"
      "\<forall>r \<in> set rs. ctr \<le> te_handle r"
    using heap_poll_spec[OF assms(1,2,6)] by blast
  have "e \<in> set ?f"
    using assms(3-5) by (auto simp: due_live_def is_periodic_def)
  then obtain r where r: "r \<in> set rs" "renews clk e r"
    using rs(1) by (metis in_set_conv_nth list_all2_conv_all_nth)
  have "te_handle e < ctr"
    using assms(1,3) by auto
  then have "te_handle r \<noteq> te_handle e"
    using rs(3) r(1) by auto
  moreover have "r \<in> heap_live (ctr', hp')"
    using rs(2) r(1) by blast
  ultimately have "r \<in> heap_live (ctr', snd (timer_cancel (te_handle e) hp'))"
    by (auto simp: timer_cancel_def)
  then show ?thesis
    using r(2) assms(4) by (auto simp: renews_def)
qed

theorem periodic_outlives_cancel_witness:
  "\<exists>ex ctr' hp'. poll_expired 25 (\<lambda>_. 26) (fst demo_timers) (snd demo_timers) = (ex, ctr', hp') \<and>
     (\<exists>r \<in> heap_live (ctr', snd (timer_cancel 1 hp')). te_type r = Periodic 50 \<and> te_deadline r = 76)"
proof -
  let ?e = "(demo_entry 10 (Periodic 50))\<lparr>te_handle := 1\<rparr>"
  have i: "heap_inv (fst demo_timers, snd demo_timers)" "heap_room (fst demo_timers, snd demo_timers)"
      "?e \<in> heap_live (fst demo_timers, snd demo_timers)"
    by (simp_all add: demo_simps)
  have t: "te_type ?e = Periodic 50" "te_deadline ?e \<le> 25" "te_handle ?e = 1"
    by (simp_all add: demo_entry_def)
  obtain ex ctr' hp' where p: "poll_expired 25 (\<lambda>_. 26) (fst demo_timers) (snd demo_timers) = (ex, ctr', hp')"
    by (metis prod_cases3)
  show ?thesis
    using periodic_outlives_cancel[OF i t(1,2) p] p t(3) by auto
qed

text \<open>
  cancelling an issued handle that no longer has a live timer still answers that a timer
  was cancelled, changes no live timer, and lowers the reported number of timers.
\<close>

theorem cancel_dead_handle:
  assumes "finite (hp_cancelled hp)" "h \<notin> te_handle ` set (hp_heap hp)" "h \<notin> hp_cancelled hp"
  shows "fst (timer_cancel h hp) \<and>
    heap_live (ctr, snd (timer_cancel h hp)) = heap_live (ctr, hp) \<and>
    timer_len (snd (timer_cancel h hp)) = timer_len hp - 1"
  using assms by (auto simp: timer_cancel_def timer_len_def)

theorem cancel_dead_handle_witness:
  "fst (timer_cancel 0 (snd demo_timers)) \<and>
   timer_len (snd demo_timers) = 2 \<and> timer_len (snd (timer_cancel 0 (snd demo_timers))) = 1"
proof -
  have a: "finite (hp_cancelled (snd demo_timers))" "0 \<notin> te_handle ` set (hp_heap (snd demo_timers))"
      "0 \<notin> hp_cancelled (snd demo_timers)"
    by (simp_all add: demo_simps)
  have "timer_len (snd demo_timers) = 2"
    by (simp add: demo_simps timer_len_def)
  then show ?thesis
    using cancel_dead_handle[OF a] by simp
qed

end
