(* ===== verification/Memory.thy ===== *)
theory Memory
  imports Core_Types
begin

text \<open>
  The slot memory of \<open>gvthread-runtime/src/memory\<close>: one reserved region, cut into slots of
  a metadata page, a stack and a guard page. The system calls are parameters that answer
  whether they succeed; what a successful call does to the access rights of the region is
  the kernel state \<open>Kernel\<close>.
\<close>

section \<open>The region (\<open>memory/mod.rs\<close>)\<close>

text \<open>Addresses are natural numbers; a null base is 0.\<close>

record MemoryRegion =
  mr_base :: nat
  mr_total_size :: usize
  mr_max_slots :: usize
  mr_initialized :: bool

definition MemoryRegion_new :: MemoryRegion where
  "MemoryRegion_new = \<lparr> mr_base = 0, mr_total_size = 0, mr_max_slots = 0, mr_initialized = False \<rparr>"

definition slot_base :: "MemoryRegion \<Rightarrow> u32 \<Rightarrow> nat" where
  "slot_base r i = mr_base r + unat i * SLOT_SIZE"

definition metadata_addr :: "MemoryRegion \<Rightarrow> u32 \<Rightarrow> nat" where
  "metadata_addr r i = slot_base r i"

definition stack_top :: "MemoryRegion \<Rightarrow> u32 \<Rightarrow> nat" where
  "stack_top r i = slot_base r i + SLOT_SIZE - GUARD_SIZE"

definition stack_bottom :: "MemoryRegion \<Rightarrow> u32 \<Rightarrow> nat" where
  "stack_bottom r i = slot_base r i + METADATA_SIZE"

section \<open>Mapping and protection (\<open>memory/unix.rs\<close>)\<close>

text \<open>The addresses of the region that can be read and written.\<close>

record Kernel =
  k_rw :: "nat set"

text \<open>\<open>mmap size\<close> is the address the kernel chose, or nothing for \<open>MAP_FAILED\<close>.\<close>

definition region_init ::
  "(nat \<Rightarrow> nat option) \<Rightarrow> usize \<Rightarrow> MemoryRegion \<Rightarrow> unit SchedResult \<times> MemoryRegion" where
  "region_init mmap max_slots r =
     (if mr_initialized r then (Err (SchedError_from_MemoryError MemoryAlreadyInitialized), r)
      else if max_slots * SLOT_SIZE \<ge> 2 ^ 64 then (Err (SchedError_from_MemoryError TooManySlots), r)
      else case mmap (max_slots * SLOT_SIZE) of
             None \<Rightarrow> (Err (SchedError_from_MemoryError AllocationFailed), r)
           | Some base \<Rightarrow>
               (Ok (), r\<lparr> mr_base := base, mr_total_size := max_slots * SLOT_SIZE,
                          mr_max_slots := max_slots, mr_initialized := True \<rparr>))"

text \<open>\<open>mprotect addr len\<close> answers whether the call succeeds.\<close>

definition activate_slot ::
  "(nat \<Rightarrow> nat \<Rightarrow> bool) \<Rightarrow> u32 \<Rightarrow> MemoryRegion \<Rightarrow> Kernel \<Rightarrow> unit SchedResult \<times> Kernel" where
  "activate_slot mprotect i r k =
     (if \<not> mr_initialized r then (Err (SchedError_from_MemoryError AllocationFailed), k)
      else if unat i \<ge> mr_max_slots r then (Err (SchedError_from_MemoryError InvalidSlot), k)
      else
        let base = slot_base r i in
        if \<not> mprotect base METADATA_SIZE then (Err (SchedError_from_MemoryError ProtectionFailed), k)
        else
          let k1 = k\<lparr> k_rw := k_rw k \<union> {base ..< base + METADATA_SIZE} \<rparr>;
              stack_base = base + METADATA_SIZE;
              stack_size = SLOT_SIZE - METADATA_SIZE - GUARD_SIZE
          in if \<not> mprotect stack_base stack_size
             then (Err (SchedError_from_MemoryError ProtectionFailed), k1)
             else (Ok (), k1\<lparr> k_rw := k_rw k1 \<union> {stack_base ..< stack_base + stack_size} \<rparr>))"

text \<open>
  \<open>madvise addr len\<close> answers whether the call succeeds. The contents of the range read as
  zero afterwards, which the scheduler's metadata map records; the access rights stay.
\<close>

definition deactivate_slot ::
  "(nat \<Rightarrow> nat \<Rightarrow> bool) \<Rightarrow> u32 \<Rightarrow> MemoryRegion \<Rightarrow> unit SchedResult" where
  "deactivate_slot madvise i r =
     (if \<not> mr_initialized r then Err (SchedError_from_MemoryError AllocationFailed)
      else if unat i \<ge> mr_max_slots r then Err (SchedError_from_MemoryError InvalidSlot)
      else if \<not> madvise (slot_base r i) (SLOT_SIZE - GUARD_SIZE)
           then Err (SchedError_from_MemoryError AdviseFailed)
      else Ok ())"

definition region_release ::
  "(nat \<Rightarrow> nat \<Rightarrow> bool) \<Rightarrow> MemoryRegion \<Rightarrow> Kernel \<Rightarrow> unit SchedResult \<times> MemoryRegion \<times> Kernel" where
  "region_release munmap r k =
     (if \<not> mr_initialized r then (Ok (), r, k)
      else if mr_base r \<noteq> 0 \<and> \<not> munmap (mr_base r) (mr_total_size r)
           then (Err (SchedError_from_MemoryError AllocationFailed), r, k)
      else (Ok (), r\<lparr> mr_base := 0, mr_total_size := 0, mr_max_slots := 0, mr_initialized := False \<rparr>,
            (if mr_base r \<noteq> 0
             then k\<lparr> k_rw := k_rw k - {mr_base r ..< mr_base r + mr_total_size r} \<rparr> else k)))"

text \<open>A metadata page after \<open>MADV_DONTNEED\<close>: every byte is zero.\<close>

definition metadata_zeroed :: GVThreadMetadata where
  "metadata_zeroed =
     \<lparr> m_preempt_flag = 0, m_cancelled = 0, m_state = 0, m_priority = 0, m_gvthread_id = 0,
       m_parent_id = 0, m_worker_id = 0, m_entry_fn = 0, m_entry_arg = 0, m_result_ptr = 0,
       m_generation = 0, m_sleep_flag = 0, m_wake_time_ns = 0,
       m_voluntary_regs = VoluntarySavedRegs_default, m_forced_regs = ForcedSavedRegs_default \<rparr>"

section \<open>Layout\<close>

definition usable :: "MemoryRegion \<Rightarrow> u32 \<Rightarrow> nat set" where
  "usable r i = {slot_base r i ..< stack_top r i}"

definition guard_page :: "MemoryRegion \<Rightarrow> u32 \<Rightarrow> nat set" where
  "guard_page r i = {stack_top r i ..< slot_base r i + SLOT_SIZE}"

lemma slot_split:
  "slot_base r i + METADATA_SIZE = stack_bottom r i" "stack_bottom r i < stack_top r i"
  "stack_top r i + GUARD_SIZE = slot_base r i + SLOT_SIZE"
  by (simp_all add: stack_bottom_def stack_top_def SLOT_SIZE_def GUARD_SIZE_def METADATA_SIZE_def)

lemma slots_apart:
  assumes "i \<noteq> j"
  shows "{slot_base r i ..< slot_base r i + SLOT_SIZE} \<inter> {slot_base r j ..< slot_base r j + SLOT_SIZE} = {}"
proof -
  have "unat i < unat j \<or> unat j < unat i"
    using assms by (metis linorder_neqE_nat word_unat_eq_iff)
  moreover have "slot_base r a + SLOT_SIZE \<le> slot_base r b" if "unat a < unat b" for a b
  proof -
    have "Suc (unat a) * SLOT_SIZE \<le> unat b * SLOT_SIZE"
      using that by (intro mult_right_mono) auto
    then show ?thesis
      by (simp add: slot_base_def)
  qed
  ultimately show ?thesis
    by fastforce
qed

lemma usable_apart: "i \<noteq> j \<Longrightarrow> usable r i \<inter> usable r j = {}"
  using slots_apart[of i j r] slot_split(3)[of r i] slot_split(3)[of r j]
  unfolding usable_def by (auto simp: disjoint_iff)

lemma guard_apart: "guard_page r i \<inter> usable r j = {}"
proof (cases "i = j")
  case True
  then show ?thesis by (auto simp: guard_page_def usable_def)
next
  case False
  have "guard_page r i \<subseteq> {slot_base r i ..< slot_base r i + SLOT_SIZE}"
       "usable r j \<subseteq> {slot_base r j ..< slot_base r j + SLOT_SIZE}"
    using slot_split[of r i] slot_split[of r j] unfolding guard_page_def usable_def by auto
  then show ?thesis
    using slots_apart[OF False, of r] by blast
qed

lemma activate_slot_rw:
  assumes "activate_slot mp i r k = (res, k')"
  shows "k_rw k' \<subseteq> k_rw k \<union> usable r i \<and> k_rw k \<subseteq> k_rw k' \<and>
    (res = Ok () \<longrightarrow> k_rw k' = k_rw k \<union> usable r i \<and> unat i < mr_max_slots r)"
proof -
  let ?b = "slot_base r i"
  have u: "usable r i = {?b ..< ?b + METADATA_SIZE} \<union>
      {?b + METADATA_SIZE ..< ?b + METADATA_SIZE + (SLOT_SIZE - METADATA_SIZE - GUARD_SIZE)}"
    by (auto simp: usable_def stack_top_def SLOT_SIZE_def METADATA_SIZE_def GUARD_SIZE_def)
  show ?thesis
    using assms unfolding u by (auto simp: activate_slot_def Let_def split: if_splits)
qed

section \<open>Properties\<close>

text \<open>The slots activated by a run of \<open>activate_slot\<close> calls, and the access rights after it.\<close>

fun activate_all ::
  "(nat \<Rightarrow> nat \<Rightarrow> bool) \<Rightarrow> MemoryRegion \<Rightarrow> u32 list \<Rightarrow> Kernel \<Rightarrow> u32 set \<times> Kernel" where
  "activate_all mp r [] k = ({}, k)"
| "activate_all mp r (i # is) k =
     (case activate_slot mp i r k of (res, k1) \<Rightarrow>
       (case activate_all mp r is k1 of (act, k2) \<Rightarrow>
         (if res = Ok () then insert i act else act, k2)))"

lemma activate_all_rw:
  "activate_all mp r is k = (act, k') \<Longrightarrow>
   k_rw k' \<subseteq> k_rw k \<union> (\<Union>i \<in> set is. usable r i) \<and> k_rw k \<subseteq> k_rw k' \<and>
   (\<forall>i \<in> act. usable r i \<subseteq> k_rw k')"
proof (induction "is" arbitrary: k act)
  case Nil
  then show ?case by simp
next
  case (Cons i "is")
  obtain res k1 where a: "activate_slot mp i r k = (res, k1)"
    by (cases "activate_slot mp i r k")
  obtain act1 where b: "activate_all mp r is k1 = (act1, k')"
    and act: "act = (if res = Ok () then insert i act1 else act1)"
    using Cons.prems a by (auto split: prod.splits)
  show ?case
    using Cons.IH[OF b] activate_slot_rw[OF a] act by (auto split: if_splits)
qed

text \<open>
  C31: whichever slots are activated in a fresh region, and whichever of the protection
  calls fail, no guard page ever becomes accessible; every activated slot has its whole
  metadata page and stack accessible, and the memory of two slots never overlaps.
\<close>

theorem guard_pages_closed:
  assumes "activate_all mp r is \<lparr> k_rw = {} \<rparr> = (act, k)"
  shows "guard_page r g \<inter> k_rw k = {} \<and>
    (\<forall>i \<in> act. {metadata_addr r i ..< stack_top r i} \<subseteq> k_rw k) \<and>
    (\<forall>i j. i \<noteq> j \<longrightarrow> usable r i \<inter> usable r j = {}) \<and>
    stack_bottom r g < stack_top r g \<and> metadata_addr r g + METADATA_SIZE = stack_bottom r g"
proof -
  have "k_rw k \<subseteq> (\<Union>i \<in> set is. usable r i)" "\<forall>i \<in> act. usable r i \<subseteq> k_rw k"
    using activate_all_rw[OF assms] by auto
  then have "guard_page r g \<inter> k_rw k = {}" and "\<forall>i \<in> act. usable r i \<subseteq> k_rw k"
    using guard_apart[of r g] by blast+
  then have "guard_page r g \<inter> k_rw k = {}" "\<forall>i \<in> act. {metadata_addr r i ..< stack_top r i} \<subseteq> k_rw k"
    by (simp_all add: usable_def metadata_addr_def)
  then show ?thesis
    using usable_apart[of _ _ r] slot_split[of r g] by (simp add: metadata_addr_def)
qed

definition demo_region :: MemoryRegion where
  "demo_region = snd (region_init (\<lambda>_. Some 0x700000000000) 8 MemoryRegion_new)"

theorem guard_pages_closed_witness:
  "\<exists>act k. activate_all (\<lambda>_ _. True) demo_region [1, 2] \<lparr> k_rw = {} \<rparr> = (act, k) \<and> act = {1, 2} \<and>
     guard_page demo_region 1 \<inter> k_rw k = {}"
proof -
  obtain act k where a: "activate_all (\<lambda>_ _. True) demo_region [1, 2] \<lparr> k_rw = {} \<rparr> = (act, k)"
    by (cases "activate_all (\<lambda>_ _. True) demo_region [1, 2] \<lparr> k_rw = {} \<rparr>")
  have "act = {1, 2}"
    using a by (auto simp: demo_region_def region_init_def MemoryRegion_new_def activate_slot_def
        Let_def SLOT_SIZE_def)
  then show ?thesis
    using guard_pages_closed[OF a, of 1] a by auto
qed

text \<open>
  the stack of an activated slot grows down into accessible memory: the bytes below its
  bottom are the slot's own metadata page, which is writable, and the guard page lies above
  the stack's top. An overflow by up to a page therefore does not fault but overwrites the
  metadata.
\<close>

theorem overflow_reaches_metadata:
  assumes "activate_slot mp i r k = (Ok (), k')" "0 < n" "n \<le> METADATA_SIZE"
  shows "stack_bottom r i - n \<in> k_rw k' \<and> metadata_addr r i \<le> stack_bottom r i - n \<and>
    stack_bottom r i - n < metadata_addr r i + METADATA_SIZE \<and>
    (\<forall>a \<in> guard_page r i. stack_top r i \<le> a)"
proof -
  have "k_rw k' = k_rw k \<union> usable r i"
    using activate_slot_rw[OF assms(1)] by blast
  then show ?thesis
    using assms(2,3) slot_split[of r i]
    by (auto simp: usable_def guard_page_def metadata_addr_def stack_bottom_def)
qed

theorem overflow_reaches_metadata_witness:
  "\<exists>k. activate_slot (\<lambda>_ _. True) 3 demo_region \<lparr> k_rw = {} \<rparr> = (Ok (), k) \<and>
     stack_bottom demo_region 3 - 8 \<in> k_rw k"
proof -
  have "fst (activate_slot (\<lambda>_ _. True) 3 demo_region \<lparr> k_rw = {} \<rparr>) = Ok ()"
    by (simp add: demo_region_def region_init_def MemoryRegion_new_def activate_slot_def
        Let_def SLOT_SIZE_def)
  then obtain k where k: "activate_slot (\<lambda>_ _. True) 3 demo_region \<lparr> k_rw = {} \<rparr> = (Ok (), k)"
    by (metis prod.collapse)
  show ?thesis
    using overflow_reaches_metadata[OF k, of 8] k by (simp add: METADATA_SIZE_def)
qed

end
