(* ===== verification/Context_Switch.thy ===== *)
theory Context_Switch
  imports Core_Types
begin

text \<open>
  The context switch of \<open>gvthread-runtime/src/arch/x86_64/mod.rs\<close>. Its naked functions are
  lists of instructions for a small model of the processor: the general registers, the flags,
  the instruction pointer, and memory as 8-byte cells. Addresses of code (the trampoline, the
  return label, the clean-up function) are parameters.
\<close>

unbundle bit_operations_syntax

section \<open>The processor\<close>

datatype reg =
    RAX | RBX | RCX | RDX | RSI | RDI | RBP | RSP | R8 | R9 | R10 | R11 | R12 | R13 | R14 | R15

record Machine =
  mc_reg :: "reg \<Rightarrow> u64"
  mc_mem :: "u64 \<Rightarrow> u64"
  mc_rip :: u64
  mc_flags :: u64

text \<open>
  The instructions the file uses, in its operand order. \<open>LeaLabel\<close> loads the address of the
  label after the jump; the calls carry the address of the instruction that follows them.
\<close>

datatype instr =
    Store reg u64 reg
  | Load reg reg u64
  | MovReg reg reg
  | LeaLabel reg
  | JmpReg reg
  | Ret
  | CallReg reg u64
  | PushMem reg u64
  | Popfq

definition push_val :: "u64 \<Rightarrow> Machine \<Rightarrow> Machine" where
  "push_val v m =
     (let sp = mc_reg m RSP - 8 in
      m\<lparr> mc_reg := (mc_reg m)(RSP := sp), mc_mem := (mc_mem m)(sp := v) \<rparr>)"

primrec exec_instr :: "u64 \<Rightarrow> instr \<Rightarrow> Machine \<Rightarrow> Machine" where
  "exec_instr label (Store b off s) m = m\<lparr> mc_mem := (mc_mem m)(mc_reg m b + off := mc_reg m s) \<rparr>"
| "exec_instr label (Load d b off) m = m\<lparr> mc_reg := (mc_reg m)(d := mc_mem m (mc_reg m b + off)) \<rparr>"
| "exec_instr label (MovReg d s) m = m\<lparr> mc_reg := (mc_reg m)(d := mc_reg m s) \<rparr>"
| "exec_instr label (LeaLabel d) m = m\<lparr> mc_reg := (mc_reg m)(d := label) \<rparr>"
| "exec_instr label (JmpReg r) m = m\<lparr> mc_rip := mc_reg m r \<rparr>"
| "exec_instr label Ret m =
     m\<lparr> mc_rip := mc_mem m (mc_reg m RSP), mc_reg := (mc_reg m)(RSP := mc_reg m RSP + 8) \<rparr>"
| "exec_instr label (CallReg r nxt) m = (push_val nxt m)\<lparr> mc_rip := mc_reg m r \<rparr>"
| "exec_instr label (PushMem b off) m = push_val (mc_mem m (mc_reg m b + off)) m"
| "exec_instr label Popfq m =
     m\<lparr> mc_flags := mc_mem m (mc_reg m RSP), mc_reg := (mc_reg m)(RSP := mc_reg m RSP + 8) \<rparr>"

definition exec_code :: "u64 \<Rightarrow> instr list \<Rightarrow> Machine \<Rightarrow> Machine" where
  "exec_code label is m = fold (exec_instr label) is m"

section \<open>The code of the file\<close>

definition init_context ::
  "u64 \<Rightarrow> u64 \<Rightarrow> u64 \<Rightarrow> u64 \<Rightarrow> VoluntarySavedRegs" where
  "init_context trampoline stack_top entry_fn entry_arg =
     \<lparr> v_rsp = stack_top AND NOT 0xF, v_rip = trampoline, v_rbx = 0, v_rbp = 0,
       v_r12 = entry_fn, v_r13 = entry_arg, v_r14 = 0, v_r15 = 0 \<rparr>"

text \<open>\<open>nxt\<close> is the address of the call to the clean-up function, which follows \<open>call r12\<close>.\<close>

definition gvthread_entry_trampoline :: "u64 \<Rightarrow> instr list" where
  "gvthread_entry_trampoline nxt = [MovReg RDI R13, CallReg R12 nxt]"

definition context_switch_voluntary :: "instr list" where
  "context_switch_voluntary =
     [Store RDI 0x00 RSP,
      LeaLabel RAX,
      Store RDI 0x08 RAX,
      Store RDI 0x10 RBX,
      Store RDI 0x18 RBP,
      Store RDI 0x20 R12,
      Store RDI 0x28 R13,
      Store RDI 0x30 R14,
      Store RDI 0x38 R15,
      Load RSP RSI 0x00,
      Load RAX RSI 0x08,
      Load RBX RSI 0x10,
      Load RBP RSI 0x18,
      Load R12 RSI 0x20,
      Load R13 RSI 0x28,
      Load R14 RSI 0x30,
      Load R15 RSI 0x38,
      JmpReg RAX]"

text \<open>The code at the return label.\<close>

definition switch_return :: "instr list" where
  "switch_return = [Ret]"

definition context_restore_forced :: "instr list" where
  "context_restore_forced =
     [Load RAX RDI 0x00,
      Load RBX RDI 0x08,
      Load RCX RDI 0x10,
      Load RDX RDI 0x18,
      Load RSI RDI 0x20,
      Load RBP RDI 0x30,
      Load RSP RDI 0x38,
      Load R8 RDI 0x40,
      Load R9 RDI 0x48,
      Load R10 RDI 0x50,
      Load R11 RDI 0x58,
      Load R12 RDI 0x60,
      Load R13 RDI 0x68,
      Load R14 RDI 0x70,
      Load R15 RDI 0x78,
      PushMem RDI 0x80,
      PushMem RDI 0x88,
      Load RDI RDI 0x28,
      Popfq,
      Ret]"

section \<open>Save areas in memory\<close>

text \<open>\<open>VoluntarySavedRegs\<close> is \<open>repr(C)\<close>: eight 8-byte fields in order.\<close>

definition save_area :: "u64 \<Rightarrow> u64 set" where
  "save_area a = {a, a + 0x08, a + 0x10, a + 0x18, a + 0x20, a + 0x28, a + 0x30, a + 0x38}"

definition regs_at :: "(u64 \<Rightarrow> u64) \<Rightarrow> u64 \<Rightarrow> VoluntarySavedRegs" where
  "regs_at mem a =
     \<lparr> v_rsp = mem a, v_rip = mem (a + 0x08), v_rbx = mem (a + 0x10), v_rbp = mem (a + 0x18),
       v_r12 = mem (a + 0x20), v_r13 = mem (a + 0x28), v_r14 = mem (a + 0x30), v_r15 = mem (a + 0x38) \<rparr>"

definition callee_saved :: "(reg \<Rightarrow> u64) \<Rightarrow> u64 list" where
  "callee_saved r = [r RBX, r RBP, r R12, r R13, r R14, r R15]"

lemma regs_at_cong: "\<forall>a \<in> save_area b. mem a = mem' a \<Longrightarrow> regs_at mem b = regs_at mem' b"
  by (simp add: regs_at_def save_area_def)

text \<open>The first half stores the caller's registers, and nothing outside its save area.\<close>

lemma switch_saves:
  shows "regs_at (mc_mem (exec_code l context_switch_voluntary m)) (mc_reg m RDI) =
      \<lparr> v_rsp = mc_reg m RSP, v_rip = l, v_rbx = mc_reg m RBX, v_rbp = mc_reg m RBP,
        v_r12 = mc_reg m R12, v_r13 = mc_reg m R13, v_r14 = mc_reg m R14, v_r15 = mc_reg m R15 \<rparr>"
    and "x \<notin> save_area (mc_reg m RDI) \<Longrightarrow>
      mc_mem (exec_code l context_switch_voluntary m) x = mc_mem m x"
  by (simp_all add: exec_code_def context_switch_voluntary_def regs_at_def save_area_def)

text \<open>The second half loads the registers of the other save area and jumps.\<close>

lemma switch_loads:
  assumes "save_area (mc_reg m RDI) \<inter> save_area (mc_reg m RSI) = {}"
  shows "let m' = exec_code l context_switch_voluntary m; v = regs_at (mc_mem m) (mc_reg m RSI) in
    mc_rip m' = v_rip v \<and> mc_reg m' RSP = v_rsp v \<and>
    callee_saved (mc_reg m') = [v_rbx v, v_rbp v, v_r12 v, v_r13 v, v_r14 v, v_r15 v]"
  using assms
  by (simp add: exec_code_def context_switch_voluntary_def regs_at_def save_area_def
      callee_saved_def Let_def)

section \<open>Properties\<close>

text \<open>
  C19: a thread that switches away and is switched back to finds its callee-saved registers
  and its stack pointer as they were, and continues at the return address of its call,
  provided its save area and the return address on its stack were left alone in between.
\<close>

theorem switch_roundtrip:
  fixes m m2 :: Machine and l :: u64
  defines "m1 \<equiv> exec_code l context_switch_voluntary m"
    and "m3 \<equiv> exec_code l switch_return (exec_code l context_switch_voluntary m2)"
  assumes areas: "save_area (mc_reg m RDI) \<inter> save_area (mc_reg m RSI) = {}"
    and stack: "mc_reg m RSP \<notin> save_area (mc_reg m RDI)"
    and resumed: "mc_reg m2 RSI = mc_reg m RDI"
    and areas2: "save_area (mc_reg m2 RDI) \<inter> save_area (mc_reg m2 RSI) = {}"
    and stack2: "mc_reg m RSP \<notin> save_area (mc_reg m2 RDI)"
    and kept: "\<forall>a \<in> insert (mc_reg m RSP) (save_area (mc_reg m RDI)). mc_mem m2 a = mc_mem m1 a"
  shows "mc_rip (exec_code l context_switch_voluntary m2) = l \<and>
    callee_saved (mc_reg m3) = callee_saved (mc_reg m) \<and>
    mc_reg m3 RSP = mc_reg m RSP + 8 \<and> mc_rip m3 = mc_mem m (mc_reg m RSP)"
proof -
  let ?s = "exec_code l context_switch_voluntary m2"
  have "regs_at (mc_mem m2) (mc_reg m RDI) = regs_at (mc_mem m1) (mc_reg m RDI)"
    using kept by (intro regs_at_cong) simp
  then have v: "regs_at (mc_mem m2) (mc_reg m2 RSI) =
      \<lparr> v_rsp = mc_reg m RSP, v_rip = l, v_rbx = mc_reg m RBX, v_rbp = mc_reg m RBP,
        v_r12 = mc_reg m R12, v_r13 = mc_reg m R13, v_r14 = mc_reg m R14, v_r15 = mc_reg m R15 \<rparr>"
    using switch_saves(1)[of l m] resumed by (simp add: m1_def)
  have s: "mc_rip ?s = l" "mc_reg ?s RSP = mc_reg m RSP"
      "callee_saved (mc_reg ?s) = callee_saved (mc_reg m)"
    using switch_loads[OF areas2, of l] unfolding v Let_def by (simp_all add: callee_saved_def)
  have "mc_mem ?s (mc_reg m RSP) = mc_mem m (mc_reg m RSP)"
    using switch_saves(2)[OF stack2, of l] switch_saves(2)[OF stack, of l] kept
    by (simp add: m1_def)
  then show ?thesis
    using s by (simp add: m3_def exec_code_def switch_return_def callee_saved_def)
qed

definition demo_machine :: "u64 \<Rightarrow> u64 \<Rightarrow> u64 \<Rightarrow> (u64 \<Rightarrow> u64) \<Rightarrow> Machine" where
  "demo_machine rdi rsi rsp mem =
     \<lparr> mc_reg = (\<lambda>_. 7)(RDI := rdi, RSI := rsi, RSP := rsp), mc_mem = mem, mc_rip = 0, mc_flags = 0 \<rparr>"

theorem switch_roundtrip_witness:
  "let m = demo_machine 0x1000 0x2000 0x9000 (\<lambda>_. 5);
       m1 = exec_code 0x400 context_switch_voluntary m;
       m3 = exec_code 0x400 switch_return (exec_code 0x400 context_switch_voluntary
              (demo_machine 0x2000 0x1000 0xA000 (mc_mem m1)))
   in callee_saved (mc_reg m3) = [7, 7, 7, 7, 7, 7] \<and> mc_reg m3 RSP = 0x9008 \<and> mc_rip m3 = 5"
proof -
  let ?m = "demo_machine 0x1000 0x2000 0x9000 (\<lambda>_. 5)"
  let ?m2 = "demo_machine 0x2000 0x1000 0xA000 (mc_mem (exec_code 0x400 context_switch_voluntary ?m))"
  have h: "save_area (mc_reg ?m RDI) \<inter> save_area (mc_reg ?m RSI) = {}"
      "mc_reg ?m RSP \<notin> save_area (mc_reg ?m RDI)" "mc_reg ?m2 RSI = mc_reg ?m RDI"
      "save_area (mc_reg ?m2 RDI) \<inter> save_area (mc_reg ?m2 RSI) = {}"
      "mc_reg ?m RSP \<notin> save_area (mc_reg ?m2 RDI)"
      "\<forall>a \<in> insert (mc_reg ?m RSP) (save_area (mc_reg ?m RDI)).
         mc_mem ?m2 a = mc_mem (exec_code 0x400 context_switch_voluntary ?m) a"
    by (simp_all add: demo_machine_def save_area_def)
  show ?thesis
    using switch_roundtrip[OF h] by (simp add: Let_def demo_machine_def callee_saved_def)
qed

lemma align16:
  fixes a :: u64
  shows "unat (a AND NOT 0xF) mod 16 = 0"
proof -
  have "(a AND NOT 0xF) AND 0xF = 0"
    by (simp add: and.assoc)
  moreover have "(0xF :: u64) = mask 4"
    by (simp add: mask_eq_exp_minus_1)
  ultimately have "take_bit 4 (a AND NOT 0xF) = 0"
    by (simp add: take_bit_eq_mask)
  then show ?thesis
    by (simp add: take_bit_eq_mod unat_eq_0 [symmetric] unat_mod)
qed

text \<open>
  C20: the first switch to a new thread runs the trampoline on the thread's own stack, which
  calls the entry function with its argument; at the entry the stack pointer is 8 below a
  multiple of 16, as the calling convention requires, and the address of the clean-up call
  is on the stack.
\<close>

theorem first_switch_enters:
  fixes m :: Machine and l stack_top :: u64
  defines "m1 \<equiv> exec_code l context_switch_voluntary m"
    and "sp \<equiv> stack_top AND NOT 0xF"
  assumes "save_area (mc_reg m RDI) \<inter> save_area (mc_reg m RSI) = {}"
    and "regs_at (mc_mem m) (mc_reg m RSI) = init_context tramp stack_top entry arg"
  shows "mc_rip m1 = tramp \<and>
    (let m2 = exec_code l (gvthread_entry_trampoline nxt) m1 in
      mc_rip m2 = entry \<and> mc_reg m2 RDI = arg \<and> mc_reg m2 RSP = sp - 8 \<and>
      mc_mem m2 (mc_reg m2 RSP) = nxt \<and> unat sp mod 16 = 0)"
  using switch_loads[OF assms(3), of l] align16[of stack_top] unfolding assms(4)
  by (simp add: m1_def sp_def Let_def init_context_def callee_saved_def exec_code_def
      gvthread_entry_trampoline_def push_val_def)

theorem first_switch_enters_witness:
  "\<exists>m. regs_at (mc_mem m) (mc_reg m RSI) = init_context 0x500 0x7FFC 0x600 0x42 \<and>
     mc_rip (exec_code 0x400 context_switch_voluntary m) = 0x500 \<and>
     mc_reg (exec_code 0x400 (gvthread_entry_trampoline 0x508)
       (exec_code 0x400 context_switch_voluntary m)) RDI = 0x42"
proof -
  let ?mem = "(\<lambda>_. 0)(0x2000 := 0x7FF0, 0x2008 := 0x500, 0x2020 := 0x600, 0x2028 := 0x42)"
  let ?m = "demo_machine 0x1000 0x2000 0x9000 ?mem"
  have h: "save_area (mc_reg ?m RDI) \<inter> save_area (mc_reg ?m RSI) = {}"
      "regs_at (mc_mem ?m) (mc_reg ?m RSI) = init_context 0x500 0x7FFC 0x600 0x42"
    by (simp_all add: demo_machine_def save_area_def regs_at_def init_context_def)
  show ?thesis
    using first_switch_enters[where l = "0x400" and nxt = "0x508", OF h] h(2) by (intro exI[of _ ?m]) (simp add: Let_def)
qed

text \<open>
  restoring a forcibly preempted thread gives back all sixteen registers, the flags and
  the instruction pointer; the only memory it changes are the two cells below the restored
  stack pointer, which hold data of the interrupted code when that uses its red zone.
\<close>

theorem forced_restore_exact:
  fixes m :: Machine and l :: u64
  defines "r \<equiv> \<lambda>k. mc_mem m (mc_reg m RDI + k)"
    and "m' \<equiv> exec_code l context_restore_forced m"
  assumes "\<forall>k \<in> {0x28, 0x80, 0x88}. mc_reg m RDI + k \<noteq> mc_mem m (mc_reg m RDI + 0x38) - 8 \<and>
      mc_reg m RDI + k \<noteq> mc_mem m (mc_reg m RDI + 0x38) - 16"
  shows "map (mc_reg m') [RAX, RBX, RCX, RDX, RSI, RDI, RBP, RSP, R8, R9, R10, R11, R12, R13, R14, R15]
      = map r [0x00, 0x08, 0x10, 0x18, 0x20, 0x28, 0x30, 0x38, 0x40, 0x48, 0x50, 0x58, 0x60, 0x68, 0x70, 0x78]
    \<and> mc_rip m' = r 0x80 \<and> mc_flags m' = r 0x88 \<and>
    mc_mem m' = (mc_mem m)(r 0x38 - 8 := r 0x80, r 0x38 - 16 := r 0x88)"
  using assms(3)
  by (simp add: r_def m'_def exec_code_def context_restore_forced_def push_val_def Let_def)

theorem forced_restore_exact_witness:
  "let m' = exec_code 0 context_restore_forced
       (demo_machine 0x1000 0 0 ((\<lambda>a. a)(0x1038 := 0x9000)))
   in mc_rip m' = 0x1080 \<and> mc_reg m' RSP = 0x9000 \<and> mc_mem m' 0x8FF8 = 0x1080"
proof -
  let ?m = "demo_machine 0x1000 0 0 ((\<lambda>a. a)(0x1038 := 0x9000))"
  have h: "\<forall>k \<in> {0x28, 0x80, 0x88}. mc_reg ?m RDI + k \<noteq> mc_mem ?m (mc_reg ?m RDI + 0x38) - 8 \<and>
      mc_reg ?m RDI + k \<noteq> mc_mem ?m (mc_reg ?m RDI + 0x38) - 16"
    by (simp add: demo_machine_def)
  show ?thesis
    using forced_restore_exact[OF h, of 0] by (simp add: Let_def demo_machine_def)
qed

end
