(* ===== verification/Config.thy ===== *)
theory Config
  imports Core_Types
begin

text \<open>
  Configuration: the environment readers of \<open>gvthread-core/src/env.rs\<close>, the scheduler
  configuration of \<open>gvthread-runtime/src/config/mod.rs\<close>, and the build script
  \<open>gvthread-runtime/build.rs\<close>, which merges a user's constants into the defaults. The
  environment is a parameter; strings are ASCII.
\<close>

section \<open>Environment variables (\<open>env.rs\<close>)\<close>

type_synonym env = "string \<Rightarrow> string option"

text \<open>\<open>str::parse\<close> for an unsigned type of \<open>w\<close> bits: an optional plus sign, then digits in range.\<close>

definition parse_unsigned :: "nat \<Rightarrow> string \<Rightarrow> nat option" where
  "parse_unsigned w s =
     (let ds = (case s of c # cs \<Rightarrow> if c = CHR ''+'' then cs else s | [] \<Rightarrow> s) in
      case parse_digits ds of
        Some n \<Rightarrow> if n < 2 ^ w then Some n else None
      | None \<Rightarrow> None)"

definition env_get :: "env \<Rightarrow> (string \<Rightarrow> 'a option) \<Rightarrow> string \<Rightarrow> 'a \<Rightarrow> 'a" where
  "env_get env parse key dflt =
     (case Option.bind (env key) parse of Some v \<Rightarrow> v | None \<Rightarrow> dflt)"

definition to_lower :: "char \<Rightarrow> char" where
  "to_lower c = (let n = of_char c :: nat in if 65 \<le> n \<and> n \<le> 90 then char_of (n + 32) else c)"

definition env_get_bool :: "env \<Rightarrow> string \<Rightarrow> bool \<Rightarrow> bool" where
  "env_get_bool env key dflt =
     (case env key of
        Some val \<Rightarrow> map to_lower val \<in> {''1'', ''true'', ''yes'', ''on''}
      | None \<Rightarrow> dflt)"

definition env_get_opt :: "env \<Rightarrow> (string \<Rightarrow> 'a option) \<Rightarrow> string \<Rightarrow> 'a option" where
  "env_get_opt env parse key = Option.bind (env key) parse"

definition env_get_str :: "env \<Rightarrow> string \<Rightarrow> string \<Rightarrow> string" where
  "env_get_str env key dflt = (case env key of Some v \<Rightarrow> v | None \<Rightarrow> dflt)"

definition env_is_set :: "env \<Rightarrow> string \<Rightarrow> bool" where
  "env_is_set env key \<longleftrightarrow> env key \<noteq> None"

section \<open>The scheduler configuration (\<open>config/mod.rs\<close>)\<close>

text \<open>
  The constants of the file that \<open>build.rs\<close> generates are a parameter of the configuration:
  \<open>Defaults\<close>. Durations are natural numbers of nanoseconds.
\<close>

record Defaults =
  d_NUM_WORKERS :: nat
  d_NUM_LOW_PRIORITY_WORKERS :: nat
  d_MAX_GVTHREADS :: nat
  d_TIME_SLICE_MS :: nat
  d_GRACE_PERIOD_MS :: nat
  d_TIMER_INTERVAL_MS :: nat
  d_ENABLE_FORCED_PREEMPT :: bool
  d_DEBUG_LOGGING :: bool
  d_STACK_SIZE :: nat
  d_LOCAL_QUEUE_CAPACITY :: nat
  d_GLOBAL_QUEUE_CAPACITY :: nat
  d_IDLE_SPINS :: nat
  d_PARK_TIMEOUT_MS :: nat

text \<open>The values of \<open>CONFIG_PARAMS\<close> in \<open>build.rs\<close>.\<close>

definition library_defaults :: Defaults where
  "library_defaults =
     \<lparr> d_NUM_WORKERS = 4, d_NUM_LOW_PRIORITY_WORKERS = 1, d_MAX_GVTHREADS = 1048576,
       d_TIME_SLICE_MS = 10, d_GRACE_PERIOD_MS = 1, d_TIMER_INTERVAL_MS = 1,
       d_ENABLE_FORCED_PREEMPT = True, d_DEBUG_LOGGING = False, d_STACK_SIZE = 16 * 1024 * 1024,
       d_LOCAL_QUEUE_CAPACITY = 256, d_GLOBAL_QUEUE_CAPACITY = 65536, d_IDLE_SPINS = 10,
       d_PARK_TIMEOUT_MS = 100 \<rparr>"

record SchedulerConfig =
  c_num_workers :: usize
  c_num_low_priority_workers :: usize
  c_max_gvthreads :: usize
  c_time_slice :: nat
  c_grace_period :: nat
  c_timer_interval :: nat
  c_enable_forced_preempt :: bool
  c_debug_logging :: bool
  c_stack_size :: usize
  c_local_queue_capacity :: usize
  c_global_queue_capacity :: usize
  c_idle_spins :: u32
  c_park_timeout :: nat

definition from_millis :: "nat \<Rightarrow> nat" where
  "from_millis ms = ms * 1000000"

definition env_nat :: "env \<Rightarrow> string \<Rightarrow> nat \<Rightarrow> nat" where
  "env_nat env key dflt = env_get env (parse_unsigned 64) key dflt"

definition SchedulerConfig_from_env :: "Defaults \<Rightarrow> env \<Rightarrow> SchedulerConfig" where
  "SchedulerConfig_from_env d env =
     \<lparr> c_num_workers = env_nat env ''GVT_NUM_WORKERS'' (d_NUM_WORKERS d),
       c_num_low_priority_workers =
         env_nat env ''GVT_NUM_LOW_PRIORITY_WORKERS'' (d_NUM_LOW_PRIORITY_WORKERS d),
       c_max_gvthreads = env_nat env ''GVT_MAX_GVTHREADS'' (d_MAX_GVTHREADS d),
       c_time_slice = from_millis (env_nat env ''GVT_TIME_SLICE_MS'' (d_TIME_SLICE_MS d)),
       c_grace_period = from_millis (env_nat env ''GVT_GRACE_PERIOD_MS'' (d_GRACE_PERIOD_MS d)),
       c_timer_interval = from_millis (env_nat env ''GVT_TIMER_INTERVAL_MS'' (d_TIMER_INTERVAL_MS d)),
       c_enable_forced_preempt =
         (env_nat env ''GVT_ENABLE_FORCED_PREEMPT'' (if d_ENABLE_FORCED_PREEMPT d then 1 else 0) \<noteq> 0),
       c_debug_logging = (env_nat env ''GVT_DEBUG'' (if d_DEBUG_LOGGING d then 1 else 0) \<noteq> 0),
       c_stack_size = env_nat env ''GVT_STACK_SIZE'' (d_STACK_SIZE d),
       c_local_queue_capacity = env_nat env ''GVT_LOCAL_QUEUE_CAPACITY'' (d_LOCAL_QUEUE_CAPACITY d),
       c_global_queue_capacity = env_nat env ''GVT_GLOBAL_QUEUE_CAPACITY'' (d_GLOBAL_QUEUE_CAPACITY d),
       c_idle_spins = of_nat (env_nat env ''GVT_IDLE_SPINS'' (d_IDLE_SPINS d)),
       c_park_timeout = from_millis (env_nat env ''GVT_PARK_TIMEOUT_MS'' (d_PARK_TIMEOUT_MS d)) \<rparr>"

definition SchedulerConfig_new :: "Defaults \<Rightarrow> SchedulerConfig" where
  "SchedulerConfig_new d =
     \<lparr> c_num_workers = d_NUM_WORKERS d,
       c_num_low_priority_workers = d_NUM_LOW_PRIORITY_WORKERS d,
       c_max_gvthreads = d_MAX_GVTHREADS d,
       c_time_slice = from_millis (d_TIME_SLICE_MS d),
       c_grace_period = from_millis (d_GRACE_PERIOD_MS d),
       c_timer_interval = from_millis (d_TIMER_INTERVAL_MS d),
       c_enable_forced_preempt = d_ENABLE_FORCED_PREEMPT d,
       c_debug_logging = d_DEBUG_LOGGING d,
       c_stack_size = d_STACK_SIZE d,
       c_local_queue_capacity = d_LOCAL_QUEUE_CAPACITY d,
       c_global_queue_capacity = d_GLOBAL_QUEUE_CAPACITY d,
       c_idle_spins = of_nat (d_IDLE_SPINS d),
       c_park_timeout = from_millis (d_PARK_TIMEOUT_MS d) \<rparr>"

datatype ConfigError = InvalidValue string

definition ConfigError_display :: "ConfigError \<Rightarrow> string" where
  "ConfigError_display e = (case e of InvalidValue msg \<Rightarrow> ''Invalid config: '' @ msg)"

definition validate :: "SchedulerConfig \<Rightarrow> (ConfigError, unit) result" where
  "validate c =
     (if c_num_workers c = 0 then Err (InvalidValue ''num_workers must be > 0'')
      else if c_num_workers c > 256 then Err (InvalidValue ''num_workers must be <= 256'')
      else if c_num_low_priority_workers c \<ge> c_num_workers c
           then Err (InvalidValue ''num_low_priority_workers must be < num_workers'')
      else if c_max_gvthreads c = 0 then Err (InvalidValue ''max_gvthreads must be > 0'')
      else if c_stack_size c < 64 * 1024 then Err (InvalidValue ''stack_size must be >= 64KB'')
      else if c_local_queue_capacity c = 0 then Err (InvalidValue ''local_queue_capacity must be > 0'')
      else if c_global_queue_capacity c = 0 then Err (InvalidValue ''global_queue_capacity must be > 0'')
      else Ok ())"

section \<open>The build script (\<open>build.rs\<close>)\<close>

record ConfigParam =
  p_name :: string
  p_type :: string
  p_default :: string

definition param :: "string \<Rightarrow> string \<Rightarrow> string \<Rightarrow> ConfigParam" where
  "param n t v = \<lparr> p_name = n, p_type = t, p_default = v \<rparr>"

definition CONFIG_PARAMS :: "ConfigParam list" where
  "CONFIG_PARAMS =
     [param ''NUM_WORKERS'' ''usize'' ''4'',
      param ''NUM_LOW_PRIORITY_WORKERS'' ''usize'' ''1'',
      param ''MAX_GVTHREADS'' ''usize'' ''1_048_576'',
      param ''TIME_SLICE_MS'' ''u64'' ''10'',
      param ''GRACE_PERIOD_MS'' ''u64'' ''1'',
      param ''TIMER_INTERVAL_MS'' ''u64'' ''1'',
      param ''TIMER_MAX_SLEEP_MS'' ''u64'' ''10'',
      param ''ENABLE_FORCED_PREEMPT'' ''bool'' ''true'',
      param ''DEBUG_LOGGING'' ''bool'' ''false'',
      param ''STACK_SIZE'' ''usize'' ''16 * 1024 * 1024'',
      param ''LOCAL_QUEUE_CAPACITY'' ''usize'' ''256'',
      param ''GLOBAL_QUEUE_CAPACITY'' ''usize'' ''65536'',
      param ''IDLE_SPINS'' ''u32'' ''10'',
      param ''PARK_TIMEOUT_MS'' ''u64'' ''100'']"

text \<open>The string operations the parser calls.\<close>

definition is_ws :: "char \<Rightarrow> bool" where
  "is_ws c \<longleftrightarrow> of_char c \<in> {9, 10, 11, 12, 13, 32 :: nat}"

definition trim :: "string \<Rightarrow> string" where
  "trim s = rev (dropWhile is_ws (rev (dropWhile is_ws s)))"

definition newline :: char where
  "newline = CHR 0x0A"

fun split_lines_acc :: "string \<Rightarrow> string \<Rightarrow> string list" where
  "split_lines_acc acc [] = (if acc = [] then [] else [rev acc])"
| "split_lines_acc acc (c # cs) =
     (if c = newline then rev acc # split_lines_acc [] cs else split_lines_acc (c # acc) cs)"

definition str_lines :: "string \<Rightarrow> string list" where
  "str_lines s = split_lines_acc [] s"

fun find_char :: "char \<Rightarrow> string \<Rightarrow> nat option" where
  "find_char c [] = None"
| "find_char c (x # xs) = (if x = c then Some 0 else map_option Suc (find_char c xs))"

definition rfind_char :: "char \<Rightarrow> string \<Rightarrow> nat option" where
  "rfind_char c s = map_option (\<lambda>i. length s - 1 - i) (find_char c (rev s))"

definition strip_prefix :: "string \<Rightarrow> string \<Rightarrow> string option" where
  "strip_prefix p s = (if take (length p) s = p then Some (drop (length p) s) else None)"

text \<open>A slice whose end is before its start panics: the error branch.\<close>

definition parse_const_line :: "string \<Rightarrow> (string, (string \<times> string) option) result" where
  "parse_const_line line =
     (case strip_prefix ''pub const '' line of
        None \<Rightarrow> Ok None
      | Some r \<Rightarrow>
          let rest = trim r in
          case find_char (CHR '':'') rest of
            None \<Rightarrow> Ok None
          | Some colon_pos \<Rightarrow>
              let name = trim (take colon_pos rest) in
              case find_char (CHR ''='') rest of
                None \<Rightarrow> Ok None
              | Some eq_pos \<Rightarrow>
                  let semi_pos = (case rfind_char (CHR '';'') rest of Some p \<Rightarrow> p | None \<Rightarrow> length rest) in
                  if eq_pos + 1 > semi_pos then Err ''slice index''
                  else Ok (Some (name, trim (take (semi_pos - (eq_pos + 1)) (drop (eq_pos + 1) rest)))))"

definition merge_line :: "string \<Rightarrow> (string \<rightharpoonup> string) \<Rightarrow> (string, string \<rightharpoonup> string) result" where
  "merge_line ln config =
     (let line = trim ln in
      if line = [] \<or> take 2 line = ''//'' then Ok config
      else if take 10 line \<noteq> ''pub const '' then Ok config
      else case parse_const_line line of
             Inl e \<Rightarrow> Err e
           | Inr None \<Rightarrow> Ok config
           | Inr (Some (name, value)) \<Rightarrow>
               if \<exists>p \<in> set CONFIG_PARAMS. p_name p = name then Ok (config(name \<mapsto> value))
               else Ok config)"

fun merge_lines :: "string list \<Rightarrow> (string \<rightharpoonup> string) \<Rightarrow> (string, string \<rightharpoonup> string) result" where
  "merge_lines [] config = Ok config"
| "merge_lines (l # ls) config =
     (case merge_line l config of Inl e \<Rightarrow> Err e | Inr config' \<Rightarrow> merge_lines ls config')"

definition parse_and_merge :: "string \<Rightarrow> (string \<rightharpoonup> string) \<Rightarrow> (string, string \<rightharpoonup> string) result" where
  "parse_and_merge content config = merge_lines (str_lines content) config"

definition const_line :: "ConfigParam \<Rightarrow> string \<Rightarrow> string" where
  "const_line p value =
     ''pub const '' @ p_name p @ '': '' @ p_type p @ '' = '' @ value @ '';''"

fun const_lines :: "ConfigParam list \<Rightarrow> (string \<rightharpoonup> string) \<Rightarrow> (string, string) result" where
  "const_lines [] config = Ok []"
| "const_lines (p # ps) config =
     (case config (p_name p) of
        None \<Rightarrow> Err ''called Option::unwrap() on a None value''
      | Some value \<Rightarrow>
          (case const_lines ps config of
             Inl e \<Rightarrow> Err e
           | Inr out \<Rightarrow> Ok (const_line p value @ newline # out)))"

definition generate_config :: "bool \<Rightarrow> (string \<rightharpoonup> string) \<Rightarrow> (string, string) result" where
  "generate_config user_config config =
     (case const_lines CONFIG_PARAMS config of
        Inl e \<Rightarrow> Err e
      | Inr out \<Rightarrow>
          Ok (''// Auto-generated by build.rs - do not edit'' @ newline #
              ''// Configuration merged from library defaults'' @
              (if user_config then '' and user''@ [CHR 0x27] @ ''s gvt_config.rs'' else []) @
              newline # newline # out))"

definition initial_config :: "string \<rightharpoonup> string" where
  "initial_config = map_of (map (\<lambda>p. (p_name p, p_default p)) CONFIG_PARAMS)"

section \<open>Lemmas on the string operations\<close>

lemma trim_id: "s = [] \<or> (\<not> is_ws (hd s) \<and> \<not> is_ws (last s)) \<Longrightarrow> trim s = s"
proof -
  assume "s = [] \<or> (\<not> is_ws (hd s) \<and> \<not> is_ws (last s))"
  then have "dropWhile is_ws s = s" "dropWhile is_ws (rev s) = rev s"
    by (auto simp: dropWhile_eq_self_iff hd_rev)
  then show "trim s = s"
    by (simp add: trim_def)
qed

lemma trim_space: "trim (CHR '' '' # s) = trim s"
  by (simp add: trim_def is_ws_def)

lemma find_char_append:
  "c \<notin> set xs \<Longrightarrow> find_char c (xs @ c # ys) = Some (length xs)"
  by (induction xs) auto

lemma rfind_char_last: "rfind_char c (xs @ [c]) = Some (length xs)"
  by (simp add: rfind_char_def)

lemma split_lines_acc_line:
  "newline \<notin> set xs \<Longrightarrow> split_lines_acc acc (xs @ newline # ys) = (rev acc @ xs) # split_lines_acc [] ys"
  by (induction xs arbitrary: acc) auto

lemma str_lines_Cons: "newline \<notin> set xs \<Longrightarrow> str_lines (xs @ newline # ys) = xs # str_lines ys"
  by (simp add: str_lines_def split_lines_acc_line)

text \<open>What the parser needs of a parameter's name and type.\<close>

definition clean_param :: "ConfigParam \<Rightarrow> bool" where
  "clean_param p \<longleftrightarrow>
     p_name p \<noteq> [] \<and> trim (p_name p) = p_name p \<and> \<not> is_ws (hd (p_name p)) \<and>
     CHR '':'' \<notin> set (p_name p) \<and> CHR ''='' \<notin> set (p_name p) \<and> CHR ''='' \<notin> set (p_type p) \<and>
     newline \<notin> set (p_name p) \<and> newline \<notin> set (p_type p)"

definition clean_value :: "string \<Rightarrow> bool" where
  "clean_value v \<longleftrightarrow> trim v = v \<and> newline \<notin> set v"

lemma CONFIG_PARAMS_clean: "\<forall>p \<in> set CONFIG_PARAMS. clean_param p"
  by (simp add: CONFIG_PARAMS_def param_def clean_param_def trim_def is_ws_def newline_def)

lemma CONFIG_PARAMS_distinct: "distinct (map p_name CONFIG_PARAMS)"
  by (simp add: CONFIG_PARAMS_def param_def)

lemma parse_const_line_roundtrip:
  assumes "clean_param p" "trim v = v"
  shows "parse_const_line (const_line p v) = Ok (Some (p_name p, v))"
proof -
  let ?rest = "p_name p @ '': '' @ p_type p @ '' = '' @ v @ '';''"
  have ws: "\<not> is_ws (CHR '';'')"
    by (simp add: is_ws_def)
  have sp: "strip_prefix ''pub const '' (const_line p v) = Some ?rest"
    by (simp add: strip_prefix_def const_line_def)
  have tr: "trim ?rest = ?rest"
    using assms(1) ws by (intro trim_id) (simp add: clean_param_def hd_append)
  have c: "find_char (CHR '':'') ?rest = Some (length (p_name p))"
    using assms(1) find_char_append[of "CHR '':''" "p_name p"] by (simp add: clean_param_def)
  let ?pre = "p_name p @ '': '' @ p_type p @ '' ''"
  have "find_char (CHR ''='') (?pre @ CHR ''='' # ('' '' @ v @ '';'')) = Some (length ?pre)"
    using assms(1) by (intro find_char_append) (simp add: clean_param_def)
  then have e: "find_char (CHR ''='') ?rest = Some (length ?pre)"
    by simp
  have "rfind_char (CHR '';'') ((?pre @ ''= '' @ v) @ '';'') = Some (length (?pre @ ''= '' @ v))"
    by (rule rfind_char_last)
  then have r: "rfind_char (CHR '';'') ?rest = Some (length ?pre + 2 + length v)"
    by simp
  have "drop (length (?pre @ ''='')) ((?pre @ ''='') @ CHR '' '' # v @ '';'') = CHR '' '' # v @ '';''"
    by (simp only: append_eq_conv_conj append.assoc drop_append) simp
  then have d: "drop (length ?pre + 1) ?rest = CHR '' '' # v @ '';''"
    by (simp only: append.assoc append_Cons append_Nil length_append list.size) simp
  have n: "trim (take (length (p_name p)) ?rest) = p_name p"
    using assms(1) by (simp add: clean_param_def)
  have t: "trim (take (length ?pre + 2 + length v - (length ?pre + 1)) (CHR '' '' # v @ '';'')) = v"
    using assms(2) by (simp add: trim_space)
  show ?thesis
    unfolding parse_const_line_def sp option.case tr Let_def c e r d n t by simp
qed

lemma merge_line_const:
  assumes "p \<in> set CONFIG_PARAMS" "trim v = v"
  shows "merge_line (const_line p v) config = Ok (config(p_name p \<mapsto> v))"
proof -
  have cp: "clean_param p"
    using assms(1) CONFIG_PARAMS_clean by blast
  have t: "trim (const_line p v) = const_line p v"
    by (intro trim_id) (simp add: const_line_def is_ws_def)
  have "take 10 (const_line p v) = ''pub const ''" "take 2 (const_line p v) \<noteq> ''//''"
      "const_line p v \<noteq> []"
    by (simp_all add: const_line_def)
  then show ?thesis
    using parse_const_line_roundtrip[OF cp assms(2)] assms(1)
    by (auto simp: merge_line_def t Let_def)
qed

lemma merge_line_skip:
  assumes "s = [] \<or> (take 2 s = ''//'' \<and> \<not> is_ws (last s))"
  shows "merge_line s base = Ok base"
proof -
  have "s \<noteq> [] \<Longrightarrow> hd s = CHR ''/''"
    using assms by (cases s) auto
  then have "trim s = s"
    using assms by (intro trim_id) (auto simp: is_ws_def)
  then show ?thesis
    using assms by (auto simp: merge_line_def)
qed

lemma merge_const_lines:
  assumes "set ps \<subseteq> set CONFIG_PARAMS" "\<forall>p \<in> set ps. \<exists>v. config (p_name p) = Some v \<and> clean_value v"
  shows "\<exists>out. const_lines ps config = Ok out \<and>
    merge_lines (str_lines out) base = Ok (base ++ (config |` (p_name ` set ps)))"
  using assms
proof (induction ps arbitrary: base)
  case Nil
  then show ?case by (simp add: str_lines_def)
next
  case (Cons p ps)
  obtain v where v: "config (p_name p) = Some v" "clean_value v"
    using Cons.prems(2) by auto
  have pin: "p \<in> set CONFIG_PARAMS"
    using Cons.prems(1) by simp
  have nl: "newline \<notin> set (const_line p v)"
    using v(2) CONFIG_PARAMS_clean pin
    by (auto simp: const_line_def clean_value_def clean_param_def newline_def)
  have sub: "set ps \<subseteq> set CONFIG_PARAMS" "\<forall>p \<in> set ps. \<exists>v. config (p_name p) = Some v \<and> clean_value v"
    using Cons.prems by auto
  obtain out where out: "const_lines ps config = Ok out"
      "merge_lines (str_lines out) (base(p_name p \<mapsto> v)) =
        Ok (base(p_name p \<mapsto> v) ++ (config |` (p_name ` set ps)))"
    using Cons.IH[OF sub, of "base(p_name p \<mapsto> v)"] by blast
  have "base(p_name p \<mapsto> v) ++ (config |` (p_name ` set ps)) = base ++ (config |` (p_name ` set (p # ps)))"
    using v(1) by (auto simp: map_add_def restrict_map_def fun_eq_iff split: option.splits)
  then show ?case
    using out v pin nl
    by (simp add: str_lines_Cons merge_line_const clean_value_def)
qed

section \<open>Properties\<close>

text \<open>
  what the build script generates reads back: merging a generated file into any
  configuration gives every parameter the value it was generated from.
\<close>

theorem generated_config_reparses:
  assumes "\<forall>p \<in> set CONFIG_PARAMS. \<exists>v. config (p_name p) = Some v \<and> clean_value v"
  shows "\<exists>out. generate_config user_config config = Ok out \<and>
    parse_and_merge out base = Ok (base ++ (config |` (p_name ` set CONFIG_PARAMS)))"
proof -
  obtain out where out: "const_lines CONFIG_PARAMS config = Ok out"
      "merge_lines (str_lines out) base = Ok (base ++ (config |` (p_name ` set CONFIG_PARAMS)))"
    using merge_const_lines[OF order_refl assms] by blast
  define u where "u = (if user_config then '' and user''@ [CHR 0x27] @ ''s gvt_config.rs'' else [])"
  let ?h1 = "''// Auto-generated by build.rs - do not edit''"
  let ?h2 = "''// Configuration merged from library defaults'' @ u"
  have h: "newline \<notin> set ?h1" "newline \<notin> set ?h2"
    by (auto simp: newline_def u_def)
  have g: "generate_config user_config config = Ok (?h1 @ newline # ?h2 @ newline # [] @ newline # out)"
    by (simp add: generate_config_def out(1) u_def)
  have l: "str_lines (?h1 @ newline # ?h2 @ newline # [] @ newline # out) = ?h1 # ?h2 # [] # str_lines out"
    using str_lines_Cons[OF h(1)] str_lines_Cons[OF h(2)] str_lines_Cons[of "[]" out]
    by (simp only: list.set empty_iff not_False_eq_True simp_thms)
  have "merge_line ?h1 base = Ok base" "merge_line ?h2 base = Ok base" "merge_line [] base = Ok base"
    by (intro merge_line_skip; simp add: u_def is_ws_def)+
  then show ?thesis
    using g l out(2) by (simp add: parse_and_merge_def)
qed

theorem generated_config_reparses_witness:
  "\<exists>out. generate_config False initial_config = Ok out \<and>
     parse_and_merge out Map.empty = Ok (Map.empty ++ (initial_config |` (p_name ` set CONFIG_PARAMS)))"
proof -
  have "\<forall>p \<in> set CONFIG_PARAMS. initial_config (p_name p) = Some (p_default p) \<and> clean_value (p_default p)"
    by (simp add: initial_config_def CONFIG_PARAMS_def param_def clean_value_def trim_def is_ws_def newline_def)
  then show ?thesis
    by (intro generated_config_reparses) blast
qed

lemma digit_not_plus: "digit_val c \<noteq> None \<Longrightarrow> c \<noteq> CHR ''+''"
  by (auto simp: digit_val_def)

lemma parse_unsigned_show:
  "parse_unsigned w (show_nat n) = (if n < 2 ^ w then Some n else None)"
proof (cases "show_nat n")
  case Nil
  then show ?thesis by simp
next
  case (Cons c cs)
  have "parse_digits_acc 0 (c # cs) = Some n"
    using parse_show_acc[of n] Cons by simp
  then have "c \<noteq> CHR ''+''"
    by (intro digit_not_plus) (auto split: option.splits)
  then show ?thesis
    using parse_show_nat[of n] Cons by (simp add: parse_unsigned_def)
qed

text \<open>
  the environment overrides a default exactly when it holds a number the type can
  represent: a decimal in range is taken as written, a variable that is unset, not a number
  or out of range leaves the default; without variables the configuration is the default one.
\<close>

theorem env_overrides:
  "(n < 2 ^ 64 \<and> env key = Some (show_nat n) \<longrightarrow> env_nat env key d = n) \<and>
   (n \<ge> 2 ^ 64 \<and> env key = Some (show_nat n) \<longrightarrow> env_nat env key d = d) \<and>
   (env key = None \<longrightarrow> env_nat env key d = d) \<and>
   SchedulerConfig_from_env dflt (\<lambda>_. None) = SchedulerConfig_new dflt"
proof -
  have "SchedulerConfig_from_env dflt (\<lambda>_. None) = SchedulerConfig_new dflt"
    by (simp add: SchedulerConfig_from_env_def SchedulerConfig_new_def env_nat_def env_get_def)
  then show ?thesis
    by (auto simp: env_nat_def env_get_def parse_unsigned_show)
qed

theorem env_overrides_witness:
  "env_nat [''GVT_NUM_WORKERS'' \<mapsto> show_nat 8] ''GVT_NUM_WORKERS'' 4 = 8"
  using env_overrides[of 8 "[''GVT_NUM_WORKERS'' \<mapsto> show_nat 8]" "''GVT_NUM_WORKERS''" 4] by simp

end
