(* ===== verification/Scheduler.thy ===== *)
theory Scheduler
  imports Slots Ready_Queue Memory Context_Switch Config
begin

text \<open>
  The scheduler of \<open>gvthread-runtime\<close>: \<open>scheduler.rs\<close> with the worker states and pool of
  \<open>worker.rs\<close>, the thread-local variables of \<open>tls.rs\<close>, and the sleep queue and preemption
  watch of \<open>timer/mod.rs\<close>. The first part gives every operation as a function on the
  scheduler's state; the second lets workers, threads and wakers interleave.
\<close>

section \<open>State\<close>

text \<open>
  The thread-local variables of one OS thread. \<open>tls_worker_id\<close> is \<open>WORKER_ID\<close> of
  \<open>tls.rs\<close>, which no code sets; \<open>tls_base\<close> is 0 for a null pointer.
\<close>

record Tls =
  tls_worker_id :: "nat option"
  tls_current :: GVThreadId
  tls_base :: nat

definition Tls_initial :: Tls where
  "Tls_initial = \<lparr> tls_worker_id = None, tls_current = GVThreadId_NONE, tls_base = 0 \<rparr>"

definition set_current_gvthread :: "GVThreadId \<Rightarrow> nat \<Rightarrow> Tls \<Rightarrow> Tls" where
  "set_current_gvthread i base t = t\<lparr> tls_current := i, tls_base := base \<rparr>"

definition clear_current_gvthread :: "Tls \<Rightarrow> Tls" where
  "clear_current_gvthread t = t\<lparr> tls_current := GVThreadId_NONE, tls_base := 0 \<rparr>"

definition is_in_gvthread :: "Tls \<Rightarrow> bool" where
  "is_in_gvthread t \<longleftrightarrow> tls_current t \<noteq> GVTHREAD_NONE"

definition try_current_worker_id :: "Tls \<Rightarrow> nat option" where
  "try_current_worker_id t = tls_worker_id t"

record SleepEntry =
  se_wake_time_ns :: u64
  se_gvthread_id :: u32
  se_generation :: u32

text \<open>
  \<open>s_tls w\<close> belongs to the OS thread of worker \<open>w\<close>. \<open>s_sleep\<close> is the \<open>BinaryHeap\<close> of
  sleepers as the list of its entries by wake time.
\<close>

record Sched =
  s_config :: SchedulerConfig
  s_slots :: SlotAllocator
  s_queue :: SimpleQueue
  s_region :: MemoryRegion
  s_kernel :: Kernel
  s_meta :: "u32 \<Rightarrow> GVThreadMetadata"
  s_workers :: "nat \<Rightarrow> WorkerState"
  s_tls :: "nat \<Rightarrow> Tls"
  s_running :: bool
  s_global_running :: bool
  s_timer_thread :: bool
  s_worker_threads :: nat
  s_sleep :: "SleepEntry list option"

text \<open>The answers of the system calls, and the code addresses a new thread starts with.\<close>

record Os =
  os_mmap :: "nat \<Rightarrow> nat option"
  os_mprotect :: "nat \<Rightarrow> nat \<Rightarrow> bool"
  os_madvise :: "nat \<Rightarrow> nat \<Rightarrow> bool"
  os_trampoline :: u64
  os_entry :: u64

text \<open>A call ends in a panic or returns an error of its own.\<close>

datatype failure = Panic string | Fail SchedError

abbreviation upd_meta :: "u32 \<Rightarrow> (GVThreadMetadata \<Rightarrow> GVThreadMetadata) \<Rightarrow> Sched \<Rightarrow> Sched" where
  "upd_meta i f s \<equiv> s\<lparr> s_meta := (s_meta s)(i := f (s_meta s i)) \<rparr>"

abbreviation upd_worker :: "nat \<Rightarrow> (WorkerState \<Rightarrow> WorkerState) \<Rightarrow> Sched \<Rightarrow> Sched" where
  "upd_worker w f s \<equiv> s\<lparr> s_workers := (s_workers s)(w := f (s_workers s w)) \<rparr>"

abbreviation upd_tls :: "nat \<Rightarrow> (Tls \<Rightarrow> Tls) \<Rightarrow> Sched \<Rightarrow> Sched" where
  "upd_tls w f s \<equiv> s\<lparr> s_tls := (s_tls s)(w := f (s_tls s w)) \<rparr>"

section \<open>Start and shutdown\<close>

definition Scheduler_new :: "SchedulerConfig \<Rightarrow> (failure, Sched) result" where
  "Scheduler_new config =
     (case validate config of
        Inl e \<Rightarrow> Err (Panic ''Invalid scheduler configuration'')
      | Inr _ \<Rightarrow>
          Ok \<lparr> s_config = config,
               s_slots = SlotAllocator_new (c_max_gvthreads config),
               s_queue = SimpleQueue_init (c_num_workers config) SimpleQueue_new,
               s_region = MemoryRegion_new, s_kernel = \<lparr> k_rw = {} \<rparr>,
               s_meta = (\<lambda>_. metadata_zeroed), s_workers = (\<lambda>_. WorkerState_new),
               s_tls = (\<lambda>_. Tls_initial), s_running = False, s_global_running = False,
               s_timer_thread = False, s_worker_threads = 0, s_sleep = None \<rparr>)"

text \<open>\<open>WorkerStates::get\<close> indexes an array of \<open>MAX_WORKERS\<close> states.\<close>

fun WorkerPool_start ::
  "nat \<Rightarrow> nat \<Rightarrow> nat list \<Rightarrow> Sched \<Rightarrow> (failure, unit) result \<times> Sched" where
  "WorkerPool_start n low [] s = (Ok (), s)"
| "WorkerPool_start n low (i # is) s =
     (if i \<ge> MAX_WORKERS then (Err (Panic ''index out of bounds''), s)
      else WorkerPool_start n low is
        ((upd_worker i (WorkerState_init (of_nat i) (i \<ge> n - low)) s)
           \<lparr> s_worker_threads := s_worker_threads s + 1 \<rparr>))"

definition start :: "Os \<Rightarrow> Sched \<Rightarrow> (failure, unit) result \<times> Sched" where
  "start os s =
     (if s_running s then (Err (Fail AlreadyInitialized), s)
      else
        let s1 = s\<lparr> s_running := True \<rparr> in
        case region_init (os_mmap os) (c_max_gvthreads (s_config s)) (s_region s1) of
          (Inl e, r) \<Rightarrow> (Err (Fail e), s1\<lparr> s_region := r \<rparr>)
        | (Inr _, r) \<Rightarrow>
            let s2 = s1\<lparr> s_region := r, s_global_running := True, s_timer_thread := True \<rparr> in
            WorkerPool_start (c_num_workers (s_config s)) (c_num_low_priority_workers (s_config s))
              [0 ..< c_num_workers (s_config s)] s2)"

definition shutdown :: "Sched \<Rightarrow> Sched" where
  "shutdown s =
     (if \<not> s_running s then s
      else s\<lparr> s_running := False, s_global_running := False, s_queue := rq_wake_all (s_queue s),
              s_timer_thread := False, s_worker_threads := 0 \<rparr>)"

text \<open>
  The global scheduler: \<open>SCHEDULER_INIT\<close> and \<open>SCHEDULER\<close>. The sleep queue is created with
  it.
\<close>

record Global =
  g_init :: bool
  g_sched :: "Sched option"

definition init_global_scheduler :: "SchedulerConfig \<Rightarrow> Global \<Rightarrow> (failure, unit) result \<times> Global" where
  "init_global_scheduler config g =
     (if g_init g then (Err (Fail AlreadyInitialized), g)
      else
        let g1 = g\<lparr> g_init := True \<rparr> in
        case Scheduler_new config of
          Inl e \<Rightarrow> (Err e, g1)
        | Inr s \<Rightarrow> (Ok (), g1\<lparr> g_sched := Some (s\<lparr> s_sleep := Some [] \<rparr>) \<rparr>))"

definition start_global_scheduler :: "Os \<Rightarrow> Global \<Rightarrow> (failure, unit) result \<times> Global" where
  "start_global_scheduler os g =
     (case g_sched g of
        Some s \<Rightarrow> (case start os s of (r, s') \<Rightarrow> (r, g\<lparr> g_sched := Some s' \<rparr>))
      | None \<Rightarrow> (Err (Fail NotInitialized), g))"

definition shutdown_global_scheduler :: "Global \<Rightarrow> Global" where
  "shutdown_global_scheduler g = g\<lparr> g_sched := map_option shutdown (g_sched g) \<rparr>"

section \<open>Thread operations\<close>

text \<open>\<open>spawn\<close> up to the push: the slot, its memory and metadata, and the state \<open>Ready\<close>.\<close>

definition spawn_prepare ::
  "Os \<Rightarrow> Tls \<Rightarrow> u64 \<Rightarrow> Priority \<Rightarrow> Sched \<Rightarrow> (failure, GVThreadId) result \<times> Sched" where
  "spawn_prepare os tls closure pr s =
     (case allocate (s_slots s) of
        (Inl e, sl) \<Rightarrow> (Err (Panic ''No slots available''), s\<lparr> s_slots := sl \<rparr>)
      | (Inr i, sl) \<Rightarrow>
          (case activate_slot (os_mprotect os) i (s_region s) (s_kernel s) of
             (Inl e, k) \<Rightarrow> (Err (Panic ''Failed to activate slot''), s\<lparr> s_slots := sl, s_kernel := k \<rparr>)
           | (Inr _, k) \<Rightarrow>
               let parent = (if is_in_gvthread tls then tls_current tls else GVThreadId_NONE);
                   m = metadata_init i parent pr (s_meta s i);
                   m1 = m\<lparr> m_entry_fn := os_entry os, m_entry_arg := closure,
                           m_voluntary_regs :=
                             init_context (os_trampoline os) (of_nat (stack_top (s_region s) i))
                               (os_entry os) closure \<rparr>
               in (Ok i,
                   s\<lparr> s_slots := sl, s_kernel := k, s_meta := (s_meta s)(i := set_state Ready m1) \<rparr>)))"

definition spawn ::
  "Os \<Rightarrow> Tls \<Rightarrow> u64 \<Rightarrow> Priority \<Rightarrow> Sched \<Rightarrow> (failure, GVThreadId) result \<times> Sched" where
  "spawn os tls closure pr s =
     (case spawn_prepare os tls closure pr s of
        (Inl e, s1) \<Rightarrow> (Err e, s1)
      | (Inr i, s1) \<Rightarrow> (Ok i, s1\<lparr> s_queue := rq_push i pr None (s_queue s1) \<rparr>))"

definition get_next :: "nat \<Rightarrow> Sched \<Rightarrow> (GVThreadId \<times> Priority) option \<times> Sched" where
  "get_next w s = (case rq_pop w (s_queue s) of (r, q) \<Rightarrow> (r, s\<lparr> s_queue := q \<rparr>))"

definition mark_ready :: "Tls \<Rightarrow> GVThreadId \<Rightarrow> Priority \<Rightarrow> Sched \<Rightarrow> Sched" where
  "mark_ready tls i pr s =
     (let s1 = upd_meta i (set_state Ready) s in
      s1\<lparr> s_queue := rq_push i pr (try_current_worker_id tls) (s_queue s1) \<rparr>)"

definition mark_blocked :: "GVThreadId \<Rightarrow> Priority \<Rightarrow> Sched \<Rightarrow> Sched" where
  "mark_blocked i pr s = upd_meta i (set_state Blocked) s"

definition wake_gvthread :: "Tls \<Rightarrow> GVThreadId \<Rightarrow> Priority \<Rightarrow> Sched \<Rightarrow> Sched" where
  "wake_gvthread tls i pr s =
     (if get_state (s_meta s i) = Blocked then
        let s1 = upd_meta i (set_state Ready) s in
        s1\<lparr> s_queue := rq_push i pr (try_current_worker_id tls) (s_queue s1) \<rparr>
      else s)"

definition wake_gvthread_checked :: "Tls \<Rightarrow> GVThreadId \<Rightarrow> Priority \<Rightarrow> u32 \<Rightarrow> Sched \<Rightarrow> Sched" where
  "wake_gvthread_checked tls i pr expected s =
     (if get_generation (s_meta s i) \<noteq> expected then s else wake_gvthread tls i pr s)"

text \<open>A successful \<open>deactivate_slot\<close> leaves a page of zeros where the metadata was.\<close>

definition mark_finished :: "Os \<Rightarrow> GVThreadId \<Rightarrow> Sched \<Rightarrow> Sched" where
  "mark_finished os i s =
     (let s1 = upd_meta i (set_state Finished) s;
          s2 = (case deactivate_slot (os_madvise os) i (s_region s1) of
                  Inl _ \<Rightarrow> s1 | Inr _ \<Rightarrow> s1\<lparr> s_meta := (s_meta s1)(i := metadata_zeroed) \<rparr>)
      in s2\<lparr> s_slots := release i (s_slots s2) \<rparr>)"

section \<open>Running a thread\<close>

text \<open>\<open>run_gvthread\<close> up to the switch into the thread.\<close>

definition run_prologue :: "nat \<Rightarrow> GVThreadId \<Rightarrow> u64 \<Rightarrow> Sched \<Rightarrow> Sched" where
  "run_prologue w i now s =
     (let s1 = upd_worker w (start_running i now) s;
          s2 = upd_tls w (set_current_gvthread i (metadata_addr (s_region s1) i)) s1
      in upd_meta i (\<lambda>m. clear_preempt ((set_state Running m)\<lparr> m_worker_id := of_nat w \<rparr>)) s2)"

text \<open>
  \<open>run_gvthread\<close> from the switch back: the thread's state is read once, and the worker reacts to what it read.
\<close>

definition epilogue_react :: "Os \<Rightarrow> nat \<Rightarrow> GVThreadId \<Rightarrow> Priority \<Rightarrow> GVThreadState \<Rightarrow> Sched \<Rightarrow> Sched" where
  "epilogue_react os w i pr x s =
     (let s1 =
        (case x of
           Ready \<Rightarrow> s\<lparr> s_queue := rq_push i pr (Some w) (s_queue s) \<rparr>
         | Finished \<Rightarrow> mark_finished os i s
         | Blocked \<Rightarrow> s
         | Preempted \<Rightarrow> mark_ready (s_tls s w) i pr s
         | _ \<Rightarrow> s)
      in upd_tls w clear_current_gvthread (upd_worker w stop_running s1))"

definition run_epilogue :: "Os \<Rightarrow> nat \<Rightarrow> GVThreadId \<Rightarrow> Priority \<Rightarrow> Sched \<Rightarrow> Sched" where
  "run_epilogue os w i pr s = epilogue_react os w i pr (get_state (s_meta s i)) s"

text \<open>\<open>body\<close> is what happens to the state between the switch into the thread and back.\<close>

definition run_gvthread ::
  "Os \<Rightarrow> (Sched \<Rightarrow> Sched) \<Rightarrow> nat \<Rightarrow> GVThreadId \<Rightarrow> Priority \<Rightarrow> u64 \<Rightarrow> Sched \<Rightarrow> Sched" where
  "run_gvthread os body w i pr now s = run_epilogue os w i pr (body (run_prologue w i now s))"

definition yield_now :: "nat \<Rightarrow> u64 \<Rightarrow> Sched \<Rightarrow> Sched" where
  "yield_now w now s =
     (let t = s_tls s w in
      if \<not> is_in_gvthread t \<or> tls_base t = 0 then s
      else upd_worker w (record_activity now) (upd_meta (tls_current t) (set_state Ready) s))"

definition block_current :: "nat \<Rightarrow> Sched \<Rightarrow> Sched" where
  "block_current w s =
     (let t = s_tls s w in
      if \<not> is_in_gvthread t \<or> tls_base t = 0 then s
      else upd_meta (tls_current t) (set_state Blocked) s)"

text \<open>After either call the resumed thread clears its preemption flag.\<close>

definition resume_current :: "nat \<Rightarrow> Sched \<Rightarrow> Sched" where
  "resume_current w s = upd_meta (tls_current (s_tls s w)) clear_preempt s"

text \<open>The clean-up after the entry function; with a null base it spins for ever.\<close>

definition gvthread_finished :: "nat \<Rightarrow> Sched \<Rightarrow> Sched option" where
  "gvthread_finished w s =
     (let t = s_tls s w in
      if tls_base t = 0 then None else Some (upd_meta (tls_current t) (set_state Finished) s))"

section \<open>The worker loop\<close>

text \<open>
  The I/O hooks are installed by another crate: polling and waiting change the scheduler's
  state, \<open>hk_has_io\<close> answers whether the worker has operations in flight.
\<close>

record Hooks =
  hk_poll :: "(nat \<Rightarrow> Sched \<Rightarrow> Sched) option"
  hk_has_io :: "(nat \<Rightarrow> Sched \<Rightarrow> bool) option"
  hk_wait_io :: "(nat \<Rightarrow> Sched \<Rightarrow> Sched) option"

datatype WorkerAction = WExit | WRan GVThreadId Priority | WWaitedIo | WSpun | WParked

text \<open>
  One round of \<open>worker_main_loop\<close>: what it did, the new idle count and the new state.
  \<open>run\<close> runs a thread, \<open>park\<close> is what others do to the global queue while it is parked.
\<close>

definition worker_round ::
  "Hooks \<Rightarrow> (GVThreadId \<Rightarrow> Priority \<Rightarrow> Sched \<Rightarrow> Sched) \<Rightarrow> (GlobalQueue \<Rightarrow> GlobalQueue) \<Rightarrow> u32 \<Rightarrow>
   nat \<Rightarrow> u32 \<Rightarrow> Sched \<Rightarrow> WorkerAction \<times> u32 \<times> Sched"
where
  "worker_round hk run park spin_limit w idle_spins s =
     (if \<not> s_global_running s then (WExit, idle_spins, s)
      else
        let s1 = (case hk_poll hk of Some f \<Rightarrow> f w s | None \<Rightarrow> s) in
        case get_next w s1 of
          (Some (i, pr), s2) \<Rightarrow>
            (WRan i pr, 0, run i pr (upd_worker w (\<lambda>x. x\<lparr> w_is_parked := False \<rparr>) s2))
        | (None, s2) \<Rightarrow>
            let has_io = (case hk_has_io hk of Some f \<Rightarrow> f w s2 | None \<Rightarrow> False) in
            if has_io then (WWaitedIo, 0, (case hk_wait_io hk of Some f \<Rightarrow> f w s2 | None \<Rightarrow> s2))
            else if idle_spins < spin_limit then (WSpun, idle_spins + 1, s2)
            else
              let s3 = upd_worker w (\<lambda>x. x\<lparr> w_is_parked := True \<rparr>) s2;
                  s4 = s3\<lparr> s_queue := rq_park park (s_queue s3) \<rparr>
              in (WParked, 0, upd_worker w (\<lambda>x. x\<lparr> w_is_parked := False \<rparr>) s4))"

section \<open>Sleeping (\<open>timer/mod.rs\<close>)\<close>

definition init_sleep_queue_with_capacity :: "usize \<Rightarrow> Sched \<Rightarrow> Sched" where
  "init_sleep_queue_with_capacity cap s = s\<lparr> s_sleep := Some [] \<rparr>"

definition add_to_sleep_queue :: "SleepEntry \<Rightarrow> Sched \<Rightarrow> Sched" where
  "add_to_sleep_queue e s =
     (case s_sleep s of
        Some q \<Rightarrow> s\<lparr> s_sleep := Some (insort_key se_wake_time_ns e q) \<rparr>
      | None \<Rightarrow> s)"

text \<open>\<open>sleep\<close> up to \<open>block_current\<close>; \<open>now\<close> and \<open>duration\<close> are in nanoseconds.\<close>

definition sleep_register :: "nat \<Rightarrow> u64 \<Rightarrow> u64 \<Rightarrow> Sched \<Rightarrow> Sched" where
  "sleep_register w now duration s =
     (let t = s_tls s w; i = tls_current t; wake = now + duration in
      if \<not> is_in_gvthread t \<or> tls_base t = 0 then s
      else add_to_sleep_queue
             \<lparr> se_wake_time_ns = wake, se_gvthread_id = i, se_generation = get_generation (s_meta s i) \<rparr>
             (upd_meta i (\<lambda>m. m\<lparr> m_wake_time_ns := wake \<rparr>) s))"

definition sched_sleep :: "nat \<Rightarrow> u64 \<Rightarrow> u64 \<Rightarrow> Sched \<Rightarrow> Sched" where
  "sched_sleep w now duration s = block_current w (sleep_register w now duration s)"

definition wake_sleeper :: "Tls \<Rightarrow> SleepEntry \<Rightarrow> Sched \<Rightarrow> Sched" where
  "wake_sleeper tls e s =
     (let m = s_meta s (se_gvthread_id e) in
      if get_generation m = se_generation e
      then wake_gvthread tls (se_gvthread_id e) (get_priority m) s else s)"

fun sleep_loop :: "Tls \<Rightarrow> u64 \<Rightarrow> SleepEntry list \<Rightarrow> Sched \<Rightarrow> Sched" where
  "sleep_loop tls now [] s = s\<lparr> s_sleep := Some [] \<rparr>"
| "sleep_loop tls now (e # q) s =
     (if se_wake_time_ns e \<le> now then sleep_loop tls now q (wake_sleeper tls e s)
      else s\<lparr> s_sleep := Some (e # q) \<rparr>)"

definition process_sleep_queue :: "Tls \<Rightarrow> u64 \<Rightarrow> Sched \<Rightarrow> Sched" where
  "process_sleep_queue tls now s =
     (case s_sleep s of Some q \<Rightarrow> sleep_loop tls now q s | None \<Rightarrow> s)"

definition time_until_next_wake :: "u64 \<Rightarrow> Sched \<Rightarrow> nat option" where
  "time_until_next_wake now s =
     (case s_sleep s of
        Some (e # _) \<Rightarrow>
          if se_wake_time_ns e > now then Some (unat (se_wake_time_ns e - now)) else Some 0
      | _ \<Rightarrow> None)"

definition timer_sleep_duration :: "nat \<Rightarrow> nat option \<Rightarrow> nat" where
  "timer_sleep_duration max_sleep_ms next =
     (case next of
        Some d \<Rightarrow> if d = 0 then 100000 else min d (from_millis max_sleep_ms)
      | None \<Rightarrow> from_millis max_sleep_ms)"

section \<open>Preemption watch (\<open>timer/mod.rs\<close>)\<close>

record WorkerWatch =
  ww_last_counter :: u32
  ww_first_stall_time :: "nat option"

definition WorkerWatch_new :: WorkerWatch where
  "WorkerWatch_new = \<lparr> ww_last_counter = 0, ww_first_stall_time = None \<rparr>"

text \<open>The result is the thread id of the worker that is signalled, if any.\<close>

definition handle_stuck_gvthread :: "nat \<Rightarrow> u32 \<Rightarrow> bool \<Rightarrow> Sched \<Rightarrow> u64 option \<times> Sched" where
  "handle_stuck_gvthread w i forced s =
     (let s1 = upd_meta i request_preempt s; tid = w_thread_id (s_workers s1 w) in
      (if forced \<and> tid \<noteq> 0 then Some tid else None, s1))"

definition check_worker ::
  "nat \<Rightarrow> u64 \<Rightarrow> bool \<Rightarrow> nat \<Rightarrow> WorkerWatch \<Rightarrow> Sched \<Rightarrow> u64 option \<times> WorkerWatch \<times> Sched" where
  "check_worker now time_slice_ns forced w watch s =
     (let worker = s_workers s w; i = w_current_gthread worker; counter = w_activity_counter worker in
      if i = GVTHREAD_NONE then (None, watch\<lparr> ww_first_stall_time := None \<rparr>, s)
      else if counter = ww_last_counter watch then
        (case ww_first_stall_time watch of
           None \<Rightarrow> (None, watch\<lparr> ww_first_stall_time := Some now \<rparr>, s)
         | Some stall_start \<Rightarrow>
             if (of_nat (now - stall_start) :: u64) > time_slice_ns then
               (case handle_stuck_gvthread w i forced s of
                  (sig, s1) \<Rightarrow> (sig, watch\<lparr> ww_first_stall_time := None \<rparr>, s1))
             else (None, watch, s))
      else (None, watch\<lparr> ww_last_counter := counter, ww_first_stall_time := None \<rparr>, s))"

fun check_workers ::
  "nat \<Rightarrow> u64 \<Rightarrow> bool \<Rightarrow> nat \<Rightarrow> WorkerWatch list \<Rightarrow> Sched \<Rightarrow> u64 list \<times> WorkerWatch list \<times> Sched" where
  "check_workers now time_slice forced w [] s = ([], [], s)"
| "check_workers now time_slice forced w (x # xs) s =
     (case check_worker now time_slice forced w x s of
        (sig, x', s1) \<Rightarrow>
          (case check_workers now time_slice forced (Suc w) xs s1 of
             (sigs, xs', s2) \<Rightarrow>
               ((case sig of Some t \<Rightarrow> t # sigs | None \<Rightarrow> sigs), x' # xs', s2)))"

text \<open>One round of the timer thread after its sleep.\<close>

definition timer_tick ::
  "Tls \<Rightarrow> u64 \<Rightarrow> nat \<Rightarrow> WorkerWatch list \<Rightarrow> Sched \<Rightarrow> u64 list \<times> WorkerWatch list \<times> Sched" where
  "timer_tick tls now_ns now_instant watches s =
     check_workers now_instant (of_nat (c_time_slice (s_config s))) (c_enable_forced_preempt (s_config s)) 0
       watches (process_sleep_queue tls now_ns s)"

section \<open>Case rules\<close>

text \<open>The metadata block a successful \<open>spawn\<close> leaves.\<close>

definition spawned_meta :: "Os \<Rightarrow> Tls \<Rightarrow> u64 \<Rightarrow> Priority \<Rightarrow> Sched \<Rightarrow> GVThreadId \<Rightarrow> GVThreadMetadata" where
  "spawned_meta os tls closure pr s i =
     set_state Ready
       ((metadata_init i (if is_in_gvthread tls then tls_current tls else GVThreadId_NONE) pr (s_meta s i))
          \<lparr> m_entry_fn := os_entry os, m_entry_arg := closure,
            m_voluntary_regs :=
              init_context (os_trampoline os) (of_nat (stack_top (s_region s) i)) (os_entry os) closure \<rparr>)"

lemma spawn_prepare_OkE:
  assumes "spawn_prepare os tls closure pr s = (Inr i, s')"
  obtains sl k where "allocate (s_slots s) = (Inr i, sl)"
    "activate_slot (os_mprotect os) i (s_region s) (s_kernel s) = (Inr (), k)"
    "s' = s\<lparr> s_slots := sl, s_kernel := k, s_meta := (s_meta s)(i := spawned_meta os tls closure pr s i) \<rparr>"
  using assms by (auto simp: spawn_prepare_def spawned_meta_def Let_def split: prod.splits sum.splits)

lemma spawned_meta_simps [simp]:
  "get_state (spawned_meta os tls closure pr s i) = Ready"
  "get_priority (spawned_meta os tls closure pr s i) = pr"
  "get_id (spawned_meta os tls closure pr s i) = i"
  "get_generation (spawned_meta os tls closure pr s i) = get_generation (s_meta s i) + 1"
  by (simp_all add: spawned_meta_def metadata_init_def get_priority_def get_id_def get_generation_def)

end
