(* ===== verification/Sched_Safety.thy ===== *)
theory Sched_Safety
  imports Scheduler
begin

text \<open>
  The scheduler under interleaving. Workers, the threads they run, spawners and wakers take turns. Their
  calls are split wherever another agent can get in between and see a difference: a spawn into preparing
  the thread and pushing it, a wake into reading the state, setting it and pushing, a worker's round into
  popping a thread, starting it, the thread setting its own state, reading that state and reacting to it.
  An operation on the ready queue is one step, and so is what touches only the agent's own data or a slot
  nobody else can reach. The contract is a machine of owners: every live thread is queued or about to be
  queued once, held by one worker, or blocked.
\<close>

section \<open>The owner machine\<close>

text \<open>
  A worker is idle, has popped a thread, runs it, is back from a thread that has changed its own state, or
  has read that state and is about to react to it.
\<close>

datatype wpc =
    WIdle
  | WPop u32 Priority
  | WRun u32 Priority
  | WSwitch u32 Priority GVThreadState
  | WReact u32 Priority GVThreadState

primrec holder :: "wpc \<Rightarrow> u32 option" where
  "holder WIdle = None"
| "holder (WPop i pr) = Some i"
| "holder (WRun i pr) = Some i"
| "holder (WSwitch i pr x) = Some i"
| "holder (WReact i pr x) = Some i"

text \<open>The state of the thread a worker holds, as far as the worker's position tells.\<close>

primrec pc_ok :: "wpc \<Rightarrow> GVThreadState \<Rightarrow> bool" where
  "pc_ok WIdle x \<longleftrightarrow> True"
| "pc_ok (WPop i pr) x \<longleftrightarrow> x = Ready"
| "pc_ok (WRun i pr) x \<longleftrightarrow> x = Running"
| "pc_ok (WSwitch i pr y) x \<longleftrightarrow> x = y \<and> y \<in> {Ready, Blocked, Finished}"
| "pc_ok (WReact i pr y) x \<longleftrightarrow> x = y \<and> y \<in> {Ready, Blocked, Finished}"

text \<open>
  \<open>o_count\<close> is how often a thread is queued or about to be pushed, \<open>o_seen\<close> how many wakers have read that
  it is blocked and not yet made it ready.
\<close>

record owners =
  o_count :: "u32 \<Rightarrow> nat"
  o_seen :: "u32 \<Rightarrow> nat"
  o_state :: "u32 \<Rightarrow> GVThreadState"
  o_used :: "u32 set"
  o_pc :: "nat \<Rightarrow> wpc"

definition off_cpu :: "u32 \<Rightarrow> (nat \<Rightarrow> wpc) \<Rightarrow> bool" where
  "off_cpu i pc \<longleftrightarrow> (\<forall>w. holder (pc w) \<noteq> Some i)"

abbreviation incr :: "u32 \<Rightarrow> (u32 \<Rightarrow> nat) \<Rightarrow> u32 \<Rightarrow> nat" where
  "incr i c \<equiv> c(i := c i + 1)"

abbreviation decr :: "u32 \<Rightarrow> (u32 \<Rightarrow> nat) \<Rightarrow> u32 \<Rightarrow> nat" where
  "decr i c \<equiv> c(i := c i - 1)"

inductive own_step :: "owners \<Rightarrow> owners \<Rightarrow> bool" where
  OSkip: "own_step m m"
| OSpawn: "i \<notin> o_used m \<Longrightarrow>
    own_step m (m\<lparr> o_count := incr i (o_count m), o_state := (o_state m)(i := Ready), o_used := insert i (o_used m) \<rparr>)"
| OPop: "o_pc m w = WIdle \<Longrightarrow> 0 < o_count m i \<Longrightarrow>
    own_step m (m\<lparr> o_count := decr i (o_count m), o_pc := (o_pc m)(w := WPop i pr) \<rparr>)"
| OStart: "o_pc m w = WPop i pr \<Longrightarrow>
    own_step m (m\<lparr> o_state := (o_state m)(i := Running), o_pc := (o_pc m)(w := WRun i pr) \<rparr>)"
| OSwitch: "o_pc m w = WRun i pr \<Longrightarrow> x \<in> {Ready, Blocked, Finished} \<Longrightarrow>
    own_step m (m\<lparr> o_state := (o_state m)(i := x), o_pc := (o_pc m)(w := WSwitch i pr x) \<rparr>)"
| OLoad: "o_pc m w = WSwitch i pr x \<Longrightarrow> own_step m (m\<lparr> o_pc := (o_pc m)(w := WReact i pr x) \<rparr>)"
| ORequeue: "o_pc m w = WReact i pr Ready \<Longrightarrow>
    own_step m (m\<lparr> o_count := incr i (o_count m), o_pc := (o_pc m)(w := WIdle) \<rparr>)"
| OPark: "o_pc m w = WReact i pr Blocked \<Longrightarrow> own_step m (m\<lparr> o_pc := (o_pc m)(w := WIdle) \<rparr>)"
| OFree: "o_pc m w = WReact i pr Finished \<Longrightarrow> z \<noteq> Blocked \<Longrightarrow>
    own_step m (m\<lparr> o_state := (o_state m)(i := z), o_used := o_used m - {i}, o_pc := (o_pc m)(w := WIdle) \<rparr>)"
| OSee: "o_state m i = Blocked \<Longrightarrow> off_cpu i (o_pc m) \<Longrightarrow> o_seen m i = 0 \<Longrightarrow>
    own_step m (m\<lparr> o_seen := incr i (o_seen m) \<rparr>)"
| OWake: "0 < o_seen m i \<Longrightarrow>
    own_step m (m\<lparr> o_seen := decr i (o_seen m), o_count := incr i (o_count m), o_state := (o_state m)(i := Ready) \<rparr>)"

text \<open>What is promised of each thread.\<close>

definition thread_ok :: "owners \<Rightarrow> u32 \<Rightarrow> bool" where
  "thread_ok m i \<longleftrightarrow>
     o_count m i \<le> 1 \<and> (0 < o_count m i \<longrightarrow> o_state m i = Ready \<and> i \<in> o_used m \<and> off_cpu i (o_pc m)) \<and>
     o_seen m i \<le> 1 \<and> (0 < o_seen m i \<longrightarrow> o_state m i = Blocked \<and> off_cpu i (o_pc m)) \<and>
     (\<forall>w w'. holder (o_pc m w) = Some i \<longrightarrow> holder (o_pc m w') = Some i \<longrightarrow> w = w') \<and>
     (\<forall>w. holder (o_pc m w) = Some i \<longrightarrow> i \<in> o_used m \<and> pc_ok (o_pc m w) (o_state m i)) \<and>
     (i \<notin> o_used m \<longrightarrow> o_state m i \<noteq> Blocked) \<and>
     (i \<in> o_used m \<longrightarrow> 0 < o_count m i \<or> \<not> off_cpu i (o_pc m) \<or> o_state m i = Blocked)"

definition own_inv :: "owners \<Rightarrow> bool" where
  "own_inv m \<longleftrightarrow> (\<forall>i. thread_ok m i)"

lemma own_invD:
  assumes "own_inv m"
  shows "o_count m i \<le> 1"
    and "0 < o_count m i \<Longrightarrow> o_state m i = Ready"
    and "0 < o_count m i \<Longrightarrow> i \<in> o_used m"
    and "0 < o_count m i \<Longrightarrow> holder (o_pc m w) \<noteq> Some i"
    and "holder (o_pc m w) = Some i \<Longrightarrow> holder (o_pc m w') = Some i \<Longrightarrow> w = w'"
    and "holder (o_pc m w) = Some i \<Longrightarrow> i \<in> o_used m"
    and "holder (o_pc m w) = Some i \<Longrightarrow> pc_ok (o_pc m w) (o_state m i)"
    and "i \<in> o_used m \<Longrightarrow> 0 < o_count m i \<or> \<not> off_cpu i (o_pc m) \<or> o_state m i = Blocked"
proof -
  have "thread_ok m i"
    using assms by (simp add: own_inv_def)
  note t = this[unfolded thread_ok_def off_cpu_def]
  show "o_count m i \<le> 1" "0 < o_count m i \<Longrightarrow> o_state m i = Ready" "0 < o_count m i \<Longrightarrow> i \<in> o_used m"
    "0 < o_count m i \<Longrightarrow> holder (o_pc m w) \<noteq> Some i"
    "holder (o_pc m w) = Some i \<Longrightarrow> holder (o_pc m w') = Some i \<Longrightarrow> w = w'"
    "holder (o_pc m w) = Some i \<Longrightarrow> i \<in> o_used m"
    "holder (o_pc m w) = Some i \<Longrightarrow> pc_ok (o_pc m w) (o_state m i)"
    "i \<in> o_used m \<Longrightarrow> 0 < o_count m i \<or> \<not> off_cpu i (o_pc m) \<or> o_state m i = Blocked"
    using t unfolding off_cpu_def by blast+
qed

text \<open>
  A step concerns one thread. What is promised of another depends only on what the step leaves alone.
\<close>

lemma thread_ok_frame:
  assumes "thread_ok m j" "o_count m' j = o_count m j" "o_seen m' j = o_seen m j" "o_state m' j = o_state m j"
    and "j \<in> o_used m' \<longleftrightarrow> j \<in> o_used m"
    and "\<And>w. holder (o_pc m w) = Some j \<or> holder (o_pc m' w) = Some j \<Longrightarrow> o_pc m' w = o_pc m w"
  shows "thread_ok m' j"
proof -
  have h: "holder (o_pc m' w) = Some j \<longleftrightarrow> holder (o_pc m w) = Some j" for w
    using assms(6)[of w] by auto
  then have "off_cpu j (o_pc m') = off_cpu j (o_pc m)"
    by (simp add: off_cpu_def)
  moreover have "pc_ok (o_pc m' w) x = pc_ok (o_pc m w) x" if "holder (o_pc m w) = Some j" for w x
    using assms(6)[of w] that by simp
  ultimately show ?thesis
    using assms(1-5) h unfolding thread_ok_def by auto
qed

lemma own_inv_local:
  assumes "own_inv m" "thread_ok m' i"
    and "\<And>j. j \<noteq> i \<Longrightarrow> o_count m' j = o_count m j \<and> o_seen m' j = o_seen m j \<and> o_state m' j = o_state m j \<and>
      (j \<in> o_used m' \<longleftrightarrow> j \<in> o_used m)"
    and "\<And>j w. j \<noteq> i \<Longrightarrow> holder (o_pc m w) = Some j \<or> holder (o_pc m' w) = Some j \<Longrightarrow> o_pc m' w = o_pc m w"
  shows "own_inv m'"
  unfolding own_inv_def
proof
  fix j
  show "thread_ok m' j"
  proof (cases "j = i")
    case False
    then show ?thesis
      using assms(1) assms(3)[OF False] assms(4)[OF False] unfolding own_inv_def
      by (intro thread_ok_frame[of m j m']) auto
  qed (use assms(2) in simp)
qed

lemma off_cpu_upd:
  "off_cpu j (pc(w := p)) \<longleftrightarrow> holder p \<noteq> Some j \<and> (\<forall>v. v \<noteq> w \<longrightarrow> holder (pc v) \<noteq> Some j)"
  by (auto simp: off_cpu_def)

text \<open>A thread that a worker holds is held by no other, and not queued, about to be queued or seen blocked.\<close>

lemma held_alone:
  assumes "own_inv m" "holder (o_pc m w) = Some i"
  shows "o_count m i = 0" "o_seen m i = 0" "\<And>v. v \<noteq> w \<Longrightarrow> holder (o_pc m v) \<noteq> Some i" "i \<in> o_used m"
    "pc_ok (o_pc m w) (o_state m i)"
proof -
  have t: "thread_ok m i"
    using assms(1) by (simp add: own_inv_def)
  show "o_count m i = 0" "o_seen m i = 0" "i \<in> o_used m" "pc_ok (o_pc m w) (o_state m i)"
    using t assms(2) unfolding thread_ok_def off_cpu_def by blast+
  show "holder (o_pc m v) \<noteq> Some i" if "v \<noteq> w" for v
    using own_invD(5)[OF assms] that by blast
qed

lemma own_inv_pc:
  fixes c :: "u32 \<Rightarrow> nat" and st :: "u32 \<Rightarrow> GVThreadState" and us :: "u32 set" and p :: wpc
  assumes inv: "own_inv m" and w: "holder (o_pc m w) = Some i"
    and t: "thread_ok (m\<lparr> o_count := c, o_state := st, o_used := us, o_pc := (o_pc m)(w := p) \<rparr>) i"
    and other: "\<And>j. j \<noteq> i \<Longrightarrow> c j = o_count m j \<and> st j = o_state m j \<and> (j \<in> us \<longleftrightarrow> j \<in> o_used m)"
    and p: "holder p = Some i \<or> holder p = None"
  shows "own_inv (m\<lparr> o_count := c, o_state := st, o_used := us, o_pc := (o_pc m)(w := p) \<rparr>)"
  by (rule own_inv_local[OF inv t]) (use other w p in \<open>auto split: if_splits\<close>)

lemma own_inv_step:
  assumes "own_step m m'" "own_inv m"
  shows "own_inv m'"
  using assms
proof (induction rule: own_step.induct)
  case (OSpawn i m)
  have "thread_ok m i"
    using OSpawn(2) by (simp add: own_inv_def)
  then show ?case
    using OSpawn(1) by (intro own_inv_local[OF OSpawn(2), of _ i]) (auto simp: thread_ok_def off_cpu_def)
next
  case (OPop m w i pr)
  have "thread_ok m i"
    using OPop(3) by (simp add: own_inv_def)
  then show ?case
    using OPop(1,2)
    by (intro own_inv_local[OF OPop(3), of _ i]) (auto simp: thread_ok_def off_cpu_def split: if_splits)
next
  case (OStart m w i pr)
  have h: "holder (o_pc m w) = Some i"
    using OStart(1) by simp
  note a = held_alone[OF OStart(2) h]
  show ?case
    using own_inv_pc[OF OStart(2) h, where c = "o_count m" and st = "(o_state m)(i := Running)" and us = "o_used m" and p = "WRun i pr"] a
    by (simp add: thread_ok_def off_cpu_upd)
next
  case (OSwitch m w i pr x)
  have h: "holder (o_pc m w) = Some i"
    using OSwitch(1) by simp
  note a = held_alone[OF OSwitch(3) h]
  show ?case
    using own_inv_pc[OF OSwitch(3) h, where c = "o_count m" and st = "(o_state m)(i := x)" and us = "o_used m" and p = "WSwitch i pr x"] a OSwitch(2)
    by (simp add: thread_ok_def off_cpu_upd)
next
  case (OLoad m w i pr x)
  have h: "holder (o_pc m w) = Some i"
    using OLoad(1) by simp
  note a = held_alone[OF OLoad(2) h]
  show ?case
    using own_inv_pc[OF OLoad(2) h, where c = "o_count m" and st = "o_state m" and us = "o_used m" and p = "WReact i pr x"] a OLoad(1)
    by (simp add: thread_ok_def off_cpu_upd)
next
  case (ORequeue m w i pr)
  have h: "holder (o_pc m w) = Some i"
    using ORequeue(1) by simp
  note a = held_alone[OF ORequeue(2) h]
  show ?case
    using own_inv_pc[OF ORequeue(2) h, where c = "incr i (o_count m)" and st = "o_state m" and us = "o_used m" and p = WIdle] a ORequeue(1)
    by (simp add: thread_ok_def off_cpu_upd)
next
  case (OPark m w i pr)
  have h: "holder (o_pc m w) = Some i"
    using OPark(1) by simp
  note a = held_alone[OF OPark(2) h]
  show ?case
    using own_inv_pc[OF OPark(2) h, where c = "o_count m" and st = "o_state m" and us = "o_used m" and p = WIdle] a OPark(1)
    by (simp add: thread_ok_def off_cpu_upd)
next
  case (OFree m w i pr z)
  have h: "holder (o_pc m w) = Some i"
    using OFree(1) by simp
  note a = held_alone[OF OFree(3) h]
  show ?case
    using own_inv_pc[OF OFree(3) h, where c = "o_count m" and st = "(o_state m)(i := z)" and us = "o_used m - {i}" and p = WIdle] a OFree(2)
    by (simp add: thread_ok_def off_cpu_upd)
next
  case (OSee m i)
  have "thread_ok m i"
    using OSee(4) by (simp add: own_inv_def)
  then show ?case
    using OSee(1-3) by (intro own_inv_local[OF OSee(4), of _ i]) (auto simp: thread_ok_def)
next
  case (OWake m i)
  have "thread_ok m i"
    using OWake(2) by (simp add: own_inv_def)
  then show ?case
    using OWake(1) by (intro own_inv_local[OF OWake(2), of _ i]) (auto simp: thread_ok_def off_cpu_def)
qed

section \<open>The interleaved scheduler\<close>

text \<open>
  Besides the workers there are the calls in progress: \<open>y_seen\<close> are wakers that have read \<open>Blocked\<close> and not yet
  acted on it, \<open>y_pushing\<close> are calls of \<open>spawn\<close> and \<open>wake_gvthread\<close> that have yet to push their thread, with the
  hint they will give.
\<close>

record sys =
  y_sched :: Sched
  y_pc :: "nat \<Rightarrow> wpc"
  y_seen :: "(u32 \<times> Priority) multiset"
  y_pushing :: "(u32 \<times> Priority \<times> nat option) multiset"

definition sys_start :: "Sched \<Rightarrow> sys" where
  "sys_start s = \<lparr> y_sched = s, y_pc = (\<lambda>_. WIdle), y_seen = {#}, y_pushing = {#} \<rparr>"

text \<open>
  \<open>disc\<close> is the discipline of the wakers: a thread is only woken while no worker holds it, and by one waker at
  a time. The code enforces neither.
\<close>

inductive sched_step :: "Os \<Rightarrow> bool \<Rightarrow> sys \<Rightarrow> sys \<Rightarrow> bool" for os disc where
  Spawn: "spawn_prepare os tls closure pr (y_sched y) = (Inr i, s') \<Longrightarrow>
    sched_step os disc y (y\<lparr> y_sched := s', y_pushing := add_mset (i, pr, None) (y_pushing y) \<rparr>)"
| Push: "(i, pr, hint) \<in># y_pushing y \<Longrightarrow>
    sched_step os disc y
      (y\<lparr> y_sched := (y_sched y)\<lparr> s_queue := rq_push i pr hint (s_queue (y_sched y)) \<rparr>,
         y_pushing := y_pushing y - {# (i, pr, hint) #} \<rparr>)"
| Pop: "y_pc y w = WIdle \<Longrightarrow> get_next w (y_sched y) = (Some (i, pr), s') \<Longrightarrow>
    sched_step os disc y (y\<lparr> y_sched := s', y_pc := (y_pc y)(w := WPop i pr) \<rparr>)"
| NoWork: "y_pc y w = WIdle \<Longrightarrow> get_next w (y_sched y) = (None, s') \<Longrightarrow>
    sched_step os disc y (y\<lparr> y_sched := s' \<rparr>)"
| Start: "y_pc y w = WPop i pr \<Longrightarrow>
    sched_step os disc y
      (y\<lparr> y_sched := run_prologue w i now (y_sched y), y_pc := (y_pc y)(w := WRun i pr) \<rparr>)"
| Yield: "y_pc y w = WRun i pr \<Longrightarrow>
    sched_step os disc y
      (y\<lparr> y_sched := yield_now w now (y_sched y), y_pc := (y_pc y)(w := WSwitch i pr Ready) \<rparr>)"
| Block: "y_pc y w = WRun i pr \<Longrightarrow>
    sched_step os disc y
      (y\<lparr> y_sched := block_current w (y_sched y), y_pc := (y_pc y)(w := WSwitch i pr Blocked) \<rparr>)"
| Finish: "y_pc y w = WRun i pr \<Longrightarrow> gvthread_finished w (y_sched y) = Some s' \<Longrightarrow>
    sched_step os disc y (y\<lparr> y_sched := s', y_pc := (y_pc y)(w := WSwitch i pr Finished) \<rparr>)"
| Load: "y_pc y w = WSwitch i pr x \<Longrightarrow>
    sched_step os disc y (y\<lparr> y_pc := (y_pc y)(w := WReact i pr (get_state (s_meta (y_sched y) i))) \<rparr>)"
| React: "y_pc y w = WReact i pr x \<Longrightarrow>
    sched_step os disc y
      (y\<lparr> y_sched := epilogue_react os w i pr x (y_sched y), y_pc := (y_pc y)(w := WIdle) \<rparr>)"
| Wake_load: "get_state (s_meta (y_sched y) i) = Blocked \<Longrightarrow>
    (disc \<longrightarrow> off_cpu i (y_pc y) \<and> i \<notin># image_mset fst (y_seen y)) \<Longrightarrow>
    sched_step os disc y (y\<lparr> y_seen := add_mset (i, pr) (y_seen y) \<rparr>)"
| Wake_skip: "get_state (s_meta (y_sched y) i) \<noteq> Blocked \<Longrightarrow> sched_step os disc y y"
| Wake_set: "(i, pr) \<in># y_seen y \<Longrightarrow>
    sched_step os disc y
      (y\<lparr> y_sched := upd_meta i (set_state Ready) (y_sched y), y_seen := y_seen y - {# (i, pr) #},
         y_pushing := add_mset (i, pr, try_current_worker_id tls) (y_pushing y) \<rparr>)"

text \<open>Left alone, the steps of a wake make up \<open>wake_gvthread\<close>, and those of a spawn \<open>spawn\<close>.\<close>

lemma wake_in_steps:
  assumes "get_state (s_meta (y_sched y) i) = Blocked"
  shows "(sched_step os False)\<^sup>*\<^sup>* y (y\<lparr> y_sched := wake_gvthread tls i pr (y_sched y) \<rparr>)"
proof -
  let ?h = "try_current_worker_id tls"
  let ?y1 = "y\<lparr> y_seen := add_mset (i, pr) (y_seen y) \<rparr>"
  let ?y2 = "y\<lparr> y_sched := upd_meta i (set_state Ready) (y_sched y), y_pushing := add_mset (i, pr, ?h) (y_pushing y) \<rparr>"
  have "sched_step os False y ?y1"
    using assms by (intro sched_step.Wake_load) simp_all
  moreover have "sched_step os False ?y1 ?y2"
    using sched_step.Wake_set[of i pr ?y1 os False tls] by simp
  moreover have "sched_step os False ?y2 (y\<lparr> y_sched := wake_gvthread tls i pr (y_sched y) \<rparr>)"
    using sched_step.Push[of i pr ?h ?y2 os False] assms by (simp add: wake_gvthread_def Let_def)
  ultimately show ?thesis
    by (meson converse_rtranclp_into_rtranclp rtranclp.rtrancl_refl)
qed

lemma spawn_in_steps:
  assumes "spawn os tls closure pr (y_sched y) = (Inr i, s')"
  shows "(sched_step os disc)\<^sup>*\<^sup>* y (y\<lparr> y_sched := s' \<rparr>)"
proof -
  obtain s1 where s1: "spawn_prepare os tls closure pr (y_sched y) = (Inr i, s1)"
      "s' = s1\<lparr> s_queue := rq_push i pr None (s_queue s1) \<rparr>"
    using assms by (auto simp: spawn_def split: prod.splits sum.splits)
  let ?y1 = "y\<lparr> y_sched := s1, y_pushing := add_mset (i, pr, None) (y_pushing y) \<rparr>"
  have "sched_step os disc y ?y1"
    using s1(1) by (rule sched_step.Spawn)
  moreover have "sched_step os disc ?y1 (y\<lparr> y_sched := s' \<rparr>)"
    using sched_step.Push[of i pr None ?y1 os disc] s1(2) by simp
  ultimately show ?thesis
    by (meson converse_rtranclp_into_rtranclp rtranclp.rtrancl_refl)
qed

abbreviation pushing_of :: "sys \<Rightarrow> u32 multiset" where
  "pushing_of y \<equiv> image_mset fst (y_pushing y)"

definition sys_abs :: "sys \<Rightarrow> owners" where
  "sys_abs y =
     \<lparr> o_count = count (queued (s_queue (y_sched y)) + pushing_of y), o_seen = count (image_mset fst (y_seen y)),
       o_state = (\<lambda>i. get_state (s_meta (y_sched y) i)),
       o_used = in_use (s_slots (y_sched y)), o_pc = y_pc y \<rparr>"

definition sys_inv :: "sys \<Rightarrow> bool" where
  "sys_inv y \<longleftrightarrow>
     sq_inv (s_queue (y_sched y)) \<and> slot_inv (s_slots (y_sched y)) \<and> 0 < mr_base (s_region (y_sched y)) \<and>
     (\<forall>w i pr. y_pc y w = WRun i pr \<longrightarrow>
        tls_current (s_tls (y_sched y) w) = i \<and> i \<noteq> GVTHREAD_NONE \<and> tls_base (s_tls (y_sched y) w) \<noteq> 0)"

lemma count_add_mset_fun: "count (add_mset i M) = incr i (count M)"
  by (auto simp: fun_eq_iff)

lemma sim_spawn:
  assumes inv: "sys_inv y" and sp: "spawn_prepare os tls cl pr (y_sched y) = (Inr i, s')"
    and y': "y' = y\<lparr> y_sched := s', y_pushing := add_mset (i, pr, None) (y_pushing y) \<rparr>"
  shows "own_step (sys_abs y) (sys_abs y') \<and> sys_inv y'"
proof -
  let ?s = "y_sched y"
  obtain sl k where al: "allocate (s_slots ?s) = (Inr i, sl)"
    and s': "s' = ?s\<lparr> s_slots := sl, s_kernel := k, s_meta := (s_meta ?s)(i := spawned_meta os tls cl pr ?s i) \<rparr>"
    using sp by (rule spawn_prepare_OkE)
  have si: "slot_inv (s_slots ?s)"
    using inv by (auto simp: sys_inv_def)
  note a = slots.al_Ok[OF si al]
  have "sys_abs y' =
      (sys_abs y)\<lparr> o_count := incr i (o_count (sys_abs y)),
        o_state := (o_state (sys_abs y))(i := Ready), o_used := insert i (o_used (sys_abs y)) \<rparr>"
    using a by (auto simp: sys_abs_def y' s' fun_eq_iff)
  then show ?thesis
    using OSpawn[of i "sys_abs y"] a inv by (auto simp: sys_inv_def sys_abs_def y' s')
qed

lemma sim_push:
  assumes inv: "sys_inv y" and p: "(i, pr, hint) \<in># y_pushing y"
    and y': "y' = y\<lparr> y_sched := (y_sched y)\<lparr> s_queue := rq_push i pr hint (s_queue (y_sched y)) \<rparr>,
      y_pushing := y_pushing y - {# (i, pr, hint) #} \<rparr>"
  shows "sys_abs y' = sys_abs y \<and> sys_inv y'"
proof -
  have b: "sq_inv (rq_push i pr hint (s_queue (y_sched y)))"
      "queued (rq_push i pr hint (s_queue (y_sched y))) = add_mset i (queued (s_queue (y_sched y)))"
    using rq_push_bag[of "s_queue (y_sched y)" i pr hint] inv by (auto simp: sys_inv_def)
  obtain ps where "y_pushing y = add_mset (i, pr, hint) ps"
    using multi_member_split[OF p] by blast
  then show ?thesis
    using b inv by (simp add: sys_abs_def sys_inv_def y')
qed

lemma sim_pop:
  assumes inv: "sys_inv y" and w: "y_pc y w = WIdle" and gn: "get_next w (y_sched y) = (Some (i, pr), s')"
    and y': "y' = y\<lparr> y_sched := s', y_pc := (y_pc y)(w := WPop i pr) \<rparr>"
  shows "own_step (sys_abs y) (sys_abs y') \<and> sys_inv y'"
proof -
  let ?s = "y_sched y"
  obtain q where pop: "rq_pop w (s_queue ?s) = (Some (i, pr), q)" and s': "s' = ?s\<lparr> s_queue := q \<rparr>"
    using gn by (auto simp: get_next_def split: prod.splits)
  have b: "sq_inv q" "queued (s_queue ?s) = add_mset i (queued q)"
    using rq_pop_bag[OF _ pop] inv by (auto simp: sys_inv_def)
  have "sys_abs y' =
      (sys_abs y)\<lparr> o_count := decr i (o_count (sys_abs y)), o_pc := (o_pc (sys_abs y))(w := WPop i pr) \<rparr>"
    by (auto simp: sys_abs_def y' s' b(2) fun_eq_iff)
  moreover have "o_pc (sys_abs y) w = WIdle" "0 < o_count (sys_abs y) i"
    using w by (simp_all add: sys_abs_def b(2))
  ultimately show ?thesis
    using OPop[of "sys_abs y" w i pr] inv b(1) by (auto simp: sys_inv_def y' s')
qed

lemma sim_start:
  assumes inv: "sys_inv y" "own_inv (sys_abs y)" and w: "y_pc y w = WPop i pr"
    and y': "y' = y\<lparr> y_sched := run_prologue w i now (y_sched y), y_pc := (y_pc y)(w := WRun i pr) \<rparr>"
  shows "own_step (sys_abs y) (sys_abs y') \<and> sys_inv y'"
proof -
  let ?s = "y_sched y"
  have pc: "o_pc (sys_abs y) w = WPop i pr"
    using w by (simp add: sys_abs_def)
  have "i \<in> in_use (s_slots ?s)"
    using own_invD(6)[OF inv(2), of w i] pc by (simp add: sys_abs_def)
  then have nn: "i \<noteq> GVTHREAD_NONE"
    using in_use_not_none[of "s_slots ?s" i] inv(1) by (auto simp: sys_inv_def is_none_def GVTHREAD_NONE_def)
  have "sys_abs y' =
      (sys_abs y)\<lparr> o_state := (o_state (sys_abs y))(i := Running), o_pc := (o_pc (sys_abs y))(w := WRun i pr) \<rparr>"
    by (auto simp: sys_abs_def y' run_prologue_def Let_def fun_eq_iff get_state_def set_state_def
        clear_preempt_def GVThreadState_from_u8_def)
  moreover have "sys_inv y'"
    using inv(1) nn
    by (auto simp: sys_inv_def y' run_prologue_def Let_def set_current_gvthread_def metadata_addr_def slot_base_def)
  ultimately show ?thesis
    using OStart[OF pc] by simp
qed

lemma sim_no_work:
  assumes inv: "sys_inv y" and gn: "get_next w (y_sched y) = (None, s')"
  shows "sys_abs (y\<lparr> y_sched := s' \<rparr>) = sys_abs y \<and> sys_inv (y\<lparr> y_sched := s' \<rparr>)"
proof -
  obtain q where pop: "rq_pop w (s_queue (y_sched y)) = (None, q)" and s': "s' = (y_sched y)\<lparr> s_queue := q \<rparr>"
    using gn by (auto simp: get_next_def split: prod.splits)
  have "sq_inv (s_queue (y_sched y))"
    using inv by (simp add: sys_inv_def)
  then show ?thesis
    using rq_pop_bag[OF _ pop] inv by (auto simp: sys_abs_def sys_inv_def s')
qed

text \<open>The three ways a thread leaves its worker set its own state and nothing else.\<close>

lemma sim_switch:
  assumes inv: "sys_inv y" and w: "y_pc y w = WRun i pr" and x: "x \<in> {Ready, Blocked, Finished}"
    and st: "\<exists>wk. s' = (y_sched y)\<lparr> s_meta := (s_meta (y_sched y))(i := set_state x (s_meta (y_sched y) i)),
                                    s_workers := wk \<rparr>"
  shows "own_step (sys_abs y) (sys_abs (y\<lparr> y_sched := s', y_pc := (y_pc y)(w := WSwitch i pr x) \<rparr>)) \<and>
    sys_inv (y\<lparr> y_sched := s', y_pc := (y_pc y)(w := WSwitch i pr x) \<rparr>)"
proof -
  obtain wk where s': "s' = (y_sched y)\<lparr> s_meta := (s_meta (y_sched y))(i := set_state x (s_meta (y_sched y) i)),
      s_workers := wk \<rparr>"
    using st by blast
  have "sys_abs (y\<lparr> y_sched := s', y_pc := (y_pc y)(w := WSwitch i pr x) \<rparr>) =
      (sys_abs y)\<lparr> o_state := (o_state (sys_abs y))(i := x), o_pc := (o_pc (sys_abs y))(w := WSwitch i pr x) \<rparr>"
    by (auto simp: sys_abs_def s' fun_eq_iff)
  then show ?thesis
    using OSwitch[of "sys_abs y" w i pr x] w x inv
    by (auto simp: sys_abs_def sys_inv_def s')
qed

lemma running_switches:
  assumes "sys_inv y" "y_pc y w = WRun i pr"
  shows "\<exists>wk. yield_now w now (y_sched y) = (y_sched y)\<lparr> s_meta :=
      (s_meta (y_sched y))(i := set_state Ready (s_meta (y_sched y) i)), s_workers := wk \<rparr>"
    and "\<exists>wk. block_current w (y_sched y) = (y_sched y)\<lparr> s_meta :=
      (s_meta (y_sched y))(i := set_state Blocked (s_meta (y_sched y) i)), s_workers := wk \<rparr>"
    and "gvthread_finished w (y_sched y) = Some s' \<Longrightarrow> \<exists>wk. s' = (y_sched y)\<lparr> s_meta :=
      (s_meta (y_sched y))(i := set_state Finished (s_meta (y_sched y) i)), s_workers := wk \<rparr>"
proof -
  have t: "tls_current (s_tls (y_sched y) w) = i" "i \<noteq> GVTHREAD_NONE" "tls_base (s_tls (y_sched y) w) \<noteq> 0"
    using assms unfolding sys_inv_def by blast+
  show "\<exists>wk. yield_now w now (y_sched y) = (y_sched y)\<lparr> s_meta :=
      (s_meta (y_sched y))(i := set_state Ready (s_meta (y_sched y) i)), s_workers := wk \<rparr>"
    using t by (auto simp: yield_now_def is_in_gvthread_def Let_def)
  show "\<exists>wk. block_current w (y_sched y) = (y_sched y)\<lparr> s_meta :=
      (s_meta (y_sched y))(i := set_state Blocked (s_meta (y_sched y) i)), s_workers := wk \<rparr>"
    using t by (intro exI[of _ "s_workers (y_sched y)"])
      (simp add: block_current_def is_in_gvthread_def Let_def)
  show "\<exists>wk. s' = (y_sched y)\<lparr> s_meta :=
      (s_meta (y_sched y))(i := set_state Finished (s_meta (y_sched y) i)), s_workers := wk \<rparr>"
    if "gvthread_finished w (y_sched y) = Some s'"
    using t that by (intro exI[of _ "s_workers (y_sched y)"]) (auto simp: gvthread_finished_def Let_def)
qed

lemma mark_finished_effect:
  "s_queue (mark_finished os i s) = s_queue s" "s_region (mark_finished os i s) = s_region s"
  "s_tls (mark_finished os i s) = s_tls s"
  "s_slots (mark_finished os i s) = release i (s_slots s)"
  "\<exists>m. s_meta (mark_finished os i s) = (s_meta s)(i := m) \<and> get_state m \<noteq> Blocked"
proof -
  have z: "get_state metadata_zeroed \<noteq> Blocked"
    by (simp add: metadata_zeroed_def get_state_def GVThreadState_from_u8_def)
  show "s_queue (mark_finished os i s) = s_queue s" "s_region (mark_finished os i s) = s_region s"
    "s_tls (mark_finished os i s) = s_tls s" "s_slots (mark_finished os i s) = release i (s_slots s)"
    by (simp_all add: mark_finished_def Let_def split: sum.splits)
  show "\<exists>m. s_meta (mark_finished os i s) = (s_meta s)(i := m) \<and> get_state m \<noteq> Blocked"
  proof (cases "deactivate_slot (os_madvise os) i (s_region s)")
    case (Inl e)
    then show ?thesis
      by (intro exI[of _ "set_state Finished (s_meta s i)"]) (simp add: mark_finished_def Let_def)
  next
    case (Inr u)
    then show ?thesis
      using z by (intro exI[of _ metadata_zeroed]) (simp add: mark_finished_def Let_def)
  qed
qed

lemma sim_load:
  assumes inv: "sys_inv y" "own_inv (sys_abs y)" and w: "y_pc y w = WSwitch i pr x"
    and y': "y' = y\<lparr> y_pc := (y_pc y)(w := WReact i pr (get_state (s_meta (y_sched y) i))) \<rparr>"
  shows "own_step (sys_abs y) (sys_abs y') \<and> sys_inv y'"
proof -
  have pc: "o_pc (sys_abs y) w = WSwitch i pr x"
    using w by (simp add: sys_abs_def)
  have "get_state (s_meta (y_sched y) i) = x"
    using own_invD(7)[OF inv(2), of w i] pc by (simp add: sys_abs_def)
  then have "sys_abs y' = (sys_abs y)\<lparr> o_pc := (o_pc (sys_abs y))(w := WReact i pr x) \<rparr>" "sys_inv y'"
    using inv(1) by (auto simp: sys_abs_def sys_inv_def y')
  then show ?thesis
    using OLoad[OF pc] by simp
qed

lemma sim_react:
  assumes inv: "sys_inv y" "own_inv (sys_abs y)" and w: "y_pc y w = WReact i pr x"
    and y': "y' = y\<lparr> y_sched := epilogue_react os w i pr x (y_sched y), y_pc := (y_pc y)(w := WIdle) \<rparr>"
  shows "own_step (sys_abs y) (sys_abs y') \<and> sys_inv y'"
proof -
  let ?s = "y_sched y"
  have pc: "o_pc (sys_abs y) w = WReact i pr x"
    using w by (simp add: sys_abs_def)
  have x: "x \<in> {Ready, Blocked, Finished}" and i: "i \<in> in_use (s_slots ?s)"
    using own_invD(6,7)[OF inv(2), of w i] pc by (auto simp: sys_abs_def)
  have qi: "sq_inv (s_queue ?s)" and si: "slot_inv (s_slots ?s)"
    using inv(1) by (auto simp: sys_inv_def)
  consider "x = Ready" | "x = Blocked" | "x = Finished"
    using x by blast
  then show ?thesis
  proof cases
    case 1
    note b = rq_push_bag[OF qi, of i pr "Some w"]
    have "sys_abs y' = (sys_abs y)\<lparr> o_count := incr i (o_count (sys_abs y)), o_pc := (o_pc (sys_abs y))(w := WIdle) \<rparr>"
      using b 1 by (simp add: sys_abs_def y' epilogue_react_def Let_def count_add_mset_fun)
    moreover have "sys_inv y'"
      using b 1 inv(1) by (auto simp: sys_inv_def y' epilogue_react_def Let_def)
    ultimately show ?thesis
      using ORequeue[of "sys_abs y" w i pr] pc 1 by simp
  next
    case 2
    have "sys_abs y' = (sys_abs y)\<lparr> o_pc := (o_pc (sys_abs y))(w := WIdle) \<rparr>" "sys_inv y'"
      using 2 inv(1) by (auto simp: sys_abs_def sys_inv_def y' epilogue_react_def Let_def)
    then show ?thesis
      using OPark[of "sys_abs y" w i pr] pc 2 by simp
  next
    case 3
    note r = slots.rel_used[OF si i]
    obtain m where m: "s_meta (mark_finished os i ?s) = (s_meta ?s)(i := m)" "get_state m \<noteq> Blocked"
      using mark_finished_effect(5) by blast
    have "sys_abs y' = (sys_abs y)\<lparr> o_state := (o_state (sys_abs y))(i := get_state m),
        o_used := o_used (sys_abs y) - {i}, o_pc := (o_pc (sys_abs y))(w := WIdle) \<rparr>"
      using 3 r m(1) by (auto simp: sys_abs_def y' epilogue_react_def Let_def mark_finished_effect(1-4) fun_eq_iff)
    moreover have "sys_inv y'"
      using 3 inv(1) r by (auto simp: sys_inv_def y' epilogue_react_def Let_def mark_finished_effect(1-4))
    ultimately show ?thesis
      using OFree[of "sys_abs y" w i pr "get_state m"] pc 3 m(2) by simp
  qed
qed

lemma sim_wake_load:
  assumes inv: "sys_inv y" and i: "get_state (s_meta (y_sched y) i) = Blocked" "off_cpu i (y_pc y)"
      "i \<notin># image_mset fst (y_seen y)"
    and y': "y' = y\<lparr> y_seen := add_mset (i, pr) (y_seen y) \<rparr>"
  shows "own_step (sys_abs y) (sys_abs y') \<and> sys_inv y'"
proof -
  have "sys_abs y' = (sys_abs y)\<lparr> o_seen := incr i (o_seen (sys_abs y)) \<rparr>"
    by (simp add: sys_abs_def y' count_add_mset_fun)
  moreover have "o_seen (sys_abs y) i = 0"
    using i(3) by (simp add: sys_abs_def count_eq_zero_iff)
  ultimately show ?thesis
    using OSee[of "sys_abs y" i] i(1,2) inv by (simp add: sys_abs_def sys_inv_def y')
qed

lemma sim_wake_set:
  assumes inv: "sys_inv y" and i: "(i, pr) \<in># y_seen y"
    and y': "y' = y\<lparr> y_sched := upd_meta i (set_state Ready) (y_sched y), y_seen := y_seen y - {# (i, pr) #},
      y_pushing := add_mset (i, pr, hint) (y_pushing y) \<rparr>"
  shows "own_step (sys_abs y) (sys_abs y') \<and> sys_inv y'"
proof -
  obtain sn where sn: "y_seen y = add_mset (i, pr) sn"
    using multi_member_split[OF i] by blast
  then have "sys_abs y' = (sys_abs y)\<lparr> o_seen := decr i (o_seen (sys_abs y)),
      o_count := incr i (o_count (sys_abs y)), o_state := (o_state (sys_abs y))(i := Ready) \<rparr>"
    by (auto simp: sys_abs_def y' fun_eq_iff)
  moreover have "0 < o_seen (sys_abs y) i"
    by (simp add: sys_abs_def sn)
  ultimately show ?thesis
    using OWake[of "sys_abs y" i] inv by (simp add: sys_inv_def y')
qed

interpretation owner: refinement "sched_step os True" own_step sys_abs sys_inv own_inv
proof
  show "own_inv a'" if "own_step a a'" "own_inv a" for a a'
    using own_inv_step that by blast
  show "own_step (sys_abs y) (sys_abs y') \<and> sys_inv y'"
    if "sys_inv y" "own_inv (sys_abs y)" "sched_step os True y y'" for y y'
    using that(3)
  proof (cases rule: sched_step.cases)
    case (Spawn tls closure pr i s')
    then show ?thesis
      using sim_spawn[OF that(1)] by blast
  next
    case (Push i pr hint)
    then show ?thesis
      using sim_push[OF that(1) Push(2) Push(1)] OSkip[of "sys_abs y"] by simp
  next
    case (Pop w i pr s')
    then show ?thesis
      using sim_pop[OF that(1)] by blast
  next
    case (NoWork w s')
    then show ?thesis
      using sim_no_work[OF that(1), of w s'] OSkip[of "sys_abs y"] by simp
  next
    case (Start w i pr now)
    then show ?thesis
      using sim_start[OF that(1,2)] by blast
  next
    case (Yield w i pr now)
    then show ?thesis
      using sim_switch[OF that(1), of w i pr Ready] running_switches(1)[OF that(1), of w i pr now] by simp
  next
    case (Block w i pr)
    then show ?thesis
      using sim_switch[OF that(1), of w i pr Blocked] running_switches(2)[OF that(1), of w i pr] by simp
  next
    case (Finish w i pr s')
    then show ?thesis
      using sim_switch[OF that(1), of w i pr Finished] running_switches(3)[OF that(1), of w i pr s'] by simp
  next
    case (Load w i pr x)
    then show ?thesis
      using sim_load[OF that(1,2)] by blast
  next
    case (React w i pr x)
    then show ?thesis
      using sim_react[OF that(1,2)] by blast
  next
    case (Wake_load i pr)
    then show ?thesis
      using sim_wake_load[OF that(1)] by blast
  next
    case (Wake_skip i)
    then show ?thesis
      using OSkip that(1) by simp
  next
    case (Wake_set i pr tls)
    then show ?thesis
      using sim_wake_set[OF that(1)] by blast
  qed
qed

section \<open>Executable schedules\<close>

text \<open>
  A schedule names what happens next; \<open>run_schedule\<close> executes it on the first \<open>n\<close> workers, with a clock that
  stands still, threads of normal priority and calls from outside the workers.
\<close>

datatype label =
    LSpawn | LPush u32 | LPop nat | LStart nat | LYield nat | LBlock nat | LFinish nat | LLoad nat | LReact nat
  | LSee u32 | LSet u32

fun exec_label :: "Os \<Rightarrow> bool \<Rightarrow> nat \<Rightarrow> label \<Rightarrow> sys \<Rightarrow> sys option" where
  "exec_label os disc n LSpawn y =
     (case spawn_prepare os Tls_initial 0 Normal (y_sched y) of
        (Inr i, s') \<Rightarrow> Some (y\<lparr> y_sched := s', y_pushing := add_mset (i, Normal, None) (y_pushing y) \<rparr>)
      | (Inl _, _) \<Rightarrow> None)"
| "exec_label os disc n (LPush i) y =
     (if (i, Normal, None) \<in># y_pushing y
      then Some (y\<lparr> y_sched := (y_sched y)\<lparr> s_queue := rq_push i Normal None (s_queue (y_sched y)) \<rparr>,
                    y_pushing := y_pushing y - {# (i, Normal, None) #} \<rparr>)
      else None)"
| "exec_label os disc n (LPop w) y =
     (if w < n \<and> y_pc y w = WIdle then
        (case get_next w (y_sched y) of
           (Some (i, pr), s') \<Rightarrow> Some (y\<lparr> y_sched := s', y_pc := (y_pc y)(w := WPop i pr) \<rparr>)
         | (None, s') \<Rightarrow> None)
      else None)"
| "exec_label os disc n (LStart w) y =
     (case y_pc y w of
        WPop i pr \<Rightarrow>
          Some (y\<lparr> y_sched := run_prologue w i 0 (y_sched y), y_pc := (y_pc y)(w := WRun i pr) \<rparr>)
      | _ \<Rightarrow> None)"
| "exec_label os disc n (LYield w) y =
     (case y_pc y w of
        WRun i pr \<Rightarrow>
          Some (y\<lparr> y_sched := yield_now w 0 (y_sched y), y_pc := (y_pc y)(w := WSwitch i pr Ready) \<rparr>)
      | _ \<Rightarrow> None)"
| "exec_label os disc n (LBlock w) y =
     (case y_pc y w of
        WRun i pr \<Rightarrow>
          Some (y\<lparr> y_sched := block_current w (y_sched y), y_pc := (y_pc y)(w := WSwitch i pr Blocked) \<rparr>)
      | _ \<Rightarrow> None)"
| "exec_label os disc n (LFinish w) y =
     (case y_pc y w of
        WRun i pr \<Rightarrow>
          map_option (\<lambda>s'. y\<lparr> y_sched := s', y_pc := (y_pc y)(w := WSwitch i pr Finished) \<rparr>)
            (gvthread_finished w (y_sched y))
      | _ \<Rightarrow> None)"
| "exec_label os disc n (LLoad w) y =
     (case y_pc y w of
        WSwitch i pr x \<Rightarrow> Some (y\<lparr> y_pc := (y_pc y)(w := WReact i pr (get_state (s_meta (y_sched y) i))) \<rparr>)
      | _ \<Rightarrow> None)"
| "exec_label os disc n (LReact w) y =
     (case y_pc y w of
        WReact i pr x \<Rightarrow>
          Some (y\<lparr> y_sched := epilogue_react os w i pr x (y_sched y), y_pc := (y_pc y)(w := WIdle) \<rparr>)
      | _ \<Rightarrow> None)"
| "exec_label os disc n (LSee i) y =
     (if get_state (s_meta (y_sched y) i) = Blocked \<and>
         (disc \<longrightarrow> (\<forall>w \<in> set [0..<n]. holder (y_pc y w) \<noteq> Some i) \<and> i \<notin># image_mset fst (y_seen y))
      then Some (y\<lparr> y_seen := add_mset (i, Normal) (y_seen y) \<rparr>) else None)"
| "exec_label os disc n (LSet i) y =
     (if (i, Normal) \<in># y_seen y
      then Some (y\<lparr> y_sched := upd_meta i (set_state Ready) (y_sched y), y_seen := y_seen y - {# (i, Normal) #},
                    y_pushing := add_mset (i, Normal, None) (y_pushing y) \<rparr>)
      else None)"

fun run_schedule :: "Os \<Rightarrow> bool \<Rightarrow> nat \<Rightarrow> label list \<Rightarrow> sys \<Rightarrow> sys option" where
  "run_schedule os disc n [] y = Some y"
| "run_schedule os disc n (l # ls) y = Option.bind (exec_label os disc n l y) (run_schedule os disc n ls)"

lemma exec_label_step:
  assumes "exec_label os disc n l y = Some y'" "\<forall>w \<ge> n. y_pc y w = WIdle"
  shows "sched_step os disc y y' \<and> (\<forall>w \<ge> n. y_pc y' w = WIdle)"
proof (cases l)
  case LSpawn
  then show ?thesis
    using assms by (auto split: prod.splits sum.splits intro: sched_step.Spawn)
next
  case (LPush i)
  then show ?thesis
    using assms by (auto split: if_splits intro: sched_step.Push)
next
  case (LPop w)
  then show ?thesis
    using assms by (auto split: prod.splits option.splits if_splits intro: sched_step.Pop)
next
  case (LStart w)
  then show ?thesis
    using assms by (cases "y_pc y w") (auto intro: sched_step.Start)
next
  case (LYield w)
  then show ?thesis
    using assms by (cases "y_pc y w") (auto intro: sched_step.Yield)
next
  case (LBlock w)
  then show ?thesis
    using assms by (cases "y_pc y w") (auto intro: sched_step.Block)
next
  case (LFinish w)
  then show ?thesis
    using assms by (cases "y_pc y w") (auto intro: sched_step.Finish)
next
  case (LLoad w)
  then show ?thesis
    using assms by (cases "y_pc y w") (auto intro: sched_step.Load)
next
  case (LReact w)
  then show ?thesis
    using assms by (cases "y_pc y w") (auto intro: sched_step.React)
next
  case (LSee i)
  have "disc \<longrightarrow> off_cpu i (y_pc y) \<and> i \<notin># image_mset fst (y_seen y)"
    using assms LSee by (auto simp: off_cpu_def split: if_splits)
  then show ?thesis
    using assms LSee by (auto split: if_splits intro!: sched_step.Wake_load)
next
  case (LSet i)
  then show ?thesis
    using assms sched_step.Wake_set[of i Normal y os disc Tls_initial]
    by (auto simp: try_current_worker_id_def Tls_initial_def split: if_splits)
qed

lemma run_schedule_steps:
  "run_schedule os disc n ls y = Some y' \<Longrightarrow> \<forall>w \<ge> n. y_pc y w = WIdle \<Longrightarrow>
   (sched_step os disc)\<^sup>*\<^sup>* y y' \<and> (\<forall>w \<ge> n. y_pc y' w = WIdle)"
proof (induction ls arbitrary: y)
  case Nil
  then show ?case by simp
next
  case (Cons l ls)
  then obtain z where z: "exec_label os disc n l y = Some z" "run_schedule os disc n ls z = Some y'"
    by (auto simp: bind_eq_Some_conv)
  then show ?case
    using Cons.IH[OF z(2)] exec_label_step[OF z(1) Cons.prems(2)]
    by (meson converse_rtranclp_into_rtranclp)
qed

lemma run_schedule_append:
  "run_schedule os disc n (ls @ ks) y = Option.bind (run_schedule os disc n ls y) (run_schedule os disc n ks)"
  by (induction ls arbitrary: y) (auto split: Option.bind_splits)

text \<open>What the discipline allows is possible without it.\<close>

lemma exec_label_undisciplined: "exec_label os True n l y = Some y' \<Longrightarrow> exec_label os False n l y = Some y'"
  by (cases l) (auto split: if_splits)

lemma run_schedule_undisciplined: "run_schedule os True n ls y = Some y' \<Longrightarrow> run_schedule os False n ls y = Some y'"
  by (induction ls arbitrary: y) (auto simp: bind_eq_Some_conv dest: exec_label_undisciplined)

text \<open>A small scheduler, started: two workers and four slots.\<close>

definition demo_config :: SchedulerConfig where
  "demo_config = (SchedulerConfig_new library_defaults)\<lparr> c_num_workers := 2, c_max_gvthreads := 4 \<rparr>"

definition demo_os :: Os where
  "demo_os =
     \<lparr> os_mmap = (\<lambda>_. Some 0x700000000000), os_mprotect = (\<lambda>_ _. True), os_madvise = (\<lambda>_ _. True),
       os_trampoline = 0x500, os_entry = 0x600 \<rparr>"

definition demo_sys :: sys where
  "demo_sys = sys_start (case Scheduler_new demo_config of Inr s \<Rightarrow> snd (start demo_os s))"

lemmas demo_start_simps = demo_os_def demo_config_def SchedulerConfig_new_def library_defaults_def
  Scheduler_new_def validate_def start_def region_init_def MemoryRegion_new_def SLOT_SIZE_def
  MAX_WORKERS_def SlotAllocator_new_def SimpleQueue_init_def SimpleQueue_new_def GlobalQueue_new_def
  LocalQueue_new_def from_millis_def

lemmas demo_queue_simps = get_next_def rq_pop_def rq_pop_tail_def LocalQueue_pop_def LocalQueue_push_def
  GlobalQueue_pop_def pop_batch_def rq_push_def rq_push_global_def notify_parked_def GlobalQueue_push_def
  LOCAL_CAPACITY_def GLOBAL_CHECK_INTERVAL_def parked_count_def GlobalQueue_wake_one_def

lemma demo_sched:
  "s_queue (y_sched demo_sys) =
     \<lparr> sq_local = [LocalQueue_new, LocalQueue_new], sq_global = GlobalQueue_new, sq_num_workers = 2,
       sq_counters = [0, 0], sq_rng = [1, 2654435762], sq_initialized = True \<rparr>"
  "s_slots (y_sched demo_sys) = \<lparr> free_stack = [], next_fresh = 0, max_slots = 4, allocated_count = 0 \<rparr>"
  "s_meta (y_sched demo_sys) = (\<lambda>_. metadata_zeroed)"
  "s_region (y_sched demo_sys) =
     \<lparr> mr_base = 0x700000000000, mr_total_size = 65536, mr_max_slots = 4, mr_initialized = True \<rparr>"
  "s_tls (y_sched demo_sys) = (\<lambda>_. Tls_initial)" "y_pc demo_sys = (\<lambda>_. WIdle)"
  "y_seen demo_sys = {#}" "y_pushing demo_sys = {#}"
  by (simp_all add: demo_sys_def sys_start_def demo_start_simps upt_rec Let_def)

lemmas demo_step_simps = demo_sched demo_queue_simps Tls_initial_def is_in_gvthread_def
  try_current_worker_id_def set_current_gvthread_def clear_current_gvthread_def GVThreadId_NONE_def
  GVTHREAD_NONE_def

lemmas demo_run_simps = demo_step_simps run_prologue_def block_current_def gvthread_finished_def epilogue_react_def
  Let_def LocalQueue_new_def GlobalQueue_new_def metadata_addr_def slot_base_def upt_rec

text \<open>The first thread is spawned and queued.\<close>

lemma demo_spawn:
  "exec_label demo_os disc 2 LSpawn demo_sys = Some (demo_sys\<lparr> y_sched :=
     (y_sched demo_sys)\<lparr> s_slots := snd (allocate (s_slots (y_sched demo_sys))),
       s_kernel := snd (activate_slot (\<lambda>_ _. True) 0 (s_region (y_sched demo_sys)) (s_kernel (y_sched demo_sys))),
       s_meta := (s_meta (y_sched demo_sys))(0 := spawned_meta demo_os Tls_initial 0 Normal (y_sched demo_sys) 0) \<rparr>,
     y_pushing := {# (0, Normal, None) #} \<rparr>)"
  by (simp add: spawn_prepare_def spawned_meta_def demo_sched allocate_def activate_slot_def demo_os_def Let_def)


section \<open>The started scheduler\<close>

lemma WorkerPool_start_frame:
  "WorkerPool_start n low is s = (r, s') \<Longrightarrow> \<exists>wk k. s' = s\<lparr> s_workers := wk, s_worker_threads := k \<rparr>"
proof (induction "is" arbitrary: s)
  case Nil
  then show ?case by (intro exI[of _ "s_workers s'"] exI[of _ "s_worker_threads s'"]) simp
next
  case (Cons i "is")
  show ?case
  proof (cases "i \<ge> MAX_WORKERS")
    case True
    then show ?thesis
      using Cons.prems by (intro exI[of _ "s_workers s'"] exI[of _ "s_worker_threads s'"]) simp
  next
    case False
    let ?s = "(upd_worker i (WorkerState_init (of_nat i) (i \<ge> n - low)) s)
        \<lparr> s_worker_threads := s_worker_threads s + 1 \<rparr>"
    obtain wk k where "s' = ?s\<lparr> s_workers := wk, s_worker_threads := k \<rparr>"
      using Cons.IH[of ?s] Cons.prems False by auto
    then show ?thesis
      by (intro exI[of _ wk] exI[of _ k]) simp
  qed
qed

lemma started_frame:
  assumes "Scheduler_new cfg = Inr s" "start os s = (Inr (), s0)"
  shows "s_queue s0 = SimpleQueue_init (c_num_workers cfg) SimpleQueue_new \<and>
    s_slots s0 = SlotAllocator_new (c_max_gvthreads cfg) \<and> s_meta s0 = (\<lambda>_. metadata_zeroed) \<and>
    (\<exists>n. os_mmap os n = Some (mr_base (s_region s0))) \<and> mr_initialized (s_region s0)"
proof -
  have s: "s_queue s = SimpleQueue_init (c_num_workers cfg) SimpleQueue_new"
      "s_slots s = SlotAllocator_new (c_max_gvthreads cfg)" "s_meta s = (\<lambda>_. metadata_zeroed)"
      "\<not> s_running s" "s_region s = MemoryRegion_new"
    using assms(1) by (auto simp: Scheduler_new_def split: sum.splits)
  obtain r where r: "region_init (os_mmap os) (c_max_gvthreads (s_config s)) MemoryRegion_new = (Inr (), r)"
    and p: "WorkerPool_start (c_num_workers (s_config s)) (c_num_low_priority_workers (s_config s))
        [0 ..< c_num_workers (s_config s)]
        (s\<lparr> s_running := True, s_region := r, s_global_running := True, s_timer_thread := True \<rparr>) = (Inr (), s0)"
    using assms(2) s by (auto simp: start_def Let_def split: prod.splits sum.splits)
  obtain wk k where s0: "s0 = s\<lparr> s_running := True, s_region := r, s_global_running := True,
      s_timer_thread := True, s_workers := wk, s_worker_threads := k \<rparr>"
    using WorkerPool_start_frame[OF p] by auto
  have "\<exists>n. os_mmap os n = Some (mr_base r)" "mr_initialized r"
    using r by (auto simp: region_init_def MemoryRegion_new_def split: if_splits option.splits)
  then show ?thesis
    using s s0 by auto
qed

lemma started_inv:
  assumes "Scheduler_new cfg = Inr s" "start os s = (Inr (), s0)" "\<forall>n b. os_mmap os n = Some b \<longrightarrow> 0 < b"
  shows "sys_inv (sys_start s0)" and "own_inv (sys_abs (sys_start s0))"
proof -
  note f = started_frame[OF assms(1,2)]
  show "sys_inv (sys_start s0)"
    using f assms(3) sq_inv_new slot_inv_new by (auto simp: sys_inv_def sys_start_def)
  have "get_state metadata_zeroed \<noteq> Blocked"
    by (simp add: metadata_zeroed_def get_state_def GVThreadState_from_u8_def)
  then show "own_inv (sys_abs (sys_start s0))"
    using f queued_new in_use_new by (auto simp: own_inv_def thread_ok_def sys_abs_def sys_start_def off_cpu_def)
qed

lemma demo_started:
  "\<exists>s. Scheduler_new demo_config = Inr s \<and> start demo_os s = (Inr (), y_sched demo_sys)"
  "demo_sys = sys_start (y_sched demo_sys)"
  by (simp_all add: demo_sys_def sys_start_def demo_start_simps upt_rec Let_def)

section \<open>Properties\<close>

text \<open>
  C1: from a started scheduler, whatever workers, threads, spawners and wakers do in whatever order, as long
  as a thread is only woken while no worker holds it and by one waker at a time: every thread is queued or
  about to be pushed at most once; such a thread is ready and held by no worker; no two workers hold the same
  thread; and every live thread is queued, about to be pushed, held by a worker, or blocked, so none is lost.
\<close>

theorem sched_single_owner:
  assumes "Scheduler_new cfg = Inr s" "start os s = (Inr (), s0)" "\<forall>n b. os_mmap os n = Some b \<longrightarrow> 0 < b"
    and "(sched_step os True)\<^sup>*\<^sup>* (sys_start s0) y"
  shows "count (queued (s_queue (y_sched y)) + pushing_of y) i \<le> 1 \<and>
    (i \<in># queued (s_queue (y_sched y)) + pushing_of y \<longrightarrow>
       get_state (s_meta (y_sched y) i) = Ready \<and> (\<forall>w. holder (y_pc y w) \<noteq> Some i)) \<and>
    (holder (y_pc y w) = Some i \<and> holder (y_pc y w') = Some i \<longrightarrow> w = w') \<and>
    (i \<in> in_use (s_slots (y_sched y)) \<longrightarrow>
       i \<in># queued (s_queue (y_sched y)) + pushing_of y \<or> (\<exists>w. holder (y_pc y w) = Some i) \<or>
       get_state (s_meta (y_sched y) i) = Blocked)"
proof -
  have "own_inv (sys_abs y)"
    using owner.reach[OF assms(4) started_inv[OF assms(1-3)]] by blast
  note D = own_invD[OF this]
  have "0 < o_count (sys_abs y) i \<longleftrightarrow> i \<in># queued (s_queue (y_sched y)) + pushing_of y"
    by (simp add: sys_abs_def)
  then show ?thesis
    using D(1,2)[of i] D(4)[of i] D(5)[of w i w'] D(8)[of i] by (auto simp: sys_abs_def off_cpu_def)
qed

theorem sched_single_owner_witness:
  "\<exists>y. (sched_step demo_os True)\<^sup>*\<^sup>* demo_sys y \<and> count (queued (s_queue (y_sched y)) + pushing_of y) 0 \<le> 1 \<and>
     y_pc y 1 = WRun 0 Normal \<and> holder (y_pc y 0) \<noteq> Some 0"
proof -
  let ?ls = "[LSpawn, LPush 0, LPop 0, LStart 0, LBlock 0, LLoad 0, LReact 0, LSee 0, LSet 0, LPush 0, LPop 1, LStart 1]"
  have "map_option (\<lambda>y. y_pc y 1) (run_schedule demo_os True 2 ?ls demo_sys) = Some (WRun 0 Normal)"
    by (simp del: exec_label.simps(1) add: demo_spawn) (simp add: demo_run_simps)
  then obtain y where y: "run_schedule demo_os True 2 ?ls demo_sys = Some y" "y_pc y 1 = WRun 0 Normal"
    by blast
  have r: "(sched_step demo_os True)\<^sup>*\<^sup>* demo_sys y"
    using run_schedule_steps[OF y(1)] demo_sched(6) by simp
  obtain s where s: "Scheduler_new demo_config = Inr s" "start demo_os s = (Inr (), y_sched demo_sys)"
    using demo_started(1) by blast
  have m: "\<forall>n b. os_mmap demo_os n = Some b \<longrightarrow> 0 < b"
    by (simp add: demo_os_def)
  have r': "(sched_step demo_os True)\<^sup>*\<^sup>* (sys_start (y_sched demo_sys)) y"
    by (subst demo_started(2)[symmetric]) (rule r)
  have "count (queued (s_queue (y_sched y)) + pushing_of y) 0 \<le> 1"
      "holder (y_pc y 0) = Some 0 \<and> holder (y_pc y 1) = Some 0 \<longrightarrow> (0 :: nat) = 1"
    using sched_single_owner[OF s m r', of 0 0 1] by blast+
  then show ?thesis
    using r y(2) by auto
qed


text \<open>
  C26: nor is it enough that no worker holds the thread. Two wakers of a thread that is blocked and off the
  processors both read its state before either sets it, and both push it, the second when a worker already runs
  it: two workers run it at the same time.
\<close>

theorem double_wake_two_workers:
  "\<exists>z y. (sched_step demo_os True)\<^sup>*\<^sup>* demo_sys z \<and> off_cpu 0 (y_pc z) \<and> get_state (s_meta (y_sched z) 0) = Blocked \<and>
     run_schedule demo_os False 2 [LSee 0, LSee 0, LSet 0, LPush 0, LPop 0, LStart 0, LSet 0, LPush 0, LPop 1, LStart 1] z = Some y \<and>
     (sched_step demo_os False)\<^sup>*\<^sup>* z y \<and> y_pc y 0 = WRun 0 Normal \<and> y_pc y 1 = WRun 0 Normal"
proof -
  let ?as = "[LSpawn, LPush 0, LPop 0, LStart 0, LBlock 0, LLoad 0, LReact 0]"
  let ?bs = "[LSee 0, LSee 0, LSet 0, LPush 0, LPop 0, LStart 0, LSet 0, LPush 0, LPop 1, LStart 1]"
  have "map_option (\<lambda>z. (y_pc z 0, y_pc z 1, get_state (s_meta (y_sched z) 0))) (run_schedule demo_os True 2 ?as demo_sys) =
      Some (WIdle, WIdle, Blocked)"
    by (simp del: exec_label.simps(1) add: demo_spawn) (simp add: demo_run_simps)
  then obtain z where z: "run_schedule demo_os True 2 ?as demo_sys = Some z" "y_pc z 0 = WIdle" "y_pc z 1 = WIdle"
      "get_state (s_meta (y_sched z) 0) = Blocked"
    unfolding map_option_eq_Some prod.inject by blast
  have "map_option (\<lambda>y. (y_pc y 0, y_pc y 1)) (run_schedule demo_os False 2 (?as @ ?bs) demo_sys) =
      Some (WRun 0 Normal, WRun 0 Normal)"
    by (simp del: exec_label.simps(1) add: demo_spawn) (simp add: demo_run_simps)
  then obtain y where y: "run_schedule demo_os False 2 ?bs z = Some y" "y_pc y 0 = WRun 0 Normal" "y_pc y 1 = WRun 0 Normal"
    unfolding run_schedule_append run_schedule_undisciplined[OF z(1)] bind.simps map_option_eq_Some prod.inject by blast
  have r: "(sched_step demo_os True)\<^sup>*\<^sup>* demo_sys z" "\<forall>w \<ge> 2. y_pc z w = WIdle"
    using run_schedule_steps[OF z(1)] demo_sched(6) by simp_all
  have "holder (y_pc z w) \<noteq> Some 0" for w
    using r(2) z(2,3) by (cases "w \<ge> 2") (auto simp: not_le less_2_cases_iff)
  then have "off_cpu 0 (y_pc z)"
    by (simp add: off_cpu_def)
  then show ?thesis
    using r z(4) y run_schedule_steps[OF y(1) r(2)] by blast
qed

end
