(* ===== verification/Sleep_Preempt.thy ===== *)
theory Sleep_Preempt
  imports Sched_Safety
begin

text \<open>
  Sleeping, slot reuse and preemption: which sleepers the timer thread wakes, what a wake
  that comes too early does, what the generation counter is worth once a slot is recycled,
  whom the preemption watch flags, and how many workers a valid configuration can start.
\<close>

section \<open>Waking sleepers\<close>

definition wakes :: "u64 \<Rightarrow> Sched \<Rightarrow> SleepEntry \<Rightarrow> bool" where
  "wakes now s e \<longleftrightarrow>
     se_wake_time_ns e \<le> now \<and>
     get_generation (s_meta s (se_gvthread_id e)) = se_generation e \<and>
     get_state (s_meta s (se_gvthread_id e)) = Blocked"

lemma wake_sleeper_eq:
  assumes "se_wake_time_ns e \<le> now"
  shows "wake_sleeper tls e s =
    (if wakes now s e
     then s\<lparr> s_meta := (s_meta s)(se_gvthread_id e := set_state Ready (s_meta s (se_gvthread_id e))),
             s_queue := rq_push (se_gvthread_id e) (get_priority (s_meta s (se_gvthread_id e)))
                          (try_current_worker_id tls) (s_queue s) \<rparr>
     else s)"
  using assms by (simp add: wake_sleeper_def wakes_def wake_gvthread_def Let_def)

lemma wakes_other:
  assumes "\<forall>j. j \<noteq> i \<longrightarrow> s_meta s' j = s_meta s j" "se_gvthread_id e \<noteq> i"
  shows "wakes now s' e = wakes now s e"
  using assms by (simp add: wakes_def)

lemma sleep_loop_spec:
  assumes "sorted (map se_wake_time_ns q)" "distinct (map se_gvthread_id q)" "sq_inv (s_queue s)"
  shows "sq_inv (s_queue (sleep_loop tls now q s)) \<and>
    s_sleep (sleep_loop tls now q s) = Some (filter (\<lambda>e. now < se_wake_time_ns e) q) \<and>
    queued (s_queue (sleep_loop tls now q s)) =
      queued (s_queue s) + mset (map se_gvthread_id (filter (wakes now s) q)) \<and>
    (\<forall>e \<in> set q. wakes now s e \<longrightarrow> get_state (s_meta (sleep_loop tls now q s) (se_gvthread_id e)) = Ready) \<and>
    (\<forall>i. i \<notin> se_gvthread_id ` set (filter (wakes now s) q) \<longrightarrow> s_meta (sleep_loop tls now q s) i = s_meta s i)"
  using assms
proof (induction q arbitrary: s)
  case Nil
  then show ?case by simp
next
  case (Cons e q)
  let ?i = "se_gvthread_id e"
  have so: "sorted (map se_wake_time_ns q)" "distinct (map se_gvthread_id q)" "?i \<notin> se_gvthread_id ` set q"
    using Cons.prems by auto
  show ?case
  proof (cases "se_wake_time_ns e \<le> now")
    case False
    then have "\<forall>x \<in> set (e # q). now < se_wake_time_ns x"
      using Cons.prems(1) by auto
    then have "filter (\<lambda>x. now < se_wake_time_ns x) (e # q) = e # q" "filter (wakes now s) (e # q) = []"
        "\<forall>x \<in> set (e # q). \<not> wakes now s x"
      by (auto simp: filter_id_conv filter_empty_conv wakes_def)
    then show ?thesis
      using False Cons.prems(3) by simp
  next
    case True
    let ?s = "wake_sleeper tls e s"
    have same: "\<forall>j. j \<noteq> ?i \<longrightarrow> s_meta ?s j = s_meta s j"
      by (simp add: wake_sleeper_eq[OF True])
    have q: "sq_inv (s_queue ?s)"
        "queued (s_queue ?s) = (if wakes now s e then {#?i#} else {#}) + queued (s_queue s)"
      using rq_push_bag[OF Cons.prems(3)] Cons.prems(3) by (simp_all add: wake_sleeper_eq[OF True])
    have fw: "wakes now ?s x = wakes now s x" if "x \<in> set q" for x
    proof (rule wakes_other[OF same])
      show "se_gvthread_id x \<noteq> ?i"
        using that so(3) by (metis image_eqI)
    qed
    then have f: "filter (wakes now ?s) q = filter (wakes now s) q"
      by (rule filter_cong[OF refl])
    note ih = Cons.IH[OF so(1,2) q(1)]
    have r: "sleep_loop tls now (e # q) s = sleep_loop tls now q ?s"
      using True by simp
    have ei: "s_meta (sleep_loop tls now q ?s) ?i = s_meta ?s ?i"
      using ih so(3) by auto
    have meta: "s_meta (sleep_loop tls now q ?s) i = s_meta s i"
      if "i \<notin> se_gvthread_id ` set (filter (wakes now s) (e # q))" for i
    proof (cases "i = ?i")
      case i: True
      then have "\<not> wakes now s e"
        using that by auto
      then show ?thesis
        using ei i by (simp add: wake_sleeper_eq[OF True])
    next
      case i: False
      have "i \<notin> se_gvthread_id ` set (filter (wakes now ?s) q)"
        using that unfolding f by auto
      then have "s_meta (sleep_loop tls now q ?s) i = s_meta ?s i"
        using ih by blast
      then show ?thesis
        using same i by simp
    qed
    have st: "get_state (s_meta (sleep_loop tls now q ?s) (se_gvthread_id x)) = Ready"
      if "x \<in> set (e # q)" "wakes now s x" for x
    proof (cases "x = e")
      case x: True
      then show ?thesis
        using ei that(2) by (simp add: wake_sleeper_eq[OF True])
    next
      case False
      then show ?thesis
        using ih fw that by simp
    qed
    show ?thesis
      using ih q f True meta st unfolding r by (auto simp: not_less[symmetric])
  qed
qed

text \<open>
  C21: one pass over the sleep queue wakes exactly the sleepers that are due, still blocked
  and of the generation that went to sleep; each of them is queued once and ready, the
  entries that are not due stay, and no other thread's metadata changes.
\<close>

theorem sleep_queue_exact:
  assumes "s_sleep s = Some q" "sorted (map se_wake_time_ns q)" "distinct (map se_gvthread_id q)"
    and "sq_inv (s_queue s)"
  shows "s_sleep (process_sleep_queue tls now s) = Some (filter (\<lambda>e. now < se_wake_time_ns e) q) \<and>
    queued (s_queue (process_sleep_queue tls now s)) =
      queued (s_queue s) + mset (map se_gvthread_id (filter (wakes now s) q)) \<and>
    (\<forall>e \<in> set q. wakes now s e \<longrightarrow>
       get_state (s_meta (process_sleep_queue tls now s) (se_gvthread_id e)) = Ready) \<and>
    (\<forall>i. i \<notin> se_gvthread_id ` set (filter (wakes now s) q) \<longrightarrow>
       s_meta (process_sleep_queue tls now s) i = s_meta s i)"
  using sleep_loop_spec[OF assms(2-4), of tls now] by (simp add: process_sleep_queue_def assms(1))

definition demo_sleepers :: Sched where
  "demo_sleepers = (y_sched demo_sys)
     \<lparr> s_sleep := Some [\<lparr> se_wake_time_ns = 5, se_gvthread_id = 1, se_generation = 0 \<rparr>,
                        \<lparr> se_wake_time_ns = 9, se_gvthread_id = 2, se_generation = 0 \<rparr>],
       s_meta := (\<lambda>_. set_state Blocked metadata_zeroed) \<rparr>"

theorem sleep_queue_exact_witness:
  "queued (s_queue (process_sleep_queue Tls_initial 7 demo_sleepers)) = {#1#}"
proof -
  have "sq_inv (s_queue demo_sleepers)" and e: "queued (s_queue demo_sleepers) = {#}"
    using sq_inv_new[of 2] queued_new[of 2]
    by (simp_all add: demo_sleepers_def demo_sched SimpleQueue_init_def SimpleQueue_new_def upt_rec)
  moreover have "s_sleep demo_sleepers =
      Some [\<lparr> se_wake_time_ns = 5, se_gvthread_id = 1, se_generation = 0 \<rparr>,
            \<lparr> se_wake_time_ns = 9, se_gvthread_id = 2, se_generation = 0 \<rparr>]"
    by (simp add: demo_sleepers_def)
  ultimately have "queued (s_queue (process_sleep_queue Tls_initial 7 demo_sleepers)) =
      queued (s_queue demo_sleepers) + mset (map se_gvthread_id (filter (wakes 7 demo_sleepers)
        [\<lparr> se_wake_time_ns = 5, se_gvthread_id = 1, se_generation = 0 \<rparr>,
         \<lparr> se_wake_time_ns = 9, se_gvthread_id = 2, se_generation = 0 \<rparr>]))"
    using sleep_queue_exact[of demo_sleepers _ Tls_initial 7] by simp
  then show ?thesis
    using e by (simp add: wakes_def demo_sleepers_def get_generation_def metadata_zeroed_def set_state_def
        get_state_def GVThreadState_from_u8_def)
qed

section \<open>A wake that comes too early\<close>

lemma empty_sleep_queue: "s_sleep s = Some [] \<Longrightarrow> process_sleep_queue tls t s = s"
  by (simp add: process_sleep_queue_def)

text \<open>
  C25: a sleep can be lost. The thread is the only sleeper, its time is up, and the timer
  thread passes over the sleep queue after the thread has registered and before it marks
  itself blocked: the pass takes the entry out and ignores the thread, which then blocks with
  no entry left and without being queued, and no later pass changes that.
\<close>

theorem sleep_lost_wakeup:
  assumes thread: "tls_current (s_tls s w) = i" "i \<noteq> GVTHREAD_NONE" "tls_base (s_tls s w) \<noteq> 0"
      "get_state (s_meta s i) = Running"
    and sleepers: "s_sleep s = Some []"
    and due: "now + duration \<le> later"
  shows "let s' = block_current w (process_sleep_queue tls later (sleep_register w now duration s)) in
    get_state (s_meta s' i) = Blocked \<and> s_sleep s' = Some [] \<and> s_queue s' = s_queue s \<and>
    (\<forall>t tls'. process_sleep_queue tls' t s' = s')"
proof -
  let ?e = "\<lparr> se_wake_time_ns = now + duration, se_gvthread_id = i,
      se_generation = get_generation (s_meta s i) \<rparr>"
  let ?s = "sleep_register w now duration s"
  have r: "s_sleep ?s = Some [?e]" "s_queue ?s = s_queue s" "s_tls ?s = s_tls s"
      "get_state (s_meta ?s i) = Running"
    using assms by (simp_all add: sleep_register_def add_to_sleep_queue_def is_in_gvthread_def Let_def
        get_state_def)
  have "process_sleep_queue tls later ?s = ?s\<lparr> s_sleep := Some [] \<rparr>"
    using r due by (simp add: process_sleep_queue_def wake_sleeper_def wake_gvthread_def Let_def)
  then show ?thesis
    using thread r by (simp add: block_current_def is_in_gvthread_def Let_def empty_sleep_queue)
qed

definition demo_running :: Sched where
  "demo_running = run_prologue 0 1 0 ((y_sched demo_sys)\<lparr> s_sleep := Some [] \<rparr>)"

theorem sleep_lost_wakeup_witness:
  "let s' = block_current 0 (process_sleep_queue Tls_initial 20 (sleep_register 0 10 5 demo_running)) in
   get_state (s_meta s' 1) = Blocked \<and> s_sleep s' = Some [] \<and> s_queue s' = s_queue demo_running"
proof -
  have t: "tls_current (s_tls demo_running 0) = 1" "(1 :: u32) \<noteq> GVTHREAD_NONE"
      "tls_base (s_tls demo_running 0) \<noteq> 0" "get_state (s_meta demo_running 1) = Running"
      "s_sleep demo_running = Some []"
    by (simp_all add: demo_running_def run_prologue_def demo_sched set_current_gvthread_def Let_def
        metadata_addr_def slot_base_def GVTHREAD_NONE_def get_state_def set_state_def clear_preempt_def
        GVThreadState_from_u8_def)
  show ?thesis
    using sleep_lost_wakeup[OF t, of 10 5 20 Tls_initial] unfolding Let_def by simp
qed

section \<open>Generations\<close>

text \<open>
  \<open>deactivate_slot\<close> hands the metadata page back to the kernel, and with it the generation
  counter: it starts again from zero for the next thread in the slot.
\<close>

definition gen_inv :: "sys \<Rightarrow> bool" where
  "gen_inv y \<longleftrightarrow> mr_initialized (s_region (y_sched y)) \<and>
     (\<forall>i. unat i < mr_max_slots (s_region (y_sched y)) \<or> i \<notin> in_use (s_slots (y_sched y))) \<and>
     (\<forall>i. get_generation (s_meta (y_sched y) i) = (if i \<in> in_use (s_slots (y_sched y)) then 1 else 0))"

lemma generation_frame [simp]:
  "get_generation (set_state x m) = get_generation m"
  "get_generation (clear_preempt m) = get_generation m"
  "get_generation (m\<lparr> m_worker_id := w \<rparr>) = get_generation m"
  by (simp_all add: get_generation_def clear_preempt_def)

lemma gen_inv_step:
  assumes step: "sched_step os True y y'" and inv: "sys_inv y" "own_inv (sys_abs y)"
    and gen: "gen_inv y" and os: "\<forall>a n. os_madvise os a n"
  shows "gen_inv y'"
  using step
proof (cases rule: sched_step.cases)
  case (Spawn tls closure pr i s')
  obtain sl k where al: "allocate (s_slots (y_sched y)) = (Inr i, sl)"
    and ac: "activate_slot (os_mprotect os) i (s_region (y_sched y)) (s_kernel (y_sched y)) = (Inr (), k)"
    and s': "s' = (y_sched y)\<lparr> s_slots := sl, s_kernel := k,
               s_meta := (s_meta (y_sched y))(i := spawned_meta os tls closure pr (y_sched y) i) \<rparr>"
    using Spawn(2) by (rule spawn_prepare_OkE)
  have "slot_inv (s_slots (y_sched y))"
    using inv(1) by (simp add: sys_inv_def)
  note a = slots.al_Ok[OF this al]
  have "unat i < mr_max_slots (s_region (y_sched y))"
    using activate_slot_rw[OF ac] by blast
  then show ?thesis
    using gen a by (auto simp: Spawn(1) gen_inv_def s')
next
  case (React w i pr x)
  let ?s = "y_sched y"
  have w': "holder (o_pc (sys_abs y) w) = Some i"
    using React(2) by (simp add: sys_abs_def)
  have x: "x \<in> {Ready, Blocked, Finished}" and i: "i \<in> in_use (s_slots ?s)"
    using own_invD(6,7)[OF inv(2) w'] React(2) by (auto simp: sys_abs_def)
  show ?thesis
  proof (cases "x = Finished")
    case False
    then show ?thesis
      using x gen by (auto simp: React(1) gen_inv_def epilogue_react_def Let_def)
  next
    case True
    have "slot_inv (s_slots ?s)"
      using inv(1) by (simp add: sys_inv_def)
    note r = slots.rel_used[OF this i]
    have "deactivate_slot (os_madvise os) i (s_region ?s) = Ok ()"
      using gen i os by (auto simp: gen_inv_def deactivate_slot_def not_le)
    then have "s_meta (mark_finished os i ?s) = (s_meta ?s)(i := metadata_zeroed)"
      by (simp add: mark_finished_def Let_def)
    moreover have "get_generation metadata_zeroed = 0"
      by (simp add: get_generation_def metadata_zeroed_def)
    ultimately show ?thesis
      using True gen r
      by (auto simp: React(1) gen_inv_def epilogue_react_def Let_def mark_finished_effect(1-4))
  qed
qed (use gen in \<open>auto simp: gen_inv_def get_next_def run_prologue_def yield_now_def block_current_def
        gvthread_finished_def Let_def split: prod.splits if_splits\<close>)

lemma gen_inv_reach:
  assumes "(sched_step os True)\<^sup>*\<^sup>* y y'" "sys_inv y" "own_inv (sys_abs y)" "gen_inv y"
    and "\<forall>a n. os_madvise os a n"
  shows "gen_inv y'"
  using assms
proof (induction rule: rtranclp_induct)
  case (step z z')
  have "sys_inv z" "own_inv (sys_abs z)"
    using owner.reach[OF step(1) step(4,5)] by blast+
  then show ?case
    using gen_inv_step[OF step(2)] step by blast
qed

text \<open>
  as long as the kernel accepts the advice to drop a finished thread's pages, every live
  thread has generation 1, however often its slot was used before: a check against the
  generation of an earlier thread in the same slot always succeeds.
\<close>

theorem generation_always_one:
  assumes "Scheduler_new cfg = Inr s" "start os s = (Inr (), s0)" "\<forall>n b. os_mmap os n = Some b \<longrightarrow> 0 < b"
    and "\<forall>a n. os_madvise os a n"
    and "(sched_step os True)\<^sup>*\<^sup>* (sys_start s0) y"
    and "i \<in> in_use (s_slots (y_sched y))"
  shows "get_generation (s_meta (y_sched y) i) = 1"
proof -
  have "gen_inv (sys_start s0)"
    using started_frame[OF assms(1,2)] in_use_new
    by (auto simp: gen_inv_def sys_start_def get_generation_def metadata_zeroed_def)
  then have "gen_inv y"
    using gen_inv_reach[OF assms(5) started_inv[OF assms(1-3)]] assms(4) by blast
  then show ?thesis
    using assms(6) by (simp add: gen_inv_def)
qed

theorem generation_always_one_witness:
  "\<exists>y. run_schedule demo_os True 2 [LSpawn, LPush 0, LPop 0, LStart 0, LFinish 0, LLoad 0, LReact 0, LSpawn] demo_sys = Some y \<and>
     get_generation (s_meta (y_sched y) 0) = 1"
proof -
  let ?ls = "[LSpawn, LPush 0, LPop 0, LStart 0, LFinish 0, LLoad 0, LReact 0, LSpawn]"
  have "map_option (\<lambda>y. s_slots (y_sched y)) (run_schedule demo_os True 2 ?ls demo_sys) =
      Some \<lparr> free_stack = [], next_fresh = 1, max_slots = 4, allocated_count = 1 \<rparr>"
    by (simp del: exec_label.simps add: exec_label.simps(2-11) demo_spawn)
      (simp add: demo_run_simps mark_finished_def deactivate_slot_def allocate_def release_def is_none_def
        spawn_prepare_def activate_slot_def demo_os_def)
  then obtain y where y: "run_schedule demo_os True 2 ?ls demo_sys = Some y"
      "s_slots (y_sched y) = \<lparr> free_stack = [], next_fresh = 1, max_slots = 4, allocated_count = 1 \<rparr>"
    by blast
  have "(sched_step demo_os True)\<^sup>*\<^sup>* demo_sys y"
    using run_schedule_steps[OF y(1)] demo_sched(6) by simp
  then have r: "(sched_step demo_os True)\<^sup>*\<^sup>* (sys_start (y_sched demo_sys)) y"
    by (subst demo_started(2)[symmetric])
  obtain s where s: "Scheduler_new demo_config = Inr s" "start demo_os s = (Inr (), y_sched demo_sys)"
    using demo_started(1) by blast
  have o: "\<forall>n b. os_mmap demo_os n = Some b \<longrightarrow> 0 < b" "\<forall>a n. os_madvise demo_os a n"
    by (simp_all add: demo_os_def)
  have "0 \<in> in_use (s_slots (y_sched y))"
    by (simp add: y(2) in_use_def)
  then show ?thesis
    using generation_always_one[OF s o r] y(1) by blast
qed

section \<open>Preemption\<close>

text \<open>
  the watch asks a thread to yield only if it is the one its worker is running, the
  worker's activity counter has not moved since the watch last looked, and more than a time
  slice has passed since the stall was first seen; no other metadata changes.
\<close>

theorem preempt_only_after_stall:
  assumes "check_worker now time_slice forced w watch s = (sig, watch', s')"
    and "s_meta s' i \<noteq> s_meta s i"
  shows "w_current_gthread (s_workers s w) = i \<and>
    w_activity_counter (s_workers s w) = ww_last_counter watch \<and>
    (\<exists>t. ww_first_stall_time watch = Some t \<and> time_slice < of_nat (now - t)) \<and>
    s_meta s' i = request_preempt (s_meta s i) \<and> ww_first_stall_time watch' = None"
  using assms
  by (auto simp: check_worker_def handle_stuck_gvthread_def Let_def split: if_splits option.splits)

theorem preempt_only_after_stall_witness:
  "let r = check_worker 60 50 False 0 \<lparr> ww_last_counter = 0, ww_first_stall_time = Some 5 \<rparr> demo_running in
   is_preempt_requested (s_meta (snd (snd r)) 1) \<and> ww_first_stall_time (fst (snd r)) = None"
proof -
  let ?w = "\<lparr> ww_last_counter = 0, ww_first_stall_time = Some 5 \<rparr>"
  obtain sig watch' s' where r: "check_worker 60 50 False 0 ?w demo_running = (sig, watch', s')"
    by (metis prod_cases3)
  have i: "w_current_gthread (s_workers demo_running 0) = 1" "w_activity_counter (s_workers demo_running 0) = 0"
      "m_preempt_flag (s_meta demo_running 1) = 0"
    by (simp_all add: demo_running_def run_prologue_def start_running_def clear_preempt_def Let_def)
  have f: "s_meta s' 1 \<noteq> s_meta demo_running 1"
  proof
    assume "s_meta s' 1 = s_meta demo_running 1"
    then have "m_preempt_flag (s_meta s' 1) = 0"
      using i(3) by simp
    moreover have "m_preempt_flag (s_meta s' 1) = 1"
      using r i(1,2) by (auto simp: check_worker_def handle_stuck_gvthread_def Let_def GVTHREAD_NONE_def
          request_preempt_def)
    ultimately show False by simp
  qed
  show ?thesis
    using preempt_only_after_stall[OF r f] by (simp add: r Let_def is_preempt_requested_def request_preempt_def)
qed

text \<open>
  the stall the watch measures belongs to the worker, not to the thread: starting another
  thread resets the activity counter to the value the watch remembers, so the stall seen under
  the first thread is charged to its successor, which is asked to yield even if it was started
  at this very moment.
\<close>

theorem preempt_blames_successor:
  assumes "a \<noteq> GVTHREAD_NONE" "b \<noteq> GVTHREAD_NONE" "time_slice < of_nat (t2 - t1)"
    and "check_worker t1 time_slice forced w WorkerWatch_new (upd_worker w (start_running a t0) s)
      = (sig1, watch, s1)"
    and "check_worker t2 time_slice forced w watch (upd_worker w (start_running b tb) s1) = (sig2, watch2, s2)"
  shows "is_preempt_requested (s_meta s2 b)"
  using assms
  by (auto simp: check_worker_def handle_stuck_gvthread_def Let_def start_running_def WorkerWatch_new_def
      is_preempt_requested_def request_preempt_def)

theorem preempt_blames_successor_witness:
  "let s1 = snd (snd (check_worker 0 50 False 0 WorkerWatch_new (upd_worker 0 (start_running 1 0) demo_running)));
       watch = fst (snd (check_worker 0 50 False 0 WorkerWatch_new (upd_worker 0 (start_running 1 0) demo_running)))
   in is_preempt_requested (s_meta (snd (snd
        (check_worker 60 50 False 0 watch (upd_worker 0 (start_running 2 60) s1)))) 2)"
proof -
  obtain sig1 watch s1 where 1: "check_worker 0 50 False 0 WorkerWatch_new
      (upd_worker 0 (start_running 1 0) demo_running) = (sig1, watch, s1)"
    by (metis prod_cases3)
  obtain sig2 watch2 s2 where 2: "check_worker 60 50 False 0 watch (upd_worker 0 (start_running 2 60) s1) =
      (sig2, watch2, s2)"
    by (metis prod_cases3)
  have "(1 :: u32) \<noteq> GVTHREAD_NONE" "(2 :: u32) \<noteq> GVTHREAD_NONE" "(50 :: u64) < of_nat (60 - 0)"
    by (simp_all add: GVTHREAD_NONE_def word_less_nat_alt)
  then show ?thesis
    using preempt_blames_successor[OF _ _ _ 1 2] 1 2 by simp
qed

section \<open>Too many workers\<close>

lemma WorkerPool_start_panics:
  "i \<in> set is \<Longrightarrow> i \<ge> MAX_WORKERS \<Longrightarrow>
   fst (WorkerPool_start n low is s) = Err (Panic ''index out of bounds'')"
  by (induction "is" arbitrary: s) auto

text \<open>
  a configuration with 65 to 256 workers passes validation, and starting it panics: the
  worker states are an array of 64.
\<close>

theorem valid_config_panics:
  assumes "c_num_workers cfg > MAX_WORKERS" "Scheduler_new cfg = Inr s"
    and "c_max_gvthreads cfg * SLOT_SIZE < 2 ^ 64" "\<forall>n. os_mmap os n \<noteq> None"
  shows "validate cfg = Ok () \<and> fst (start os s) = Err (Panic ''index out of bounds'')"
proof -
  have s: "\<not> s_running s" "s_region s = MemoryRegion_new" "s_config s = cfg" "validate cfg = Ok ()"
    using assms(2) by (auto simp: Scheduler_new_def split: sum.splits)
  obtain b where b: "os_mmap os (c_max_gvthreads cfg * SLOT_SIZE) = Some b"
    using assms(4) by blast
  have "MAX_WORKERS \<in> set [0 ..< c_num_workers cfg]"
    using assms(1) by simp
  then show ?thesis
    using s b assms(3) WorkerPool_start_panics[of MAX_WORKERS "[0 ..< c_num_workers cfg]"]
    by (simp add: start_def region_init_def MemoryRegion_new_def Let_def)
qed

theorem valid_config_panics_witness:
  "\<exists>s. Scheduler_new (demo_config\<lparr> c_num_workers := 100 \<rparr>) = Inr s \<and>
     fst (start demo_os s) = Err (Panic ''index out of bounds'')"
proof -
  let ?c = "demo_config\<lparr> c_num_workers := 100 \<rparr>"
  obtain s where s: "Scheduler_new ?c = Inr s"
    by (simp add: Scheduler_new_def validate_def demo_config_def SchedulerConfig_new_def library_defaults_def)
  have "c_num_workers ?c > MAX_WORKERS" "c_max_gvthreads ?c * SLOT_SIZE < 2 ^ 64" "\<forall>n. os_mmap demo_os n \<noteq> None"
    by (simp_all add: MAX_WORKERS_def SLOT_SIZE_def demo_config_def demo_os_def)
  then show ?thesis
    using valid_config_panics[OF _ s] s by blast
qed

end
