(* ===== verification/Ksvc_Rings.thy ===== *)
theory Ksvc_Rings
  imports Core_Types Fifo
begin

text \<open>
  The rings of the KSVC crates: the multi-producer submit ring of
  \<open>ksvc-module/src/submit_ring.rs\<close>, its reader and the completion ring of
  \<open>ksvc-executor/src/lib.rs\<close>, and the completion sink of
  \<open>ksvc-module/src/ring_completion.rs\<close>. A ring's shared memory is its head and tail, 64-bit
  counters that only grow, and its entries.
\<close>

unbundle bit_operations_syntax

section \<open>Entries (\<open>ksvc-core/src/entry.rs\<close>)\<close>

type_synonym CorrId = u64

definition CorrId_NONE :: CorrId where
  "CorrId_NONE = - 1"

definition from_gvthread_id :: "u32 \<Rightarrow> CorrId" where
  "from_gvthread_id i = ucast i"

definition as_gvthread_id :: "CorrId \<Rightarrow> u32" where
  "as_gvthread_id c = ucast c"

record SubmitEntry =
  sb_corr_id :: CorrId
  sb_syscall_nr :: u32
  sb_flags :: u32
  sb_args :: "u64 list"

record CompletionEntry =
  ce_corr_id :: CorrId
  ce_result :: i64
  ce_flags :: u32

datatype KsvcError = RingFull | IoUringSubmit i32 | IoUringSetup i32 | WorkerUnavailable | Unsupported u32
  | NotInitialized | MmapFailed i32 | IoctlFailed i32 | Os i32

text \<open>Error numbers of the C library.\<close>

definition ENOSYS :: i64 where
  "ENOSYS = 38"

definition EAGAIN :: i64 where
  "EAGAIN = 11"

definition EINTR :: i64 where
  "EINTR = 4"

text \<open>
  The operations of crossbeam's \<open>ArrayQueue\<close>, a parameter wherever it is used: a push that fails when
  the queue is full, and a pop.
\<close>

record ('a, 'q) ArrayQueue =
  aq_push :: "'a \<Rightarrow> 'q \<Rightarrow> 'q option"
  aq_pop :: "'q \<Rightarrow> ('a \<times> 'q) option"

section \<open>Shared memory of a ring\<close>

text \<open>The header fields that are read, and the data region.\<close>

record 'e RingMem =
  rm_magic :: u32
  rm_size :: u32
  rm_mask :: u32
  rm_entry_size :: u32
  rm_head :: u64
  rm_tail :: u64
  rm_entries :: "'e list"

definition KSVC_RING_MAGIC :: u32 where
  "KSVC_RING_MAGIC = 0x4B52494E"

section \<open>The submit ring (\<open>submit_ring.rs\<close>)\<close>

definition from_mmap :: "bool \<Rightarrow> 'e RingMem \<Rightarrow> (string, 'e RingMem) result" where
  "from_mmap base_is_null m =
     (if base_is_null then Err ''null base pointer''
      else if rm_magic m \<noteq> KSVC_RING_MAGIC then Err ''bad ring magic''
      else if rm_size m = 0 \<or> rm_size m AND (rm_size m - 1) \<noteq> 0 then Err ''ring_size not power of 2''
      else if rm_mask m \<noteq> rm_size m - 1 then Err ''mask mismatch''
      else if rm_entry_size m \<noteq> 64 then Err ''entry_size mismatch''
      else Ok m)"

definition submit_index :: "'e RingMem \<Rightarrow> u64 \<Rightarrow> nat" where
  "submit_index m pos = unat ((ucast pos :: u32) AND rm_mask m)"

text \<open>
  One attempt of the loop in \<open>try_push\<close>; alone on the ring the compare-and-exchange succeeds.
\<close>

definition try_push :: "'e \<Rightarrow> 'e RingMem \<Rightarrow> 'e RingMem option" where
  "try_push e m =
     (let tail = rm_tail m; head = rm_head m in
      if tail - head \<ge> ucast (rm_size m) then None
      else Some (m\<lparr> rm_tail := tail + 1, rm_entries := (rm_entries m)[submit_index m tail := e] \<rparr>))"

definition ring_submit :: "CorrId \<Rightarrow> u32 \<Rightarrow> u64 list \<Rightarrow> SubmitEntry RingMem \<Rightarrow> SubmitEntry RingMem option" where
  "ring_submit corr_id nr args m =
     try_push \<lparr> sb_corr_id = corr_id, sb_syscall_nr = nr, sb_flags = 0, sb_args = args \<rparr> m"

definition dequeue_batch :: "nat \<Rightarrow> nat \<Rightarrow> 'e RingMem \<Rightarrow> 'e list \<times> 'e RingMem" where
  "dequeue_batch buf_len mx m =
     (let head = rm_head m; tail = rm_tail m;
          available = unat (tail - head);
          count = min (min available mx) buf_len;
          buf = map (\<lambda>i. rm_entries m ! submit_index m (head + of_nat i)) [0..<count]
      in (buf, if count > 0 then m\<lparr> rm_head := head + of_nat count \<rparr> else m))"

definition ring_is_empty :: "'e RingMem \<Rightarrow> bool" where
  "ring_is_empty m \<longleftrightarrow> rm_head m = rm_tail m"

definition ring_len :: "'e RingMem \<Rightarrow> nat" where
  "ring_len m = unat (rm_tail m - rm_head m)"

section \<open>The dispatcher's side (\<open>ksvc-executor/src/lib.rs\<close>)\<close>

text \<open>
  The ring's size is an argument here, not read from the header; \<open>None\<close> is the failed assertion.
  Positions wrap as in a release build. The reader keeps its own head and publishes it after each
  batch.
\<close>

definition is_power_of_two :: "u32 \<Rightarrow> bool" where
  "is_power_of_two n \<longleftrightarrow> length (filter (bit n) [0..<32]) = 1"

definition local_index :: "u32 \<Rightarrow> u64 \<Rightarrow> nat" where
  "local_index msk pos = unat (pos AND ucast msk)"

text \<open>
  What the reader has is the mapping: the ring as \<open>submit_ring.rs\<close> lays it out, with the entries from byte
  4096 on, and the 63 entry-sized cells between the header and that page. The reader takes the entries to
  begin at byte 64, so its cell \<open>j\<close> is one of those 63 or the ring's entry \<open>j - 63\<close>.
\<close>

record 'e RingMap =
  mp_ring :: "'e RingMem"
  mp_gap :: "'e list"

definition cells_at_64 :: "'e RingMap \<Rightarrow> 'e list" where
  "cells_at_64 mp = mp_gap mp @ rm_entries (mp_ring mp)"

record 'e SubmitReader =
  sr_map :: "'e RingMap"
  sr_size :: u32
  sr_mask :: u32
  sr_local_head :: u64

definition SubmitReader_new :: "'e RingMap \<Rightarrow> u32 \<Rightarrow> 'e SubmitReader option" where
  "SubmitReader_new mp sz =
     (if is_power_of_two sz
      then Some \<lparr> sr_map = mp, sr_size = sz, sr_mask = sz - 1, sr_local_head = rm_head (mp_ring mp) \<rparr>
      else None)"

fun reader_take :: "nat \<Rightarrow> 'e SubmitReader \<Rightarrow> 'e list \<times> 'e SubmitReader" where
  "reader_take 0 r = ([], r)"
| "reader_take (Suc n) r =
     (case reader_take n (r\<lparr> sr_local_head := sr_local_head r + 1 \<rparr>) of
        (es, r') \<Rightarrow> (cells_at_64 (sr_map r) ! local_index (sr_mask r) (sr_local_head r) # es, r'))"

definition publish_head :: "'e SubmitReader \<Rightarrow> 'e SubmitReader" where
  "publish_head r =
     r\<lparr> sr_map := (sr_map r)\<lparr> mp_ring := (mp_ring (sr_map r))\<lparr> rm_head := sr_local_head r \<rparr> \<rparr> \<rparr>"

definition reader_dequeue_batch :: "nat \<Rightarrow> nat \<Rightarrow> 'e SubmitReader \<Rightarrow> 'e list \<times> 'e SubmitReader" where
  "reader_dequeue_batch buf_len mx r =
     (let available = unat (rm_tail (mp_ring (sr_map r)) - sr_local_head r);
          count = min (min available mx) buf_len
      in case reader_take count r of
           (es, r') \<Rightarrow> (es, if count > 0 then publish_head r' else r'))"

text \<open>
  The completion writer keeps its own tail and publishes it on \<open>flush\<close>. Its entries are the cells from
  byte 64 on, where \<open>ring_completion.rs\<close> has them too.
\<close>

record CompletionRing =
  cr_mem :: "CompletionEntry RingMem"
  cr_size :: u32
  cr_mask :: u32
  cr_local_tail :: u64
  cr_completions_written :: u32

definition CompletionRing_new :: "CompletionEntry RingMem \<Rightarrow> u32 \<Rightarrow> CompletionRing option" where
  "CompletionRing_new m sz =
     (if is_power_of_two sz
      then Some \<lparr> cr_mem = m, cr_size = sz, cr_mask = sz - 1, cr_local_tail = rm_tail m,
                  cr_completions_written = 0 \<rparr>
      else None)"

definition cr_available :: "CompletionRing \<Rightarrow> u32" where
  "cr_available c = cr_size c - ucast (cr_local_tail c - rm_head (cr_mem c))"

definition cr_push :: "CorrId \<Rightarrow> i64 \<Rightarrow> u32 \<Rightarrow> CompletionRing \<Rightarrow> bool \<times> CompletionRing" where
  "cr_push corr_id res flags c =
     (if cr_available c = 0 then (False, c)
      else
        let m = cr_mem c; idx = local_index (cr_mask c) (cr_local_tail c);
            e = \<lparr> ce_corr_id = corr_id, ce_result = res, ce_flags = flags \<rparr>
        in (True, c\<lparr> cr_mem := m\<lparr> rm_entries := (rm_entries m)[idx := e] \<rparr>,
                     cr_local_tail := cr_local_tail c + 1,
                     cr_completions_written := cr_completions_written c + 1 \<rparr>))"

definition cr_flush :: "CompletionRing \<Rightarrow> u32 \<times> CompletionRing" where
  "cr_flush c =
     (let n = cr_completions_written c in
      (n, if n > 0
          then c\<lparr> cr_mem := (cr_mem c)\<lparr> rm_tail := cr_local_tail c \<rparr>, cr_completions_written := 0 \<rparr>
          else c))"

section \<open>The completion sink (\<open>ring_completion.rs\<close>)\<close>

text \<open>The notifier's answer is an argument of a flush; \<open>rs_notified\<close> counts the calls.\<close>

record RingCompletionSink =
  rs_mem :: "CompletionEntry RingMem"
  rs_size :: u32
  rs_mask :: u32
  rs_local_tail :: u64
  rs_buffered :: u32
  rs_notified :: nat

definition RingCompletionSink_new :: "CompletionEntry RingMem \<Rightarrow> u32 \<Rightarrow> RingCompletionSink option" where
  "RingCompletionSink_new m sz =
     (if is_power_of_two sz
      then Some \<lparr> rs_mem = m, rs_size = sz, rs_mask = sz - 1, rs_local_tail = rm_tail m,
                  rs_buffered = 0, rs_notified = 0 \<rparr>
      else None)"

definition sink_available :: "RingCompletionSink \<Rightarrow> u32" where
  "sink_available k = rs_size k - ucast (rs_local_tail k - rm_head (rs_mem k))"

definition sink_push ::
  "CorrId \<Rightarrow> i64 \<Rightarrow> u32 \<Rightarrow> RingCompletionSink \<Rightarrow> (KsvcError, unit) result \<times> RingCompletionSink" where
  "sink_push corr_id res flags k =
     (if sink_available k = 0 then (Err RingFull, k)
      else
        let m = rs_mem k; idx = local_index (rs_mask k) (rs_local_tail k);
            e = \<lparr> ce_corr_id = corr_id, ce_result = res, ce_flags = flags \<rparr>
        in (Ok (), k\<lparr> rs_mem := m\<lparr> rm_entries := (rm_entries m)[idx := e] \<rparr> \<rparr>))"

definition sink_flush_and_notify ::
  "(KsvcError, unit) result \<Rightarrow> RingCompletionSink \<Rightarrow> (KsvcError, unit) result \<times> RingCompletionSink" where
  "sink_flush_and_notify answer k =
     (let k1 = k\<lparr> rs_mem := (rs_mem k)\<lparr> rm_tail := rs_local_tail k \<rparr> \<rparr> in
      if rs_buffered k1 > 0 then (answer, k1\<lparr> rs_notified := rs_notified k1 + 1 \<rparr>) else (Ok (), k1))"

fun sink_push_batch ::
  "CompletionEntry list \<Rightarrow> RingCompletionSink \<Rightarrow> (KsvcError, nat) result \<times> RingCompletionSink" where
  "sink_push_batch [] k = (Ok 0, k)"
| "sink_push_batch (e # es) k =
     (case sink_push (ce_corr_id e) (ce_result e) (ce_flags e) k of
        (Inl err, k') \<Rightarrow> (Err err, k')
      | (Inr _, k') \<Rightarrow>
          (case sink_push_batch es k' of
             (Inl err, k'') \<Rightarrow> (Err err, k'')
           | (Inr n, k'') \<Rightarrow> (Ok (Suc n), k'')))"

section \<open>Positions and indices\<close>

text \<open>The size is a power of two that fits the 32-bit mask, and the data region has that many entries.\<close>

definition ring_wf :: "'e RingMem \<Rightarrow> bool" where
  "ring_wf m \<longleftrightarrow> (\<exists>k \<le> 31. unat (rm_size m) = 2 ^ k) \<and> rm_mask m = rm_size m - 1 \<and>
     length (rm_entries m) = unat (rm_size m)"

definition ring_inv :: "'e RingMem \<Rightarrow> bool" where
  "ring_inv m \<longleftrightarrow> ring_wf m \<and> unat (rm_tail m - rm_head m) \<le> unat (rm_size m)"

definition ring_between :: "'e RingMem \<Rightarrow> u64 \<Rightarrow> u64 \<Rightarrow> 'e list" where
  "ring_between m a b = map (\<lambda>i. rm_entries m ! (unat (a + of_nat i) mod unat (rm_size m))) [0..<unat (b - a)]"

definition ring_items :: "'e RingMem \<Rightarrow> 'e list" where
  "ring_items m = ring_between m (rm_head m) (rm_tail m)"

lemma size_mask:
  assumes "unat (n :: u32) = 2 ^ k" "k \<le> 31"
  shows "n - 1 = mask k"
proof -
  have "n = of_nat (unat n)"
    by simp
  also have "\<dots> = 2 ^ k"
    unfolding assms(1) by simp
  finally have "n = 2 ^ k" .
  then show ?thesis
    by (simp add: mask_eq_exp_minus_1)
qed

lemma submit_index_mod:
  assumes "ring_wf m"
  shows "submit_index m pos = unat pos mod unat (rm_size m)"
proof -
  obtain k where k: "k \<le> 31" "unat (rm_size m) = 2 ^ k" "rm_mask m = rm_size m - 1"
    using assms by (auto simp: ring_wf_def)
  have "(ucast pos :: u32) AND rm_mask m = take_bit k (ucast pos)"
    using size_mask[OF k(2,1)] k(3) by (simp add: take_bit_eq_mask)
  then have "submit_index m pos = take_bit k (unat (ucast pos :: u32))"
    by (simp add: submit_index_def unsigned_take_bit_eq)
  also have "\<dots> = take_bit k (take_bit 32 (unat pos))"
    by (simp add: unsigned_ucast_eq)
  also have "\<dots> = take_bit k (unat pos)"
    using k(1) by (simp add: min_def)
  finally show ?thesis
    by (simp add: k(2) take_bit_eq_mod)
qed

lemma local_index_mod:
  assumes k: "unat (n :: u32) = 2 ^ k" "k \<le> 31"
  shows "local_index (n - 1) pos = unat pos mod unat n"
proof -
  have "(ucast (mask k :: u32) :: u64) = mask k"
    using k(2) by (intro bit_word_eqI) (auto simp: bit_simps)
  then have "pos AND ucast (n - 1) = take_bit k pos"
    using size_mask[OF k] by (simp add: take_bit_eq_mask)
  then have "local_index (n - 1) pos = take_bit k (unat pos)"
    by (simp add: local_index_def unsigned_take_bit_eq)
  then show ?thesis
    by (simp add: k(1) take_bit_eq_mod)
qed

lemma is_power_of_twoD:
  assumes "is_power_of_two n"
  shows "\<exists>k \<le> 31. unat n = 2 ^ k"
proof -
  obtain k where k: "filter (bit n) [0..<32] = [k]"
    using assms by (auto simp: is_power_of_two_def length_Suc_conv)
  have "bit n i \<longleftrightarrow> i \<in> set (filter (bit n) [0..<32])" for i
    using bit_imp_le_length[of n i] by auto
  then have only: "bit n i \<longleftrightarrow> i = k" for i
    by (simp add: k)
  then have "k < 32"
    using bit_imp_le_length[of n k] by simp
  moreover have "n = of_nat (2 ^ k)"
    by (rule bit_word_eqI) (simp add: only bit_exp_iff)
  moreover have "(2 :: nat) ^ k < 2 ^ 32"
    using \<open>k < 32\<close> by (intro power_strict_increasing) auto
  ultimately show ?thesis
    using unat_of_nat_lt[of "2 ^ k", where 'a = 32] by (intro exI[of _ k]) simp
qed

lemma and_pred_power:
  "0 < n \<Longrightarrow> n AND (n - 1) = (0 :: nat) \<Longrightarrow> \<exists>k. n = 2 ^ k"
proof (induction n rule: less_induct)
  case (less n)
  show ?case
  proof (cases "odd n")
    case True
    then obtain m where n: "n = 2 * m + 1"
      by (rule oddE)
    then have "n AND (n - 1) = 2 * m"
      by (subst and_rec) simp
    with less.prems n have "n = 2 ^ 0"
      by simp
    then show ?thesis ..
  next
    case False
    then obtain m where n: "n = 2 * m"
      by (auto elim: evenE)
    with less.prems obtain l where m: "m = Suc l"
      by (cases m) auto
    have "n AND (n - 1) = 2 * (m AND (m - 1))"
      by (subst and_rec) (simp add: n m)
    then obtain k where "m = 2 ^ k"
      using less.IH[of m] less.prems n m by auto
    then have "n = 2 ^ Suc k"
      by (simp add: n)
    then show ?thesis ..
  qed
qed

text \<open>The header checks of \<open>from_mmap\<close> establish the shape the index computations need.\<close>

lemma from_mmap_wf:
  assumes ok: "from_mmap null m = Ok r" and len: "length (rm_entries m) = unat (rm_size m)"
  shows "ring_wf r"
proof -
  let ?n = "rm_size m"
  have r: "r = m" and n0: "?n \<noteq> 0" and n1: "?n AND (?n - 1) = 0" and mask: "rm_mask m = ?n - 1"
    using ok by (auto simp: from_mmap_def split: if_splits)
  have "unat (?n AND (?n - 1)) = unat ?n AND unat (?n - 1)"
    by (rule unsigned_and_eq)
  then have "unat ?n AND (unat ?n - 1) = 0"
    using n0 n1 by (simp add: unat_minus_one)
  then obtain k where k: "unat ?n = 2 ^ k"
    using and_pred_power n0 by (metis unat_gt_0)
  moreover have "k \<le> 31"
  proof -
    have "(2 :: nat) ^ k < 2 ^ 32"
      using k unsigned_less[of ?n, where 'a = nat] by simp
    then show ?thesis
      by (subst (asm) power_strict_increasing_iff) auto
  qed
  ultimately show ?thesis
    using mask len r by (auto simp: ring_wf_def)
qed

lemma ring_wf_size:
  assumes "ring_wf m"
  shows "0 < unat (rm_size m) \<and> unat (rm_size m) \<le> 2 ^ 31"
proof -
  obtain k where "k \<le> 31" "unat (rm_size m) = 2 ^ k"
    using assms by (auto simp: ring_wf_def)
  then show ?thesis
    using power_increasing[of k 31 "2 :: nat"] by simp
qed

text \<open>Positions advance through the ring also across the wrap-around of the counters.\<close>

lemma pos_mod:
  assumes "ring_wf m"
  shows "unat (a + of_nat i :: u64) mod unat (rm_size m) = (unat a + i) mod unat (rm_size m)"
proof -
  obtain k where k: "k \<le> 31" "unat (rm_size m) = 2 ^ k"
    using assms by (auto simp: ring_wf_def)
  have "unat (a + of_nat i) = (unat a + i) mod 2 ^ 64"
    by (simp add: unat_word_ariths unat_of_nat mod_simps)
  moreover have "(2 :: nat) ^ k dvd 2 ^ 64"
    using k(1) by (intro le_imp_power_dvd) simp
  ultimately show ?thesis
    unfolding k(2) by (simp only: mod_mod_cancel)
qed

lemma unat_plus_one: "unat (x :: u64) < 2 ^ 32 \<Longrightarrow> unat (x + 1) = Suc (unat x)"
  by (simp add: unat_word_ariths)

lemma ring_between_snoc:
  assumes wf: "ring_wf m" and room: "unat (b - a) < unat (rm_size m)"
  shows "ring_between (m\<lparr> rm_entries := (rm_entries m)[unat b mod unat (rm_size m) := e] \<rparr>) a (b + 1) =
    ring_between m a b @ [e]"
proof -
  let ?n = "unat (b - a)" and ?s = "unat (rm_size m)"
  have s: "0 < ?s" "?s \<le> 2 ^ 31" "length (rm_entries m) = ?s"
    using ring_wf_size[OF wf] wf by (auto simp: ring_wf_def)
  have b: "b = a + of_nat ?n"
    by simp
  have ib: "unat b mod ?s = (unat a + ?n) mod ?s"
    by (subst b) (rule pos_mod[OF wf])
  have len: "unat (b + 1 - a) = Suc ?n"
  proof -
    have "b + 1 - a = b - a + 1"
      by (simp add: algebra_simps)
    moreover have "unat (b - a) < 2 ^ 32"
      using room s(2) by simp
    ultimately show ?thesis
      by (simp only: unat_plus_one)
  qed
  have old: "(unat a + i) mod ?s \<noteq> (unat a + ?n) mod ?s" if "i < ?n" for i
    using that room by (intro mod_positions_differ) auto
  have "map (\<lambda>i. ((rm_entries m)[unat b mod ?s := e]) ! (unat (a + of_nat i) mod ?s)) [0..<?n] =
      map (\<lambda>i. rm_entries m ! (unat (a + of_nat i) mod ?s)) [0..<?n]"
    by (rule map_cong[OF refl]) (simp add: pos_mod[OF wf] ib old[symmetric])
  moreover have "((rm_entries m)[unat b mod ?s := e]) ! (unat (a + of_nat ?n) mod ?s) = e"
    using s by (simp only: pos_mod[OF wf] ib nth_list_update_eq mod_less_divisor)
  ultimately show ?thesis
    by (simp add: ring_between_def len)
qed

lemma unat_minus_of_nat:
  assumes "c \<le> unat (x :: u64)"
  shows "unat (x - of_nat c) = unat x - c"
proof -
  have c: "unat (of_nat c :: u64) = c"
    using assms unsigned_less[of x, where 'a = nat] by (intro unat_of_nat_lt) simp
  then have "(of_nat c :: u64) \<le> x"
    using assms by (simp add: word_le_nat_alt)
  then show ?thesis
    by (simp add: unat_sub c)
qed

lemma ring_between_drop:
  assumes "c \<le> unat (b - a)"
  shows "ring_between m (a + of_nat c) b = drop c (ring_between m a b)"
proof -
  have d: "unat (b - (a + of_nat c)) = unat (b - a) - c"
    using unat_minus_of_nat[OF assms] by (simp add: diff_diff_eq)
  show ?thesis
    unfolding ring_between_def d
    by (rule nth_equalityI) (auto simp: algebra_simps)
qed

lemma length_ring_between [simp]: "length (ring_between m a b) = unat (b - a)"
  by (simp add: ring_between_def)

lemma ring_between_empty: "ring_between m a b = [] \<longleftrightarrow> a = b"
  by (auto simp: ring_between_def unat_eq_0)

section \<open>The submit ring as a bounded queue\<close>

lemma unat_ucast_size [simp]: "unat (ucast (n :: u32) :: u64) = unat n"
  using unsigned_less[of n, where 'a = nat] by (simp add: unsigned_ucast_eq take_bit_nat_eq_self)

lemma full_iff: "ucast (rm_size m) \<le> (x :: u64) \<longleftrightarrow> unat (rm_size m) \<le> unat x"
  by (simp add: word_le_nat_alt)

lemma ring_wf_update [simp]:
  "ring_wf (m\<lparr> rm_head := h \<rparr>) = ring_wf m"
  "ring_wf (m\<lparr> rm_tail := t \<rparr>) = ring_wf m"
  "ring_wf (m\<lparr> rm_entries := (rm_entries m)[i := e] \<rparr>) = ring_wf m"
  by (auto simp: ring_wf_def)

lemma ring_between_update [simp]:
  "ring_between (m\<lparr> rm_head := h \<rparr>) a b = ring_between m a b"
  "ring_between (m\<lparr> rm_tail := t \<rparr>) a b = ring_between m a b"
  by (auto simp: ring_between_def)

lemma length_ring_items: "length (ring_items m) = unat (rm_tail m - rm_head m)"
  by (simp add: ring_items_def)

lemma try_push_full:
  "try_push e m = None \<longleftrightarrow> unat (rm_size m) \<le> length (ring_items m)"
  by (simp add: try_push_def Let_def full_iff length_ring_items)

lemma try_push_Some:
  assumes inv: "ring_inv m" and push: "try_push e m = Some m'"
  shows "ring_inv m' \<and> ring_items m' = ring_items m @ [e] \<and> rm_size m' = rm_size m"
proof -
  let ?t = "rm_tail m" and ?h = "rm_head m"
  have wf: "ring_wf m" and room: "unat (?t - ?h) < unat (rm_size m)"
    using inv push by (auto simp: ring_inv_def try_push_def Let_def full_iff split: if_splits)
  have m': "m' = m\<lparr> rm_entries := (rm_entries m)[unat ?t mod unat (rm_size m) := e] \<rparr>\<lparr> rm_tail := ?t + 1 \<rparr>"
    using push by (auto simp: try_push_def Let_def submit_index_mod[OF wf] split: if_splits)
  have items: "ring_items m' = ring_items m @ [e]"
    using ring_between_snoc[OF wf room] by (simp add: ring_items_def m')
  have "unat (rm_tail m' - rm_head m') = Suc (unat (?t - ?h))"
    using arg_cong[OF items, of length] by (simp add: length_ring_items)
  then show ?thesis
    using wf room items by (simp add: ring_inv_def m')
qed

lemma dequeue_batch_items:
  assumes inv: "ring_inv m" and deq: "dequeue_batch n mx m = (es, m')"
  shows "ring_inv m' \<and> es = take (min mx n) (ring_items m) \<and> ring_items m' = drop (min mx n) (ring_items m) \<and>
    rm_size m' = rm_size m"
proof -
  let ?a = "unat (rm_tail m - rm_head m)"
  let ?c = "min (min ?a mx) n"
  have wf: "ring_wf m" and le: "?a \<le> unat (rm_size m)"
    using inv by (auto simp: ring_inv_def)
  have m': "m' = m\<lparr> rm_head := rm_head m + of_nat ?c \<rparr>"
    using deq by (auto simp: dequeue_batch_def Let_def)
  have es: "es = take ?c (ring_items m)"
    using deq by (auto simp: dequeue_batch_def Let_def submit_index_mod[OF wf] ring_items_def
        ring_between_def take_map)
  have items: "ring_items m' = drop ?c (ring_items m)"
  proof -
    have "?c \<le> ?a"
      by simp
    then show ?thesis
      unfolding ring_items_def m' by (simp add: ring_between_drop)
  qed
  have c: "take ?c (ring_items m) = take (min mx n) (ring_items m)"
    "drop ?c (ring_items m) = drop (min mx n) (ring_items m)"
    by (auto simp: min_def length_ring_items)
  have "unat (rm_tail m' - rm_head m') = ?a - ?c"
    using arg_cong[OF items, of length] by (simp add: length_ring_items)
  then show ?thesis
    using wf le es items c by (simp add: ring_inv_def m')
qed

definition dequeue_one :: "'e RingMem \<Rightarrow> ('e \<times> 'e RingMem) option" where
  "dequeue_one m = (case dequeue_batch 1 1 m of ([], _) \<Rightarrow> None | (e # _, m') \<Rightarrow> Some (e, m'))"

interpretation sq: bounded_fifo try_push dequeue_one ring_items "\<lambda>m. unat (rm_size m)" ring_inv
proof
  fix m m' :: "'e RingMem" and e :: 'e
  assume inv: "ring_inv m"
  obtain es mm where d: "dequeue_batch (Suc 0) (Suc 0) m = (es, mm)"
    by fastforce
  note es = dequeue_batch_items[OF inv d]
  show "try_push e m = None \<longleftrightarrow> unat (rm_size m) \<le> length (ring_items m)"
    by (rule try_push_full)
  show "ring_inv m' \<and> ring_items m' = ring_items m @ [e] \<and> unat (rm_size m') = unat (rm_size m)"
    if "try_push e m = Some m'"
    using try_push_Some[OF inv that] by simp
  show "dequeue_one m = None \<longleftrightarrow> ring_items m = []"
    using es by (cases "ring_items m") (auto simp: dequeue_one_def d)
  show "ring_inv m' \<and> ring_items m = e # ring_items m' \<and> unat (rm_size m') = unat (rm_size m)"
    if "dequeue_one m = Some (e, m')"
    using es that by (cases "ring_items m") (auto simp: dequeue_one_def d)
qed

section \<open>The executor's reader\<close>

text \<open>The reader's copy of the head is the published one, and its size is the header's.\<close>

definition reader_synced :: "'e SubmitReader \<Rightarrow> bool" where
  "reader_synced r \<longleftrightarrow> ring_wf (mp_ring (sr_map r)) \<and> length (mp_gap (sr_map r)) = 63 \<and>
     sr_size r = rm_size (mp_ring (sr_map r)) \<and> sr_mask r = sr_size r - 1 \<and>
     sr_local_head r = rm_head (mp_ring (sr_map r))"

text \<open>The ring as the reader sees it: the shared header, and the cells from byte 64 on as its entries.\<close>

definition sr_view :: "'e SubmitReader \<Rightarrow> 'e RingMem" where
  "sr_view r =
     (mp_ring (sr_map r))\<lparr> rm_entries := take (unat (rm_size (mp_ring (sr_map r)))) (cells_at_64 (sr_map r)) \<rparr>"

lemma sr_view_simps [simp]:
  "rm_head (sr_view r) = rm_head (mp_ring (sr_map r))" "rm_tail (sr_view r) = rm_tail (mp_ring (sr_map r))"
  "rm_size (sr_view r) = rm_size (mp_ring (sr_map r))" "rm_mask (sr_view r) = rm_mask (mp_ring (sr_map r))"
  "submit_index (sr_view r) pos = submit_index (mp_ring (sr_map r)) pos"
  by (simp_all add: sr_view_def submit_index_def)

lemma sr_view_wf: "reader_synced r \<Longrightarrow> ring_wf (sr_view r)"
  by (auto simp: reader_synced_def ring_wf_def sr_view_def cells_at_64_def)

lemma reader_take_map:
  "reader_take n r =
    (map (\<lambda>i. cells_at_64 (sr_map r) ! local_index (sr_mask r) (sr_local_head r + of_nat i)) [0..<n],
     r\<lparr> sr_local_head := sr_local_head r + of_nat n \<rparr>)"
  by (induction n arbitrary: r)
    (simp_all add: upt_conv_Cons map_Suc_upt[symmetric] algebra_simps comp_def del: upt_Suc)

lemma reader_index_submit:
  assumes "reader_synced r"
  shows "local_index (sr_mask r) pos = submit_index (mp_ring (sr_map r)) pos"
    and "submit_index (mp_ring (sr_map r)) pos < unat (rm_size (mp_ring (sr_map r)))"
proof -
  let ?m = "mp_ring (sr_map r)"
  have wf: "ring_wf ?m" and m: "sr_mask r = rm_size ?m - 1"
    using assms by (auto simp: reader_synced_def)
  obtain k where "k \<le> 31" "unat (rm_size ?m) = 2 ^ k"
    using wf by (auto simp: ring_wf_def)
  then show "local_index (sr_mask r) pos = submit_index ?m pos" "submit_index ?m pos < unat (rm_size ?m)"
    by (simp_all add: m local_index_mod submit_index_mod[OF wf])
qed

text \<open>A batch in closed form: how many entries, which cells, and what is published.\<close>

lemma reader_dequeue_cells:
  assumes sync: "reader_synced r" and deq: "reader_dequeue_batch n mx r = (es, r')"
    and m: "m = mp_ring (sr_map r)" and c: "c = min (min (unat (rm_tail m - rm_head m)) mx) n"
  shows "es = map (\<lambda>i. cells_at_64 (sr_map r) ! submit_index m (rm_head m + of_nat i)) [0..<c] \<and>
    sr_map r' = (sr_map r)\<lparr> mp_ring := if c > 0 then m\<lparr> rm_head := rm_head m + of_nat c \<rparr> else m \<rparr> \<and>
    reader_synced r'"
proof -
  have h: "sr_local_head r = rm_head m"
    using sync by (simp add: reader_synced_def m)
  have "es = map (\<lambda>i. cells_at_64 (sr_map r) ! submit_index m (rm_head m + of_nat i)) [0..<c]"
    and r': "r' = (if c > 0 then publish_head (r\<lparr> sr_local_head := rm_head m + of_nat c \<rparr>) else r)"
    using deq by (auto simp: reader_dequeue_batch_def Let_def reader_take_map h reader_index_submit(1)[OF sync] m[symmetric] c)
  then show ?thesis
    using sync by (simp add: reader_synced_def publish_head_def m)
qed

lemma reader_dequeue_view:
  assumes sync: "reader_synced r" and deq: "reader_dequeue_batch n mx r = (es, r')"
  shows "reader_synced r' \<and> dequeue_batch n mx (sr_view r) = (es, sr_view r')"
proof -
  let ?m = "mp_ring (sr_map r)"
  let ?c = "min (min (unat (rm_tail ?m - rm_head ?m)) mx) n"
  note d = reader_dequeue_cells[OF sync deq refl refl]
  have "take (unat (rm_size ?m)) (cells_at_64 (sr_map r)) ! submit_index ?m p = cells_at_64 (sr_map r) ! submit_index ?m p" for p
    using reader_index_submit(2)[OF sync] by simp
  then have "dequeue_batch n mx (sr_view r) =
      (es, if ?c > 0 then (sr_view r)\<lparr> rm_head := rm_head ?m + of_nat ?c \<rparr> else sr_view r)"
    using d by (simp add: dequeue_batch_def Let_def) (simp add: sr_view_def)
  moreover have "sr_view r' = (if ?c > 0 then (sr_view r)\<lparr> rm_head := rm_head ?m + of_nat ?c \<rparr> else sr_view r)"
    using d by (simp add: sr_view_def cells_at_64_def)
  ultimately show ?thesis
    using d by simp
qed

section \<open>The executor's completion ring\<close>

definition cr_inv :: "CompletionRing \<Rightarrow> bool" where
  "cr_inv c \<longleftrightarrow> ring_wf (cr_mem c) \<and> cr_size c = rm_size (cr_mem c) \<and> cr_mask c = cr_size c - 1 \<and>
     unat (cr_local_tail c - rm_head (cr_mem c)) \<le> unat (cr_size c) \<and>
     unat (cr_completions_written c) = unat (cr_local_tail c - rm_tail (cr_mem c)) \<and>
     unat (cr_completions_written c) \<le> unat (cr_local_tail c - rm_head (cr_mem c))"

text \<open>Everything written and not yet consumed, published or not.\<close>

definition cr_pending :: "CompletionRing \<Rightarrow> CompletionEntry list" where
  "cr_pending c = ring_between (cr_mem c) (rm_head (cr_mem c)) (cr_local_tail c)"

lemma cr_invD:
  assumes "cr_inv c"
  shows "ring_wf (cr_mem c)" "cr_size c = rm_size (cr_mem c)" "cr_mask c = rm_size (cr_mem c) - 1"
    "length (cr_pending c) \<le> unat (rm_size (cr_mem c))"
    "unat (cr_completions_written c) = unat (cr_local_tail c - rm_tail (cr_mem c))"
    "unat (cr_completions_written c) \<le> length (cr_pending c)"
  using assms unfolding cr_inv_def cr_pending_def length_ring_between by metis+

lemma cr_available_room:
  assumes "cr_inv c"
  shows "unat (cr_available c) = unat (rm_size (cr_mem c)) - length (cr_pending c)"
proof -
  let ?d = "cr_local_tail c - rm_head (cr_mem c)" and ?s = "rm_size (cr_mem c)"
  have le: "unat ?d \<le> unat ?s"
    using cr_invD(4)[OF assms] by (simp add: cr_pending_def)
  then have "unat ?d < 2 ^ 32"
    using unsigned_less[of ?s, where 'a = nat] by simp
  then have d: "unat (ucast ?d :: u32) = unat ?d"
    by (simp add: unsigned_ucast_eq take_bit_nat_eq_self)
  then have "(ucast ?d :: u32) \<le> ?s"
    using le by (simp add: word_le_nat_alt)
  then show ?thesis
    by (simp add: cr_available_def cr_invD(2)[OF assms] cr_pending_def unat_sub d)
qed

lemma cr_push_full:
  assumes "cr_inv c" "unat (rm_size (cr_mem c)) \<le> length (cr_pending c)"
  shows "cr_push i res fl c = (False, c)"
  using cr_available_room[OF assms(1)] assms(2) by (simp add: cr_push_def unat_eq_0)

lemma cr_push_room:
  assumes inv: "cr_inv c" and room: "length (cr_pending c) < unat (rm_size (cr_mem c))"
  shows "\<exists>c'. cr_push i res fl c = (True, c') \<and> cr_inv c' \<and>
    cr_pending c' = cr_pending c @ [\<lparr> ce_corr_id = i, ce_result = res, ce_flags = fl \<rparr>] \<and>
    rm_size (cr_mem c') = rm_size (cr_mem c) \<and> rm_head (cr_mem c') = rm_head (cr_mem c) \<and>
    rm_tail (cr_mem c') = rm_tail (cr_mem c) \<and> cr_local_tail c' = cr_local_tail c + 1"
proof -
  let ?m = "cr_mem c" and ?e = "\<lparr> ce_corr_id = i, ce_result = res, ce_flags = fl \<rparr>"
  define m' where "m' = ?m\<lparr> rm_entries := (rm_entries ?m)[unat (cr_local_tail c) mod unat (rm_size ?m) := ?e] \<rparr>"
  define c' where "c' = c\<lparr> cr_mem := m', cr_local_tail := cr_local_tail c + 1,
    cr_completions_written := cr_completions_written c + 1 \<rparr>"
  note D = cr_invD[OF inv]
  obtain k where "k \<le> 31" "unat (rm_size ?m) = 2 ^ k"
    using D(1) by (auto simp: ring_wf_def)
  then have idx: "local_index (cr_mask c) (cr_local_tail c) = unat (cr_local_tail c) mod unat (rm_size ?m)"
    by (simp add: D(3) local_index_mod)
  have small: "unat (rm_size ?m) \<le> 2 ^ 31"
    using ring_wf_size[OF D(1)] by simp
  have push: "cr_push i res fl c = (True, c')"
    using cr_available_room[OF inv] room
    by (auto simp: cr_push_def Let_def idx c'_def m'_def)
  have pend: "cr_pending c' = cr_pending c @ [?e]"
    using ring_between_snoc[OF D(1), of "cr_local_tail c" "rm_head ?m" ?e] room
    by (simp add: cr_pending_def c'_def m'_def)
  have "unat (cr_local_tail c - rm_tail ?m + 1) = Suc (unat (cr_local_tail c - rm_tail ?m))"
    using D(5,6) room small by (intro unat_plus_one) simp
  moreover have "unat (cr_completions_written c + 1) = Suc (unat (cr_completions_written c))"
    using D(6) room small by (simp add: unat_word_ariths)
  ultimately have "unat (cr_completions_written c') = unat (cr_local_tail c' - rm_tail (cr_mem c'))"
    using D(5) by (simp add: c'_def m'_def algebra_simps)
  moreover have "length (cr_pending c') = unat (cr_local_tail c' - rm_head (cr_mem c'))"
    by (simp add: cr_pending_def)
  ultimately have "cr_inv c'"
    using D(1,2,3,6) pend room unfolding cr_inv_def by (simp add: c'_def m'_def unat_word_ariths)
  with push pend show ?thesis
    by (auto simp: c'_def m'_def)
qed

lemma cr_flush_publishes:
  assumes inv: "cr_inv c" and flush: "cr_flush c = (n, c')"
  shows "cr_inv c' \<and> ring_items (cr_mem c') = cr_pending c \<and> cr_pending c' = cr_pending c \<and>
    unat n = length (cr_pending c) - length (ring_items (cr_mem c)) \<and> rm_size (cr_mem c') = rm_size (cr_mem c)"
proof -
  let ?m = "cr_mem c"
  note D = cr_invD[OF inv]
  have le: "cr_local_tail c - rm_tail ?m \<le> cr_local_tail c - rm_head ?m"
    using D(5,6) by (simp add: word_le_nat_alt cr_pending_def)
  have "rm_tail ?m - rm_head ?m = (cr_local_tail c - rm_head ?m) - (cr_local_tail c - rm_tail ?m)"
    by simp
  then have n: "unat (rm_tail ?m - rm_head ?m) =
      unat (cr_local_tail c - rm_head ?m) - unat (cr_local_tail c - rm_tail ?m)"
    using unat_sub[OF le] by simp
  have z: "cr_local_tail c = rm_tail ?m" if "cr_completions_written c = 0"
    using D(5) that by (simp add: unat_eq_0)
  have c': "c' = c\<lparr> cr_mem := ?m\<lparr> rm_tail := cr_local_tail c \<rparr>, cr_completions_written := 0 \<rparr>"
    and nn: "n = cr_completions_written c"
    using flush z by (auto simp: cr_flush_def Let_def word_gt_0 split: if_splits)
  have "cr_inv c'"
    using D(1-4) by (auto simp: cr_inv_def c' cr_pending_def)
  moreover have "unat n = length (cr_pending c) - length (ring_items ?m)"
    using D(5,6) n nn by (simp add: cr_pending_def length_ring_items)
  ultimately show ?thesis
    by (simp add: c' ring_items_def cr_pending_def)
qed

section \<open>Properties\<close>

text \<open>A ring of two slots, both holding the stale entry \<open>9\<close>.\<close>

definition ring2 :: "nat RingMem" where
  "ring2 = \<lparr> rm_magic = KSVC_RING_MAGIC, rm_size = 2, rm_mask = 1, rm_entry_size = 64, rm_head = 0,
     rm_tail = 0, rm_entries = [9, 9] \<rparr>"

lemma ring2_wf: "ring_wf ring2 \<and> rm_head ring2 = 0 \<and> rm_tail ring2 = 0"
  by (auto simp: ring_wf_def ring2_def intro: exI[of _ 1])

text \<open>
  C34: A header that passes the checks of \<open>from_mmap\<close>, with as many entries as it says, makes every
  index that producers and consumer compute lie inside the data region, for every 64-bit position.
\<close>

theorem from_mmap_in_bounds:
  assumes "from_mmap base_is_null m = Ok r" "length (rm_entries m) = unat (rm_size m)"
  shows "ring_wf r \<and> submit_index r pos < length (rm_entries r)"
  using from_mmap_wf[OF assms] ring_wf_size[of r] submit_index_mod[of r pos] by (auto simp: ring_wf_def)

theorem from_mmap_in_bounds_witness:
  "from_mmap False ring2 = Ok ring2 \<and> submit_index ring2 5 < length (rm_entries ring2)"
  using from_mmap_in_bounds[of False ring2 ring2 5] by (simp add: from_mmap_def ring2_def)

text \<open>
  C23: On one mapping the executor's reader takes as many entries as the submit ring's own \<open>dequeue_batch\<close>
  and leaves the same header and entries behind, but not the same entries: where that delivers the entry
  of slot \<open>j\<close>, the reader delivers the one of slot \<open>j - 63\<close>, or for \<open>j < 63\<close> a cell of the header page. In a
  ring of at most 63 slots it delivers no submitted entry at all.
\<close>

theorem reader_displaced:
  assumes "reader_synced r" "reader_dequeue_batch n mx r = (es, r')"
    and "m = mp_ring (sr_map r)" "dequeue_batch n mx m = (ds, m')"
  shows "mp_ring (sr_map r') = m' \<and> reader_synced r' \<and> length es = length ds \<and>
    (\<forall>k < length es. let j = submit_index m (rm_head m + of_nat k) in
       ds ! k = rm_entries m ! j \<and>
       es ! k = (if j < 63 then mp_gap (sr_map r) ! j else rm_entries m ! (j - 63))) \<and>
    (unat (rm_size m) \<le> 63 \<longrightarrow> set es \<subseteq> set (mp_gap (sr_map r)))"
proof -
  let ?c = "min (min (unat (rm_tail m - rm_head m)) mx) n"
  let ?j = "\<lambda>k. submit_index m (rm_head m + of_nat k)"
  have gap: "length (mp_gap (sr_map r)) = 63"
    using assms(1) by (simp add: reader_synced_def)
  have d: "es = map (\<lambda>k. cells_at_64 (sr_map r) ! ?j k) [0..<?c]"
    "mp_ring (sr_map r') = (if ?c > 0 then m\<lparr> rm_head := rm_head m + of_nat ?c \<rparr> else m)" "reader_synced r'"
    using reader_dequeue_cells[OF assms(1,2,3) refl] by simp_all
  have ds: "ds = map (\<lambda>k. rm_entries m ! ?j k) [0..<?c]"
    "m' = (if ?c > 0 then m\<lparr> rm_head := rm_head m + of_nat ?c \<rparr> else m)"
    using assms(4) by (auto simp: dequeue_batch_def Let_def)
  have cell: "cells_at_64 (sr_map r) ! j = (if j < 63 then mp_gap (sr_map r) ! j else rm_entries m ! (j - 63))" for j
    by (simp add: cells_at_64_def nth_append gap assms(3))
  have "x \<in> set (mp_gap (sr_map r))" if sz: "unat (rm_size m) \<le> 63" and x: "x \<in> set es" for x
  proof -
    obtain k where "x = cells_at_64 (sr_map r) ! ?j k"
      using x by (auto simp: d(1))
    moreover have "?j k < 63"
      using reader_index_submit(2)[OF assms(1)] sz order_less_le_trans unfolding assms(3) by blast
    ultimately show ?thesis
      using gap by (simp add: cell)
  qed
  then show ?thesis
    using d ds by (auto simp: Let_def cell)
qed

theorem reader_displaced_witness:
  "\<exists>r r'. SubmitReader_new \<lparr> mp_ring = ring2\<lparr> rm_tail := 1, rm_entries := [7, 9] \<rparr>, mp_gap = replicate 63 0 \<rparr> 2 = Some r \<and>
     reader_dequeue_batch 4 4 r = ([0], r') \<and>
     dequeue_batch 4 4 (ring2\<lparr> rm_tail := 1, rm_entries := [7, 9] \<rparr>) = ([7], mp_ring (sr_map r'))"
proof -
  let ?m = "ring2\<lparr> rm_tail := 1, rm_entries := [7, 9] \<rparr>"
  let ?r = "\<lparr> sr_map = \<lparr> mp_ring = ?m, mp_gap = replicate 63 0 \<rparr>, sr_size = 2, sr_mask = 1, sr_local_head = 0 \<rparr>"
  obtain es r' where d: "reader_dequeue_batch 4 4 ?r = (es, r')"
    by fastforce
  have s: "reader_synced ?r"
    using ring2_wf by (simp add: reader_synced_def ring2_def ring_wf_def)
  have ds: "dequeue_batch 4 4 ?m = ([7], ?m\<lparr> rm_head := 1 \<rparr>)"
    by (simp add: dequeue_batch_def ring2_def submit_index_def)
  have "length es = 1" "set es \<subseteq> {0}" "mp_ring (sr_map r') = ?m\<lparr> rm_head := 1 \<rparr>"
    using reader_displaced[OF s d, of ?m "[7]"] ds by (simp_all add: ring2_def)
  moreover from this have "es = [0]"
    by (cases es) auto
  moreover have "SubmitReader_new \<lparr> mp_ring = ?m, mp_gap = replicate 63 0 \<rparr> 2 = Some ?r"
    by (simp add: SubmitReader_new_def is_power_of_two_def ring2_def upt_rec numeral_eq_Suc bit_simps)
  ultimately show ?thesis
    using d ds by (intro exI[of _ ?r] exI[of _ r']) simp
qed

subsection \<open>The completion sink\<close>

datatype sink_op = SinkPush CorrId i64 u32 | SinkBatch "CompletionEntry list" | SinkFlush "(KsvcError, unit) result"

fun sink_do :: "sink_op \<Rightarrow> RingCompletionSink \<Rightarrow> RingCompletionSink" where
  "sink_do (SinkPush i res fl) k = snd (sink_push i res fl k)"
| "sink_do (SinkBatch es) k = snd (sink_push_batch es k)"
| "sink_do (SinkFlush answer) k = snd (sink_flush_and_notify answer k)"

definition sink_stuck :: "CompletionEntry RingMem \<Rightarrow> RingCompletionSink \<Rightarrow> bool" where
  "sink_stuck m k \<longleftrightarrow> rm_tail (rs_mem k) = rm_tail m \<and> rm_head (rs_mem k) = rm_head m \<and>
     rs_local_tail k = rm_tail m \<and> rs_buffered k = 0 \<and> rs_notified k = 0"

lemma sink_push_stuck: "sink_stuck m k \<Longrightarrow> sink_stuck m (snd (sink_push i res fl k))"
  by (simp add: sink_push_def sink_stuck_def Let_def)

lemma sink_push_batch_stuck: "sink_stuck m k \<Longrightarrow> sink_stuck m (snd (sink_push_batch es k))"
proof (induction es arbitrary: k)
  case (Cons e es)
  have "sink_stuck m (snd (sink_push (ce_corr_id e) (ce_result e) (ce_flags e) k))"
    using Cons.prems by (rule sink_push_stuck)
  with Cons.IH show ?case
    by (force split: prod.splits sum.splits)
qed simp

lemma sink_flush_stuck: "sink_stuck m k \<Longrightarrow> sink_stuck m (snd (sink_flush_and_notify answer k))"
  by (simp add: sink_flush_and_notify_def sink_stuck_def Let_def)

lemma sink_do_stuck: "sink_stuck m k \<Longrightarrow> sink_stuck m (sink_do op k)"
  by (cases op) (auto simp: sink_push_stuck sink_push_batch_stuck sink_flush_stuck)

text \<open>
  Whatever is pushed to a \<open>RingCompletionSink\<close> and however often it is flushed, the published tail
  never moves and the notifier is never called: no completion becomes visible.
\<close>

theorem sink_never_publishes:
  assumes "RingCompletionSink_new m n = Some k"
  shows "rm_tail (rs_mem (fold sink_do ops k)) = rm_tail m \<and> rs_notified (fold sink_do ops k) = 0"
proof -
  have "sink_stuck m k"
    using assms by (auto simp: RingCompletionSink_new_def sink_stuck_def split: if_splits)
  then have "sink_stuck m (fold sink_do ops k)"
    by (induction ops arbitrary: k) (auto simp: sink_do_stuck)
  then show ?thesis
    by (simp add: sink_stuck_def)
qed

definition comp_ring2 :: "CompletionEntry RingMem" where
  "comp_ring2 = \<lparr> rm_magic = KSVC_RING_MAGIC, rm_size = 2, rm_mask = 1, rm_entry_size = 32, rm_head = 0,
     rm_tail = 0, rm_entries = replicate 2 \<lparr> ce_corr_id = CorrId_NONE, ce_result = 0, ce_flags = 0 \<rparr> \<rparr>"

theorem sink_never_publishes_witness:
  "\<exists>k. RingCompletionSink_new comp_ring2 2 = Some k \<and> fst (sink_push 5 42 0 k) = Ok () \<and>
     rm_tail (rs_mem (fold sink_do [SinkPush 5 42 0, SinkFlush (Ok ())] k)) = 0"
proof -
  obtain k where k: "RingCompletionSink_new comp_ring2 2 = Some k"
    by (simp add: RingCompletionSink_new_def is_power_of_two_def upt_rec numeral_eq_Suc bit_simps)
  then have "fst (sink_push 5 42 0 k) = Ok ()"
    by (auto simp: RingCompletionSink_new_def sink_push_def sink_available_def comp_ring2_def Let_def split: if_splits)
  then show ?thesis
    using k sink_never_publishes[OF k, of "[SinkPush 5 42 0, SinkFlush (Ok ())]"] by (auto simp: comp_ring2_def)
qed

end
