(* ===== verification/Ring_Steps.thy ===== *)
theory Ring_Steps
  imports Ksvc_Rings
begin

text \<open>
  The submit ring under concurrency: any number of producers inside \<open>SubmitRing::try_push\<close>
  (\<open>ksvc-module/src/submit_ring.rs\<close>) and the one consumer, interleaved at their accesses of the shared
  memory. The first half bounds the counters and shows what the consumer receives; the second half
  exhibits the two schedules in which the ring loses an entry or reports itself full while empty.
\<close>

unbundle bit_operations_syntax

section \<open>Producers and consumer interleaved\<close>

text \<open>
  Where a producer stands inside \<open>try_push\<close>: the tail it loaded, the check it passed, the slot it
  claimed. Each is one atomic access of the shared memory. \<open>ry_claimed\<close> lists the entries in the
  order of their compare-and-exchange, \<open>ry_out\<close> what the consumer has read.
\<close>

datatype 'e push_pc = PIdle | PStart 'e | PTail 'e u64 | PRoom 'e u64 | PClaimed 'e u64

record 'e RingSys =
  ry_mem :: "'e RingMem"
  ry_pc :: "nat \<Rightarrow> 'e push_pc"
  ry_claimed :: "'e list"
  ry_out :: "'e list"

text \<open>
  The argument restricts the schedule: it holds in the states in which the consumer may run. The
  code imposes nothing, \<open>\<lambda>_. True\<close>.
\<close>

inductive ring_step :: "('e RingSys \<Rightarrow> bool) \<Rightarrow> 'e RingSys \<Rightarrow> 'e RingSys \<Rightarrow> bool" for G where
  call: "ry_pc s p = PIdle \<Longrightarrow> ring_step G s (s\<lparr> ry_pc := (ry_pc s)(p := PStart e) \<rparr>)"
| load_tail: "ry_pc s p = PStart e \<Longrightarrow>
    ring_step G s (s\<lparr> ry_pc := (ry_pc s)(p := PTail e (rm_tail (ry_mem s))) \<rparr>)"
| full: "ry_pc s p = PTail e t \<Longrightarrow> t - rm_head (ry_mem s) \<ge> ucast (rm_size (ry_mem s)) \<Longrightarrow>
    ring_step G s (s\<lparr> ry_pc := (ry_pc s)(p := PIdle) \<rparr>)"
| room: "ry_pc s p = PTail e t \<Longrightarrow> t - rm_head (ry_mem s) < ucast (rm_size (ry_mem s)) \<Longrightarrow>
    ring_step G s (s\<lparr> ry_pc := (ry_pc s)(p := PRoom e t) \<rparr>)"
| cas_ok: "ry_pc s p = PRoom e t \<Longrightarrow> rm_tail (ry_mem s) = t \<Longrightarrow>
    ring_step G s (s\<lparr> ry_mem := (ry_mem s)\<lparr> rm_tail := t + 1 \<rparr>,
      ry_pc := (ry_pc s)(p := PClaimed e t), ry_claimed := ry_claimed s @ [e] \<rparr>)"
| cas_fail: "ry_pc s p = PRoom e t \<Longrightarrow>
    ring_step G s (s\<lparr> ry_pc := (ry_pc s)(p := PStart e) \<rparr>)"
| write_entry: "ry_pc s p = PClaimed e t \<Longrightarrow>
    ring_step G s (s\<lparr> ry_mem := (ry_mem s)\<lparr> rm_entries := (rm_entries (ry_mem s))[submit_index (ry_mem s) t := e] \<rparr>,
      ry_pc := (ry_pc s)(p := PIdle) \<rparr>)"
| dequeue: "G s \<Longrightarrow> dequeue_batch n mx (ry_mem s) = (es, m') \<Longrightarrow>
    ring_step G s (s\<lparr> ry_mem := m', ry_out := ry_out s @ es \<rparr>)"

text \<open>No producer is between its compare-and-exchange and its write.\<close>

definition no_pending :: "'e RingSys \<Rightarrow> bool" where
  "no_pending s \<longleftrightarrow> (\<forall>p e t. ry_pc s p \<noteq> PClaimed e t)"

definition ring_start :: "'e RingMem \<Rightarrow> 'e RingSys" where
  "ring_start m = \<lparr> ry_mem = m, ry_pc = (\<lambda>_. PIdle), ry_claimed = [], ry_out = [] \<rparr>"

text \<open>
  Positions as natural numbers, for a ring that starts at zero and has seen fewer than \<open>2 ^ 64\<close>
  claims: \<open>n\<close> claims, of which the consumer has read \<open>h\<close>.
\<close>

fun pc_ok :: "'e list \<Rightarrow> nat \<Rightarrow> 'e push_pc \<Rightarrow> bool" where
  "pc_ok cl b (PTail e t) = (unat t \<le> length cl)"
| "pc_ok cl b (PRoom e t) = (unat t \<le> length cl \<and> unat t < b)"
| "pc_ok cl b (PClaimed e t) = (unat t < length cl \<and> cl ! unat t = e)"
| "pc_ok cl b _ = True"

definition ring_ctr :: "'e RingSys \<Rightarrow> bool" where
  "ring_ctr s \<longleftrightarrow> ring_wf (ry_mem s) \<and>
     unat (rm_tail (ry_mem s)) = length (ry_claimed s) \<and>
     unat (rm_head (ry_mem s)) = length (ry_out s) \<and>
     length (ry_out s) \<le> length (ry_claimed s) \<and>
     length (ry_claimed s) \<le> length (ry_out s) + unat (rm_size (ry_mem s)) \<and>
     (\<forall>p. pc_ok (ry_claimed s) (length (ry_out s) + unat (rm_size (ry_mem s))) (ry_pc s p))"

text \<open>No two producers hold the same position.\<close>

definition claims_apart :: "'e RingSys \<Rightarrow> bool" where
  "claims_apart s \<longleftrightarrow>
     (\<forall>p q e f t. ry_pc s p = PClaimed e t \<longrightarrow> ry_pc s q = PClaimed f t \<longrightarrow> p = q)"

lemma pc_ok_mono: "pc_ok cl b pc \<Longrightarrow> b \<le> b' \<Longrightarrow> pc_ok (cl @ xs) b' pc"
  by (cases pc) (auto simp: nth_append)

lemma ring_ctrD:
  assumes "ring_ctr s"
  shows "ring_wf (ry_mem s)" "unat (rm_tail (ry_mem s)) = length (ry_claimed s)"
    "unat (rm_head (ry_mem s)) = length (ry_out s)" "length (ry_out s) \<le> length (ry_claimed s)"
    "length (ry_claimed s) \<le> length (ry_out s) + unat (rm_size (ry_mem s))"
    "pc_ok (ry_claimed s) (length (ry_out s) + unat (rm_size (ry_mem s))) (ry_pc s p)"
  using assms by (auto simp: ring_ctr_def)

lemma ring_ctr_pc:
  assumes "ring_ctr s" "pc_ok (ry_claimed s) (length (ry_out s) + unat (rm_size (ry_mem s))) c"
  shows "ring_ctr (s\<lparr> ry_pc := (ry_pc s)(p := c) \<rparr>)"
  using assms by (simp add: ring_ctr_def)

lemma unat_diff_lt:
  assumes "(t :: u64) - h < x" "unat h \<le> b"
  shows "unat t < b + unat x"
proof (cases "h \<le> t")
  case True
  then show ?thesis
    using assms by (simp add: word_less_nat_alt unat_sub word_le_nat_alt)
next
  case False
  then show ?thesis
    using assms by (simp add: word_less_nat_alt word_le_nat_alt)
qed

lemma dequeue_count:
  assumes wf: "ring_ctr s" and deq: "dequeue_batch n mx (ry_mem s) = (es, m')"
  shows "length es \<le> length (ry_claimed s) - length (ry_out s) \<and>
    m' = (ry_mem s)\<lparr> rm_head := rm_head (ry_mem s) + of_nat (length es) \<rparr> \<and>
    unat (rm_head m') = length (ry_out s) + length es \<and>
    es = map (\<lambda>i. rm_entries (ry_mem s) ! (i mod unat (rm_size (ry_mem s))))
          [length (ry_out s)..<length (ry_out s) + length es]"
proof -
  note D = ring_ctrD[OF wf]
  let ?m = "ry_mem s"
  have "unat (rm_tail ?m - rm_head ?m) = length (ry_claimed s) - length (ry_out s)"
    using D(2-4) by (simp add: unat_sub word_le_nat_alt)
  then have es: "es = map (\<lambda>i. rm_entries ?m ! ((length (ry_out s) + i) mod unat (rm_size ?m))) [0..<length es]"
    and le: "length es \<le> length (ry_claimed s) - length (ry_out s)"
    and m': "m' = ?m\<lparr> rm_head := rm_head ?m + of_nat (length es) \<rparr>"
    using deq by (auto simp: dequeue_batch_def Let_def submit_index_mod[OF D(1)] pos_mod[OF D(1)] D(3))
  have "length (ry_claimed s) < 2 ^ 64"
    using D(2) unsigned_less[of "rm_tail ?m", where 'a = nat] by simp
  then have "unat (rm_head m') = length (ry_out s) + length es"
    using D(3,4) le by (simp add: m' unat_word_ariths unat_of_nat_lt)
  moreover have "map (\<lambda>i. rm_entries ?m ! ((length (ry_out s) + i) mod unat (rm_size ?m))) [0..<length es] =
      map (\<lambda>i. rm_entries ?m ! (i mod unat (rm_size ?m))) [length (ry_out s)..<length (ry_out s) + length es]"
    by (rule nth_equalityI) auto
  ultimately show ?thesis
    using es le m' by metis
qed

lemma ring_ctr_step:
  assumes "ring_step G s s'" "ring_ctr s" "length (ry_claimed s') < 2 ^ 64"
  shows "ring_ctr s'"
  using assms
proof (cases rule: ring_step.cases)
  case (room p e t)
  then show ?thesis
    using ring_ctrD[OF assms(2)] ring_ctrD(6)[OF assms(2), of p]
      unat_diff_lt[OF room(3), of "length (ry_out s)"] assms(2)
    by (auto intro!: ring_ctr_pc)
next
  case (cas_ok p e t)
  note D = ring_ctrD[OF assms(2)]
  have t: "unat t = length (ry_claimed s)" "unat t < length (ry_out s) + unat (rm_size (ry_mem s))"
    using D(2) D(6)[of p] cas_ok by auto
  have "unat (t + 1) = Suc (unat t)"
    using t assms(3) cas_ok by (simp add: unat_word_ariths)
  then show ?thesis
    using D t cas_ok(1) pc_ok_mono[OF D(6) order_refl] by (simp add: ring_ctr_def nth_append)
next
  case (dequeue n mx es m')
  note D = ring_ctrD[OF assms(2)]
  have c: "length es \<le> length (ry_claimed s) - length (ry_out s)" "ring_wf m'" "rm_tail m' = rm_tail (ry_mem s)"
    "rm_size m' = rm_size (ry_mem s)" "unat (rm_head m') = length (ry_out s) + length es"
    using dequeue_count[OF assms(2) dequeue(3)] D(1) by auto
  then show ?thesis
    using D(2-5) dequeue(1) pc_ok_mono[OF D(6), where xs = "[]"] by (simp add: ring_ctr_def)
qed (use ring_ctrD[OF assms(2)] assms(2) in \<open>auto intro!: ring_ctr_pc simp: ring_ctr_def\<close>)

lemma claims_apart_step:
  assumes "ring_step G s s'" "ring_ctr s" "claims_apart s"
  shows "claims_apart s'"
  using assms
proof (cases rule: ring_step.cases)
  case (cas_ok p e t)
  have "unat t = length (ry_claimed s)"
    using ring_ctrD(2)[OF assms(2)] cas_ok by simp
  then have "ry_pc s q \<noteq> PClaimed f t" for q f
    using ring_ctrD(6)[OF assms(2), of q] by auto
  then show ?thesis
    using assms(3) cas_ok(1) by (auto simp: claims_apart_def)
qed (auto simp: claims_apart_def)

lemma ring_claims_grow: "ring_step G s s' \<Longrightarrow> length (ry_claimed s) \<le> length (ry_claimed s')"
  by (induction rule: ring_step.induct) auto

lemma ring_ctr_start:
  assumes "ring_wf m" "rm_head m = 0" "rm_tail m = 0"
  shows "ring_ctr (ring_start m) \<and> claims_apart (ring_start m)"
  using assms by (simp add: ring_ctr_def claims_apart_def ring_start_def)

lemma ring_reach_ctr:
  assumes "(ring_step G)\<^sup>*\<^sup>* (ring_start m) s" "ring_wf m" "rm_head m = 0" "rm_tail m = 0"
    "length (ry_claimed s) < 2 ^ 64"
  shows "ring_ctr s \<and> claims_apart s"
  using assms(1,5)
proof (induction rule: rtranclp_induct)
  case base
  then show ?case
    using ring_ctr_start assms by blast
next
  case (step y z)
  then show ?case
    using ring_claims_grow[OF step(2)] ring_ctr_step[OF step(2)] claims_apart_step[OF step(2)] by auto
qed

subsection \<open>Delivery when no write is overtaken\<close>

definition pos_written :: "'e RingSys \<Rightarrow> nat \<Rightarrow> bool" where
  "pos_written s i \<longleftrightarrow> rm_entries (ry_mem s) ! (i mod unat (rm_size (ry_mem s))) = ry_claimed s ! i"

definition pos_pending :: "'e RingSys \<Rightarrow> nat \<Rightarrow> bool" where
  "pos_pending s i \<longleftrightarrow> (\<exists>p e t. ry_pc s p = PClaimed e t \<and> unat t = i)"

definition ring_log :: "'e RingSys \<Rightarrow> bool" where
  "ring_log s \<longleftrightarrow> ry_out s = take (length (ry_out s)) (ry_claimed s) \<and>
     (\<forall>i. length (ry_out s) \<le> i \<and> i < length (ry_claimed s) \<longrightarrow> pos_written s i \<or> pos_pending s i) \<and>
     (\<forall>i. pos_pending s i \<longrightarrow> length (ry_out s) \<le> i)"

lemma ring_logI:
  assumes "ry_out s = take (length (ry_out s)) (ry_claimed s)"
    and "\<And>i. length (ry_out s) \<le> i \<Longrightarrow> i < length (ry_claimed s) \<Longrightarrow> pos_written s i \<or> pos_pending s i"
    and "\<And>i. pos_pending s i \<Longrightarrow> length (ry_out s) \<le> i"
  shows "ring_log s"
  using assms by (auto simp: ring_log_def)

lemma ring_logD:
  assumes "ring_log s"
  shows "ry_out s = take (length (ry_out s)) (ry_claimed s)"
    and "length (ry_out s) \<le> i \<Longrightarrow> i < length (ry_claimed s) \<Longrightarrow> pos_written s i \<or> pos_pending s i"
    and "pos_pending s i \<Longrightarrow> length (ry_out s) \<le> i"
  using assms by (auto simp: ring_log_def)

lemma pos_pending_other:
  assumes "ry_pc s p = c" "\<forall>e t. c \<noteq> PClaimed e t" "\<forall>e t. c' \<noteq> PClaimed e t"
  shows "pos_pending (s\<lparr> ry_pc := (ry_pc s)(p := c') \<rparr>) i = pos_pending s i"
  using assms unfolding pos_pending_def by (auto split: if_splits) metis

lemma ring_log_pc:
  assumes "ring_log s" "ry_pc s p = c" "\<forall>e t. c \<noteq> PClaimed e t" "\<forall>e t. c' \<noteq> PClaimed e t"
  shows "ring_log (s\<lparr> ry_pc := (ry_pc s)(p := c') \<rparr>)"
  using assms(1) by (simp add: ring_log_def pos_pending_other[OF assms(2-4)] pos_written_def)

lemma ring_log_claim:
  assumes log: "ring_log s" and ctr: "ring_ctr s" and pc: "ry_pc s p = PRoom e (rm_tail (ry_mem s))"
  shows "ring_log (s\<lparr> ry_mem := (ry_mem s)\<lparr> rm_tail := t' \<rparr>,
      ry_pc := (ry_pc s)(p := PClaimed e (rm_tail (ry_mem s))), ry_claimed := ry_claimed s @ [e] \<rparr>)"
    (is "ring_log ?s'")
proof (rule ring_logI)
  note D = ring_ctrD[OF ctr] and L = ring_logD[OF log]
  have pend: "pos_pending ?s' i \<longleftrightarrow> i = length (ry_claimed s) \<or> pos_pending s i" for i
    using D(2) pc unfolding pos_pending_def by (auto split: if_splits) (metis push_pc.distinct)+
  show "ry_out ?s' = take (length (ry_out ?s')) (ry_claimed ?s')"
    using L(1) D(4) by simp
  show "pos_written ?s' i \<or> pos_pending ?s' i"
    if "length (ry_out ?s') \<le> i" "i < length (ry_claimed ?s')" for i
    using that L(2)[of i] pend[of i] by (auto simp: pos_written_def nth_append less_Suc_eq)
  show "length (ry_out ?s') \<le> i" if "pos_pending ?s' i" for i
    using that pend[of i] L(3)[of i] D(4) by auto
qed

lemma ring_log_write:
  assumes log: "ring_log s" and ctr: "ring_ctr s" and pc: "ry_pc s p = PClaimed e t"
  shows "ring_log (s\<lparr> ry_mem := (ry_mem s)\<lparr> rm_entries := (rm_entries (ry_mem s))[submit_index (ry_mem s) t := e] \<rparr>,
      ry_pc := (ry_pc s)(p := PIdle) \<rparr>)" (is "ring_log ?s'")
proof (rule ring_logI)
  note D = ring_ctrD[OF ctr] and L = ring_logD[OF log]
  let ?n = "unat (rm_size (ry_mem s))" and ?h = "length (ry_out s)"
  have pend: "pos_pending ?s' i \<Longrightarrow> pos_pending s i" for i
    unfolding pos_pending_def by (auto split: if_splits)
  have keep: "pos_pending s i \<Longrightarrow> i \<noteq> unat t \<Longrightarrow> pos_pending ?s' i" for i
    using pc unfolding pos_pending_def by (auto split: if_splits) (metis push_pc.inject(4))
  have t: "unat t < length (ry_claimed s)" "ry_claimed s ! unat t = e" "?h \<le> unat t"
    using D(6)[of p] pc L(3)[of "unat t"] by (auto simp: pos_pending_def)
  have len: "length (rm_entries (ry_mem s)) = ?n" "0 < ?n"
    using D(1) ring_wf_size[OF D(1)] by (auto simp: ring_wf_def)
  show "ry_out ?s' = take (length (ry_out ?s')) (ry_claimed ?s')"
    using L(1) by simp
  show "length (ry_out ?s') \<le> i" if "pos_pending ?s' i" for i
    using L(3)[OF pend[OF that]] by simp
  show "pos_written ?s' i \<or> pos_pending ?s' i"
    if "length (ry_out ?s') \<le> i" "i < length (ry_claimed ?s')" for i
  proof (cases "i = unat t")
    case True
    then show ?thesis
      using t(2) len by (simp add: pos_written_def submit_index_mod[OF D(1)])
  next
    case False
    have "(?h + (i - ?h)) mod ?n \<noteq> (?h + (unat t - ?h)) mod ?n"
      using that t D(5) False by (intro mod_positions_differ) auto
    then have "pos_written ?s' i = pos_written s i"
      using that t(3) by (simp add: pos_written_def submit_index_mod[OF D(1)])
    then show ?thesis
      using L(2)[of i] keep[of i] False that by auto
  qed
qed

lemma ring_log_dequeue:
  assumes log: "ring_log s" and ctr: "ring_ctr s" and idle: "no_pending s"
    and deq: "dequeue_batch n mx (ry_mem s) = (es, m')"
  shows "ring_log (s\<lparr> ry_mem := m', ry_out := ry_out s @ es \<rparr>)" (is "ring_log ?s'")
proof (rule ring_logI)
  note D = ring_ctrD[OF ctr] and L = ring_logD[OF log]
  let ?h = "length (ry_out s)"
  have le: "?h + length es \<le> length (ry_claimed s)"
    using dequeue_count[OF ctr deq] D(4) by linarith
  have m': "m' = (ry_mem s)\<lparr> rm_head := rm_head (ry_mem s) + of_nat (length es) \<rparr>"
    using dequeue_count[OF ctr deq] by blast
  have none: "\<not> pos_pending s i" for i
    using idle by (auto simp: no_pending_def pos_pending_def)
  then have w: "pos_written s i" if "?h \<le> i" "i < length (ry_claimed s)" for i
    using L(2)[OF that] by blast
  have "es = map (\<lambda>i. rm_entries (ry_mem s) ! (i mod unat (rm_size (ry_mem s)))) [?h..<?h + length es]"
    using dequeue_count[OF ctr deq] by blast
  also have "\<dots> = map (\<lambda>i. ry_claimed s ! i) [?h..<?h + length es]"
    using w le by (intro map_cong[OF refl]) (simp add: pos_written_def)
  also have "\<dots> = take (length es) (drop ?h (ry_claimed s))"
    using le by (intro nth_equalityI) auto
  finally have es: "es = take (length es) (drop ?h (ry_claimed s))" .
  have "take (?h + length es) (ry_claimed s) = ry_out s @ es"
    unfolding take_add L(1)[symmetric] es[symmetric] ..
  then show "ry_out ?s' = take (length (ry_out ?s')) (ry_claimed ?s')"
    by simp
  show "pos_written ?s' i \<or> pos_pending ?s' i"
    if "length (ry_out ?s') \<le> i" "i < length (ry_claimed ?s')" for i
    using w[of i] that by (auto simp: pos_written_def m')
  show "length (ry_out ?s') \<le> i" if "pos_pending ?s' i" for i
    using none[of i] that by (auto simp: pos_pending_def)
qed

lemma ring_log_step:
  assumes "ring_step no_pending s s'" "ring_ctr s" "ring_log s"
  shows "ring_log s'"
  using assms
proof (cases rule: ring_step.cases)
  case (cas_ok p e t)
  then show ?thesis
    using ring_log_claim[OF assms(3,2), of p e "t + 1"] by simp
next
  case (write_entry p e t)
  then show ?thesis
    using ring_log_write[OF assms(3,2)] by simp
next
  case (dequeue n mx es m')
  then show ?thesis
    using ring_log_dequeue[OF assms(3,2)] by simp
qed (auto intro!: ring_log_pc[OF assms(3)])

lemma ring_reach_log:
  assumes "(ring_step no_pending)\<^sup>*\<^sup>* (ring_start m) s" "ring_wf m" "rm_head m = 0" "rm_tail m = 0"
    "length (ry_claimed s) < 2 ^ 64"
  shows "ring_log s"
  using assms(1,5)
proof (induction rule: rtranclp_induct)
  case base
  then show ?case
    by (auto simp: ring_log_def ring_start_def pos_pending_def)
next
  case (step y z)
  then show ?case
    using ring_claims_grow[OF step(2)] ring_reach_ctr[OF step(1) assms(2-4)] ring_log_step[OF step(2)] by auto
qed

subsection \<open>Uninterrupted runs\<close>

lemma ring_claim_run:
  assumes "ry_pc s p = PIdle" "try_push e (ry_mem s) \<noteq> None"
  shows "(ring_step G)\<^sup>*\<^sup>* s (s\<lparr> ry_mem := (ry_mem s)\<lparr> rm_tail := rm_tail (ry_mem s) + 1 \<rparr>,
    ry_pc := (ry_pc s)(p := PClaimed e (rm_tail (ry_mem s))), ry_claimed := ry_claimed s @ [e] \<rparr>)"
proof -
  let ?t = "rm_tail (ry_mem s)"
  let ?s1 = "s\<lparr> ry_pc := (ry_pc s)(p := PStart e) \<rparr>"
  let ?s2 = "s\<lparr> ry_pc := (ry_pc s)(p := PTail e ?t) \<rparr>"
  let ?s3 = "s\<lparr> ry_pc := (ry_pc s)(p := PRoom e ?t) \<rparr>"
  have "?t - rm_head (ry_mem s) < ucast (rm_size (ry_mem s))"
    using assms(2) by (auto simp: try_push_def Let_def not_le split: if_splits)
  then have "ring_step G s ?s1" "ring_step G ?s1 ?s2" "ring_step G ?s2 ?s3"
    using ring_step.call[OF assms(1), of G e] ring_step.load_tail[of ?s1 p e G]
      ring_step.room[of ?s2 p e ?t G] by simp_all
  moreover have "ring_step G ?s3 (s\<lparr> ry_mem := (ry_mem s)\<lparr> rm_tail := ?t + 1 \<rparr>,
      ry_pc := (ry_pc s)(p := PClaimed e ?t), ry_claimed := ry_claimed s @ [e] \<rparr>)"
    using ring_step.cas_ok[of ?s3 p e ?t G] by simp
  ultimately show ?thesis
    by (meson rtranclp.rtrancl_into_rtrancl rtranclp.rtrancl_refl)
qed

text \<open>The five steps without another thread in between are the sequential \<open>try_push\<close>.\<close>

lemma ring_push_run:
  assumes "ry_pc s p = PIdle" "try_push e (ry_mem s) = Some m'"
  shows "(ring_step G)\<^sup>*\<^sup>* s (s\<lparr> ry_mem := m', ry_claimed := ry_claimed s @ [e] \<rparr>)"
proof -
  let ?t = "rm_tail (ry_mem s)"
  let ?c = "s\<lparr> ry_mem := (ry_mem s)\<lparr> rm_tail := ?t + 1 \<rparr>,
    ry_pc := (ry_pc s)(p := PClaimed e ?t), ry_claimed := ry_claimed s @ [e] \<rparr>"
  have "(ring_step G)\<^sup>*\<^sup>* s ?c"
    using assms by (intro ring_claim_run) auto
  moreover have "ring_step G ?c (s\<lparr> ry_mem := m', ry_claimed := ry_claimed s @ [e] \<rparr>)"
  proof -
    have m': "m' = (ry_mem s)\<lparr> rm_tail := ?t + 1, rm_entries := (rm_entries (ry_mem s))[submit_index (ry_mem s) ?t := e] \<rparr>"
      using assms(2) by (auto simp: try_push_def Let_def split: if_splits)
    let ?w = "?c\<lparr> ry_mem := (ry_mem ?c)\<lparr> rm_entries := (rm_entries (ry_mem ?c))[submit_index (ry_mem ?c) ?t := e] \<rparr>,
      ry_pc := (ry_pc ?c)(p := PIdle) \<rparr>"
    have "?w = s\<lparr> ry_mem := m', ry_claimed := ry_claimed s @ [e] \<rparr>"
      using assms(1) by (intro RingSys.equality) (simp_all add: m' submit_index_def fun_upd_idem)
    then show ?thesis
      using ring_step.write_entry[of ?c p e ?t G] by simp
  qed
  ultimately show ?thesis
    by (rule rtranclp.rtrancl_into_rtrancl)
qed

section \<open>Properties\<close>

text \<open>
  C15: Any number of producers and one consumer on a submit ring that starts empty, each shared access
  its own step, the consumer never running between a producer's compare-and-exchange and its write:
  what the consumer has read is exactly the first entries claimed, in the order of their claims.
\<close>

theorem submit_ring_delivers:
  assumes "(ring_step no_pending)\<^sup>*\<^sup>* (ring_start m) s"
    and "ring_wf m" "rm_head m = 0" "rm_tail m = 0" "length (ry_claimed s) < 2 ^ 64"
  shows "ry_out s = take (length (ry_out s)) (ry_claimed s)"
  by (rule ring_logD(1)[OF ring_reach_log[OF assms]])

text \<open>
  C29: Under every schedule of producers and consumer the submit ring never holds more entries than
  its size, and two producers that have claimed and not yet written hold different positions.
\<close>

theorem submit_ring_bounded:
  assumes "(ring_step (\<lambda>_. True))\<^sup>*\<^sup>* (ring_start m) s"
    and "ring_wf m" "rm_head m = 0" "rm_tail m = 0" "length (ry_claimed s) < 2 ^ 64"
  shows "ring_len (ry_mem s) \<le> unat (rm_size (ry_mem s)) \<and> claims_apart s"
proof -
  have r: "ring_ctr s" "claims_apart s"
    using ring_reach_ctr[OF assms] by auto
  then show ?thesis
    using ring_ctrD(2-5)[OF r(1)] by (simp add: ring_len_def unat_sub word_le_nat_alt)
qed

lemmas ring2_eval = ring2_def ring_start_def try_push_def dequeue_batch_def Let_def submit_index_def
  no_pending_def

definition ring2_out :: "nat RingSys" where
  "ring2_out = (ring_start ring2)\<lparr> ry_mem := ring2\<lparr> rm_tail := 1, rm_head := 1, rm_entries := [7, 9] \<rparr>,
     ry_claimed := [7], ry_out := [7] \<rparr>"

lemma ring2_run: "(ring_step no_pending)\<^sup>*\<^sup>* (ring_start ring2) ring2_out"
proof -
  let ?s = "(ring_start ring2)\<lparr> ry_mem := ring2\<lparr> rm_tail := 1, rm_entries := [7, 9] \<rparr>, ry_claimed := [7] \<rparr>"
  have "(ring_step no_pending)\<^sup>*\<^sup>* (ring_start ring2) ?s"
    using ring_push_run[of "ring_start ring2" 0 7 "ring2\<lparr> rm_tail := 1, rm_entries := [7, 9] \<rparr>" no_pending]
    by (simp add: ring2_eval)
  moreover have "ring_step no_pending ?s ring2_out"
    using ring_step.dequeue[of no_pending ?s 1 1] by (simp add: ring2_eval ring2_out_def)
  ultimately show ?thesis
    by (rule rtranclp.rtrancl_into_rtrancl)
qed

theorem submit_ring_delivers_witness:
  "(ring_step no_pending)\<^sup>*\<^sup>* (ring_start ring2) ring2_out \<and>
   ry_out ring2_out = take (length (ry_out ring2_out)) (ry_claimed ring2_out) \<and> ry_out ring2_out = [7]"
  using submit_ring_delivers[OF ring2_run] ring2_run ring2_wf by (simp add: ring2_out_def)

theorem submit_ring_bounded_witness:
  "ring_len (ry_mem (ring_start ring2)) \<le> unat (rm_size (ry_mem (ring_start ring2))) \<and>
   claims_apart (ring_start ring2)"
  using submit_ring_bounded[of ring2 "ring_start ring2"] ring2_wf by (simp add: ring_start_def)

text \<open>
  C30: The compare-and-exchange that claims a slot also publishes it: a run in which the consumer reads
  between the claim and the write of \<open>7\<close> receives the stale entry of the slot, and after the write
  the ring is empty, so \<open>7\<close> is lost.
\<close>

theorem ring_reads_unwritten:
  "\<exists>s. (ring_step (\<lambda>_. True))\<^sup>*\<^sup>* (ring_start ring2) s \<and> no_pending s \<and> ry_claimed s = [7] \<and> ry_out s = [9] \<and>
    ring_is_empty (ry_mem s)"
proof -
  let ?G = "\<lambda>_ :: nat RingSys. True"
  let ?c = "(ring_start ring2)\<lparr> ry_mem := ring2\<lparr> rm_tail := 1 \<rparr>,
    ry_pc := (\<lambda>_. PIdle)(0 := PClaimed 7 0), ry_claimed := [7] \<rparr>"
  let ?d = "?c\<lparr> ry_mem := ring2\<lparr> rm_tail := 1, rm_head := 1 \<rparr>, ry_out := [9] \<rparr>"
  let ?w = "?d\<lparr> ry_mem := ring2\<lparr> rm_tail := 1, rm_head := 1, rm_entries := [7, 9] \<rparr>, ry_pc := (\<lambda>_. PIdle) \<rparr>"
  have "(ring_step ?G)\<^sup>*\<^sup>* (ring_start ring2) ?c"
    using ring_claim_run[of "ring_start ring2" 0 7 ?G] by (simp add: ring2_eval)
  moreover have "ring_step ?G ?c ?d"
    using ring_step.dequeue[of ?G ?c 1 1] by (simp add: ring2_eval)
  moreover have "ring_step ?G ?d ?w"
    using ring_step.write_entry[of ?d 0 7 0 ?G] by (simp add: ring2_eval fun_upd_idem)
  ultimately have "(ring_step ?G)\<^sup>*\<^sup>* (ring_start ring2) ?w"
    by (meson rtranclp.rtrancl_into_rtrancl)
  then show ?thesis
    by (intro exI[of _ ?w]) (simp add: ring2_eval ring_is_empty_def)
qed

text \<open>
  A producer that loaded the tail before the others advanced can find the head beyond it: the
  difference wraps, and \<open>try_push\<close> reports a full ring while the ring is empty.
\<close>

lemma try_push_spurious_full:
  "\<exists>s. (ring_step (\<lambda>_. True))\<^sup>*\<^sup>* (ring_start ring2) s \<and> ring_is_empty (ry_mem s) \<and> ry_pc s 1 = PTail 8 0 \<and>
    ring_step (\<lambda>_. True) s (s\<lparr> ry_pc := (ry_pc s)(1 := PIdle) \<rparr>)"
proof -
  let ?G = "\<lambda>_ :: nat RingSys. True"
  let ?a = "(ring_start ring2)\<lparr> ry_pc := (\<lambda>_. PIdle)(1 := PStart 8) \<rparr>"
  let ?b = "(ring_start ring2)\<lparr> ry_pc := (\<lambda>_. PIdle)(1 := PTail 8 0) \<rparr>"
  let ?c = "?b\<lparr> ry_mem := ring2\<lparr> rm_tail := 1, rm_entries := [7, 9] \<rparr>, ry_claimed := [7] \<rparr>"
  let ?d = "?c\<lparr> ry_mem := ring2\<lparr> rm_tail := 1, rm_head := 1, rm_entries := [7, 9] \<rparr>, ry_out := [7] \<rparr>"
  have "ring_step ?G (ring_start ring2) ?a" "ring_step ?G ?a ?b"
    using ring_step.call[of "ring_start ring2" 1 ?G 8] ring_step.load_tail[of ?a 1 8 ?G]
    by (simp_all add: ring2_eval)
  moreover have "(ring_step ?G)\<^sup>*\<^sup>* ?b ?c"
    using ring_push_run[of ?b 0 7 "ring2\<lparr> rm_tail := 1, rm_entries := [7, 9] \<rparr>" ?G] by (simp add: ring2_eval)
  moreover have "ring_step ?G ?c ?d"
    using ring_step.dequeue[of ?G ?c 1 1] by (simp add: ring2_eval)
  ultimately have "(ring_step ?G)\<^sup>*\<^sup>* (ring_start ring2) ?d"
    by (meson converse_rtranclp_into_rtranclp rtranclp.rtrancl_into_rtrancl)
  moreover have "ring_step ?G ?d (?d\<lparr> ry_pc := (ry_pc ?d)(1 := PIdle) \<rparr>)"
    by (rule ring_step.full[of ?d 1 8 0]) (simp_all add: ring2_eval)
  ultimately show ?thesis
    by (intro exI[of _ ?d]) (simp add: ring2_eval ring_is_empty_def)
qed

end
