(* ===== verification/Router.thy ===== *)
theory Router
  imports Ksvc_Rings
begin

text \<open>
  Routing of system calls: the tiers and routing decisions of \<open>ksvc-core\<close> (\<open>tier.rs\<close>,
  \<open>router.rs\<close>) and the table that \<open>ksvc-module/src/probe_router.rs\<close> builds from the opcodes the
  running kernel supports. The theorems describe the table for every set of supported opcodes.
\<close>

section \<open>Tiers and routing decisions\<close>

datatype Tier = SharedPage | IoUring | WorkerPool | Legacy

record RouteInfo =
  tier :: Tier
  iouring_opcode :: u8

definition RouteInfo_LEGACY :: RouteInfo where
  "RouteInfo_LEGACY = \<lparr> tier = Legacy, iouring_opcode = 0 \<rparr>"

definition route_iouring :: "u8 \<Rightarrow> RouteInfo" where
  "route_iouring opcode = \<lparr> tier = IoUring, iouring_opcode = opcode \<rparr>"

definition route_worker :: RouteInfo where
  "route_worker = \<lparr> tier = WorkerPool, iouring_opcode = 0 \<rparr>"

definition route_shared_page :: RouteInfo where
  "route_shared_page = \<lparr> tier = SharedPage, iouring_opcode = 0 \<rparr>"

record TierCounts =
  tier0 :: usize
  tier1 :: usize
  tier2 :: usize
  tier3 :: usize

fun count_tier :: "Tier \<Rightarrow> TierCounts \<Rightarrow> TierCounts" where
  "count_tier SharedPage c = c\<lparr> tier0 := tier0 c + 1 \<rparr>"
| "count_tier IoUring c = c\<lparr> tier1 := tier1 c + 1 \<rparr>"
| "count_tier WorkerPool c = c\<lparr> tier2 := tier2 c + 1 \<rparr>"
| "count_tier Legacy c = c\<lparr> tier3 := tier3 c + 1 \<rparr>"

definition tier_counts :: "(u32 \<Rightarrow> RouteInfo) \<Rightarrow> usize \<Rightarrow> TierCounts" where
  "tier_counts route n =
     fold (\<lambda>i. count_tier (tier (route (of_nat i)))) [0..<n] \<lparr> tier0 = 0, tier1 = 0, tier2 = 0, tier3 = 0 \<rparr>"

section \<open>Opcodes and system call numbers\<close>

text \<open>The constants of \<open>mod op\<close> and \<open>mod nr\<close>, by name.\<close>

definition op_consts :: "(string \<times> u8) list" where
  "op_consts =
    [
     (''NOP'', 0), (''READV'', 1), (''WRITEV'', 2), (''FSYNC'', 3), (''READ_FIXED'', 4),
     (''WRITE_FIXED'', 5), (''POLL_ADD'', 6), (''POLL_REMOVE'', 7), (''SYNC_FILE_RANGE'', 8),
     (''SENDMSG'', 9), (''RECVMSG'', 10), (''TIMEOUT'', 11), (''TIMEOUT_REMOVE'', 12),
     (''ACCEPT'', 13), (''ASYNC_CANCEL'', 14), (''LINK_TIMEOUT'', 15), (''CONNECT'', 16),
     (''FALLOCATE'', 17), (''OPENAT'', 18), (''CLOSE'', 19), (''FILES_UPDATE'', 20), (''STATX'', 21),
     (''READ'', 22), (''WRITE'', 23), (''FADVISE'', 24), (''MADVISE'', 25), (''SEND'', 26),
     (''RECV'', 27), (''OPENAT2'', 28), (''EPOLL_CTL'', 29), (''SPLICE'', 30),
     (''PROVIDE_BUFFERS'', 31), (''REMOVE_BUFFERS'', 32), (''TEE'', 33), (''SHUTDOWN'', 34),
     (''RENAMEAT'', 35), (''UNLINKAT'', 36), (''MKDIRAT'', 37), (''SYMLINKAT'', 38), (''LINKAT'', 39),
     (''MSG_RING'', 40), (''FSETXATTR'', 41), (''SETXATTR'', 42), (''FGETXATTR'', 43),
     (''GETXATTR'', 44), (''SOCKET'', 45), (''URING_CMD'', 46), (''SEND_ZC'', 47),
     (''SENDMSG_ZC'', 48), (''WAITID'', 53), (''FUTEX_WAIT'', 54), (''FUTEX_WAKE'', 55),
     (''FUTEX_WAITV'', 56), (''FIXED_FD_INSTALL'', 57), (''FTRUNCATE'', 58), (''BIND'', 59),
     (''LISTEN'', 60)
    ]"

definition nr_consts :: "(string \<times> u32) list" where
  "nr_consts =
    [
     (''READ'', 0), (''WRITE'', 1), (''OPEN'', 2), (''CLOSE'', 3), (''STAT'', 4), (''FSTAT'', 5),
     (''LSTAT'', 6), (''POLL'', 7), (''LSEEK'', 8), (''MMAP'', 9), (''MPROTECT'', 10),
     (''MUNMAP'', 11), (''BRK'', 12), (''IOCTL'', 16), (''PREAD64'', 17), (''PWRITE64'', 18),
     (''READV'', 19), (''WRITEV'', 20), (''ACCESS'', 21), (''PIPE'', 22), (''DUP'', 32),
     (''DUP2'', 33), (''NANOSLEEP'', 35), (''GETPID'', 39), (''SOCKET'', 41), (''CONNECT'', 42),
     (''ACCEPT'', 43), (''SENDTO'', 44), (''RECVFROM'', 45), (''SENDMSG'', 46), (''RECVMSG'', 47),
     (''SHUTDOWN'', 48), (''BIND'', 49), (''LISTEN'', 50), (''GETSOCKNAME'', 51),
     (''GETPEERNAME'', 52), (''SETSOCKOPT'', 54), (''GETSOCKOPT'', 55), (''CLONE'', 56),
     (''FORK'', 57), (''VFORK'', 58), (''EXECVE'', 59), (''EXIT'', 60), (''WAIT4'', 61),
     (''KILL'', 62), (''UNAME'', 63), (''FCNTL'', 72), (''FLOCK'', 73), (''FSYNC'', 74),
     (''FDATASYNC'', 75), (''FTRUNCATE'', 77), (''GETDENTS'', 78), (''GETCWD'', 79), (''CHDIR'', 80),
     (''FCHDIR'', 81), (''RENAME'', 82), (''MKDIR'', 83), (''RMDIR'', 84), (''LINK'', 86),
     (''UNLINK'', 87), (''SYMLINK'', 88), (''READLINK'', 89), (''CHMOD'', 90), (''FCHMOD'', 91),
     (''CHOWN'', 92), (''FCHOWN'', 93), (''UMASK'', 95), (''GETUID'', 102), (''SYSLOG'', 103),
     (''GETGID'', 104), (''SETUID'', 105), (''SETGID'', 106), (''GETEUID'', 107), (''GETEGID'', 108),
     (''SETPGID'', 109), (''GETPPID'', 110), (''GETPGRP'', 111), (''SETSID'', 112),
     (''GETGROUPS'', 115), (''SIGALTSTACK'', 131), (''MLOCK'', 149), (''MUNLOCK'', 150),
     (''PRCTL'', 157), (''ARCH_PRCTL'', 158), (''SYNC_FILE_RANGE'', 277), (''SPLICE'', 275),
     (''TEE'', 276), (''FALLOCATE'', 285), (''ACCEPT4'', 288), (''DUP3'', 292), (''PIPE2'', 293),
     (''PREADV'', 295), (''PWRITEV'', 296), (''SENDMMSG'', 307), (''RENAMEAT2'', 316),
     (''GETRANDOM'', 318), (''STATX'', 332), (''CLONE3'', 435), (''OPENAT'', 257), (''MKDIRAT'', 258),
     (''FCHOWNAT'', 260), (''UNLINKAT'', 263), (''RENAMEAT'', 264), (''LINKAT'', 265),
     (''SYMLINKAT'', 266), (''READLINKAT'', 267), (''FCHMODAT'', 268), (''FACCESSAT'', 269),
     (''UTIMENSAT'', 280), (''OPENAT2'', 437), (''GETDENTS64'', 217), (''FADVISE64'', 221),
     (''MADVISE'', 28), (''GETSID'', 124), (''EXIT_GROUP'', 231), (''EPOLL_CTL'', 233),
     (''TGKILL'', 234), (''WAITID'', 247), (''FSETXATTR'', 190), (''FGETXATTR'', 193),
     (''SETXATTR'', 188), (''GETXATTR'', 191), (''SET_TID_ADDRESS'', 218), (''SET_ROBUST_LIST'', 273),
     (''GETRLIMIT'', 97), (''SETRLIMIT'', 160), (''PRLIMIT64'', 302)
    ]"

definition op :: "string \<Rightarrow> u8" where
  "op name = the (map_of op_consts name)"

definition nr :: "string \<Rightarrow> u32" where
  "nr name = the (map_of nr_consts name)"

section \<open>The probed table\<close>

definition TABLE_SIZE :: usize where
  "TABLE_SIZE = 512"

type_synonym ProbeRouter = "RouteInfo list"

definition tier0_calls :: "u32 list" where
  "tier0_calls =
    [
     nr ''GETPID'', nr ''GETPPID'', nr ''GETUID'', nr ''GETGID'', nr ''GETEUID'', nr ''GETEGID'',
     nr ''GETSID'', nr ''UNAME'', nr ''GETPGRP'', nr ''GETRLIMIT''
    ]"

definition tier1_candidates :: "(u32 \<times> u8 \<times> bool) list" where
  "tier1_candidates =
    [
     (nr ''READ'', op ''READ'', False), (nr ''WRITE'', op ''WRITE'', False),
     (nr ''PREAD64'', op ''READ'', False), (nr ''PWRITE64'', op ''WRITE'', False),
     (nr ''READV'', op ''READV'', False), (nr ''WRITEV'', op ''WRITEV'', False),
     (nr ''PREADV'', op ''READV'', False), (nr ''PWRITEV'', op ''WRITEV'', False),
     (nr ''OPENAT'', op ''OPENAT'', False), (nr ''OPENAT2'', op ''OPENAT2'', False),
     (nr ''CLOSE'', op ''CLOSE'', False), (nr ''STATX'', op ''STATX'', False),
     (nr ''FALLOCATE'', op ''FALLOCATE'', False), (nr ''FTRUNCATE'', op ''FTRUNCATE'', False),
     (nr ''FSYNC'', op ''FSYNC'', False), (nr ''FDATASYNC'', op ''FSYNC'', False),
     (nr ''SYNC_FILE_RANGE'', op ''SYNC_FILE_RANGE'', False),
     (nr ''RENAMEAT2'', op ''RENAMEAT'', False), (nr ''RENAMEAT'', op ''RENAMEAT'', False),
     (nr ''UNLINKAT'', op ''UNLINKAT'', False), (nr ''MKDIRAT'', op ''MKDIRAT'', False),
     (nr ''SYMLINKAT'', op ''SYMLINKAT'', False), (nr ''LINKAT'', op ''LINKAT'', False),
     (nr ''FADVISE64'', op ''FADVISE'', False), (nr ''MADVISE'', op ''MADVISE'', False),
     (nr ''SETXATTR'', op ''SETXATTR'', True), (nr ''GETXATTR'', op ''GETXATTR'', True),
     (nr ''FSETXATTR'', op ''FSETXATTR'', True), (nr ''FGETXATTR'', op ''FGETXATTR'', True),
     (nr ''ACCEPT4'', op ''ACCEPT'', False), (nr ''CONNECT'', op ''CONNECT'', False),
     (nr ''SENDTO'', op ''SEND'', False), (nr ''RECVFROM'', op ''RECV'', False),
     (nr ''SENDMSG'', op ''SENDMSG'', False), (nr ''RECVMSG'', op ''RECVMSG'', False),
     (nr ''SHUTDOWN'', op ''SHUTDOWN'', False), (nr ''SOCKET'', op ''SOCKET'', True),
     (nr ''BIND'', op ''BIND'', True), (nr ''LISTEN'', op ''LISTEN'', True),
     (nr ''SPLICE'', op ''SPLICE'', False), (nr ''TEE'', op ''TEE'', False),
     (nr ''WAITID'', op ''WAITID'', True), (nr ''EPOLL_CTL'', op ''EPOLL_CTL'', False)
    ]"

definition tier2_always :: "u32 list" where
  "tier2_always =
    [
     nr ''DUP'', nr ''DUP2'', nr ''DUP3'', nr ''FCNTL'', nr ''IOCTL'', nr ''LSEEK'', nr ''SETSOCKOPT'',
     nr ''GETSOCKOPT'', nr ''GETSOCKNAME'', nr ''GETPEERNAME'', nr ''GETDENTS64'', nr ''ACCESS'',
     nr ''FACCESSAT'', nr ''FCHMOD'', nr ''FCHMODAT'', nr ''FCHOWN'', nr ''FCHOWNAT'',
     nr ''UTIMENSAT'', nr ''FLOCK'', nr ''READLINKAT'', nr ''READLINK'', nr ''PIPE2'', nr ''GETCWD'',
     nr ''GETRANDOM''
    ]"

definition legacy_to_at :: "(u32 \<times> u32) list" where
  "legacy_to_at =
    [
     (nr ''OPEN'', nr ''OPENAT''), (nr ''RENAME'', nr ''RENAMEAT''), (nr ''UNLINK'', nr ''UNLINKAT''),
     (nr ''MKDIR'', nr ''MKDIRAT''), (nr ''SYMLINK'', nr ''SYMLINKAT''), (nr ''LINK'', nr ''LINKAT''),
     (nr ''RMDIR'', nr ''UNLINKAT'')
    ]"

definition set_route :: "u32 \<Rightarrow> RouteInfo \<Rightarrow> ProbeRouter \<Rightarrow> ProbeRouter" where
  "set_route s r t = t[unat s := r]"

definition get_route :: "u32 \<Rightarrow> ProbeRouter \<Rightarrow> RouteInfo" where
  "get_route s t = t ! unat s"

definition put_tier0 :: "ProbeRouter \<Rightarrow> ProbeRouter" where
  "put_tier0 = fold (\<lambda>s. set_route s route_shared_page) tier0_calls"

definition opcode_supported :: "u8 list \<Rightarrow> bool list" where
  "opcode_supported supported = fold (\<lambda>opc b. b[unat opc := True]) supported (replicate 256 False)"

fun put_candidate :: "bool list \<Rightarrow> u32 \<times> u8 \<times> bool \<Rightarrow> ProbeRouter \<Rightarrow> ProbeRouter" where
  "put_candidate ok (syscall_nr, opcode, tier2_fallback) t =
     (if ok ! unat opcode then set_route syscall_nr (route_iouring opcode) t
      else if tier2_fallback then set_route syscall_nr route_worker t
      else t)"

definition put_tier2 :: "u32 \<Rightarrow> ProbeRouter \<Rightarrow> ProbeRouter" where
  "put_tier2 s t = (if tier (get_route s t) = Legacy then set_route s route_worker t else t)"

fun put_alias :: "u32 \<times> u32 \<Rightarrow> ProbeRouter \<Rightarrow> ProbeRouter" where
  "put_alias (old, at_ver) t = set_route old (get_route at_ver t) t"

definition ProbeRouter_new :: "u8 list \<Rightarrow> ProbeRouter" where
  "ProbeRouter_new supported =
     (let t0 = put_tier0 (replicate TABLE_SIZE RouteInfo_LEGACY);
          t1 = fold (put_candidate (opcode_supported supported)) tier1_candidates t0;
          t2 = fold put_tier2 tier2_always t1;
          t3 = fold put_alias legacy_to_at t2
      in fold put_alias [(nr ''STAT'', nr ''STATX''), (nr ''FSTAT'', nr ''STATX''), (nr ''LSTAT'', nr ''STATX'')] t3)"

definition all_opcodes :: ProbeRouter where
  "all_opcodes = ProbeRouter_new (map of_nat [0..<81])"

definition kernel_6_8 :: ProbeRouter where
  "kernel_6_8 = ProbeRouter_new (map of_nat [0..<Suc (unat (op ''FTRUNCATE''))])"

definition route :: "ProbeRouter \<Rightarrow> u32 \<Rightarrow> RouteInfo" where
  "route t syscall_nr = (if unat syscall_nr < TABLE_SIZE then get_route syscall_nr t else RouteInfo_LEGACY)"

section \<open>Reading a table after the folds that fill it\<close>

lemma nth_update_unat:
  "unat (i :: 'a::len word) < length xs \<Longrightarrow> xs[unat j := v] ! unat i = (if i = j then v else xs ! unat i)"
  by (metis nth_list_update_eq nth_list_update_neq unsigned_word_eqI)

lemma get_set_route:
  "unat n < length t \<Longrightarrow> get_route n (set_route s r t) = (if n = s then r else get_route n t)"
  by (simp add: get_route_def set_route_def nth_update_unat)

lemma length_set_route [simp]: "length (set_route s r t) = length t"
  by (simp add: set_route_def)

lemma length_put_candidate [simp]: "length (put_candidate ok c t) = length t"
  by (cases c) simp

lemma length_put_tier2 [simp]: "length (put_tier2 s t) = length t"
  by (simp add: put_tier2_def)

lemma length_put_alias [simp]: "length (put_alias c t) = length t"
  by (cases c) simp

lemma length_fold: "(\<And>x t. length (f x t) = length t) \<Longrightarrow> length (fold f xs t) = length t"
  by (induction xs arbitrary: t) auto

lemma get_fold_const:
  "unat n < length t \<Longrightarrow>
    get_route n (fold (\<lambda>s. set_route s r) xs t) = (if n \<in> set xs then r else get_route n t)"
  by (induction xs arbitrary: t) (auto simp: get_set_route)

lemma get_fold_candidate:
  "unat n < length t \<Longrightarrow> distinct (map fst cs) \<Longrightarrow>
    get_route n (fold (put_candidate ok) cs t) =
      (case map_of cs n of None \<Rightarrow> get_route n t
       | Some (opcode, fb) \<Rightarrow>
           if ok ! unat opcode then route_iouring opcode else if fb then route_worker else get_route n t)"
proof (induction cs arbitrary: t)
  case (Cons c cs)
  obtain s opcode fb where c: "c = (s, opcode, fb)"
    by (cases c) auto
  have "map_of cs s = None"
    using Cons.prems(2) by (simp add: c map_of_eq_None_iff)
  then show ?case
    using Cons by (cases "n = s") (auto simp: c get_set_route split: option.splits)
qed simp

lemma get_fold_tier2:
  "unat n < length t \<Longrightarrow>
    get_route n (fold put_tier2 xs t) =
      (if n \<in> set xs \<and> tier (get_route n t) = Legacy then route_worker else get_route n t)"
  by (induction xs arbitrary: t) (auto simp: put_tier2_def get_set_route route_worker_def)

lemma get_fold_alias:
  assumes "unat n < length t" "distinct (map fst al)" "fst ` set al \<inter> snd ` set al = {}"
    "\<forall>x \<in> snd ` set al. unat x < length t"
  shows "get_route n (fold put_alias al t) = get_route (case map_of al n of None \<Rightarrow> n | Some m \<Rightarrow> m) t"
  using assms
proof (induction al arbitrary: t)
  case (Cons a al)
  obtain x y where a: "a = (x, y)"
    by (cases a) auto
  have *: "get_route n (fold put_alias al (put_alias a t)) =
      get_route (case map_of al n of None \<Rightarrow> n | Some m \<Rightarrow> m) (put_alias a t)"
    using Cons.prems by (intro Cons.IH) (auto simp: a)
  have "map_of al x = None"
    using Cons.prems(2) by (simp add: a map_of_eq_None_iff)
  moreover have "m \<noteq> x \<and> unat m < length t" if "map_of al n = Some m" for m
  proof -
    have "m \<in> snd ` set al"
      using map_of_SomeD[OF that] by force
    then show ?thesis
      using Cons.prems(3,4) by (auto simp: a)
  qed
  ultimately show ?case
    using * Cons.prems(1) by (auto simp: a get_set_route split: option.splits)
qed simp

lemma opcode_supported_nth: "opcode_supported supported ! unat opc \<longleftrightarrow> opc \<in> set supported"
proof -
  have "length b = 256 \<Longrightarrow> fold (\<lambda>opc b. b[unat opc := True]) xs b ! unat opc \<longleftrightarrow> b ! unat opc \<or> opc \<in> set xs"
    for xs :: "u8 list" and b
    using unsigned_less[of opc, where 'a = nat]
    by (induction xs arbitrary: b) (auto simp: nth_update_unat)
  then show ?thesis
    using unsigned_less[of opc, where 'a = nat] by (simp add: opcode_supported_def)
qed

section \<open>The table against its specification\<close>

definition stat_aliases :: "(u32 \<times> u32) list" where
  "stat_aliases = [(nr ''STAT'', nr ''STATX''), (nr ''FSTAT'', nr ''STATX''), (nr ''LSTAT'', nr ''STATX'')]"

text \<open>
  What the table means, read off one call at a time: the call a legacy call stands for, and its
  route by membership in the four lists.
\<close>

definition at_variant :: "u32 \<Rightarrow> u32" where
  "at_variant n = (case map_of (legacy_to_at @ stat_aliases) n of None \<Rightarrow> n | Some m \<Rightarrow> m)"

definition own_route :: "u8 set \<Rightarrow> u32 \<Rightarrow> RouteInfo" where
  "own_route S n =
     (case map_of tier1_candidates n of
        Some (opcode, fb) \<Rightarrow>
          if opcode \<in> S then route_iouring opcode else if fb then route_worker else RouteInfo_LEGACY
      | None \<Rightarrow>
          if n \<in> set tier0_calls then route_shared_page
          else if n \<in> set tier2_always then route_worker else RouteInfo_LEGACY)"

definition route_spec :: "u8 set \<Rightarrow> u32 \<Rightarrow> RouteInfo" where
  "route_spec S n = own_route S (at_variant n)"

lemma tier0_calls_eval: "tier0_calls =
    [
     39, 110, 102, 104, 107, 108, 124, 63, 111, 97
    ]"
  by code_simp

lemma tier1_candidates_eval: "tier1_candidates =
    [
     (0, 22, False), (1, 23, False), (17, 22, False), (18, 23, False), (19, 1, False), (20, 2, False),
     (295, 1, False), (296, 2, False), (257, 18, False), (437, 28, False), (3, 19, False),
     (332, 21, False), (285, 17, False), (77, 58, False), (74, 3, False), (75, 3, False),
     (277, 8, False), (316, 35, False), (264, 35, False), (263, 36, False), (258, 37, False),
     (266, 38, False), (265, 39, False), (221, 24, False), (28, 25, False), (188, 42, True),
     (191, 44, True), (190, 41, True), (193, 43, True), (288, 13, False), (42, 16, False),
     (44, 26, False), (45, 27, False), (46, 9, False), (47, 10, False), (48, 34, False),
     (41, 45, True), (49, 59, True), (50, 60, True), (275, 30, False), (276, 33, False),
     (247, 53, True), (233, 29, False)
    ]"
  by code_simp

lemma tier2_always_eval: "tier2_always =
    [
     32, 33, 292, 72, 16, 8, 54, 55, 51, 52, 217, 21, 269, 91, 268, 93, 260, 280, 73, 267, 89, 293, 79,
     318
    ]"
  by code_simp

lemma aliases_eval: "legacy_to_at @ stat_aliases =
    [
     (2, 257), (82, 264), (87, 263), (83, 258), (88, 266), (86, 265), (84, 263), (4, 332), (5, 332),
     (6, 332)
    ]"
  by code_simp

lemmas lists_eval = tier0_calls_eval tier1_candidates_eval tier2_always_eval aliases_eval

lemma candidates_distinct: "distinct (map fst tier1_candidates)"
  by (simp add: lists_eval)

lemma candidates_apart: "fst ` set tier1_candidates \<inter> (set tier0_calls \<union> set tier2_always) = {}"
  by (simp add: lists_eval)

lemma aliases_ok:
  "distinct (map fst (legacy_to_at @ stat_aliases))"
  "fst ` set (legacy_to_at @ stat_aliases) \<inter> snd ` set (legacy_to_at @ stat_aliases) = {}"
  "\<forall>n \<in> snd ` set (legacy_to_at @ stat_aliases). unat n < 512"
  by (simp_all only: lists_eval) simp_all

lemma calls_in_table:
  "\<forall>n \<in> set tier0_calls \<union> fst ` set tier1_candidates \<union> set tier2_always \<union>
     fst ` set (legacy_to_at @ stat_aliases). unat n < 512"
  by (simp only: lists_eval) simp

lemma tier0_tier2_apart: "set tier0_calls \<inter> set tier2_always = {}"
  by (simp add: lists_eval)

lemma tier_simps [simp]:
  "tier RouteInfo_LEGACY = Legacy" "tier route_worker = WorkerPool" "tier route_shared_page = SharedPage"
  "tier (route_iouring opcode) = IoUring" "iouring_opcode (route_iouring opcode) = opcode"
  by (simp_all add: RouteInfo_LEGACY_def route_worker_def route_shared_page_def route_iouring_def)

text \<open>The table before the aliases are copied.\<close>

lemma get_own_route:
  assumes "unat n < 512"
  shows "get_route n (fold put_tier2 tier2_always (fold (put_candidate (opcode_supported supported))
      tier1_candidates (put_tier0 (replicate TABLE_SIZE RouteInfo_LEGACY)))) = own_route (set supported) n"
proof -
  let ?l = "replicate TABLE_SIZE RouteInfo_LEGACY"
  have l: "unat n < length ?l"
    using assms by (simp add: TABLE_SIZE_def)
  have leg: "get_route n ?l = RouteInfo_LEGACY"
    using l by (simp add: get_route_def)
  have t0: "get_route n (put_tier0 ?l) = (if n \<in> set tier0_calls then route_shared_page else RouteInfo_LEGACY)"
    using get_fold_const[OF l] leg by (simp add: put_tier0_def)
  have len0: "length (put_tier0 ?l) = length ?l"
    by (simp add: put_tier0_def length_fold)
  then have len1: "unat n < length (fold (put_candidate ok) tier1_candidates (put_tier0 ?l))" for ok
    using l by (simp add: length_fold)
  have cand: "n \<notin> set tier0_calls \<and> n \<notin> set tier2_always" if "map_of tier1_candidates n = Some c" for c
    using map_of_SomeD[OF that] candidates_apart by force
  show ?thesis
    using get_fold_tier2[OF len1] get_fold_candidate[OF _ candidates_distinct] l len0 cand tier0_tier2_apart
    by (auto simp: t0 own_route_def opcode_supported_nth split: option.splits)
qed

lemma ProbeRouter_new_alias:
  "ProbeRouter_new supported = fold put_alias (legacy_to_at @ stat_aliases)
     (fold put_tier2 tier2_always (fold (put_candidate (opcode_supported supported))
      tier1_candidates (put_tier0 (replicate TABLE_SIZE RouteInfo_LEGACY))))"
  by (simp add: ProbeRouter_new_def Let_def stat_aliases_def)

lemma route_spec_elsewhere:
  assumes "n \<notin> set tier0_calls" "n \<notin> fst ` set tier1_candidates" "n \<notin> set tier2_always"
    "n \<notin> fst ` set (legacy_to_at @ stat_aliases)"
  shows "route_spec S n = RouteInfo_LEGACY"
proof -
  have "map_of (legacy_to_at @ stat_aliases) n = None" "map_of tier1_candidates n = None"
    using assms(2,4) unfolding map_of_eq_None_iff by blast+
  then show ?thesis
    using assms(1,3) by (simp add: route_spec_def own_route_def at_variant_def del: map_of_append)
qed

lemma route_by_spec: "route (ProbeRouter_new supported) n = route_spec (set supported) n"
proof (cases "unat n < 512")
  case True
  let ?t = "fold put_tier2 tier2_always (fold (put_candidate (opcode_supported supported))
      tier1_candidates (put_tier0 (replicate TABLE_SIZE RouteInfo_LEGACY)))"
  have len: "length ?t = 512"
    by (simp add: length_fold put_tier0_def TABLE_SIZE_def)
  have "unat (at_variant n) < 512"
    using True aliases_ok(3) by (force simp: at_variant_def dest: map_of_SomeD split: option.splits)
  then show ?thesis
    using True get_fold_alias[of n ?t, OF _ aliases_ok(1,2)] aliases_ok(3) len get_own_route
    by (simp add: route_def TABLE_SIZE_def ProbeRouter_new_alias route_spec_def at_variant_def del: fold_append)
next
  case False
  then have out: "n \<notin> set tier0_calls" "n \<notin> fst ` set tier1_candidates" "n \<notin> set tier2_always"
    "n \<notin> fst ` set (legacy_to_at @ stat_aliases)"
    using calls_in_table by blast+
  then show ?thesis
    using False route_spec_elsewhere[OF out] by (simp add: route_def TABLE_SIZE_def)
qed

text \<open>
  C22: For every list of supported opcodes and every system call number, the table built in four passes
  and then patched with aliases gives the route of the declarative specification: the call's
  \<open>at\<close> variant decides, an io\_uring candidate by its opcode being supported and its fallback, any
  other call by its list; numbers beyond the table are legacy.
\<close>

theorem route_equals_spec: "route (ProbeRouter_new supported) n = route_spec (set supported) n"
  by (rule route_by_spec)

text \<open>
  A kernel that supports more opcodes never loses a route: a call routed to io\_uring stays there
  with the same, supported opcode, a call routed to the worker pool stays there or moves to io\_uring,
  and shared-page calls are unaffected.
\<close>

theorem router_upgrade_monotone:
  assumes "set S \<subseteq> set S'"
  shows "case tier (route (ProbeRouter_new S) n) of
      SharedPage \<Rightarrow> tier (route (ProbeRouter_new S') n) = SharedPage
    | IoUring \<Rightarrow> route (ProbeRouter_new S') n = route (ProbeRouter_new S) n \<and>
        iouring_opcode (route (ProbeRouter_new S) n) \<in> set S
    | WorkerPool \<Rightarrow> tier (route (ProbeRouter_new S') n) \<in> {WorkerPool, IoUring}
    | Legacy \<Rightarrow> tier (route (ProbeRouter_new S') n) \<in> {Legacy, IoUring}"
  unfolding route_by_spec
  using assms by (auto simp: route_spec_def own_route_def split: option.splits prod.splits)

theorem router_upgrade_monotone_witness:
  "set ([19] :: u8 list) \<subseteq> set [19, 60] \<and> tier (route (ProbeRouter_new [19]) (nr ''LISTEN'')) = WorkerPool \<and>
   tier (route (ProbeRouter_new [19, 60]) (nr ''LISTEN'')) \<in> {WorkerPool, IoUring}"
proof -
  have "nr ''LISTEN'' = 50"
    by code_simp
  then have "tier (route (ProbeRouter_new [19]) (nr ''LISTEN'')) = WorkerPool"
    by (simp add: route_by_spec route_spec_def own_route_def at_variant_def lists_eval del: map_of_append)
  then show ?thesis
    using router_upgrade_monotone[of "[19]" "[19, 60]" "nr ''LISTEN''"] by simp
qed

text \<open>Calls that change the process itself are never taken over, whatever the kernel supports.\<close>

lemma process_calls_legacy:
  assumes "n \<in> set (map nr [''FORK'', ''VFORK'', ''CLONE'', ''CLONE3'', ''EXECVE'', ''EXIT'', ''EXIT_GROUP'', ''MMAP'', ''MUNMAP'', ''BRK''])"
  shows "route (ProbeRouter_new supported) n = RouteInfo_LEGACY"
proof -
  have "map nr [''FORK'', ''VFORK'', ''CLONE'', ''CLONE3'', ''EXECVE'', ''EXIT'', ''EXIT_GROUP'', ''MMAP'', ''MUNMAP'', ''BRK''] =
      [57, 58, 56, 435, 59, 60, 231, 9, 11, 12]"
    by code_simp
  with assms have n: "n \<in> set [57, 58, 56, 435, 59, 60, 231, 9, 11, 12]"
    by simp
  have "set [57, 58, 56, 435, 59, 60, 231, 9, 11, 12] \<inter>
      (set tier0_calls \<union> fst ` set tier1_candidates \<union> set tier2_always \<union> fst ` set (legacy_to_at @ stat_aliases)) = {}"
    by (simp only: lists_eval) simp
  then have "n \<notin> set tier0_calls" "n \<notin> fst ` set tier1_candidates" "n \<notin> set tier2_always"
    "n \<notin> fst ` set (legacy_to_at @ stat_aliases)"
    using n by blast+
  then show ?thesis
    unfolding route_by_spec by (rule route_spec_elsewhere)
qed

lemma tier_counts_total:
  "tier0 (tier_counts r n) + tier1 (tier_counts r n) + tier2 (tier_counts r n) + tier3 (tier_counts r n) = n"
proof -
  have "tier0 d + tier1 d + tier2 d + tier3 d = tier0 c + tier1 c + tier2 c + tier3 c + length xs"
    if "d = fold (\<lambda>i. count_tier (tier (r (of_nat i)))) xs c" for xs c d
    using that
  proof (induction xs arbitrary: c d)
    case (Cons x xs)
    then show ?case
      by (cases "tier (r (of_nat x))") fastforce+
  qed simp
  then show ?thesis
    by (simp add: tier_counts_def)
qed

end
