(* ===== verification/Io_Uring.thy ===== *)
theory Io_Uring
  imports Router
begin

text \<open>
  The default I/O backend \<open>ksvc-module/src/basic_iouring.rs\<close>: translation of submit entries to
  submission-queue entries, flushing, polling, cancelling and shutdown. The \<open>io_uring\<close> crate and the
  kernel behind it are parameters: a record of the operations the code calls on the ring. A
  submission-queue entry is the crate's typed builder call with its arguments.
\<close>

section \<open>Submission-queue entries\<close>

datatype sqe_op =
    OpRead i32 u64 u32 u64
  | OpWrite i32 u64 u32 u64
  | OpReadv i32 u64 u32 u64
  | OpWritev i32 u64 u32 u64
  | OpOpenAt i32 u64 i32 u32
  | OpClose i32
  | OpStatx i32 u64 u64 i32 u32
  | OpFallocate i32 (fa_len: u64) (fa_offset: u64) (fa_mode: i32)
  | OpFsync i32 bool
  | OpAccept i32 u64 u64 i32
  | OpConnect i32 u64 u32
  | OpSend i32 u64 u32 i32
  | OpRecv i32 u64 u32 i32
  | OpSendMsg i32 u64 u32
  | OpRecvMsg i32 u64 u32
  | OpShutdown i32 i32
  | OpSocket i32 i32 i32
  | OpRenameAt i32 u64 i32 u64 u32
  | OpUnlinkAt i32 u64 i32
  | OpMkDirAt i32 u64 u32
  | OpSymlinkAt i32 u64 u64
  | OpLinkAt i32 u64 i32 u64 i32
  | OpSplice i32 i64 i32 i64 u32 u32
  | OpAsyncCancel u64

record Sqe =
  sqe_op :: sqe_op
  sqe_user_data :: u64

text \<open>The arguments \<open>a[0]\<close> to \<open>a[5]\<close>; \<open>lo\<close> is a cast to 32 bits.\<close>

abbreviation lo :: "u64 \<Rightarrow> 32 word" where
  "lo x \<equiv> ucast x"

definition build_op :: "u32 \<Rightarrow> u64 list \<Rightarrow> u8 \<Rightarrow> sqe_op option" where
  "build_op syscall_nr a opcode =
     (let fd = lo (a ! 0) in
      if opcode = op ''READ'' then Some (OpRead fd (a ! 1) (lo (a ! 2)) (- 1))
      else if opcode = op ''WRITE'' then Some (OpWrite fd (a ! 1) (lo (a ! 2)) (- 1))
      else if opcode = op ''READV'' then Some (OpReadv fd (a ! 1) (lo (a ! 2)) (- 1))
      else if opcode = op ''WRITEV'' then Some (OpWritev fd (a ! 1) (lo (a ! 2)) (- 1))
      else if opcode = op ''OPENAT'' then Some (OpOpenAt (lo (a ! 0)) (a ! 1) (lo (a ! 2)) (lo (a ! 3)))
      else if opcode = op ''CLOSE'' then Some (OpClose fd)
      else if opcode = op ''STATX'' then Some (OpStatx (lo (a ! 0)) (a ! 1) (a ! 4) (lo (a ! 2)) (lo (a ! 3)))
      else if opcode = op ''FALLOCATE'' then Some (OpFallocate fd (a ! 2) (a ! 1) (lo (a ! 1)))
      else if opcode = op ''FSYNC'' then Some (OpFsync fd (syscall_nr = 75))
      else if opcode = op ''ACCEPT'' then Some (OpAccept fd (a ! 1) (a ! 2) (lo (a ! 3)))
      else if opcode = op ''CONNECT'' then Some (OpConnect fd (a ! 1) (lo (a ! 2)))
      else if opcode = op ''SEND'' then Some (OpSend fd (a ! 1) (lo (a ! 2)) (lo (a ! 3)))
      else if opcode = op ''RECV'' then Some (OpRecv fd (a ! 1) (lo (a ! 2)) (lo (a ! 3)))
      else if opcode = op ''SENDMSG'' then Some (OpSendMsg fd (a ! 1) (lo (a ! 2)))
      else if opcode = op ''RECVMSG'' then Some (OpRecvMsg fd (a ! 1) (lo (a ! 2)))
      else if opcode = op ''SHUTDOWN'' then Some (OpShutdown fd (lo (a ! 1)))
      else if opcode = op ''SOCKET'' then Some (OpSocket (lo (a ! 0)) (lo (a ! 1)) (lo (a ! 2)))
      else if opcode = op ''RENAMEAT'' then
        Some (OpRenameAt (lo (a ! 0)) (a ! 1) (lo (a ! 2)) (a ! 3) (lo (a ! 4)))
      else if opcode = op ''UNLINKAT'' then Some (OpUnlinkAt (lo (a ! 0)) (a ! 1) (lo (a ! 2)))
      else if opcode = op ''MKDIRAT'' then Some (OpMkDirAt (lo (a ! 0)) (a ! 1) (lo (a ! 2)))
      else if opcode = op ''SYMLINKAT'' then Some (OpSymlinkAt (lo (a ! 1)) (a ! 0) (a ! 2))
      else if opcode = op ''LINKAT'' then
        Some (OpLinkAt (lo (a ! 0)) (a ! 1) (lo (a ! 2)) (a ! 3) (lo (a ! 4)))
      else if opcode = op ''SPLICE'' then
        Some (OpSplice (lo (a ! 0)) (a ! 1) (lo (a ! 2)) (a ! 3) (lo (a ! 4)) (lo (a ! 5)))
      else None)"

definition build_sqe :: "SubmitEntry \<Rightarrow> u8 \<Rightarrow> (KsvcError, Sqe) result" where
  "build_sqe e opcode =
     (case build_op (sb_syscall_nr e) (sb_args e) opcode of
        None \<Rightarrow> Err (Unsupported (sb_syscall_nr e))
      | Some p \<Rightarrow> Ok \<lparr> sqe_op = p, sqe_user_data = sb_corr_id e \<rparr>)"

section \<open>The ring as a parameter\<close>

record Cqe =
  cqe_user_data :: u64
  cqe_result :: i32
  cqe_flags :: u32

text \<open>
  \<open>enter n\<close> is \<open>io_uring_enter\<close> with \<open>min_complete = n\<close>: the number of entries taken, or the error with
  its code when it has one. \<open>next_cqe\<close> is the completion queue's iterator,
     which consumes what it returns.
\<close>

record 'r Uring =
  is_full :: "'r \<Rightarrow> bool"
  push_sqe :: "Sqe \<Rightarrow> 'r \<Rightarrow> 'r option"
  enter :: "nat \<Rightarrow> 'r \<Rightarrow> (i32 option, nat) result \<times> 'r"
  next_cqe :: "'r \<Rightarrow> (Cqe \<times> 'r) option"
  probe :: "'r \<Rightarrow> (u8 \<Rightarrow> bool) option"

section \<open>BasicIoUring\<close>

record 'r BasicIoUring =
  ring :: 'r
  inflight :: usize
  pending_submit :: u32

record IoCompletion =
  ioc_corr_id :: CorrId
  ioc_result :: i64
  ioc_flags :: u32

definition BasicIoUring_new :: "(i32 option, 'r) result \<Rightarrow> (KsvcError, 'r BasicIoUring) result" where
  "BasicIoUring_new built =
     (case built of
        Inl e \<Rightarrow> Err (IoUringSetup (case e of None \<Rightarrow> - 1 | Some c \<Rightarrow> c))
      | Inr r \<Rightarrow> Ok \<lparr> ring = r, inflight = 0, pending_submit = 0 \<rparr>)"

definition probe_opcodes_static :: "'r Uring \<Rightarrow> 'r BasicIoUring \<Rightarrow> u8 list" where
  "probe_opcodes_static u b =
     (case probe u (ring b) of None \<Rightarrow> [] | Some sup_op \<Rightarrow> filter sup_op (map of_nat [0..<81]))"

definition translate_and_push ::
  "'r Uring \<Rightarrow> SubmitEntry \<Rightarrow> u8 \<Rightarrow> 'r BasicIoUring \<Rightarrow> (KsvcError, unit) result \<times> 'r BasicIoUring" where
  "translate_and_push u e opcode b =
     (if is_full u (ring b) then (Err RingFull, b)
      else case build_sqe e opcode of
             Inl err \<Rightarrow> (Err err, b)
           | Inr sqe \<Rightarrow>
               (case push_sqe u sqe (ring b) of
                  None \<Rightarrow> (Err RingFull, b)
                | Some r \<Rightarrow> (Ok (), b\<lparr> ring := r,
     pending_submit := pending_submit b + 1 \<rparr>)))"

definition submit_with_opcode ::
  "'r Uring \<Rightarrow> SubmitEntry \<Rightarrow> u8 \<Rightarrow> 'r BasicIoUring \<Rightarrow> (KsvcError, unit) result \<times> 'r BasicIoUring" where
  "submit_with_opcode u e opcode b = translate_and_push u e opcode b"

text \<open>The trait's \<open>submit\<close> has no opcode to work with.\<close>

definition iouring_submit ::
  "'r Uring \<Rightarrow> SubmitEntry \<Rightarrow> 'r BasicIoUring \<Rightarrow> (KsvcError,
     unit) result \<times> 'r BasicIoUring" where
  "iouring_submit u e b = (Err (Unsupported (sb_syscall_nr e)), b)"

definition enter_and_count ::
  "'r Uring \<Rightarrow> nat \<Rightarrow> 'r BasicIoUring \<Rightarrow> (KsvcError,
     nat) result \<times> 'r BasicIoUring" where
  "enter_and_count u n b =
     (case enter u n (ring b) of
        (Inl e, r) \<Rightarrow> (Err (IoUringSubmit (case e of None \<Rightarrow> - 1 | Some c \<Rightarrow> c)),
     b\<lparr> ring := r \<rparr>)
      | (Inr submitted, r) \<Rightarrow>
          (Ok submitted, b\<lparr> ring := r, inflight := inflight b + submitted, pending_submit := 0 \<rparr>))"

definition iouring_flush :: "'r Uring \<Rightarrow> 'r BasicIoUring \<Rightarrow> (KsvcError,
     nat) result \<times> 'r BasicIoUring" where
  "iouring_flush u b = (if pending_submit b = 0 then (Ok 0, b) else enter_and_count u 0 b)"

definition flush_and_wait ::
  "'r Uring \<Rightarrow> nat \<Rightarrow> 'r BasicIoUring \<Rightarrow> (KsvcError,
     nat) result \<times> 'r BasicIoUring" where
  "flush_and_wait u min_complete b = enter_and_count u min_complete b"

definition completion_of :: "Cqe \<Rightarrow> IoCompletion" where
  "completion_of c = \<lparr> ioc_corr_id = cqe_user_data c, ioc_result = scast (cqe_result c),
     ioc_flags = cqe_flags c \<rparr>"

text \<open>
  The \<open>for\<close> loop, by the room that is left: the iterator has already consumed the entry on which the
  room check breaks.
\<close>

fun poll_cqes :: "'r Uring \<Rightarrow> nat \<Rightarrow> 'r BasicIoUring \<Rightarrow> IoCompletion list \<times> 'r BasicIoUring" where
  "poll_cqes u 0 b = (case next_cqe u (ring b) of None \<Rightarrow> ([], b) | Some (_,
     r) \<Rightarrow> ([], b\<lparr> ring := r \<rparr>))"
| "poll_cqes u (Suc n) b =
     (case next_cqe u (ring b) of
        None \<Rightarrow> ([], b)
      | Some (c, r) \<Rightarrow>
          (case poll_cqes u n (b\<lparr> ring := r, inflight := inflight b - 1 \<rparr>) of
             (cs, b') \<Rightarrow> (completion_of c # cs, b')))"

definition iouring_poll_completions ::
  "'r Uring \<Rightarrow> nat \<Rightarrow> nat \<Rightarrow> 'r BasicIoUring \<Rightarrow> IoCompletion list \<times> 'r BasicIoUring" where
  "iouring_poll_completions u buf_len mx b = poll_cqes u (min mx buf_len) b"

definition iouring_cancel :: "'r Uring \<Rightarrow> CorrId \<Rightarrow> 'r BasicIoUring \<Rightarrow> (KsvcError, unit) result \<times> 'r BasicIoUring" where
  "iouring_cancel u corr_id b =
     (case push_sqe u \<lparr> sqe_op = OpAsyncCancel corr_id, sqe_user_data = - 2 \<rparr> (ring b) of
        None \<Rightarrow> (Err RingFull, b)
      | Some r \<Rightarrow> (Ok (), b\<lparr> ring := r, pending_submit := pending_submit b + 1 \<rparr>))"

text \<open>The drain of \<open>shutdown\<close>,
     at most \<open>fuel\<close> rounds; \<open>None\<close> when the ring keeps producing.\<close>

fun drain_cqes :: "nat \<Rightarrow> 'r Uring \<Rightarrow> 'r BasicIoUring \<Rightarrow> 'r BasicIoUring option" where
  "drain_cqes 0 u b = None"
| "drain_cqes (Suc fuel) u b =
     (case iouring_poll_completions u 64 64 b of
        (cs, b') \<Rightarrow> if cs = [] then Some b' else drain_cqes fuel u b')"

definition iouring_shutdown :: "nat \<Rightarrow> 'r Uring \<Rightarrow> 'r BasicIoUring \<Rightarrow> 'r BasicIoUring option" where
  "iouring_shutdown fuel u b =
     map_option (\<lambda>b'. b'\<lparr> inflight := 0, pending_submit := 0 \<rparr>) (drain_cqes fuel u b)"

section \<open>Which opcodes are translated\<close>

definition built_opcodes :: "string list" where
  "built_opcodes =
    [''READ'', ''WRITE'', ''READV'', ''WRITEV'', ''OPENAT'', ''CLOSE'', ''STATX'', ''FALLOCATE'',
     ''FSYNC'', ''ACCEPT'', ''CONNECT'', ''SEND'', ''RECV'', ''SENDMSG'', ''RECVMSG'', ''SHUTDOWN'',
     ''SOCKET'', ''RENAMEAT'', ''UNLINKAT'', ''MKDIRAT'', ''SYMLINKAT'', ''LINKAT'', ''SPLICE'']"

lemma op_values: "map op built_opcodes = [22, 23, 1, 2, 18, 19, 21, 17, 3, 13, 16, 26, 27, 9, 10, 34,
     45, 35, 36, 37, 38, 39, 30]"
  by code_simp

lemmas op_eval [simp] = op_values[unfolded built_opcodes_def, simplified]

lemma build_op_None: "build_op n a opcode = None \<longleftrightarrow> opcode \<notin> set (map op built_opcodes)"
  unfolding op_values by (simp add: build_op_def Let_def)

text \<open>System calls that the router can send to io\_uring and the backend cannot translate.\<close>

definition untranslated :: "string list" where
  "untranslated =
    [''OPENAT2'', ''FTRUNCATE'', ''SYNC_FILE_RANGE'', ''FADVISE64'', ''MADVISE'', ''SETXATTR'',
     ''GETXATTR'', ''FSETXATTR'', ''FGETXATTR'', ''BIND'', ''LISTEN'', ''TEE'', ''WAITID'', ''EPOLL_CTL'']"

lemma untranslated_nr: "map nr untranslated = [437, 77, 277, 221, 28, 188, 191, 190, 193, 49, 50, 276, 247, 233]"
  by code_simp

lemma candidates_translated:
  "list_all (\<lambda>(m, opcode, fb). opcode \<notin> set (map op built_opcodes) \<longleftrightarrow> m \<in> set (map nr untranslated)) tier1_candidates"
  unfolding op_values untranslated_nr lists_eval by simp

lemma candidate_translated:
  assumes "(m, opcode, fb) \<in> set tier1_candidates"
  shows "opcode \<notin> set (map op built_opcodes) \<longleftrightarrow> m \<in> set (map nr untranslated)"
  using bspec[OF candidates_translated[unfolded list_all_iff] assms] by simp

lemma untranslated_no_alias: "at_variant n \<in> set (map nr untranslated) \<longleftrightarrow> n \<in> set (map nr untranslated)"
proof -
  let ?al = "legacy_to_at @ stat_aliases" and ?u = "set (map nr untranslated)"
  have dis: "?u \<inter> fst ` set ?al = {}" "?u \<inter> snd ` set ?al = {}"
    unfolding untranslated_nr lists_eval by simp_all
  have apart: "x \<notin> ?u \<and> y \<notin> ?u" if "(x, y) \<in> set ?al" for x y
    using dis imageI[OF that, of fst] imageI[OF that, of snd]
    unfolding disjoint_iff fst_conv snd_conv by meson
  show ?thesis
  proof (cases "map_of ?al n")
    case None
    then have "at_variant n = n"
      unfolding at_variant_def by (simp only: option.case)
    then show ?thesis
      by (simp only:)
  next
    case (Some m)
    then have "at_variant n = m"
      unfolding at_variant_def by (simp only: option.case)
    then show ?thesis
      using apart[OF map_of_SomeD[OF Some]] by blast
  qed
qed

section \<open>What a poll consumes\<close>

text \<open>The completions a ring holds, in the order its iterator yields them.\<close>

fun cq_yields :: "'r Uring \<Rightarrow> 'r \<Rightarrow> Cqe list \<Rightarrow> bool" where
  "cq_yields u r [] = (next_cqe u r = None)"
| "cq_yields u r (c # cs) = (\<exists>r'. next_cqe u r = Some (c, r') \<and> cq_yields u r' cs)"

lemma poll_cqes_yields:
  assumes "cq_yields u (ring b) cs" "poll_cqes u n b = (out, b')"
  shows "out = map completion_of (take n cs) \<and> cq_yields u (ring b') (drop (Suc n) cs) \<and>
    inflight b' = inflight b - length out \<and> pending_submit b' = pending_submit b"
  using assms
proof (induction n arbitrary: b cs out)
  case 0
  then show ?case
    by (cases cs) auto
next
  case (Suc n)
  show ?case
  proof (cases cs)
    case Nil
    then show ?thesis
      using Suc.prems by auto
  next
    case (Cons c cs')
    then obtain r where r: "next_cqe u (ring b) = Some (c, r)" "cq_yields u r cs'"
      using Suc.prems(1) by auto
    obtain out' where o: "poll_cqes u n (b\<lparr> ring := r, inflight := inflight b - 1 \<rparr>) = (out', b')"
        "out = completion_of c # out'"
      using Suc.prems(2) r(1) by (auto split: prod.splits)
    show ?thesis
      using Suc.IH[OF _ o(1), of cs'] r(2) o(2) Cons by simp
  qed
qed

lemma drain_cqes_yields:
  assumes "cq_yields u (ring b) cs" "length cs < fuel"
  shows "\<exists>b'. drain_cqes fuel u b = Some b' \<and> cq_yields u (ring b') []"
  using assms
proof (induction fuel arbitrary: b cs)
  case (Suc fuel)
  obtain out b' where p: "iouring_poll_completions u 64 64 b = (out, b')"
    by fastforce
  then have p': "poll_cqes u 64 b = (out, b')"
    by (simp add: iouring_poll_completions_def)
  note y = poll_cqes_yields[OF Suc.prems(1) p']
  show ?case
  proof (cases "cs = []")
    case True
    then show ?thesis
      using y p by simp
  next
    case False
    then have "out \<noteq> []" "length (drop 65 cs) < fuel"
      using y Suc.prems(2) by (auto simp: neq_Nil_conv)
    then show ?thesis
      using Suc.IH[of b' "drop 65 cs"] y p by simp
  qed
qed simp

section \<open>Properties\<close>

text \<open>
  When the ring holds the completions \<open>cs\<close>, a poll with room for \<open>n\<close> returns the first \<open>n\<close> of them
  in order, and consumes one more: the completion after them is returned neither by this poll nor
  by a later one.
\<close>

theorem poll_consumes_one_too_many:
  assumes "cq_yields u (ring b) cs"
    and "iouring_poll_completions u buf_len mx b = (out, b')"
  shows "out = map completion_of (take (min mx buf_len) cs) \<and>
    cq_yields u (ring b') (drop (Suc (min mx buf_len)) cs) \<and>
    inflight b' = inflight b - length out"
  using poll_cqes_yields[OF assms(1)] assms(2) by (auto simp: iouring_poll_completions_def)

text \<open>A ring whose state is the pair of its queues; the kernel takes everything that was pushed.\<close>

definition list_ring :: "(Sqe list \<times> Cqe list) Uring" where
  "list_ring = \<lparr> is_full = (\<lambda>r. length (fst r) \<ge> 2), push_sqe = (\<lambda>s r. if length (fst r) \<ge> 2 then None else Some (fst r @ [s], snd r)),
     enter = (\<lambda>n r. (Ok (length (fst r)), ([], snd r))),
     next_cqe = (\<lambda>r. case snd r of [] \<Rightarrow> None | c # cs \<Rightarrow> Some (c, (fst r, cs))),
     probe = (\<lambda>r. Some (\<lambda>opc. opc \<le> 58)) \<rparr>"

lemma list_ring_yields: "cq_yields list_ring (sq, cs) cs"
  by (induction cs) (auto simp: list_ring_def)

definition cqe_for :: "u64 \<Rightarrow> Cqe" where
  "cqe_for n = \<lparr> cqe_user_data = n, cqe_result = 0, cqe_flags = 0 \<rparr>"

theorem poll_consumes_one_too_many_witness:
  "\<exists>out b'. iouring_poll_completions list_ring 2 2
      \<lparr> ring = ([], [cqe_for 1, cqe_for 2, cqe_for 3, cqe_for 4]), inflight = 4, pending_submit = 0 \<rparr> = (out, b') \<and>
     map ioc_corr_id out = [1, 2] \<and> cq_yields list_ring (ring b') [cqe_for 4]"
proof -
  let ?b = "\<lparr> ring = ([], [cqe_for 1, cqe_for 2, cqe_for 3, cqe_for 4]), inflight = 4, pending_submit = 0 \<rparr>"
  obtain out b' where p: "iouring_poll_completions list_ring 2 2 ?b = (out, b')"
    by fastforce
  have "cq_yields list_ring (ring ?b) [cqe_for 1, cqe_for 2, cqe_for 3, cqe_for 4]"
    unfolding BasicIoUring.simps by (rule list_ring_yields)
  from poll_consumes_one_too_many[OF this p] have
    "out = map completion_of [cqe_for 1, cqe_for 2]" "cq_yields list_ring (ring b') [cqe_for 4]"
    by (simp_all add: numeral_eq_Suc)
  then show ?thesis
    using p by (auto simp: completion_of_def cqe_for_def)
qed

text \<open>
  Shutdown of the backend returns once the ring's completions are finite, within one round per
  completion, and leaves the completion queue empty and the counters at zero.
\<close>

theorem shutdown_drains:
  assumes "cq_yields u (ring b) cs" "length cs < fuel"
  shows "\<exists>b'. iouring_shutdown fuel u b = Some b' \<and> next_cqe u (ring b') = None \<and> inflight b' = 0 \<and> pending_submit b' = 0"
  using drain_cqes_yields[OF assms] by (auto simp: iouring_shutdown_def)

theorem shutdown_drains_witness:
  "\<exists>b'. iouring_shutdown 3 list_ring \<lparr> ring = ([], [cqe_for 1, cqe_for 2]), inflight = 2, pending_submit = 1 \<rparr> = Some b' \<and>
     next_cqe list_ring (ring b') = None"
  using shutdown_drains[of list_ring "\<lparr> ring = ([], [cqe_for 1, cqe_for 2]), inflight = 2, pending_submit = 1 \<rparr>"
      "[cqe_for 1, cqe_for 2]" 3] list_ring_yields[of "[]" "[cqe_for 1, cqe_for 2]"] by auto

text \<open>
  C35: Of the calls the router sends to io\_uring, whatever the kernel supports, exactly the fourteen of
  \<open>untranslated\<close> are refused by the backend's translation.
\<close>

theorem routed_but_untranslated:
  assumes "tier (route (ProbeRouter_new supported) (sb_syscall_nr e)) = IoUring"
  shows "build_sqe e (iouring_opcode (route (ProbeRouter_new supported) (sb_syscall_nr e))) =
      Err (Unsupported (sb_syscall_nr e)) \<longleftrightarrow> sb_syscall_nr e \<in> set (map nr untranslated)"
proof -
  let ?n = "sb_syscall_nr e"
  obtain opcode fb where c: "map_of tier1_candidates (at_variant ?n) = Some (opcode, fb)"
    and r: "route (ProbeRouter_new supported) ?n = route_iouring opcode"
    using assms unfolding route_by_spec by (auto simp: route_spec_def own_route_def split: option.splits if_splits)
  have "build_sqe e opcode = Err (Unsupported ?n) \<longleftrightarrow> build_op ?n (sb_args e) opcode = None"
    by (simp add: build_sqe_def split: option.splits)
  also have "\<dots> \<longleftrightarrow> ?n \<in> set (map nr untranslated)"
    unfolding build_op_None candidate_translated[OF map_of_SomeD[OF c]] by (rule untranslated_no_alias)
  finally show ?thesis
    unfolding r by simp
qed

theorem routed_but_untranslated_witness:
  "\<exists>e. sb_syscall_nr e = nr ''FTRUNCATE'' \<and> build_sqe e (op ''FTRUNCATE'') = Err (Unsupported (nr ''FTRUNCATE''))"
proof -
  let ?e = "\<lparr> sb_corr_id = 1, sb_syscall_nr = 77, sb_flags = 0, sb_args = [3, 100, 0, 0, 0, 0] \<rparr>"
  have n: "nr ''FTRUNCATE'' = 77" "op ''FTRUNCATE'' = 58"
    by code_simp+
  have "route (ProbeRouter_new [58]) 77 = route_iouring 58"
    by (simp add: route_by_spec route_spec_def own_route_def at_variant_def lists_eval del: map_of_append)
  moreover have "(77 :: u32) \<in> set (map nr untranslated)"
    unfolding untranslated_nr by simp
  ultimately have "build_sqe ?e 58 = Err (Unsupported 77)"
    using routed_but_untranslated[of "[58]" ?e] by simp
  then show ?thesis
    unfolding n by (intro exI[of _ ?e]) simp
qed

text \<open>
  Three translations do not carry the call's arguments. A \<open>pread64\<close> becomes a read at the current
  position whatever its offset; a \<open>fallocate(fd, mode, offset, len)\<close> is queued with the mode as its
  offset and the offset as its length; and \<open>open(path, flags, mode)\<close>, routed as \<open>openat\<close>, takes its path
  pointer for a directory descriptor and its flags for the path.
\<close>

theorem translation_misreads:
  "build_op (nr ''PREAD64'') [fd, buf, len, off, 0, 0] (iouring_opcode (route_spec UNIV (nr ''PREAD64''))) =
     Some (OpRead (lo fd) buf (lo len) (- 1)) \<and>
   build_op (nr ''FALLOCATE'') [fd, mode, off, len, 0, 0] (iouring_opcode (route_spec UNIV (nr ''FALLOCATE''))) =
     Some (OpFallocate (lo fd) off mode (lo mode)) \<and>
   build_op (nr ''OPEN'') [path, flags, mode, 0, 0, 0] (iouring_opcode (route_spec UNIV (nr ''OPEN''))) =
     Some (OpOpenAt (lo path) flags (lo mode) 0)"
proof -
  have "map nr [''PREAD64'', ''FALLOCATE'', ''OPEN''] = [17, 285, 2]"
    by code_simp
  then have n: "nr ''PREAD64'' = 17" "nr ''FALLOCATE'' = 285" "nr ''OPEN'' = 2"
    by simp_all
  have "iouring_opcode (route_spec UNIV 17) = 22" "iouring_opcode (route_spec UNIV 285) = 17"
    "iouring_opcode (route_spec UNIV 2) = 18"
    by (simp_all add: route_spec_def own_route_def at_variant_def lists_eval del: map_of_append)
  then show ?thesis
    unfolding n by (simp add: build_op_def Let_def)
qed

end
