(* ===== verification/Dispatcher.thy ===== *)
theory Dispatcher
  imports Io_Uring
begin

text \<open>
  The dispatcher of \<open>ksvc-executor/src/lib.rs\<close>: one round drains the backends into the completion
  ring, takes a batch from the submit ring, routes it, and flushes. The backends are the traits of
  \<open>ksvc-core\<close> (\<open>io_backend.rs\<close>, \<open>worker.rs\<close>, \<open>notifier.rs\<close>) as records of operations over their own
  state; what other threads do between rounds is an input of the loop.
\<close>

section \<open>The traits\<close>

record WorkerCompletion =
  wkc_corr_id :: CorrId
  wkc_result :: i64

record 'b IoBackend =
  io_submit :: "SubmitEntry \<Rightarrow> 'b \<Rightarrow> (KsvcError, unit) result \<times> 'b"
  io_flush :: "'b \<Rightarrow> (KsvcError, nat) result \<times> 'b"
  io_poll :: "nat \<Rightarrow> nat \<Rightarrow> 'b \<Rightarrow> IoCompletion list \<times> 'b"

record 'w WorkerPool =
  wp_enqueue :: "SubmitEntry \<Rightarrow> 'w \<Rightarrow> (KsvcError, unit) result \<times> 'w"
  wp_poll :: "nat \<Rightarrow> nat \<Rightarrow> 'w \<Rightarrow> WorkerCompletion list \<times> 'w"
  wp_shutdown :: "'w \<Rightarrow> 'w"

text \<open>The documented contract of both \<open>poll_completions\<close>: at most \<open>max\<close> entries, and within the buffer.\<close>

locale bounded_poll =
  fixes poll :: "nat \<Rightarrow> nat \<Rightarrow> 's \<Rightarrow> 'c list \<times> 's"
  assumes poll_le: "length (fst (poll buf_len mx s)) \<le> min mx buf_len"
begin

lemma poll_fits: "poll n n s = (cs, s') \<Longrightarrow> length cs \<le> n"
  using poll_le[of n n s] by simp

end

section \<open>Configuration and state\<close>

record DispatcherConfig =
  max_batch :: usize
  max_io_completions :: usize
  max_worker_completions :: usize
  idle_sleep_us :: u64

definition DispatcherConfig_default :: DispatcherConfig where
  "DispatcherConfig_default =
     \<lparr> max_batch = 64, max_io_completions = 128, max_worker_completions = 64, idle_sleep_us = 100 \<rparr>"

text \<open>\<open>dp_notified\<close> counts the calls of the notifier, whose answer is ignored; \<open>dp_slept\<close> the idle sleeps.\<close>

record ('b, 'w) Dispatch =
  dp_submit :: "SubmitEntry SubmitReader"
  dp_comp :: CompletionRing
  dp_io :: 'b
  dp_pool :: 'w
  dp_notified :: nat
  dp_slept :: nat

section \<open>One round\<close>

text \<open>The result of \<open>push\<close> is not looked at.\<close>

definition push_comp :: "CompletionEntry \<Rightarrow> CompletionRing \<Rightarrow> CompletionRing" where
  "push_comp e c = snd (cr_push (ce_corr_id e) (ce_result e) (ce_flags e) c)"

definition comp_of_io :: "IoCompletion \<Rightarrow> CompletionEntry" where
  "comp_of_io c = \<lparr> ce_corr_id = ioc_corr_id c, ce_result = ioc_result c, ce_flags = ioc_flags c \<rparr>"

definition comp_of_worker :: "WorkerCompletion \<Rightarrow> CompletionEntry" where
  "comp_of_worker c = \<lparr> ce_corr_id = wkc_corr_id c, ce_result = wkc_result c, ce_flags = 0 \<rparr>"

definition answer :: "SubmitEntry \<Rightarrow> i64 \<Rightarrow> CompletionEntry" where
  "answer e res = \<lparr> ce_corr_id = sb_corr_id e, ce_result = res, ce_flags = 0 \<rparr>"

definition drain_io :: "DispatcherConfig \<Rightarrow> 'b IoBackend \<Rightarrow> ('b, 'w) Dispatch \<Rightarrow> nat \<times> ('b, 'w) Dispatch" where
  "drain_io cfg io d =
     (case io_poll io (max_io_completions cfg) (max_io_completions cfg) (dp_io d) of
        (cs, b) \<Rightarrow> (length cs, d\<lparr> dp_io := b, dp_comp := fold (push_comp \<circ> comp_of_io) cs (dp_comp d) \<rparr>))"

definition drain_worker :: "DispatcherConfig \<Rightarrow> 'w WorkerPool \<Rightarrow> ('b, 'w) Dispatch \<Rightarrow> nat \<times> ('b, 'w) Dispatch" where
  "drain_worker cfg wp d =
     (case wp_poll wp (max_worker_completions cfg) (max_worker_completions cfg) (dp_pool d) of
        (cs, w) \<Rightarrow> (length cs, d\<lparr> dp_pool := w, dp_comp := fold (push_comp \<circ> comp_of_worker) cs (dp_comp d) \<rparr>))"

definition flush_notify :: "('b, 'w) Dispatch \<Rightarrow> ('b, 'w) Dispatch" where
  "flush_notify d =
     (case cr_flush (dp_comp d) of
        (flushed, c) \<Rightarrow>
          d\<lparr> dp_comp := c, dp_notified := dp_notified d + (if flushed > 0 then 1 else 0) \<rparr>)"

text \<open>Step 5 for one entry; the counter is \<open>sqes_queued\<close>.\<close>

definition route_entry ::
  "(u32 \<Rightarrow> RouteInfo) \<Rightarrow> 'b IoBackend \<Rightarrow> 'w WorkerPool \<Rightarrow> SubmitEntry \<Rightarrow> u32 \<times> ('b, 'w) Dispatch \<Rightarrow>
    u32 \<times> ('b, 'w) Dispatch" where
  "route_entry rt io wp e s =
     (case s of (sqes, d) \<Rightarrow>
        let reply = (\<lambda>res d. d\<lparr> dp_comp := push_comp (answer e res) (dp_comp d) \<rparr>) in
        case tier (rt (sb_syscall_nr e)) of
          SharedPage \<Rightarrow> (sqes, reply (- ENOSYS) d)
        | IoUring \<Rightarrow>
            (case io_submit io e (dp_io d) of
               (Inr _, b) \<Rightarrow> (sqes + 1, d\<lparr> dp_io := b \<rparr>)
             | (Inl RingFull, b) \<Rightarrow> (sqes, reply (- EAGAIN) (d\<lparr> dp_io := b \<rparr>))
             | (Inl _, b) \<Rightarrow> (sqes, reply (- ENOSYS) (d\<lparr> dp_io := b \<rparr>)))
        | Tier.WorkerPool \<Rightarrow>
            (case wp_enqueue wp e (dp_pool d) of
               (Inr _, w) \<Rightarrow> (sqes, d\<lparr> dp_pool := w \<rparr>)
             | (Inl _, w) \<Rightarrow> (sqes, reply (- EAGAIN) (d\<lparr> dp_pool := w \<rparr>)))
        | Legacy \<Rightarrow> (sqes, reply (- ENOSYS) d))"

definition take_batch :: "DispatcherConfig \<Rightarrow> ('b, 'w) Dispatch \<Rightarrow> SubmitEntry list \<times> ('b, 'w) Dispatch" where
  "take_batch cfg d =
     (case reader_dequeue_batch (max_batch cfg) (max_batch cfg) (dp_submit d) of
        (es, r) \<Rightarrow> (es, d\<lparr> dp_submit := r \<rparr>))"

definition kick_io :: "'b IoBackend \<Rightarrow> u32 \<Rightarrow> ('b, 'w) Dispatch \<Rightarrow> ('b, 'w) Dispatch" where
  "kick_io io sqes d = (if sqes > 0 then d\<lparr> dp_io := snd (io_flush io (dp_io d)) \<rparr> else d)"

definition dispatcher_round ::
  "(u32 \<Rightarrow> RouteInfo) \<Rightarrow> 'b IoBackend \<Rightarrow> 'w WorkerPool \<Rightarrow> DispatcherConfig \<Rightarrow> ('b, 'w) Dispatch \<Rightarrow>
    ('b, 'w) Dispatch" where
  "dispatcher_round rt io wp cfg d =
     (let (n_io, d1) = drain_io cfg io d;
          (n_worker, d2) = drain_worker cfg wp d1;
          d3 = flush_notify d2;
          (es, d4) = take_batch cfg d3;
          (sqes, d5) = fold (route_entry rt io wp) es (0, d4);
          d6 = flush_notify (kick_io io sqes d5)
      in if n_io > 0 \<or> n_worker > 0 \<or> length es > 0 then d6 else d6\<lparr> dp_slept := dp_slept d6 + 1 \<rparr>)"

definition dispatcher_exit ::
  "'b IoBackend \<Rightarrow> 'w WorkerPool \<Rightarrow> DispatcherConfig \<Rightarrow> ('b, 'w) Dispatch \<Rightarrow> ('b, 'w) Dispatch" where
  "dispatcher_exit io wp cfg d =
     (let d1 = snd (drain_io cfg io d);
          d2 = snd (drain_worker cfg wp d1);
          d3 = flush_notify d2
      in d3\<lparr> dp_pool := wp_shutdown wp (dp_pool d3) \<rparr>)"

text \<open>
  The loop: before each reading of the shutdown flag the other threads act on the shared memory; the
  list gives their action and the flag that is read. \<open>None\<close> is a loop that is still running.
\<close>

fun dispatcher_loop ::
  "(u32 \<Rightarrow> RouteInfo) \<Rightarrow> 'b IoBackend \<Rightarrow> 'w WorkerPool \<Rightarrow> DispatcherConfig \<Rightarrow>
    ((('b, 'w) Dispatch \<Rightarrow> ('b, 'w) Dispatch) \<times> bool) list \<Rightarrow> ('b, 'w) Dispatch \<Rightarrow> ('b, 'w) Dispatch option" where
  "dispatcher_loop rt io wp cfg [] d = None"
| "dispatcher_loop rt io wp cfg ((act, shutdown) # evs) d =
     (if shutdown then Some (dispatcher_exit io wp cfg (act d))
      else dispatcher_loop rt io wp cfg evs (dispatcher_round rt io wp cfg (act d)))"

section \<open>What a round does, entry by entry\<close>

text \<open>
  An entry is handed to the I/O backend, handed to the pool, or answered at once. The specification
  of step 5 threads only the backends; it knows nothing of the completion ring.
\<close>

datatype outcome = ToIo | ToPool | Answered i64

definition route_outcome ::
  "(u32 \<Rightarrow> RouteInfo) \<Rightarrow> 'b IoBackend \<Rightarrow> 'w WorkerPool \<Rightarrow> SubmitEntry \<Rightarrow> 'b \<times> 'w \<Rightarrow> outcome \<times> 'b \<times> 'w" where
  "route_outcome rt io wp e s =
     (case s of (b, w) \<Rightarrow>
        case tier (rt (sb_syscall_nr e)) of
          IoUring \<Rightarrow>
            (case io_submit io e b of
               (r, b') \<Rightarrow> (case r of Inr _ \<Rightarrow> ToIo | Inl x \<Rightarrow> Answered (if x = RingFull then - EAGAIN else - ENOSYS), b', w))
        | Tier.WorkerPool \<Rightarrow>
            (case wp_enqueue wp e w of
               (r, w') \<Rightarrow> (case r of Inr _ \<Rightarrow> ToPool | Inl _ \<Rightarrow> Answered (- EAGAIN), b, w'))
        | _ \<Rightarrow> (Answered (- ENOSYS), b, w))"

fun route_outcomes ::
  "(u32 \<Rightarrow> RouteInfo) \<Rightarrow> 'b IoBackend \<Rightarrow> 'w WorkerPool \<Rightarrow> SubmitEntry list \<Rightarrow> 'b \<times> 'w \<Rightarrow> outcome list \<times> 'b \<times> 'w" where
  "route_outcomes rt io wp [] s = ([], s)"
| "route_outcomes rt io wp (e # es) s =
     (case route_outcome rt io wp e s of
        (x, s1) \<Rightarrow> (case route_outcomes rt io wp es s1 of (xs, s2) \<Rightarrow> (x # xs, s2)))"

fun answers :: "SubmitEntry list \<Rightarrow> outcome list \<Rightarrow> CompletionEntry list" where
  "answers (e # es) (Answered res # xs) = answer e res # answers es xs"
| "answers (e # es) (x # xs) = answers es xs"
| "answers _ _ = []"

lemma length_route_outcomes: "route_outcomes rt io wp es s = (xs, s') \<Longrightarrow> length xs = length es"
  by (induction es arbitrary: s xs) (auto split: prod.splits)

lemma length_answers: "length (answers es xs) \<le> length es"
  by (induction es xs rule: answers.induct) auto

subsection \<open>Pushing completions\<close>

lemma push_comp_room:
  assumes "cr_inv c" "length (cr_pending c) < unat (rm_size (cr_mem c))"
  shows "cr_inv (push_comp e c) \<and> cr_pending (push_comp e c) = cr_pending c @ [e] \<and>
    rm_size (cr_mem (push_comp e c)) = rm_size (cr_mem c)"
proof -
  obtain c' where "cr_push (ce_corr_id e) (ce_result e) (ce_flags e) c = (True, c')" "cr_inv c'"
    "cr_pending c' = cr_pending c @ [\<lparr> ce_corr_id = ce_corr_id e, ce_result = ce_result e, ce_flags = ce_flags e \<rparr>]"
    "rm_size (cr_mem c') = rm_size (cr_mem c)"
    using cr_push_room[OF assms] by blast
  then show ?thesis
    by (simp add: push_comp_def)
qed

lemma fold_push_comp:
  assumes "cr_inv c" "length (cr_pending c) + length xs \<le> unat (rm_size (cr_mem c))"
  shows "cr_inv (fold (push_comp \<circ> f) xs c) \<and> cr_pending (fold (push_comp \<circ> f) xs c) = cr_pending c @ map f xs \<and>
    rm_size (cr_mem (fold (push_comp \<circ> f) xs c)) = rm_size (cr_mem c)"
  using assms
proof (induction xs arbitrary: c)
  case (Cons x xs)
  have p: "cr_inv (push_comp (f x) c)" "cr_pending (push_comp (f x) c) = cr_pending c @ [f x]"
    "rm_size (cr_mem (push_comp (f x) c)) = rm_size (cr_mem c)"
    using push_comp_room[of c "f x"] Cons.prems by auto
  then show ?case
    using Cons.IH[OF p(1)] Cons.prems(2) by simp
qed simp

lemma flush_notify_publishes:
  assumes "cr_inv (dp_comp d)"
  shows "cr_inv (dp_comp (flush_notify d)) \<and> ring_items (cr_mem (dp_comp (flush_notify d))) = cr_pending (dp_comp d) \<and>
    cr_pending (dp_comp (flush_notify d)) = cr_pending (dp_comp d) \<and>
    rm_size (cr_mem (dp_comp (flush_notify d))) = rm_size (cr_mem (dp_comp d))"
proof -
  obtain n c where f: "cr_flush (dp_comp d) = (n, c)"
    by fastforce
  then show ?thesis
    using cr_flush_publishes[OF assms f] by (simp add: flush_notify_def)
qed

lemma flush_notify_rest [simp]:
  "dp_submit (flush_notify d) = dp_submit d" "dp_io (flush_notify d) = dp_io d" "dp_pool (flush_notify d) = dp_pool d"
  by (simp_all add: flush_notify_def split: prod.splits)

subsection \<open>Routing a batch\<close>

lemma route_entry_outcome:
  assumes "route_outcome rt io wp e (dp_io d, dp_pool d) = (x, b, w)" "route_entry rt io wp e (n, d) = (n', d')"
  shows "dp_io d' = b \<and> dp_pool d' = w \<and> dp_submit d' = dp_submit d \<and>
    dp_comp d' = (case x of Answered res \<Rightarrow> push_comp (answer e res) (dp_comp d) | _ \<Rightarrow> dp_comp d)"
  using assms
  by (auto simp: route_outcome_def route_entry_def Let_def split: Tier.splits prod.splits sum.splits KsvcError.splits
      if_splits)

lemma fold_route_entry:
  assumes "route_outcomes rt io wp es (dp_io d, dp_pool d) = (xs, b, w)"
    and "fold (route_entry rt io wp) es (n, d) = (n', d')"
    and "cr_inv (dp_comp d)" "length (cr_pending (dp_comp d)) + length es \<le> unat (rm_size (cr_mem (dp_comp d)))"
  shows "dp_pool d' = w \<and> dp_io d' = b \<and> dp_submit d' = dp_submit d \<and> cr_inv (dp_comp d') \<and>
    cr_pending (dp_comp d') = cr_pending (dp_comp d) @ answers es xs"
  using assms
proof (induction es arbitrary: n d xs)
  case (Cons e es)
  obtain x b1 w1 xs1 where x: "route_outcome rt io wp e (dp_io d, dp_pool d) = (x, b1, w1)"
      "route_outcomes rt io wp es (b1, w1) = (xs1, b, w)" "xs = x # xs1"
    using Cons.prems(1) by (auto split: prod.splits)
  obtain n1 d1 where r: "route_entry rt io wp e (n, d) = (n1, d1)" "fold (route_entry rt io wp) es (n1, d1) = (n', d')"
    using Cons.prems(2) by (cases "route_entry rt io wp e (n, d)") auto
  note o = route_entry_outcome[OF x(1) r(1)]
  have c: "cr_inv (dp_comp d1) \<and> cr_pending (dp_comp d1) = cr_pending (dp_comp d) @ answers [e] [x] \<and>
      rm_size (cr_mem (dp_comp d1)) = rm_size (cr_mem (dp_comp d))"
    using o push_comp_room[OF Cons.prems(3)] Cons.prems(3,4) by (cases x) auto
  have a: "answers (e # es) (x # xs1) = answers [e] [x] @ answers es xs1" "length (answers [e] [x]) \<le> 1"
    by (cases x; simp)+
  have "route_outcomes rt io wp es (dp_io d1, dp_pool d1) = (xs1, b, w)"
    using o x(2) by simp
  then show ?case
    using Cons.IH[OF _ r(2)] c a o x(3) Cons.prems(4) by simp
qed simp

subsection \<open>The whole round\<close>

lemma drain_io_comp:
  assumes "io_poll io (max_io_completions cfg) (max_io_completions cfg) (dp_io d) = (cs, b)"
    "cr_inv (dp_comp d)" "length (cr_pending (dp_comp d)) + length cs \<le> unat (rm_size (cr_mem (dp_comp d)))"
    "drain_io cfg io d = (n, d')"
  shows "cr_inv (dp_comp d') \<and> cr_pending (dp_comp d') = cr_pending (dp_comp d) @ map comp_of_io cs \<and>
    rm_size (cr_mem (dp_comp d')) = rm_size (cr_mem (dp_comp d)) \<and> dp_io d' = b \<and> dp_pool d' = dp_pool d \<and>
    dp_submit d' = dp_submit d"
  using fold_push_comp[OF assms(2,3), of comp_of_io] assms(1,4) by (auto simp: drain_io_def)

lemma drain_worker_comp:
  assumes "wp_poll wp (max_worker_completions cfg) (max_worker_completions cfg) (dp_pool d) = (cs, w)"
    "cr_inv (dp_comp d)" "length (cr_pending (dp_comp d)) + length cs \<le> unat (rm_size (cr_mem (dp_comp d)))"
    "drain_worker cfg wp d = (n, d')"
  shows "cr_inv (dp_comp d') \<and> cr_pending (dp_comp d') = cr_pending (dp_comp d) @ map comp_of_worker cs \<and>
    rm_size (cr_mem (dp_comp d')) = rm_size (cr_mem (dp_comp d)) \<and> dp_io d' = dp_io d \<and> dp_pool d' = w \<and>
    dp_submit d' = dp_submit d"
  using fold_push_comp[OF assms(2,3), of comp_of_worker] assms(1,4) by (auto simp: drain_worker_def)

lemma take_batch_items:
  assumes "take_batch cfg d = (es, d')" "reader_synced (dp_submit d)" "ring_inv (sr_view (dp_submit d))"
  shows "es = take (max_batch cfg) (ring_items (sr_view (dp_submit d))) \<and>
    ring_items (sr_view (dp_submit d')) = drop (max_batch cfg) (ring_items (sr_view (dp_submit d))) \<and>
    reader_synced (dp_submit d') \<and> dp_comp d' = dp_comp d \<and> dp_io d' = dp_io d \<and> dp_pool d' = dp_pool d"
proof -
  obtain r where r: "reader_dequeue_batch (max_batch cfg) (max_batch cfg) (dp_submit d) = (es, r)" "d' = d\<lparr> dp_submit := r \<rparr>"
    using assms(1) by (auto simp: take_batch_def split: prod.splits)
  note m = reader_dequeue_view[OF assms(2) r(1)]
  then show ?thesis
    using dequeue_batch_items[OF assms(3), of "max_batch cfg" "max_batch cfg" es "sr_view r"] r(2) by simp
qed

lemma kick_io_rest [simp]:
  "dp_comp (kick_io io n d) = dp_comp d" "dp_submit (kick_io io n d) = dp_submit d" "dp_pool (kick_io io n d) = dp_pool d"
  by (simp_all add: kick_io_def)

lemma round_published:
  assumes inv: "cr_inv (dp_comp d)" and sync: "reader_synced (dp_submit d)" and sinv: "ring_inv (sr_view (dp_submit d))"
    and io: "io_poll io (max_io_completions cfg) (max_io_completions cfg) (dp_io d) = (ios, b)"
    and wk: "wp_poll wp (max_worker_completions cfg) (max_worker_completions cfg) (dp_pool d) = (wks, w)"
    and es: "es = take (max_batch cfg) (ring_items (sr_view (dp_submit d)))"
    and out: "route_outcomes rt io wp es (b, w) = (xs, b', w')"
    and room: "length (cr_pending (dp_comp d)) + length ios + length wks + length es \<le> unat (rm_size (cr_mem (dp_comp d)))"
    and d': "d' = dispatcher_round rt io wp cfg d"
  shows "ring_items (cr_mem (dp_comp d')) =
      cr_pending (dp_comp d) @ map comp_of_io ios @ map comp_of_worker wks @ answers es xs \<and>
    ring_items (sr_view (dp_submit d')) = drop (max_batch cfg) (ring_items (sr_view (dp_submit d))) \<and>
    dp_pool d' = w' \<and> cr_inv (dp_comp d') \<and> reader_synced (dp_submit d')"
proof -
  obtain n1 d1 where s1: "drain_io cfg io d = (n1, d1)"
    by fastforce
  obtain n2 d2 where s2: "drain_worker cfg wp d1 = (n2, d2)"
    by fastforce
  obtain es' d4 where s4: "take_batch cfg (flush_notify d2) = (es', d4)"
    by fastforce
  obtain k d5 where s5: "fold (route_entry rt io wp) es' (0, d4) = (k, d5)"
    by fastforce
  have c1: "cr_inv (dp_comp d1)" "cr_pending (dp_comp d1) = cr_pending (dp_comp d) @ map comp_of_io ios"
    "rm_size (cr_mem (dp_comp d1)) = rm_size (cr_mem (dp_comp d))" "dp_io d1 = b" "dp_pool d1 = dp_pool d"
    "dp_submit d1 = dp_submit d"
    using drain_io_comp[OF io inv _ s1] room by auto
  have c2: "cr_inv (dp_comp d2)" "cr_pending (dp_comp d2) = cr_pending (dp_comp d1) @ map comp_of_worker wks"
    "rm_size (cr_mem (dp_comp d2)) = rm_size (cr_mem (dp_comp d1))" "dp_io d2 = b" "dp_pool d2 = w"
    "dp_submit d2 = dp_submit d"
    using drain_worker_comp[of wp cfg d1 wks w n2 d2] wk c1 s2 room by auto
  note c3 = flush_notify_publishes[OF c2(1)]
  have c4: "es' = es" "reader_synced (dp_submit d4)" "dp_comp d4 = dp_comp (flush_notify d2)" "dp_io d4 = b" "dp_pool d4 = w"
    "ring_items (sr_view (dp_submit d4)) = drop (max_batch cfg) (ring_items (sr_view (dp_submit d)))"
    using take_batch_items[OF s4] c2 sync sinv es by auto
  have c5: "dp_pool d5 = w'" "dp_submit d5 = dp_submit d4" "cr_inv (dp_comp d5)"
    "cr_pending (dp_comp d5) = cr_pending (dp_comp d4) @ answers es xs"
    using fold_route_entry[of rt io wp es d4 xs b' w' 0 k d5] out s5 c3 c4 c2 c1 room by auto
  have "dp_comp d' = dp_comp (flush_notify (kick_io io k d5))" "dp_submit d' = dp_submit d5" "dp_pool d' = dp_pool d5"
    by (simp_all add: d' dispatcher_round_def s1 s2 s4 s5 Let_def)
  then show ?thesis
    using flush_notify_publishes[of "kick_io io k d5"] c1 c2 c3 c4 c5 by simp
qed

section \<open>The default backend behind the trait\<close>

definition basic_backend :: "'r Uring \<Rightarrow> 'r BasicIoUring IoBackend" where
  "basic_backend u =
     \<lparr> io_submit = iouring_submit u, io_flush = iouring_flush u, io_poll = iouring_poll_completions u \<rparr>"

lemma length_poll_cqes: "length (fst (poll_cqes u n b)) \<le> n"
proof (induction n arbitrary: b)
  case 0
  then show ?case
    by (auto split: option.splits prod.splits)
next
  case (Suc n)
  then show ?case
    by (auto split: option.splits prod.splits) (metis fst_conv)
qed

interpretation up: bounded_poll "iouring_poll_completions u" for u :: "'r Uring"
  by unfold_locales (simp only: iouring_poll_completions_def length_poll_cqes)

section \<open>Properties\<close>

text \<open>
  C16: One round of the dispatcher, with room in the completion ring for a full round and no consumer
  acting meanwhile: what userspace can then read is what was there before, then the completions the
  poll of the backend returned, those of the workers' poll, and one answer for exactly those entries of
  the batch that neither the backend nor the pool accepted, all in order; the batch is the front of the
  submit ring as the reader sees it, with its entries from byte 64 on, and its rest stays.
\<close>

theorem dispatcher_round_answers:
  assumes "bounded_poll (io_poll io)" "bounded_poll (wp_poll wp)"
    and "cr_inv (dp_comp d)" "reader_synced (dp_submit d)" "ring_inv (sr_view (dp_submit d))"
    and "length (cr_pending (dp_comp d)) + max_io_completions cfg + max_worker_completions cfg + max_batch cfg
      \<le> unat (rm_size (cr_mem (dp_comp d)))"
    and "io_poll io (max_io_completions cfg) (max_io_completions cfg) (dp_io d) = (ios, b)"
    and "wp_poll wp (max_worker_completions cfg) (max_worker_completions cfg) (dp_pool d) = (wks, w)"
    and "es = take (max_batch cfg) (ring_items (sr_view (dp_submit d)))"
    and "route_outcomes rt io wp es (b, w) = (xs, b', w')"
    and "d' = dispatcher_round rt io wp cfg d"
  shows "length xs = length es \<and>
    ring_items (cr_mem (dp_comp d')) =
      cr_pending (dp_comp d) @ map comp_of_io ios @ map comp_of_worker wks @ answers es xs \<and>
    ring_items (sr_view (dp_submit d')) = drop (max_batch cfg) (ring_items (sr_view (dp_submit d)))"
proof -
  have "length ios \<le> max_io_completions cfg" "length wks \<le> max_worker_completions cfg"
    using bounded_poll.poll_fits[OF assms(1) assms(7)] bounded_poll.poll_fits[OF assms(2) assms(8)] by auto
  moreover have "length es \<le> max_batch cfg"
    by (simp add: assms(9))
  ultimately have "length (cr_pending (dp_comp d)) + length ios + length wks + length es
      \<le> unat (rm_size (cr_mem (dp_comp d)))"
    using assms(6) by linarith
  then show ?thesis
    using round_published[OF assms(3-5,7-10) _ assms(11)] length_route_outcomes[OF assms(10)] by blast
qed

text \<open>
  A pool that refuses everything, a mapping with a \<open>getpid\<close> wherever the reader may look and one entry
  announced, and an empty completion ring.
\<close>

definition idle_pool :: "unit WorkerPool" where
  "idle_pool = \<lparr> wp_enqueue = (\<lambda>e w. (Err WorkerUnavailable, w)), wp_poll = (\<lambda>n mx w. ([], w)), wp_shutdown = id \<rparr>"

definition getpid_entry :: SubmitEntry where
  "getpid_entry = \<lparr> sb_corr_id = 5, sb_syscall_nr = 39, sb_flags = 0, sb_args = replicate 6 0 \<rparr>"

definition demo_dispatch :: "((Sqe list \<times> Cqe list) BasicIoUring, unit) Dispatch" where
  "demo_dispatch =
     \<lparr> dp_submit = \<lparr> sr_map = \<lparr> mp_ring = \<lparr> rm_magic = KSVC_RING_MAGIC, rm_size = 1, rm_mask = 0,
           rm_entry_size = 64, rm_head = 0, rm_tail = 1, rm_entries = [getpid_entry] \<rparr>,
           mp_gap = replicate 63 getpid_entry \<rparr>, sr_size = 1, sr_mask = 0, sr_local_head = 0 \<rparr>,
       dp_comp = \<lparr> cr_mem = \<lparr> rm_magic = KSVC_RING_MAGIC, rm_size = 4, rm_mask = 3, rm_entry_size = 32, rm_head = 0,
           rm_tail = 0, rm_entries = replicate 4 (answer getpid_entry 0) \<rparr>, cr_size = 4, cr_mask = 3,
         cr_local_tail = 0, cr_completions_written = 0 \<rparr>,
       dp_io = \<lparr> ring = ([], [cqe_for 7]), inflight = 1, pending_submit = 0 \<rparr>, dp_pool = (),
       dp_notified = 0, dp_slept = 0 \<rparr>"

definition demo_dispatch_config :: DispatcherConfig where
  "demo_dispatch_config = \<lparr> max_batch = 1, max_io_completions = 1, max_worker_completions = 1, idle_sleep_us = 100 \<rparr>"

theorem dispatcher_round_answers_witness:
  "ring_items (cr_mem (dp_comp (dispatcher_round (\<lambda>n. route_spec UNIV n) (basic_backend list_ring) idle_pool demo_dispatch_config demo_dispatch))) =
   [comp_of_io (completion_of (cqe_for 7)), answer getpid_entry (- ENOSYS)]"
proof -
  have bp: "bounded_poll (io_poll (basic_backend list_ring))" "bounded_poll (wp_poll idle_pool)"
    using up.bounded_poll_axioms[of list_ring] by (auto simp: basic_backend_def bounded_poll_def idle_pool_def)
  have inv: "cr_inv (dp_comp demo_dispatch)" "reader_synced (dp_submit demo_dispatch)" "ring_inv (sr_view (dp_submit demo_dispatch))"
    by (auto simp: demo_dispatch_def cr_inv_def reader_synced_def ring_inv_def ring_wf_def sr_view_def cells_at_64_def
        intro: exI[of _ 2] exI[of _ 0])
  have pend: "cr_pending (dp_comp demo_dispatch) = []"
    by (simp add: cr_pending_def ring_between_empty demo_dispatch_def)
  have items: "ring_items (sr_view (dp_submit demo_dispatch)) = [getpid_entry]"
    by (simp add: ring_items_def ring_between_def demo_dispatch_def sr_view_def cells_at_64_def)
  have io: "io_poll (basic_backend list_ring) 1 1 (dp_io demo_dispatch) =
      ([completion_of (cqe_for 7)], \<lparr> ring = ([], []), inflight = 0, pending_submit = 0 \<rparr>)"
    by (simp add: basic_backend_def iouring_poll_completions_def demo_dispatch_def list_ring_def)
  have wk: "wp_poll idle_pool 1 1 (dp_pool demo_dispatch) = ([], ())"
    by (simp add: idle_pool_def)
  have "tier (route_spec UNIV 39) = SharedPage"
    by (simp add: route_spec_def own_route_def at_variant_def lists_eval del: map_of_append)
  then have out: "route_outcomes (\<lambda>n. route_spec UNIV n) (basic_backend list_ring) idle_pool [getpid_entry] (b, w) =
      ([Answered (- ENOSYS)], b, w)" for b w
    by (simp add: route_outcome_def getpid_entry_def)
  show ?thesis
    using dispatcher_round_answers[OF bp inv, of demo_dispatch_config, OF _ _ _ _ out refl] io wk
    by (simp add: demo_dispatch_config_def pend items) (simp add: demo_dispatch_def)
qed

text \<open>
  Behind the generic dispatcher the default backend accepts nothing: every entry routed to
  io\_uring is answered with \<open>-ENOSYS\<close>, and the backend is left as it was.
\<close>

theorem basic_backend_always_enosys:
  assumes "tier (rt (sb_syscall_nr e)) = IoUring"
  shows "route_outcome rt (basic_backend u) wp e (b, w) = (Answered (- ENOSYS), b, w)"
  using assms by (simp add: route_outcome_def basic_backend_def iouring_submit_def)

theorem basic_backend_always_enosys_witness:
  "route_outcome (\<lambda>n. route_spec UNIV n) (basic_backend list_ring) idle_pool
     \<lparr> sb_corr_id = 4, sb_syscall_nr = 0, sb_flags = 0, sb_args = [3, 0, 8, 0, 0, 0] \<rparr>
     (\<lparr> ring = ([], []), inflight = 0, pending_submit = 0 \<rparr>, ()) =
   (Answered (- ENOSYS), \<lparr> ring = ([], []), inflight = 0, pending_submit = 0 \<rparr>, ())"
proof -
  have "tier (route_spec UNIV 0) = IoUring"
    by (simp add: route_spec_def own_route_def at_variant_def lists_eval del: map_of_append)
  then show ?thesis
    using basic_backend_always_enosys[of "\<lambda>n. route_spec UNIV n"
        "\<lparr> sb_corr_id = 4, sb_syscall_nr = 0, sb_flags = 0, sb_args = [3, 0, 8, 0, 0, 0] \<rparr>"] by simp
qed

text \<open>A full completion ring swallows the answer to an entry that was refused.\<close>

lemma answer_lost_when_full:
  assumes "cr_inv (dp_comp d)" "unat (rm_size (cr_mem (dp_comp d))) \<le> length (cr_pending (dp_comp d))"
    and "tier (rt (sb_syscall_nr e)) = Legacy"
  shows "route_entry rt io wp e (n, d) = (n, d)"
  using assms by (simp add: route_entry_def push_comp_def cr_push_full)

text \<open>The loop ends at the first reading of the shutdown flag that finds it set.\<close>

lemma dispatcher_loop_ends:
  "(\<exists>act. (act, True) \<in> set evs) \<longleftrightarrow> (\<exists>d'. dispatcher_loop rt io wp cfg evs d = Some d')"
proof (induction evs arbitrary: d)
  case (Cons ev evs)
  obtain act sd where ev: "ev = (act, sd)"
    by (cases ev)
  show ?case
    using Cons.IH[of "dispatcher_round rt io wp cfg (act d)"] by (cases sd) (auto simp: ev)
qed simp

end
