(* ===== verification/Fixed_Pool.thy ===== *)
theory Fixed_Pool
  imports Dispatcher
begin

text \<open>
  The default worker pool \<open>ksvc-module/src/fixed_pool.rs\<close>. Its two queues are crossbeam's \<open>ArrayQueue\<close>,
  here parameters: a push that fails when the queue is full and a pop. The workers are a step
  relation over the shared pool, interleaved with the dispatcher's calls. The theorems use only that
  the queues are bounded FIFO queues, the documented behaviour of \<open>ArrayQueue\<close>.
\<close>

section \<open>The pool\<close>

record ('q, 'r) PoolInner =
  work_queue :: 'q
  result_queue :: 'r
  active :: usize
  pool_shutdown_flag :: bool
  total :: usize

definition FixedPool_new :: "usize \<Rightarrow> 'q \<Rightarrow> 'r \<Rightarrow> ('q, 'r) PoolInner" where
  "FixedPool_new n q r =
     \<lparr> work_queue = q, result_queue = r, active = 0, pool_shutdown_flag = False, total = min (max n 1) 32 \<rparr>"

text \<open>\<open>None\<close> is a failing \<open>available_parallelism\<close>.\<close>

definition auto_sized :: "usize option \<Rightarrow> 'q \<Rightarrow> 'r \<Rightarrow> ('q, 'r) PoolInner" where
  "auto_sized parallelism q r =
     (let cpus = case parallelism of None \<Rightarrow> 4 | Some n \<Rightarrow> n
      in FixedPool_new (min (max (cpus div 2) 2) 8) q r)"

definition pool_enqueue ::
  "(SubmitEntry, 'q) ArrayQueue \<Rightarrow> SubmitEntry \<Rightarrow> ('q, 'r) PoolInner \<Rightarrow> (KsvcError, unit) result \<times> ('q, 'r) PoolInner" where
  "pool_enqueue Q e p =
     (if pool_shutdown_flag p then (Err WorkerUnavailable, p)
      else case aq_push Q e (work_queue p) of
             None \<Rightarrow> (Err WorkerUnavailable, p)
           | Some q \<Rightarrow> (Ok (), p\<lparr> work_queue := q \<rparr>))"

fun pop_results ::
  "(WorkerCompletion, 'r) ArrayQueue \<Rightarrow> nat \<Rightarrow> ('q, 'r) PoolInner \<Rightarrow> WorkerCompletion list \<times> ('q, 'r) PoolInner" where
  "pop_results R 0 p = ([], p)"
| "pop_results R (Suc n) p =
     (case aq_pop R (result_queue p) of
        None \<Rightarrow> ([], p)
      | Some (c, r) \<Rightarrow>
          (case pop_results R n (p\<lparr> result_queue := r \<rparr>) of (cs, p') \<Rightarrow> (c # cs, p')))"

definition pool_poll_completions ::
  "(WorkerCompletion, 'r) ArrayQueue \<Rightarrow> nat \<Rightarrow> nat \<Rightarrow> ('q, 'r) PoolInner \<Rightarrow>
    WorkerCompletion list \<times> ('q, 'r) PoolInner" where
  "pool_poll_completions R buf_len mx p = pop_results R (min mx buf_len) p"

definition active_workers :: "('q, 'r) PoolInner \<Rightarrow> usize" where
  "active_workers p = active p"

definition pool_shutdown :: "('q, 'r) PoolInner \<Rightarrow> ('q, 'r) PoolInner" where
  "pool_shutdown p = p\<lparr> pool_shutdown_flag := True \<rparr>"

text \<open>\<open>execute_syscall\<close>: the return value of \<open>libc::syscall\<close> and the errno it leaves.\<close>

definition execute_syscall :: "i64 \<Rightarrow> i32 \<Rightarrow> i64" where
  "execute_syscall ret errno = (if ret <s 0 then - scast errno else ret)"

section \<open>Workers as steps\<close>

text \<open>
  A worker polls, executes, and pushes its completion with at most 1001 attempts; \<open>WPush c n\<close> has
  failed \<open>n\<close> times. \<open>pw_accepted\<close>, \<open>pw_delivered\<close> and \<open>pw_dropped\<close> record what the dispatcher handed over,
  what it received, and what a worker gave up on.
\<close>

datatype worker_pc = WPoll | WExec SubmitEntry | WPush WorkerCompletion nat | WExit

record ('q, 'r) PoolSys =
  pw_pool :: "('q, 'r) PoolInner"
  pw_pc :: "nat \<Rightarrow> worker_pc"
  pw_accepted :: "SubmitEntry list"
  pw_delivered :: "WorkerCompletion list"
  pw_dropped :: "WorkerCompletion list"

inductive pool_step ::
  "(SubmitEntry, 'q) ArrayQueue \<Rightarrow> (WorkerCompletion, 'r) ArrayQueue \<Rightarrow> ('q, 'r) PoolSys \<Rightarrow> ('q, 'r) PoolSys \<Rightarrow> bool"
  for Q R where
  enqueue: "pool_enqueue Q e (pw_pool s) = (Ok (), p) \<Longrightarrow>
    pool_step Q R s (s\<lparr> pw_pool := p, pw_accepted := pw_accepted s @ [e] \<rparr>)"
| poll: "pool_poll_completions R buf_len mx (pw_pool s) = (cs, p) \<Longrightarrow>
    pool_step Q R s (s\<lparr> pw_pool := p, pw_delivered := pw_delivered s @ cs \<rparr>)"
| shutdown: "pool_step Q R s (s\<lparr> pw_pool := pool_shutdown (pw_pool s) \<rparr>)"
| take_work: "pw_pc s w = WPoll \<Longrightarrow> aq_pop Q (work_queue (pw_pool s)) = Some (e, q) \<Longrightarrow>
    pool_step Q R s (s\<lparr> pw_pool := (pw_pool s)\<lparr> work_queue := q, active := active (pw_pool s) + 1 \<rparr>,
      pw_pc := (pw_pc s)(w := WExec e) \<rparr>)"
| execute: "pw_pc s w = WExec e \<Longrightarrow>
    pool_step Q R s (s\<lparr> pw_pool := (pw_pool s)\<lparr> active := active (pw_pool s) - 1 \<rparr>,
      pw_pc := (pw_pc s)(w := WPush \<lparr> wkc_corr_id = sb_corr_id e, wkc_result = execute_syscall ret errno \<rparr> 0) \<rparr>)"
| push_ok: "pw_pc s w = WPush c n \<Longrightarrow> aq_push R c (result_queue (pw_pool s)) = Some r \<Longrightarrow>
    pool_step Q R s (s\<lparr> pw_pool := (pw_pool s)\<lparr> result_queue := r \<rparr>, pw_pc := (pw_pc s)(w := WPoll) \<rparr>)"
| push_retry: "pw_pc s w = WPush c n \<Longrightarrow> aq_push R c (result_queue (pw_pool s)) = None \<Longrightarrow>
    n + 1 \<le> 1000 \<Longrightarrow> \<not> pool_shutdown_flag (pw_pool s) \<Longrightarrow>
    pool_step Q R s (s\<lparr> pw_pc := (pw_pc s)(w := WPush c (n + 1)) \<rparr>)"
| push_drop: "pw_pc s w = WPush c n \<Longrightarrow> aq_push R c (result_queue (pw_pool s)) = None \<Longrightarrow>
    n + 1 > 1000 \<or> pool_shutdown_flag (pw_pool s) \<Longrightarrow>
    pool_step Q R s (s\<lparr> pw_pc := (pw_pc s)(w := WPoll), pw_dropped := pw_dropped s @ [c] \<rparr>)"
| worker_exit: "pw_pc s w = WPoll \<Longrightarrow> pool_shutdown_flag (pw_pool s) \<Longrightarrow>
    pool_step Q R s (s\<lparr> pw_pc := (pw_pc s)(w := WExit) \<rparr>)"

inductive_cases pool_stepE: "pool_step Q R s s'"

definition pool_start :: "('q, 'r) PoolInner \<Rightarrow> ('q, 'r) PoolSys" where
  "pool_start p = \<lparr> pw_pool = p, pw_pc = (\<lambda>w. if w < total p then WPoll else WExit),
     pw_accepted = [], pw_delivered = [], pw_dropped = [] \<rparr>"

section \<open>Conservation\<close>

text \<open>The request a worker is in the middle of, by its correlation id.\<close>

fun held :: "worker_pc \<Rightarrow> CorrId multiset" where
  "held (WExec e) = {# sb_corr_id e #}"
| "held (WPush c n) = {# wkc_corr_id c #}"
| "held _ = {#}"

fun executing :: "worker_pc \<Rightarrow> nat" where
  "executing (WExec e) = 1"
| "executing _ = 0"

definition in_flight ::
  "('q \<Rightarrow> SubmitEntry list) \<Rightarrow> ('r \<Rightarrow> WorkerCompletion list) \<Rightarrow> ('q, 'r) PoolSys \<Rightarrow> CorrId multiset" where
  "in_flight qi ri s =
     mset (map sb_corr_id (qi (work_queue (pw_pool s)))) + (\<Sum>w < total (pw_pool s). held (pw_pc s w)) +
     mset (map wkc_corr_id (ri (result_queue (pw_pool s))))"

definition pool_inv ::
  "('q \<Rightarrow> SubmitEntry list) \<Rightarrow> ('q \<Rightarrow> bool) \<Rightarrow> ('r \<Rightarrow> WorkerCompletion list) \<Rightarrow> ('r \<Rightarrow> bool) \<Rightarrow> ('q, 'r) PoolSys \<Rightarrow> bool" where
  "pool_inv qi qv ri rv s \<longleftrightarrow>
     qv (work_queue (pw_pool s)) \<and> rv (result_queue (pw_pool s)) \<and>
     (\<forall>w \<ge> total (pw_pool s). pw_pc s w = WExit) \<and>
     mset (map sb_corr_id (pw_accepted s)) =
       in_flight qi ri s + mset (map wkc_corr_id (pw_delivered s)) + mset (map wkc_corr_id (pw_dropped s)) \<and>
     active (pw_pool s) = (\<Sum>w < total (pw_pool s). executing (pw_pc s w))"

lemma sum_upd:
  fixes f :: "'a \<Rightarrow> 'b::comm_monoid_add" and n :: nat
  assumes "w < n"
  shows "(\<Sum>i<n. f ((g(w := x)) i)) + f (g w) = (\<Sum>i<n. f (g i)) + f x"
proof -
  have n: "finite {..<n}" "w \<in> {..<n}"
    using assms by auto
  have "(\<Sum>i \<in> {..<n} - {w}. f ((g(w := x)) i)) = (\<Sum>i \<in> {..<n} - {w}. f (g i))"
    by (rule sum.cong) auto
  then show ?thesis
    using sum.remove[OF n, of "\<lambda>i. f ((g(w := x)) i)"] sum.remove[OF n, of "\<lambda>i. f (g i)"]
    by (simp add: ac_simps)
qed

lemma pop_results_fifo:
  assumes fifo: "bounded_fifo (aq_push R) (aq_pop R) ri rc rv" and "rv (result_queue p)" "pop_results R n p = (cs, p')"
  shows "rv (result_queue p') \<and> ri (result_queue p) = cs @ ri (result_queue p') \<and>
    work_queue p' = work_queue p \<and> active p' = active p \<and> total p' = total p"
  using assms(2,3)
proof (induction n arbitrary: p cs)
  case (Suc n)
  show ?case
  proof (cases "aq_pop R (result_queue p)")
    case None
    then show ?thesis
      using Suc.prems by simp
  next
    case (Some x)
    obtain c r where x: "x = (c, r)"
      by (cases x)
    have pop: "aq_pop R (result_queue p) = Some (c, r)"
      using Some x by simp
    obtain cs' where cs': "pop_results R n (p\<lparr> result_queue := r \<rparr>) = (cs', p')" "cs = c # cs'"
      using Suc.prems(2) pop by (auto split: prod.splits)
    show ?thesis
      using Suc.IH[OF _ cs'(1)] bounded_fifo.deq_ok[OF fifo Suc.prems(1) pop] cs'(2) by simp
  qed
qed simp

text \<open>Replacing the program point of one worker, inside the two sums.\<close>

lemma held_upd:
  fixes n :: nat
  assumes "w < n" "held (g w) = A" "held x = B"
  shows "(\<Sum>i<n. held ((g(w := x)) i)) + A = (\<Sum>i<n. held (g i)) + B"
  using sum_upd[OF assms(1), of held g x] assms(2,3) by simp

lemma executing_upd:
  fixes n :: nat
  assumes "w < n"
  shows "(\<Sum>i<n. executing ((g(w := x)) i)) + executing (g w) = (\<Sum>i<n. executing (g i)) + executing x"
  by (rule sum_upd[OF assms])

lemma pool_inv_step:
  assumes Q: "bounded_fifo (aq_push Q) (aq_pop Q) qi qc qv" and R: "bounded_fifo (aq_push R) (aq_pop R) ri rc rv"
    and step: "pool_step Q R s s'" and inv: "pool_inv qi qv ri rv s"
  shows "pool_inv qi qv ri rv s'"
  using step
proof (cases rule: pool_step.cases)
  case (enqueue e p)
  then obtain q where q: "aq_push Q e (work_queue (pw_pool s)) = Some q" "p = (pw_pool s)\<lparr> work_queue := q \<rparr>"
    by (auto simp: pool_enqueue_def split: if_splits option.splits)
  have "qv (work_queue (pw_pool s))"
    using inv by (simp add: pool_inv_def)
  then show ?thesis
    using bounded_fifo.enq_ok[OF Q _ q(1)] inv enqueue(1) q(2) by (simp add: pool_inv_def in_flight_def)
next
  case (poll buf_len mx cs p)
  then show ?thesis
    using pop_results_fifo[OF R] inv by (auto simp: pool_inv_def in_flight_def pool_poll_completions_def)
next
  case shutdown
  then show ?thesis
    using inv by (simp add: pool_inv_def in_flight_def pool_shutdown_def)
next
  case (take_work w e q)
  have w: "w < total (pw_pool s)"
    using inv take_work(2) by (auto simp: pool_inv_def not_less[symmetric])
  have v: "qv (work_queue (pw_pool s))"
    using inv by (simp add: pool_inv_def)
  show ?thesis
    using bounded_fifo.deq_ok[OF Q v take_work(3)] inv take_work(1,2) w held_upd[OF w, of "pw_pc s" "{#}" "WExec e"]
      executing_upd[OF w, of "pw_pc s" "WExec e"]
    by (auto simp: pool_inv_def in_flight_def)
next
  case (execute w e ret errno)
  let ?x = "WPush \<lparr> wkc_corr_id = sb_corr_id e, wkc_result = execute_syscall ret errno \<rparr> 0"
  have w: "w < total (pw_pool s)"
    using inv execute(2) by (auto simp: pool_inv_def not_less[symmetric])
  show ?thesis
    using inv execute w held_upd[OF w, of "pw_pc s" "{# sb_corr_id e #}" ?x] executing_upd[OF w, of "pw_pc s" ?x]
    by (auto simp: pool_inv_def in_flight_def)
next
  case (push_ok w c n r)
  have w: "w < total (pw_pool s)"
    using inv push_ok(2) by (auto simp: pool_inv_def not_less[symmetric])
  have v: "rv (result_queue (pw_pool s))"
    using inv by (simp add: pool_inv_def)
  show ?thesis
    using bounded_fifo.enq_ok[OF R v push_ok(3)] inv push_ok w held_upd[OF w, of "pw_pc s" "{# wkc_corr_id c #}" WPoll]
      executing_upd[OF w, of "pw_pc s" WPoll]
    by (auto simp: pool_inv_def in_flight_def)
next
  case (push_retry w c n)
  have w: "w < total (pw_pool s)"
    using inv push_retry(2) by (auto simp: pool_inv_def not_less[symmetric])
  show ?thesis
    using inv push_retry w held_upd[OF w, of "pw_pc s" "{# wkc_corr_id c #}" "WPush c (n + 1)"]
      executing_upd[OF w, of "pw_pc s" "WPush c (n + 1)"]
    by (auto simp: pool_inv_def in_flight_def)
next
  case (push_drop w c n)
  have w: "w < total (pw_pool s)"
    using inv push_drop(2) by (auto simp: pool_inv_def not_less[symmetric])
  show ?thesis
    using inv push_drop w held_upd[OF w, of "pw_pc s" "{# wkc_corr_id c #}" WPoll]
      executing_upd[OF w, of "pw_pc s" WPoll]
    by (auto simp: pool_inv_def in_flight_def)
next
  case (worker_exit w)
  have w: "w < total (pw_pool s)"
    using inv worker_exit(2) by (auto simp: pool_inv_def not_less[symmetric])
  show ?thesis
    using inv worker_exit w held_upd[OF w, of "pw_pc s" "{#}" WExit] executing_upd[OF w, of "pw_pc s" WExit]
    by (auto simp: pool_inv_def in_flight_def)
qed

lemma pool_start_inv:
  assumes "qv (work_queue p)" "rv (result_queue p)" "qi (work_queue p) = []" "ri (result_queue p) = []" "active p = 0"
  shows "pool_inv qi qv ri rv (pool_start p)"
proof -
  have "(\<Sum>w < total p. held (if w < total p then WPoll else WExit)) = {#}"
    by (rule sum.neutral) simp
  moreover have "(\<Sum>w < total p. executing (if w < total p then WPoll else WExit)) = 0"
    by (rule sum.neutral) simp
  ultimately show ?thesis
    using assms by (simp add: pool_inv_def in_flight_def pool_start_def)
qed

lemma pool_reach_inv:
  assumes "bounded_fifo (aq_push Q) (aq_pop Q) qi qc qv" "bounded_fifo (aq_push R) (aq_pop R) ri rc rv"
    and "(pool_step Q R)\<^sup>*\<^sup>* (pool_start p) s"
    and "qv (work_queue p)" "rv (result_queue p)" "qi (work_queue p) = []" "ri (result_queue p) = []" "active p = 0"
  shows "pool_inv qi qv ri rv s"
  using assms(3)
  by (induction rule: rtranclp_induct) (auto intro: pool_start_inv assms(4-8) pool_inv_step[OF assms(1,2)])

lemma total_pop_results: "pop_results R n p = (cs, p') \<Longrightarrow> total p' = total p"
  by (induction n arbitrary: p cs) (auto split: option.splits prod.splits)

lemma pool_total_step: "pool_step Q R s s' \<Longrightarrow> total (pw_pool s') = total (pw_pool s)"
  by (induction rule: pool_step.induct)
    (auto simp: pool_enqueue_def pool_shutdown_def pool_poll_completions_def dest: total_pop_results
      split: if_splits option.splits)

lemma pool_total_reach: "(pool_step Q R)\<^sup>*\<^sup>* s s' \<Longrightarrow> total (pw_pool s') = total (pw_pool s)"
  by (induction rule: rtranclp_induct) (auto simp: pool_total_step)

section \<open>The pool behind the trait\<close>

lemma length_pop_results: "length (fst (pop_results R n p)) \<le> n"
proof (induction n arbitrary: p)
  case (Suc n)
  then show ?case
    by (auto split: option.splits prod.splits) (metis fst_conv)
qed simp

interpretation pp: bounded_poll "pool_poll_completions R :: nat \<Rightarrow> nat \<Rightarrow> ('q, 'r) PoolInner \<Rightarrow> _" for R
  by unfold_locales (simp only: pool_poll_completions_def length_pop_results)

definition fixed_pool :: "(SubmitEntry, 'q) ArrayQueue \<Rightarrow> (WorkerCompletion, 'r) ArrayQueue \<Rightarrow> ('q, 'r) PoolInner WorkerPool" where
  "fixed_pool Q R = \<lparr> wp_enqueue = pool_enqueue Q, wp_poll = pool_poll_completions R, wp_shutdown = pool_shutdown \<rparr>"

section \<open>Properties\<close>

text \<open>
  C10: Under every interleaving of the dispatcher's calls with any number of workers, each request the
  pool accepted is, exactly once, waiting, held by one worker, in the result queue, delivered, or
  given up by a worker; and \<open>active\<close> counts the workers inside a system call, at most 32.
\<close>

theorem pool_conserves:
  assumes "bounded_fifo (aq_push Q) (aq_pop Q) qi qc qv" "bounded_fifo (aq_push R) (aq_pop R) ri rc rv"
    and "qv q" "rv r" "qi q = []" "ri r = []"
    and "(pool_step Q R)\<^sup>*\<^sup>* (pool_start (FixedPool_new n q r)) s"
  shows "mset (map sb_corr_id (pw_accepted s)) =
      in_flight qi ri s + mset (map wkc_corr_id (pw_delivered s)) + mset (map wkc_corr_id (pw_dropped s)) \<and>
    active_workers (pw_pool s) = (\<Sum>w < total (pw_pool s). executing (pw_pc s w)) \<and> active_workers (pw_pool s) \<le> 32"
proof -
  have inv: "pool_inv qi qv ri rv s"
    by (rule pool_reach_inv[OF assms(1,2,7)]) (auto simp: FixedPool_new_def assms(3-6))
  have "(\<Sum>w < total (pw_pool s). executing (pw_pc s w)) \<le> (\<Sum>w < total (pw_pool s). 1)"
  proof (rule sum_mono)
    show "executing (pw_pc s w) \<le> 1" for w
      by (cases "pw_pc s w") auto
  qed
  also have "\<dots> \<le> 32"
    using pool_total_reach[OF assms(7)] by (simp add: pool_start_def FixedPool_new_def)
  finally show ?thesis
    using inv by (simp add: pool_inv_def active_workers_def)
qed

lemma exit_all:
  assumes "\<forall>w < n. pw_pc s w = WPoll" "pool_shutdown_flag (pw_pool s)" "k \<le> n"
  shows "(pool_step Q R)\<^sup>*\<^sup>* s (s\<lparr> pw_pc := (\<lambda>w. if w < k then WExit else pw_pc s w) \<rparr>)"
  using assms(3)
proof (induction k)
  case (Suc k)
  let ?s = "s\<lparr> pw_pc := (\<lambda>w. if w < k then WExit else pw_pc s w) \<rparr>"
  have "(\<lambda>w. if w < k then WExit else pw_pc s w)(k := WExit) = (\<lambda>w. if w < Suc k then WExit else pw_pc s w)"
    by (auto simp: less_Suc_eq)
  then have "pool_step Q R ?s (s\<lparr> pw_pc := (\<lambda>w. if w < Suc k then WExit else pw_pc s w) \<rparr>)"
    using pool_step.worker_exit[of ?s k Q R] Suc.prems assms(1,2) by simp
  with Suc show ?case
    by (meson Suc_leD rtranclp.rtrancl_into_rtrancl)
qed simp

text \<open>
  Shutdown does not drain: from any state in which the workers are between requests, after
  \<open>shutdown\<close> they can all exit with every queued request still in the work queue.
\<close>

theorem shutdown_abandons_queue:
  assumes "\<forall>w < total (pw_pool s). pw_pc s w = WPoll"
  shows "\<exists>s'. (pool_step Q R)\<^sup>*\<^sup>* s s' \<and> (\<forall>w < total (pw_pool s). pw_pc s' w = WExit) \<and>
    work_queue (pw_pool s') = work_queue (pw_pool s) \<and> pw_delivered s' = pw_delivered s"
proof -
  let ?s = "s\<lparr> pw_pool := pool_shutdown (pw_pool s) \<rparr>" and ?n = "total (pw_pool s)"
  let ?s' = "?s\<lparr> pw_pc := (\<lambda>w. if w < ?n then WExit else pw_pc ?s w) \<rparr>"
  have "(pool_step Q R)\<^sup>*\<^sup>* ?s ?s'"
    by (rule exit_all[of ?n]) (simp_all add: assms pool_shutdown_def)
  then have "(pool_step Q R)\<^sup>*\<^sup>* s ?s'"
    using pool_step.shutdown[of Q R s] by (rule converse_rtranclp_into_rtranclp[rotated])
  then show ?thesis
    by (intro exI[of _ ?s']) (simp add: pool_shutdown_def)
qed

text \<open>The queues instantiated by the submit ring's own bounded queue, of one slot each.\<close>

definition ring_queue :: "('e, 'e RingMem) ArrayQueue" where
  "ring_queue = \<lparr> aq_push = try_push, aq_pop = dequeue_one \<rparr>"

definition one_slot :: "'e \<Rightarrow> 'e RingMem" where
  "one_slot e = \<lparr> rm_magic = KSVC_RING_MAGIC, rm_size = 1, rm_mask = 0, rm_entry_size = 64, rm_head = 0, rm_tail = 0,
     rm_entries = [e] \<rparr>"

lemma ring_queue_fifo: "bounded_fifo (aq_push ring_queue) (aq_pop ring_queue) ring_items (\<lambda>m. unat (rm_size m)) ring_inv"
  using sq.bounded_fifo_axioms by (simp add: ring_queue_def)

lemma one_slot_empty: "ring_inv (one_slot e) \<and> ring_items (one_slot e) = []"
  by (auto simp: ring_inv_def ring_wf_def one_slot_def ring_items_def ring_between_def intro: exI[of _ 0])

definition demo_pool :: "(SubmitEntry RingMem, WorkerCompletion RingMem) PoolInner" where
  "demo_pool = FixedPool_new 1 (one_slot getpid_entry) (one_slot \<lparr> wkc_corr_id = 0, wkc_result = 0 \<rparr>)"

definition demo_queued :: "(SubmitEntry RingMem, WorkerCompletion RingMem) PoolSys" where
  "demo_queued = (pool_start demo_pool)\<lparr> pw_pool := demo_pool\<lparr> work_queue := (one_slot getpid_entry)\<lparr> rm_tail := 1 \<rparr> \<rparr>,
     pw_accepted := [getpid_entry] \<rparr>"

lemma demo_enqueue: "(pool_step ring_queue ring_queue)\<^sup>*\<^sup>* (pool_start demo_pool) demo_queued"
proof -
  have "pool_enqueue ring_queue getpid_entry demo_pool = (Ok (), demo_pool\<lparr> work_queue := (one_slot getpid_entry)\<lparr> rm_tail := 1 \<rparr> \<rparr>)"
    by (simp add: pool_enqueue_def demo_pool_def FixedPool_new_def ring_queue_def try_push_def one_slot_def submit_index_def)
  then have "pool_step ring_queue ring_queue (pool_start demo_pool) demo_queued"
    using pool_step.enqueue[of ring_queue getpid_entry "pool_start demo_pool" _ ring_queue]
    by (simp add: demo_queued_def pool_start_def)
  then show ?thesis
    by (rule r_into_rtranclp)
qed

theorem pool_conserves_witness:
  "(pool_step ring_queue ring_queue)\<^sup>*\<^sup>* (pool_start demo_pool) demo_queued \<and>
   in_flight ring_items ring_items demo_queued = {# 5 #}"
proof -
  have "mset (map sb_corr_id (pw_accepted demo_queued)) = in_flight ring_items ring_items demo_queued +
      mset (map wkc_corr_id (pw_delivered demo_queued)) + mset (map wkc_corr_id (pw_dropped demo_queued))"
    using pool_conserves[OF ring_queue_fifo ring_queue_fifo, of "one_slot getpid_entry"
        "one_slot \<lparr> wkc_corr_id = 0, wkc_result = 0 \<rparr>" 1 demo_queued] demo_enqueue
    by (simp add: one_slot_empty demo_pool_def)
  then show ?thesis
    using demo_enqueue by (simp add: demo_queued_def pool_start_def getpid_entry_def)
qed

theorem shutdown_abandons_queue_witness:
  "\<exists>s'. (pool_step ring_queue ring_queue)\<^sup>*\<^sup>* demo_queued s' \<and> pw_pc s' 0 = WExit \<and>
     ring_items (work_queue (pw_pool s')) = [getpid_entry]"
proof -
  have "\<forall>w < total (pw_pool demo_queued). pw_pc demo_queued w = WPoll"
    by (simp add: demo_queued_def pool_start_def)
  from shutdown_abandons_queue[OF this, of ring_queue ring_queue] show ?thesis
    by (auto simp: demo_queued_def demo_pool_def FixedPool_new_def one_slot_def ring_items_def ring_between_def)
qed

end
