(* ===== verification/Reactor.thy ===== *)
theory Reactor
  imports Dispatcher Sched_Safety
begin

text \<open>
  Green threads on io\_uring: the shared reactor thread of \<open>ksvc-gvthread/src/reactor.rs\<close> and the
  per-worker rings of \<open>worker_reactor.rs\<close>, on top of the backend, the router and the scheduler. The
  request queue is crossbeam's \<open>ArrayQueue\<close>, a parameter, as is the io\_uring crate. \<open>None\<close> is a panic: the results slab is
  indexed without a check.
\<close>

section \<open>The shared reactor (\<open>reactor.rs\<close>)\<close>

record IoRequest =
  rq_corr_id :: CorrId
  rq_syscall_nr :: u32
  rq_args :: "u64 list"
  rq_priority :: Priority

record ReactorConfig =
  rc_sq_entries :: u32
  rc_max_slots :: usize
  rc_queue_capacity :: usize

definition ReactorConfig_default :: ReactorConfig where
  "ReactorConfig_default = \<lparr> rc_sq_entries = 1024, rc_max_slots = 65536, rc_queue_capacity = 16384 \<rparr>"

text \<open>The shared state without the results slab, which the per-worker rings have as well.\<close>

record 'q ReactorShared =
  rs_requests :: 'q
  rs_shutdown :: bool

definition ReactorShared_new :: "ReactorConfig \<Rightarrow> 'q \<Rightarrow> 'q ReactorShared \<times> i64 list" where
  "ReactorShared_new cfg q = (\<lparr> rs_requests = q, rs_shutdown = False \<rparr>, replicate (rc_max_slots cfg) 0)"

fun pop_requests :: "(IoRequest, 'q) ArrayQueue \<Rightarrow> nat \<Rightarrow> 'q \<Rightarrow> IoRequest list \<times> 'q" where
  "pop_requests Q 0 q = ([], q)"
| "pop_requests Q (Suc n) q =
     (case aq_pop Q q of
        None \<Rightarrow> ([], q)
      | Some (x, q') \<Rightarrow> (case pop_requests Q n q' of (xs, q'') \<Rightarrow> (x # xs, q'')))"

definition read_result :: "u32 \<Rightarrow> i64 list \<Rightarrow> i64 option" where
  "read_result slot results = (if unat slot < length results then Some (results ! unat slot) else None)"

definition write_result :: "u32 \<Rightarrow> i64 \<Rightarrow> i64 list \<Rightarrow> i64 list option" where
  "write_result slot res results =
     (if unat slot < length results then Some (results[unat slot := res]) else None)"

text \<open>The reactor, the results slab and the scheduler whose threads it wakes.\<close>

record 'r Io =
  io_ring :: "'r BasicIoUring"
  io_results :: "i64 list"
  io_sched :: Sched

text \<open>The result is stored, then the thread is woken.\<close>

definition complete_slot :: "Tls \<Rightarrow> u32 \<Rightarrow> i64 \<Rightarrow> Priority \<Rightarrow> 'r Io \<Rightarrow> 'r Io option" where
  "complete_slot tls slot res pr s =
     (case write_result slot res (io_results s) of
        None \<Rightarrow> None
      | Some rs \<Rightarrow> Some (s\<lparr> io_results := rs, io_sched := wake_gvthread tls slot pr (io_sched s) \<rparr>))"

text \<open>The routing of one request, shared by \<open>reactor_loop\<close> and \<open>WorkerReactorPool::submit\<close>.\<close>

definition submit_request ::
  "'r Uring \<Rightarrow> ProbeRouter \<Rightarrow> Tls \<Rightarrow> CorrId \<Rightarrow> u32 \<Rightarrow> u64 list \<Rightarrow> Priority \<Rightarrow> 'r Io \<Rightarrow> 'r Io option" where
  "submit_request u rt tls corr_id syscall_nr args pr s =
     (let r = route rt syscall_nr;
          e = \<lparr> sb_corr_id = corr_id, sb_syscall_nr = syscall_nr, sb_flags = 0, sb_args = args \<rparr>;
          slot = as_gvthread_id corr_id
      in case tier r of
           IoUring \<Rightarrow>
             (case submit_with_opcode u e (iouring_opcode r) (io_ring s) of
                (Inr _, b) \<Rightarrow> Some (s\<lparr> io_ring := b \<rparr>)
              | (Inl _, b) \<Rightarrow> complete_slot tls slot (- EAGAIN) pr (s\<lparr> io_ring := b \<rparr>))
         | _ \<Rightarrow> complete_slot tls slot (- ENOSYS) pr s)"

fun submit_requests :: "'r Uring \<Rightarrow> ProbeRouter \<Rightarrow> Tls \<Rightarrow> IoRequest list \<Rightarrow> 'r Io \<Rightarrow> 'r Io option" where
  "submit_requests u rt tls [] s = Some s"
| "submit_requests u rt tls (q # qs) s =
     (case submit_request u rt tls (rq_corr_id q) (rq_syscall_nr q) (rq_args q) (rq_priority q) s of
        None \<Rightarrow> None
      | Some s' \<Rightarrow> submit_requests u rt tls qs s')"

fun finish_completions :: "Tls \<Rightarrow> IoCompletion list \<Rightarrow> 'r Io \<Rightarrow> 'r Io option" where
  "finish_completions tls [] s = Some s"
| "finish_completions tls (c # cs) s =
     (let slot = as_gvthread_id (ioc_corr_id c) in
      if slot = - 1 then finish_completions tls cs s
      else case complete_slot tls slot (ioc_result c) Normal s of
             None \<Rightarrow> None
           | Some s' \<Rightarrow> finish_completions tls cs s')"

definition poll_and_finish :: "'r Uring \<Rightarrow> Tls \<Rightarrow> 'r Io \<Rightarrow> (nat \<times> 'r Io) option" where
  "poll_and_finish u tls s =
     (case iouring_poll_completions u 256 256 (io_ring s) of
        (cs, b) \<Rightarrow> map_option (Pair (length cs)) (finish_completions tls cs (s\<lparr> io_ring := b \<rparr>)))"

text \<open>
  One turn of the loop: the batch is what the queue yields, at most 128 requests. The idle branch
  flushes, sleeps and starts over without polling; its answer is \<open>0\<close>.
\<close>

definition reactor_round ::
  "(IoRequest, 'q) ArrayQueue \<Rightarrow> 'r Uring \<Rightarrow> ProbeRouter \<Rightarrow> 'q ReactorShared \<Rightarrow> 'r Io \<Rightarrow>
    (nat \<times> 'q ReactorShared \<times> 'r Io) option" where
  "reactor_round Q u rt sh s =
     (case pop_requests Q 128 (rs_requests sh) of
        (batch, q) \<Rightarrow>
          (case submit_requests u rt Tls_initial batch s of
             None \<Rightarrow> None
           | Some s1 \<Rightarrow>
               if inflight (io_ring s1) > 0 \<or> batch \<noteq> [] then
                 let min_wait = if inflight (io_ring s1) > 0 \<and> batch = [] then 1 else 0;
                     s2 = s1\<lparr> io_ring := snd (flush_and_wait u min_wait (io_ring s1)) \<rparr>
                 in map_option (\<lambda>(n, s3). (n, sh\<lparr> rs_requests := q \<rparr>, s3)) (poll_and_finish u Tls_initial s2)
               else Some (0, sh\<lparr> rs_requests := q \<rparr>, s1\<lparr> io_ring := snd (iouring_flush u (io_ring s1)) \<rparr>)))"

text \<open>Leaving the loop, and the request to leave it.\<close>

definition reactor_exit :: "nat \<Rightarrow> 'r Uring \<Rightarrow> 'r Io \<Rightarrow> 'r Io option" where
  "reactor_exit fuel u s = map_option (\<lambda>b. s\<lparr> io_ring := b \<rparr>) (iouring_shutdown fuel u (io_ring s))"

definition Reactor_shutdown :: "'q ReactorShared \<Rightarrow> 'q ReactorShared" where
  "Reactor_shutdown sh = sh\<lparr> rs_shutdown := True \<rparr>"

section \<open>The per-worker rings (\<open>worker_reactor.rs\<close>)\<close>

text \<open>\<open>io_ring\<close> is the ring of the worker; its own thread-local state names it to the scheduler.\<close>

definition wr_submit ::
  "'r Uring \<Rightarrow> ProbeRouter \<Rightarrow> nat \<Rightarrow> u32 \<Rightarrow> u32 \<Rightarrow> u64 list \<Rightarrow> 'r Io \<Rightarrow> 'r Io option" where
  "wr_submit u rt w slot syscall_nr args s =
     submit_request u rt (s_tls (io_sched s) w) (from_gvthread_id slot) syscall_nr args Normal s"

definition wr_poll :: "'r Uring \<Rightarrow> nat \<Rightarrow> 'r Io \<Rightarrow> (nat \<times> 'r Io) option" where
  "wr_poll u w s =
     (let s1 = s\<lparr> io_ring := snd (iouring_flush u (io_ring s)) \<rparr>
      in poll_and_finish u (s_tls (io_sched s1) w) s1)"

definition has_inflight :: "'r Io \<Rightarrow> bool" where
  "has_inflight s \<longleftrightarrow> inflight (io_ring s) > 0"

definition wait_and_poll :: "'r Uring \<Rightarrow> nat \<Rightarrow> 'r Io \<Rightarrow> (nat \<times> 'r Io) option" where
  "wait_and_poll u w s =
     (let s1 = s\<lparr> io_ring := snd (flush_and_wait u 1 (io_ring s)) \<rparr>
      in poll_and_finish u (s_tls (io_sched s1) w) s1)"

text \<open>\<open>submit_and_park_worker\<close> up to the switch: submit, then block the running thread.\<close>

definition submit_and_park_worker ::
  "'r Uring \<Rightarrow> ProbeRouter \<Rightarrow> nat \<Rightarrow> u32 \<Rightarrow> u64 list \<Rightarrow> 'r Io \<Rightarrow> 'r Io option" where
  "submit_and_park_worker u rt w syscall_nr args s =
     (let slot = tls_current (s_tls (io_sched s) w) in
      if slot = GVTHREAD_NONE then None
      else map_option (\<lambda>s1. s1\<lparr> io_sched := block_current w (io_sched s1) \<rparr>)
             (wr_submit u rt w slot syscall_nr args s))"

section \<open>Wakes of a thread that is still running\<close>

text \<open>
  A wake that comes before its thread has blocked changes nothing, and the thread then blocks.
\<close>

lemma early_wake_lost:
  "get_state (s_meta s i) \<noteq> Blocked \<Longrightarrow> wake_gvthread tls i pr s = s"
  by (simp add: wake_gvthread_def)

lemma complete_slot_running:
  assumes "unat i < length (io_results s)" "get_state (s_meta (io_sched s) i) \<noteq> Blocked"
  shows "complete_slot tls i res pr s = Some (s\<lparr> io_results := (io_results s)[unat i := res] \<rparr>)"
  using assms by (simp add: complete_slot_def write_result_def early_wake_lost)

lemma early_completion_lost:
  assumes "as_gvthread_id (ioc_corr_id c) = i" "i \<noteq> u32_MAX" "unat i < length (io_results s)"
    and "get_state (s_meta (io_sched s) i) \<noteq> Blocked"
  shows "finish_completions tls [c] s = Some (s\<lparr> io_results := (io_results s)[unat i := ioc_result c] \<rparr>)"
  using assms complete_slot_running[of i s tls "ioc_result c" Normal] by simp

lemma as_from_gvthread_id [simp]: "as_gvthread_id (from_gvthread_id i) = i"
  by (simp add: as_gvthread_id_def from_gvthread_id_def) (transfer, simp)

lemma block_current_running:
  assumes "tls_current (s_tls s w) \<noteq> GVTHREAD_NONE" "tls_base (s_tls s w) \<noteq> 0"
  shows "block_current w s = upd_meta (tls_current (s_tls s w)) (set_state Blocked) s"
  using assms by (simp add: block_current_def Let_def is_in_gvthread_def)

section \<open>What a batch of completions does\<close>

text \<open>The slots a batch names, the sentinel left out, and the last result it has for one of them.\<close>

definition slots_of :: "IoCompletion list \<Rightarrow> u32 set" where
  "slots_of cs = (\<lambda>c. as_gvthread_id (ioc_corr_id c)) ` set cs - {- 1}"

definition last_result :: "u32 \<Rightarrow> i64 \<Rightarrow> IoCompletion list \<Rightarrow> i64" where
  "last_result i old cs = foldl (\<lambda>r c. if as_gvthread_id (ioc_corr_id c) = i then ioc_result c else r) old cs"

lemma slots_of_simps [simp]:
  "slots_of [] = {}"
  "slots_of (c # cs) =
     (if as_gvthread_id (ioc_corr_id c) = - 1 then slots_of cs
      else insert (as_gvthread_id (ioc_corr_id c)) (slots_of cs))"
  by (auto simp: slots_of_def)

lemma finite_slots_of [simp]: "finite (slots_of cs)"
  by (simp add: slots_of_def)

definition blocked_in :: "u32 set \<Rightarrow> Sched \<Rightarrow> u32 set" where
  "blocked_in S s = {i \<in> S. get_state (s_meta s i) = Blocked}"

lemma wake_effect:
  assumes "sq_inv (s_queue s)"
  shows "sq_inv (s_queue (wake_gvthread tls i pr s))"
    and "queued (s_queue (wake_gvthread tls i pr s)) = queued (s_queue s) + mset_set (blocked_in {i} s)"
    and "get_state (s_meta (wake_gvthread tls i pr s) j) =
      (if j = i \<and> get_state (s_meta s i) = Blocked then Ready else get_state (s_meta s j))"
proof -
  have "blocked_in {i} s = (if get_state (s_meta s i) = Blocked then {i} else {})"
    by (auto simp: blocked_in_def)
  then show "sq_inv (s_queue (wake_gvthread tls i pr s))"
    "queued (s_queue (wake_gvthread tls i pr s)) = queued (s_queue s) + mset_set (blocked_in {i} s)"
    "get_state (s_meta (wake_gvthread tls i pr s) j) =
      (if j = i \<and> get_state (s_meta s i) = Blocked then Ready else get_state (s_meta s j))"
    using rq_push_bag[OF assms, of i pr "try_current_worker_id tls"] assms
    by (simp_all add: wake_gvthread_def Let_def)
qed

lemma blocked_in_wake:
  "sq_inv (s_queue s) \<Longrightarrow> blocked_in S (wake_gvthread tls i pr s) = blocked_in S s - {i}"
  by (auto simp: blocked_in_def wake_effect(3))

lemma blocked_in_split: "finite S \<Longrightarrow>
  mset_set (blocked_in (insert i S) s) = mset_set (blocked_in {i} s) + mset_set (blocked_in S s - {i})"
proof -
  assume f: "finite S"
  have "blocked_in (insert i S) s = blocked_in {i} s \<union> (blocked_in S s - {i})"
    "blocked_in {i} s \<inter> (blocked_in S s - {i}) = {}" "finite (blocked_in {i} s)" "finite (blocked_in S s - {i})"
    using f by (auto simp: blocked_in_def)
  then show ?thesis
    by (simp add: mset_set_Union)
qed

definition delivers :: "IoCompletion list \<Rightarrow> 'r Io \<Rightarrow> 'r Io \<Rightarrow> bool" where
  "delivers cs s s' \<longleftrightarrow>
     io_ring s' = io_ring s \<and> sq_inv (s_queue (io_sched s')) \<and> length (io_results s') = length (io_results s) \<and>
     (\<forall>i. i \<noteq> - 1 \<longrightarrow> unat i < length (io_results s) \<longrightarrow>
        io_results s' ! unat i = last_result i (io_results s ! unat i) cs) \<and>
     (\<forall>i. get_state (s_meta (io_sched s') i) =
        (if i \<in> blocked_in (slots_of cs) (io_sched s) then Ready else get_state (s_meta (io_sched s) i))) \<and>
     queued (s_queue (io_sched s')) =
       queued (s_queue (io_sched s)) + mset_set (blocked_in (slots_of cs) (io_sched s))"

lemma finish_delivers:
  assumes "sq_inv (s_queue (io_sched s))" "\<forall>i \<in> slots_of cs. unat i < length (io_results s)"
  shows "\<exists>s'. finish_completions tls cs s = Some s' \<and> delivers cs s s'"
  using assms
proof (induction cs arbitrary: s)
  case Nil
  then show ?case
    by (simp add: delivers_def last_result_def blocked_in_def)
next
  case (Cons c cs)
  let ?i = "as_gvthread_id (ioc_corr_id c)"
  show ?case
  proof (cases "?i = - 1")
    case True
    then obtain s' where "finish_completions tls cs s = Some s'" "delivers cs s s'"
      using Cons.IH[of s] Cons.prems by auto
    then show ?thesis
      using True by (auto simp: delivers_def last_result_def)
  next
    case False
    let ?s1 = "s\<lparr> io_results := (io_results s)[unat ?i := ioc_result c],
        io_sched := wake_gvthread tls ?i Normal (io_sched s) \<rparr>"
    have c: "complete_slot tls ?i (ioc_result c) Normal s = Some ?s1"
      using Cons.prems(2) False by (simp add: complete_slot_def write_result_def)
    obtain s' where s': "finish_completions tls cs ?s1 = Some s'" "delivers cs ?s1 s'"
      using Cons.IH[of ?s1] Cons.prems False wake_effect(1) by fastforce
    note q = Cons.prems(1)
    let ?w = "wake_gvthread tls ?i Normal (io_sched s)"
    have d: "io_ring s' = io_ring s" "sq_inv (s_queue (io_sched s'))" "length (io_results s') = length (io_results s)"
      "\<And>i. i \<noteq> - 1 \<Longrightarrow> unat i < length (io_results s) \<Longrightarrow>
        io_results s' ! unat i = last_result i ((io_results s)[unat ?i := ioc_result c] ! unat i) cs"
      "\<And>i. get_state (s_meta (io_sched s') i) =
        (if i \<in> blocked_in (slots_of cs) ?w then Ready else get_state (s_meta ?w i))"
      "queued (s_queue (io_sched s')) = queued (s_queue ?w) + mset_set (blocked_in (slots_of cs) ?w)"
      using s'(2) by (simp_all add: delivers_def)
    have u: "unat ?i = unat i \<longleftrightarrow> ?i = i" for i
      using unsigned_word_eqI[where 'a = nat] by blast
    have "last_result i (io_results s ! unat i) (c # cs) =
        last_result i ((io_results s)[unat ?i := ioc_result c] ! unat i) cs" if "unat i < length (io_results s)" for i
      using that by (auto simp: last_result_def nth_list_update u)
    moreover have "get_state (s_meta (io_sched s') i) =
        (if i \<in> blocked_in (slots_of (c # cs)) (io_sched s) then Ready else get_state (s_meta (io_sched s) i))" for i
      using False by (auto simp: d(5) wake_effect[OF q] blocked_in_wake[OF q]) (auto simp: blocked_in_def)
    moreover have "queued (s_queue (io_sched s')) =
        queued (s_queue (io_sched s)) + mset_set (blocked_in (slots_of (c # cs)) (io_sched s))"
      using False blocked_in_split[OF finite_slots_of, of ?i cs "io_sched s"]
      by (simp add: d(6) wake_effect(2)[OF q] blocked_in_wake[OF q])
    ultimately have "delivers (c # cs) s s'"
      unfolding delivers_def using d(1-4) by simp
    then show ?thesis
      using s'(1) c False by simp
  qed
qed

lemma poll_and_finish_delivers:
  assumes "cq_yields u (ring (io_ring s)) cs" "length cs \<le> 256" "sq_inv (s_queue (io_sched s))"
    and "\<forall>i \<in> slots_of (map completion_of cs). unat i < length (io_results s)"
  shows "\<exists>b s'. poll_and_finish u tls s = Some (length cs, s') \<and> next_cqe u (ring b) = None \<and>
    inflight b = inflight (io_ring s) - length cs \<and> delivers (map completion_of cs) (s\<lparr> io_ring := b \<rparr>) s'"
proof -
  obtain out b where p: "poll_cqes u 256 (io_ring s) = (out, b)"
    by fastforce
  have o: "out = map completion_of cs" "next_cqe u (ring b) = None" "inflight b = inflight (io_ring s) - length cs"
    using poll_cqes_yields[OF assms(1) p] assms(2) by simp_all
  obtain s' where "finish_completions tls out (s\<lparr> io_ring := b \<rparr>) = Some s'" "delivers out (s\<lparr> io_ring := b \<rparr>) s'"
    using finish_delivers[of "s\<lparr> io_ring := b \<rparr>" out tls] assms(3,4) o(1) by auto
  then show ?thesis
    using p o by (intro exI[of _ b] exI[of _ s']) (simp add: poll_and_finish_def iouring_poll_completions_def)
qed

text \<open>A ring with two completions, for slots 1 and 2, and a scheduler in which only thread 1 is blocked.\<close>

definition demo_io :: "Cqe list \<Rightarrow> (Sqe list \<times> Cqe list) Io" where
  "demo_io cs =
     \<lparr> io_ring = \<lparr> ring = ([], cs), inflight = length cs, pending_submit = 0 \<rparr>,
       io_results = replicate 4 0, io_sched = mark_blocked 1 Normal (y_sched demo_sys) \<rparr>"

section \<open>Properties\<close>

text \<open>
  Waiting on a worker's ring: when the wait leaves at most 256 completions, every one of them is taken
  from the ring; each named slot holds the last result for it and no other slot changes; each named
  thread that was blocked becomes ready and enters the ready queue exactly once, and no other thread's
  state changes.
\<close>

theorem wait_and_poll_delivers:
  assumes "flush_and_wait u 1 (io_ring s) = (r, b0)" "cq_yields u (ring b0) cs" "length cs \<le> 256"
    and "sq_inv (s_queue (io_sched s))"
    and "\<forall>i \<in> slots_of (map completion_of cs). unat i < length (io_results s)"
  shows "\<exists>b s'. wait_and_poll u w s = Some (length cs, s') \<and> io_ring s' = b \<and>
    next_cqe u (ring b) = None \<and> inflight b = inflight b0 - length cs \<and>
    (\<forall>i. i \<noteq> u32_MAX \<longrightarrow> unat i < length (io_results s) \<longrightarrow>
       io_results s' ! unat i = last_result i (io_results s ! unat i) (map completion_of cs)) \<and>
    (\<forall>i. get_state (s_meta (io_sched s') i) =
       (if i \<in> blocked_in (slots_of (map completion_of cs)) (io_sched s) then Ready
        else get_state (s_meta (io_sched s) i))) \<and>
    queued (s_queue (io_sched s')) =
      queued (s_queue (io_sched s)) + mset_set (blocked_in (slots_of (map completion_of cs)) (io_sched s))"
proof -
  obtain b s' where p: "poll_and_finish u (s_tls (io_sched s) w) (s\<lparr> io_ring := b0 \<rparr>) = Some (length cs, s')"
    "next_cqe u (ring b) = None" "inflight b = inflight b0 - length cs"
    "delivers (map completion_of cs) (s\<lparr> io_ring := b0, io_ring := b \<rparr>) s'"
    using poll_and_finish_delivers[of u "s\<lparr> io_ring := b0 \<rparr>" cs "s_tls (io_sched s) w"] assms by auto
  have "wait_and_poll u w s = Some (length cs, s')"
    using p(1) assms(1) by (simp add: wait_and_poll_def)
  then show ?thesis
    using p(2-4) unfolding delivers_def by (intro exI[of _ b] exI[of _ s']) simp
qed

theorem wait_and_poll_delivers_witness:
  "\<exists>s'. wait_and_poll list_ring 0 (demo_io [cqe_for 1, cqe_for 2]) = Some (2, s') \<and>
     get_state (s_meta (io_sched s') 1) = Ready \<and> queued (s_queue (io_sched s')) = {#1#} \<and> io_results s' ! 1 = 0"
proof -
  let ?s = "demo_io [cqe_for 1, cqe_for 2]" and ?cs = "[cqe_for 1, cqe_for 2]"
  let ?b = "\<lparr> ring = ([], ?cs), inflight = 2, pending_submit = 0 \<rparr>"
  have sl: "slots_of (map completion_of ?cs) = {1, 2}"
    by (simp add: cqe_for_def completion_of_def as_gvthread_id_def)
  have f: "flush_and_wait list_ring 1 (io_ring ?s) = (Ok 0, ?b)"
    by (simp add: flush_and_wait_def enter_and_count_def list_ring_def demo_io_def)
  have y: "cq_yields list_ring (ring ?b) ?cs"
    unfolding BasicIoUring.simps by (rule list_ring_yields)
  have q: "sq_inv (s_queue (io_sched ?s))" "queued (s_queue (io_sched ?s)) = {#}"
    by (simp_all add: demo_io_def mark_blocked_def demo_sched sq_inv_def queued_def local_mset_def lq_inv_def
        LocalQueue_new_def GlobalQueue_new_def)
  have z: "get_state metadata_zeroed \<noteq> Blocked"
    by (simp add: metadata_zeroed_def get_state_def GVThreadState_from_u8_def)
  have bl: "blocked_in {1, 2} (io_sched ?s) = {1}"
    by (auto simp: blocked_in_def demo_io_def mark_blocked_def demo_sched z)
  have lr: "last_result 1 0 (map completion_of ?cs) = 0"
    by (simp add: last_result_def cqe_for_def completion_of_def)
  have rs: "io_results ?s = [0, 0, 0, 0]"
    by (simp add: demo_io_def numeral_eq_Suc)
  have "length ?cs \<le> 256" "\<forall>i \<in> slots_of (map completion_of ?cs). unat i < length (io_results ?s)"
    unfolding sl rs by simp_all
  from wait_and_poll_delivers[OF f y this(1) q(1) this(2), of 0]
  obtain s' where p: "wait_and_poll list_ring 0 ?s = Some (length ?cs, s')"
    and r: "\<And>i. i \<noteq> u32_MAX \<Longrightarrow> unat i < length (io_results ?s) \<Longrightarrow>
       io_results s' ! unat i = last_result i (io_results ?s ! unat i) (map completion_of ?cs)"
    and st: "\<And>i. get_state (s_meta (io_sched s') i) =
       (if i \<in> {1} then Ready else get_state (s_meta (io_sched ?s) i))"
    and qu: "queued (s_queue (io_sched s')) = {#} + mset_set {1}"
    unfolding sl bl q(2) by blast
  have "io_results s' ! 1 = 0"
    using r[of 1] lr unfolding rs by simp
  then show ?thesis
    using p st[of 1] qu by (intro exI[of _ s']) simp
qed

text \<open>
  A call that the worker's ring refuses, because its system call is not routed to io\_uring or because
  the ring is full, leaves the calling thread blocked for good: the error is in its slot, but the wake
  came while the thread was still running and did nothing; the thread is in no ready queue and nothing
  that names it was given to the ring.
\<close>

theorem refused_call_never_wakes:
  assumes "tls_current (s_tls (io_sched s) w) = i" "i \<noteq> GVTHREAD_NONE" "tls_base (s_tls (io_sched s) w) \<noteq> 0"
    and "get_state (s_meta (io_sched s) i) = Running" "unat i < length (io_results s)"
    and "tier (route rt n) \<noteq> IoUring \<or> is_full u (ring (io_ring s))"
  shows "\<exists>s'. submit_and_park_worker u rt w n args s = Some s' \<and>
    io_results s' ! unat i \<in> {- EAGAIN, - ENOSYS} \<and>
    get_state (s_meta (io_sched s') i) = Blocked \<and>
    s_queue (io_sched s') = s_queue (io_sched s) \<and> io_ring s' = io_ring s"
proof -
  let ?tls = "s_tls (io_sched s) w"
  obtain e where e: "e \<in> {- EAGAIN, - ENOSYS}" "wr_submit u rt w i n args s = complete_slot ?tls i e Normal s"
    using assms(6)
    by (cases "tier (route rt n)") (auto simp: wr_submit_def submit_request_def Let_def submit_with_opcode_def translate_and_push_def
        split: option.splits)
  have "complete_slot ?tls i e Normal s = Some (s\<lparr> io_results := (io_results s)[unat i := e] \<rparr>)"
    using complete_slot_running assms(4,5) by fastforce
  then show ?thesis
    using assms(1-5) e
    by (simp add: submit_and_park_worker_def block_current_running)
qed

theorem refused_call_never_wakes_witness:
  "let s = (demo_io [])\<lparr> io_sched := run_prologue 0 1 0 (y_sched demo_sys) \<rparr> in
   \<exists>s'. submit_and_park_worker list_ring (ProbeRouter_new []) 0 56 [] s = Some s' \<and>
     get_state (s_meta (io_sched s') 1) = Blocked \<and> s_queue (io_sched s') = s_queue (io_sched s)"
proof -
  let ?s = "(demo_io [])\<lparr> io_sched := run_prologue 0 1 0 (y_sched demo_sys) \<rparr>"
  have "tls_current (s_tls (io_sched ?s) 0) = 1" "1 \<noteq> GVTHREAD_NONE" "tls_base (s_tls (io_sched ?s) 0) \<noteq> 0"
    "get_state (s_meta (io_sched ?s) 1) = Running" "unat (1 :: u32) < length (io_results ?s)"
    by (simp_all add: run_prologue_def Let_def demo_step_simps metadata_addr_def slot_base_def demo_io_def
        get_state_def set_state_def clear_preempt_def GVThreadState_from_u8_def)
  moreover have "tier (route (ProbeRouter_new []) 56) \<noteq> IoUring \<or> is_full list_ring (ring (io_ring ?s))"
    by (simp add: route_by_spec route_spec_def own_route_def at_variant_def lists_eval del: map_of_append)
  ultimately show ?thesis
    using refused_call_never_wakes[of ?s 0 1 "ProbeRouter_new []" 56 list_ring "[]"] by (auto simp: Let_def)
qed

text \<open>
  The completion of a cancel request, whose user data is \<open>u64::MAX - 1\<close>, is not the sentinel the
  reactor skips: it indexes the results slab, out of range for every slab of at most \<open>2^32 - 2\<close> slots.
\<close>

theorem cancel_completion_panics:
  assumes "length (io_results s) \<le> 2 ^ 32 - 2" "ioc_corr_id c = - 2"
  shows "finish_completions tls (c # cs) s = None"
  using assms by (simp add: as_gvthread_id_def complete_slot_def write_result_def)

theorem cancel_completion_panics_witness:
  "finish_completions Tls_initial [completion_of (cqe_for (- 2))] (demo_io []) = None"
  by (rule cancel_completion_panics) (simp_all add: demo_io_def completion_of_def cqe_for_def)

end
