(* ===== verification/Gvt_Net.thy ===== *)
theory Gvt_Net
  imports Reactor
begin

text \<open>
  Blocking system calls and sockets for green threads: \<open>ksvc-gvthread/src/syscall.rs\<close> and
  \<open>net.rs\<close>. Every wrapper is a function of the primitive it calls, \<open>submit_and_park\<close> or
  \<open>submit_and_park_worker\<close>: with the state-passing primitive it is the call, with \<open>Pair\<close> it is the
  request. A slice is its address and its length. libc is a parameter.
\<close>

unbundle bit_operations_syntax

section \<open>The primitive of the shared path\<close>

text \<open>
  The push is retried until it succeeds; \<open>env\<close> is what the other threads do to the queue while this one
  yields. \<open>None\<close> when the fuel ends first.
\<close>

fun push_spin :: "nat \<Rightarrow> ('a, 'q) ArrayQueue \<Rightarrow> ('q \<Rightarrow> 'q) \<Rightarrow> 'a \<Rightarrow> 'q \<Rightarrow> 'q option" where
  "push_spin 0 Q env x q = None"
| "push_spin (Suc k) Q env x q =
     (case aq_push Q x q of Some q' \<Rightarrow> Some q' | None \<Rightarrow> push_spin k Q env x (env q))"

text \<open>Up to the switch; \<open>None\<close> also stands for the assertion on a caller outside a thread.\<close>

definition submit_and_park ::
  "nat \<Rightarrow> (IoRequest, 'q) ArrayQueue \<Rightarrow> ('q \<Rightarrow> 'q) \<Rightarrow> nat \<Rightarrow> u32 \<Rightarrow> u64 list \<Rightarrow>
    'q ReactorShared \<times> Sched \<Rightarrow> ('q ReactorShared \<times> Sched) option" where
  "submit_and_park fuel Q env w syscall_nr args s =
     (let slot = tls_current (s_tls (snd s) w);
          req = \<lparr> rq_corr_id = from_gvthread_id slot, rq_syscall_nr = syscall_nr, rq_args = args,
                  rq_priority = Normal \<rparr>
      in if slot = GVTHREAD_NONE then None
         else case push_spin fuel Q env req (rs_requests (fst s)) of
                None \<Rightarrow> None
              | Some q \<Rightarrow> Some ((fst s)\<lparr> rs_requests := q \<rparr>, block_current w (snd s)))"

section \<open>The wrappers\<close>

abbreviation NR_READ :: u32 where "NR_READ \<equiv> 0"
abbreviation NR_WRITE :: u32 where "NR_WRITE \<equiv> 1"
abbreviation NR_CLOSE :: u32 where "NR_CLOSE \<equiv> 3"
abbreviation NR_SENDTO :: u32 where "NR_SENDTO \<equiv> 44"
abbreviation NR_RECVFROM :: u32 where "NR_RECVFROM \<equiv> 45"
abbreviation NR_CONNECT :: u32 where "NR_CONNECT \<equiv> 42"
abbreviation NR_ACCEPT4 :: u32 where "NR_ACCEPT4 \<equiv> 288"
abbreviation NR_OPENAT :: u32 where "NR_OPENAT \<equiv> 257"
abbreviation NR_SOCKET :: u32 where "NR_SOCKET \<equiv> 41"
abbreviation NR_SHUTDOWN :: u32 where "NR_SHUTDOWN \<equiv> 48"

type_synonym 'b park = "u32 \<Rightarrow> u64 list \<Rightarrow> 'b"

text \<open>The cast of an \<open>i32\<close> to \<open>u64\<close> extends its sign.\<close>

abbreviation sx :: "i32 \<Rightarrow> u64" where
  "sx x \<equiv> scast x"

definition ksvc_read :: "'b park \<Rightarrow> i32 \<Rightarrow> u64 \<Rightarrow> usize \<Rightarrow> 'b" where
  "ksvc_read park fd buf len = park NR_READ [sx fd, buf, of_nat len, 0, 0, 0]"

definition ksvc_write :: "'b park \<Rightarrow> i32 \<Rightarrow> u64 \<Rightarrow> usize \<Rightarrow> 'b" where
  "ksvc_write park fd buf len = park NR_WRITE [sx fd, buf, of_nat len, 0, 0, 0]"

definition ksvc_close :: "'b park \<Rightarrow> i32 \<Rightarrow> 'b" where
  "ksvc_close park fd = park NR_CLOSE [sx fd, 0, 0, 0, 0, 0]"

definition ksvc_accept4 :: "'b park \<Rightarrow> i32 \<Rightarrow> u64 \<Rightarrow> u64 \<Rightarrow> i32 \<Rightarrow> 'b" where
  "ksvc_accept4 park listener_fd addr addrlen flags =
     park NR_ACCEPT4 [sx listener_fd, addr, addrlen, sx flags, 0, 0]"

definition ksvc_recv :: "'b park \<Rightarrow> i32 \<Rightarrow> u64 \<Rightarrow> usize \<Rightarrow> i32 \<Rightarrow> 'b" where
  "ksvc_recv park fd buf len flags = park NR_RECVFROM [sx fd, buf, of_nat len, sx flags, 0, 0]"

definition ksvc_send :: "'b park \<Rightarrow> i32 \<Rightarrow> u64 \<Rightarrow> usize \<Rightarrow> i32 \<Rightarrow> 'b" where
  "ksvc_send park fd buf len flags = park NR_SENDTO [sx fd, buf, of_nat len, sx flags, 0, 0]"

definition ksvc_connect :: "'b park \<Rightarrow> i32 \<Rightarrow> u64 \<Rightarrow> u32 \<Rightarrow> 'b" where
  "ksvc_connect park fd addr addrlen = park NR_CONNECT [sx fd, addr, ucast addrlen, 0, 0, 0]"

definition ksvc_openat :: "'b park \<Rightarrow> i32 \<Rightarrow> u64 \<Rightarrow> i32 \<Rightarrow> u32 \<Rightarrow> 'b" where
  "ksvc_openat park dirfd pathname flags mode =
     park NR_OPENAT [sx dirfd, pathname, sx flags, ucast mode, 0, 0]"

definition ksvc_socket :: "'b park \<Rightarrow> i32 \<Rightarrow> i32 \<Rightarrow> i32 \<Rightarrow> 'b" where
  "ksvc_socket park domain sock_type protocol =
     park NR_SOCKET [sx domain, sx sock_type, sx protocol, 0, 0, 0]"

definition ksvc_shutdown :: "'b park \<Rightarrow> i32 \<Rightarrow> i32 \<Rightarrow> 'b" where
  "ksvc_shutdown park fd how = park NR_SHUTDOWN [sx fd, sx how, 0, 0, 0, 0]"

text \<open>The worker-local wrappers.\<close>

definition wr_read :: "'b park \<Rightarrow> i32 \<Rightarrow> u64 \<Rightarrow> usize \<Rightarrow> 'b" where
  "wr_read park fd buf len = park NR_READ [sx fd, buf, of_nat len, 0, 0, 0]"

definition wr_write :: "'b park \<Rightarrow> i32 \<Rightarrow> u64 \<Rightarrow> usize \<Rightarrow> 'b" where
  "wr_write park fd buf len = park NR_WRITE [sx fd, buf, of_nat len, 0, 0, 0]"

definition wr_close :: "'b park \<Rightarrow> i32 \<Rightarrow> 'b" where
  "wr_close park fd = park NR_CLOSE [sx fd, 0, 0, 0, 0, 0]"

definition wr_accept4 :: "'b park \<Rightarrow> i32 \<Rightarrow> u64 \<Rightarrow> u64 \<Rightarrow> i32 \<Rightarrow> 'b" where
  "wr_accept4 park listener_fd addr addrlen flags =
     park NR_ACCEPT4 [sx listener_fd, addr, addrlen, sx flags, 0, 0]"

definition wr_recv :: "'b park \<Rightarrow> i32 \<Rightarrow> u64 \<Rightarrow> usize \<Rightarrow> i32 \<Rightarrow> 'b" where
  "wr_recv park fd buf len flags = park NR_RECVFROM [sx fd, buf, of_nat len, sx flags, 0, 0]"

definition wr_send :: "'b park \<Rightarrow> i32 \<Rightarrow> u64 \<Rightarrow> usize \<Rightarrow> i32 \<Rightarrow> 'b" where
  "wr_send park fd buf len flags = park NR_SENDTO [sx fd, buf, of_nat len, sx flags, 0, 0]"

lemma wr_is_ksvc:
  "wr_read = ksvc_read" "wr_write = ksvc_write" "wr_close = ksvc_close" "wr_accept4 = ksvc_accept4"
  "wr_recv = ksvc_recv" "wr_send = ksvc_send"
  by (auto simp: fun_eq_iff wr_read_def ksvc_read_def wr_write_def ksvc_write_def wr_close_def ksvc_close_def
      wr_accept4_def ksvc_accept4_def wr_recv_def ksvc_recv_def wr_send_def ksvc_send_def)

text \<open>
  The loop of \<open>ksvc_send_all\<close> and \<open>wr_send_all\<close>: at most \<open>fuel\<close> turns, \<open>None\<close> when they do not suffice. A
  count beyond the slice makes the slicing panic.
\<close>

type_synonym 's call = "'s \<Rightarrow> i64 \<times> 's"

fun send_loop ::
  "nat \<Rightarrow> (i32 \<Rightarrow> u64 \<Rightarrow> usize \<Rightarrow> i32 \<Rightarrow> 's call) \<Rightarrow> ('s \<Rightarrow> 's) \<Rightarrow> i32 \<Rightarrow> u64 \<Rightarrow> usize \<Rightarrow> usize \<Rightarrow> 's \<Rightarrow>
    ((failure, i64) result \<times> 's) option" where
  "send_loop 0 send yield fd buf len tot s = None"
| "send_loop (Suc k) send yield fd buf len tot s =
     (if len = 0 then Some (Ok (of_nat tot), s)
      else case send fd buf len 0 s of
             (n, s1) \<Rightarrow>
               if sint n < 0 then
                 if n = - EAGAIN \<or> n = - EINTR then send_loop k send yield fd buf len tot (yield s1)
                 else Some (Ok n, s1)
               else if len < unat n then Some (Err (Panic ''range start index out of range for slice''), s1)
               else send_loop k send yield fd (buf + n) (len - unat n) (tot + unat n) s1)"

definition ksvc_send_all ::
  "nat \<Rightarrow> 's call park \<Rightarrow> ('s \<Rightarrow> 's) \<Rightarrow> i32 \<Rightarrow> u64 \<Rightarrow> usize \<Rightarrow> 's \<Rightarrow> ((failure, i64) result \<times> 's) option" where
  "ksvc_send_all fuel park yield fd buf len s = send_loop fuel (ksvc_send park) yield fd buf len 0 s"

definition wr_send_all ::
  "nat \<Rightarrow> 's call park \<Rightarrow> ('s \<Rightarrow> 's) \<Rightarrow> i32 \<Rightarrow> u64 \<Rightarrow> usize \<Rightarrow> 's \<Rightarrow> ((failure, i64) result \<times> 's) option" where
  "wr_send_all fuel park yield fd buf len s = send_loop fuel (wr_send park) yield fd buf len 0 s"

section \<open>Sockets (\<open>net.rs\<close>)\<close>

text \<open>What the sources call of libc, on a state of its own.\<close>

record 's Libc =
  lc_socket :: "i32 \<Rightarrow> i32 \<Rightarrow> i32 \<Rightarrow> 's \<Rightarrow> i32 \<times> 's"
  lc_setsockopt :: "i32 \<Rightarrow> i32 \<Rightarrow> i32 \<Rightarrow> i32 \<Rightarrow> 's \<Rightarrow> 's"
  lc_bind :: "i32 \<Rightarrow> u16 \<Rightarrow> u32 \<Rightarrow> u16 \<Rightarrow> 's \<Rightarrow> i32 \<times> 's"
  lc_listen :: "i32 \<Rightarrow> i32 \<Rightarrow> 's \<Rightarrow> 's"
  lc_close :: "i32 \<Rightarrow> 's \<Rightarrow> 's"
  lc_errno :: "'s \<Rightarrow> i32"

abbreviation AF_INET :: i32 where "AF_INET \<equiv> 2"
abbreviation SOCK_STREAM :: i32 where "SOCK_STREAM \<equiv> 1"
abbreviation SOCK_CLOEXEC :: i32 where "SOCK_CLOEXEC \<equiv> 0x80000"
abbreviation SOL_SOCKET :: i32 where "SOL_SOCKET \<equiv> 1"
abbreviation SO_REUSEADDR :: i32 where "SO_REUSEADDR \<equiv> 2"
abbreviation SO_REUSEPORT :: i32 where "SO_REUSEPORT \<equiv> 15"
abbreviation IPPROTO_TCP :: i32 where "IPPROTO_TCP \<equiv> 6"
abbreviation TCP_NODELAY :: i32 where "TCP_NODELAY \<equiv> 1"

text \<open>\<open>u16::to_be\<close> on a little-endian machine.\<close>

definition to_be :: "u16 \<Rightarrow> u16" where
  "to_be p = push_bit 8 p OR drop_bit 8 p"

text \<open>The address is \<open>(sin_family, sin_addr, sin_port)\<close>.\<close>

definition bind_socket :: "'s Libc \<Rightarrow> u16 \<Rightarrow> 's \<Rightarrow> (i32, i32) result \<times> 's" where
  "bind_socket L port s =
     (case lc_socket L AF_INET (SOCK_STREAM OR SOCK_CLOEXEC) 0 s of
        (fd, s1) \<Rightarrow>
          if sint fd < 0 then (Err (lc_errno L s1), s1)
          else
            let s2 = lc_setsockopt L fd SOL_SOCKET SO_REUSEADDR 1 s1;
                s3 = lc_setsockopt L fd SOL_SOCKET SO_REUSEPORT 1 s2;
                s4 = lc_setsockopt L fd IPPROTO_TCP TCP_NODELAY 1 s3
            in case lc_bind L fd (ucast AF_INET) 0 (to_be port) s4 of
                 (ret, s5) \<Rightarrow>
                   if ret \<noteq> 0 then let s6 = lc_close L fd s5 in (Err (lc_errno L s6), s6)
                   else (Ok fd, lc_listen L fd 4096 s5))"

text \<open>A handle names its descriptor and the shared reactor, when it uses one.\<close>

record 'sh GvtListener =
  gl_fd :: i32
  gl_shared :: "'sh option"

record 'sh GvtStream =
  gs_fd :: i32
  gs_shared :: "'sh option"

definition GvtListener_bind :: "'s Libc \<Rightarrow> 'sh \<Rightarrow> u16 \<Rightarrow> 's \<Rightarrow> (i32, 'sh GvtListener) result \<times> 's" where
  "GvtListener_bind L shared port s =
     (case bind_socket L port s of
        (Inl e, s') \<Rightarrow> (Err e, s') | (Inr fd, s') \<Rightarrow> (Ok \<lparr> gl_fd = fd, gl_shared = Some shared \<rparr>, s'))"

definition GvtListener_bind_local :: "'s Libc \<Rightarrow> u16 \<Rightarrow> 's \<Rightarrow> (i32, 'sh GvtListener) result \<times> 's" where
  "GvtListener_bind_local L port s =
     (case bind_socket L port s of
        (Inl e, s') \<Rightarrow> (Err e, s') | (Inr fd, s') \<Rightarrow> (Ok \<lparr> gl_fd = fd, gl_shared = None \<rparr>, s'))"

text \<open>The two primitives; \<open>addr\<close> and \<open>addrlen\<close> are the addresses of the locals of \<open>accept\<close>.\<close>

record ('sh, 's) Parks =
  pk_shared :: "'sh \<Rightarrow> 's call park"
  pk_local :: "'s call park"

definition accept ::
  "'s Libc \<Rightarrow> ('sh, 's) Parks \<Rightarrow> u64 \<Rightarrow> u64 \<Rightarrow> 'sh GvtListener \<Rightarrow> 's \<Rightarrow> (i64, 'sh GvtStream) result \<times> 's" where
  "accept L P addr addrlen l s =
     (case (case gl_shared l of
              Some sh \<Rightarrow> ksvc_accept4 (pk_shared P sh) (gl_fd l) addr addrlen SOCK_CLOEXEC s
            | None \<Rightarrow> wr_accept4 (pk_local P) (gl_fd l) addr addrlen SOCK_CLOEXEC s) of
        (client_fd, s1) \<Rightarrow>
          if sint client_fd < 0 then (Err client_fd, s1)
          else (Ok \<lparr> gs_fd = ucast client_fd, gs_shared = gl_shared l \<rparr>,
                lc_setsockopt L (ucast client_fd) IPPROTO_TCP TCP_NODELAY 1 s1))"

definition stream_read :: "('sh, 's) Parks \<Rightarrow> 'sh GvtStream \<Rightarrow> u64 \<Rightarrow> usize \<Rightarrow> 's call" where
  "stream_read P t buf len =
     (case gs_shared t of
        Some sh \<Rightarrow> ksvc_recv (pk_shared P sh) (gs_fd t) buf len 0
      | None \<Rightarrow> wr_recv (pk_local P) (gs_fd t) buf len 0)"

definition write_all ::
  "nat \<Rightarrow> ('sh, 's) Parks \<Rightarrow> ('s \<Rightarrow> 's) \<Rightarrow> 'sh GvtStream \<Rightarrow> u64 \<Rightarrow> usize \<Rightarrow> 's \<Rightarrow>
    ((failure, i64) result \<times> 's) option" where
  "write_all fuel P yield t buf len =
     (case gs_shared t of
        Some sh \<Rightarrow> ksvc_send_all fuel (pk_shared P sh) yield (gs_fd t) buf len
      | None \<Rightarrow> wr_send_all fuel (pk_local P) yield (gs_fd t) buf len)"

definition stream_write :: "('sh, 's) Parks \<Rightarrow> 'sh GvtStream \<Rightarrow> u64 \<Rightarrow> usize \<Rightarrow> 's call" where
  "stream_write P t buf len =
     (case gs_shared t of
        Some sh \<Rightarrow> ksvc_send (pk_shared P sh) (gs_fd t) buf len 0
      | None \<Rightarrow> wr_send (pk_local P) (gs_fd t) buf len 0)"

definition close_uring :: "('sh, 's) Parks \<Rightarrow> 'sh GvtStream \<Rightarrow> 's call" where
  "close_uring P t =
     (case gs_shared t of
        Some sh \<Rightarrow> ksvc_close (pk_shared P sh) (gs_fd t) | None \<Rightarrow> wr_close (pk_local P) (gs_fd t))"

definition GvtListener_drop :: "'s Libc \<Rightarrow> 'sh GvtListener \<Rightarrow> 's \<Rightarrow> 's" where
  "GvtListener_drop L l s = lc_close L (gl_fd l) s"

definition GvtStream_drop :: "'s Libc \<Rightarrow> 'sh GvtStream \<Rightarrow> 's \<Rightarrow> 's" where
  "GvtStream_drop L t s = lc_close L (gs_fd t) s"

section \<open>What a send loop sends\<close>

text \<open>The addresses of \<open>n\<close> bytes from \<open>p\<close> on.\<close>

definition bytes_at :: "u64 \<Rightarrow> nat \<Rightarrow> u64 list" where
  "bytes_at p n = map (\<lambda>i. p + of_nat i) [0..<n]"

lemma bytes_at_append: "bytes_at p (m + n) = bytes_at p m @ bytes_at (p + of_nat m) n"
  by (rule nth_equalityI) (auto simp: bytes_at_def nth_append)

text \<open>
  What \<open>send\<close> promises: a negative answer is an error and sends nothing, another is the number of bytes
  sent, at most those offered. \<open>sent\<close> is the stream as its peer will see it.
\<close>

definition stream_send :: "(u64 \<Rightarrow> usize \<Rightarrow> 's call) \<Rightarrow> ('s \<Rightarrow> 's) \<Rightarrow> ('s \<Rightarrow> u64 list) \<Rightarrow> bool" where
  "stream_send send yield sent \<longleftrightarrow>
     (\<forall>p len s n s'. send p len s = (n, s') \<longrightarrow>
        (if sint n < 0 then sent s' = sent s else unat n \<le> len \<and> sent s' = sent s @ bytes_at p (unat n))) \<and>
     (\<forall>s. sent (yield s) = sent s)"

lemma stream_sendD:
  assumes "stream_send send yield sent" "send p len s = (n, s')"
  shows "sint n < 0 \<Longrightarrow> sent s' = sent s"
    and "\<not> sint n < 0 \<Longrightarrow> unat n \<le> len \<and> sent s' = sent s @ bytes_at p (unat n)"
    and "sent (yield x) = sent x"
  using assms unfolding stream_send_def by (metis, metis, metis)

definition send_result :: "(failure, i64) result \<Rightarrow> nat \<Rightarrow> nat \<Rightarrow> nat \<Rightarrow> bool" where
  "send_result r k len tot \<longleftrightarrow>
     (k = len \<and> r = Ok (of_nat (tot + len))) \<or>
     (\<exists>e. r = Ok e \<and> sint e < 0 \<and> e \<noteq> - EAGAIN \<and> e \<noteq> - EINTR \<and> k < len)"

lemma send_loop_sends:
  assumes "stream_send (\<lambda>p len. send fd p len 0) yield sent" "send_loop fuel send yield fd p len tot s = Some (r, s')"
  shows "\<exists>k \<le> len. sent s' = sent s @ bytes_at p k \<and> send_result r k len tot"
  using assms(2)
proof (induction fuel arbitrary: p len tot s)
  case (Suc fuel)
  show ?case
  proof (cases "len = 0")
    case True
    then show ?thesis
      using Suc.prems by (simp add: bytes_at_def send_result_def)
  next
    case False
    obtain n s1 where sd: "send fd p len 0 s = (n, s1)"
      by fastforce
    note c = stream_sendD[OF assms(1), of p len s n s1, OF sd]
    consider (again) "sint n < 0" "n = - EAGAIN \<or> n = - EINTR" | (error) "sint n < 0" "\<not> (n = - EAGAIN \<or> n = - EINTR)"
      | (some) "\<not> sint n < 0" by blast
    then show ?thesis
    proof cases
      case again
      then have "send_loop fuel send yield fd p len tot (yield s1) = Some (r, s')"
        using Suc.prems False sd by (simp only: send_loop.simps prod.case if_False if_True)
      from Suc.IH[OF this] show ?thesis
        using c(1,3) again(1) by simp
    next
      case error
      then have "r = Ok n" "s' = s1"
        using Suc.prems False sd by simp_all
      then show ?thesis
        using c(1) error False by (intro exI[of _ 0]) (simp add: bytes_at_def send_result_def)
    next
      case some
      then have n: "unat n \<le> len" "sent s1 = sent s @ bytes_at p (unat n)"
        using c(2) by simp_all
      then have "send_loop fuel send yield fd (p + n) (len - unat n) (tot + unat n) s1 = Some (r, s')"
        using Suc.prems False sd some by simp
      from Suc.IH[OF this] obtain k where k: "k \<le> len - unat n" "sent s' = sent s1 @ bytes_at (p + n) k"
          "send_result r k (len - unat n) (tot + unat n)"
        by blast
      have "sent s' = sent s @ bytes_at p (unat n + k)"
        using k(2) n(2) by (simp add: bytes_at_append)
      moreover have "send_result r (unat n + k) len tot"
        using k(1,3) n(1) unfolding send_result_def by (elim disjE) auto
      ultimately show ?thesis
        using k(1) n(1) by (intro exI[of _ "unat n + k"]) simp
    qed
  qed
qed simp

text \<open>
  A \<open>send\<close> that moves on: it sends something, fails for good, or asks for one of finitely many retries.
  A length from \<open>2^32\<close> on is left out: it reaches the kernel modulo \<open>2^32\<close>, where it may be zero.
\<close>

definition send_progress :: "(u64 \<Rightarrow> usize \<Rightarrow> 's call) \<Rightarrow> ('s \<Rightarrow> 's) \<Rightarrow> ('s \<Rightarrow> nat) \<Rightarrow> bool" where
  "send_progress send yield retries \<longleftrightarrow>
     (\<forall>p len s n s'. 0 < len \<longrightarrow> len < 2 ^ 32 \<longrightarrow> send p len s = (n, s') \<longrightarrow>
        n \<noteq> 0 \<and> (n \<in> {- EAGAIN, - EINTR} \<longrightarrow> retries (yield s') < retries s) \<and>
        (\<not> sint n < 0 \<longrightarrow> retries s' \<le> retries s))"

lemma send_progressD:
  assumes "send_progress send yield retries" "0 < len" "len < 2 ^ 32" "send p len s = (n, s')"
  shows "n \<noteq> 0" "n = - EAGAIN \<or> n = - EINTR \<Longrightarrow> retries (yield s') < retries s"
    "\<not> sint n < 0 \<Longrightarrow> retries s' \<le> retries s"
  using assms unfolding send_progress_def by blast+

lemma send_loop_returns:
  assumes "send_progress (\<lambda>p len. send fd p len 0) yield retries" "len + retries s < fuel" "len < 2 ^ 32"
  shows "\<exists>r s'. send_loop fuel send yield fd p len tot s = Some (r, s')"
  using assms(2,3)
proof (induction fuel arbitrary: p len tot s)
  case (Suc fuel)
  obtain n s1 where sd: "send fd p len 0 s = (n, s1)"
    by fastforce
  show ?case
  proof (cases "len = 0")
    case False
    note c = send_progressD[OF assms(1) _ Suc.prems(2) sd]
    consider (again) "sint n < 0" "n = - EAGAIN \<or> n = - EINTR"
      | (stop) "sint n < 0" "\<not> (n = - EAGAIN \<or> n = - EINTR)" | (over) "\<not> sint n < 0" "len < unat n"
      | (some) "\<not> sint n < 0" "unat n \<le> len" by linarith
    then show ?thesis
    proof cases
      case again
      then have "len + retries (yield s1) < fuel"
        using c(2) False Suc.prems by simp
      from Suc.IH[OF this Suc.prems(2)] show ?thesis
        using again False sd by (simp only: send_loop.simps prod.case if_False if_True)
    next
      case some
      have "0 < unat n"
        using c(1) False by (simp add: unat_gt_0)
      then have "len - unat n + retries s1 < fuel" "len - unat n < 2 ^ 32"
        using c(3) False some Suc.prems by simp_all
      from Suc.IH[OF this] show ?thesis
        using some False sd by simp
    qed (use False sd in simp_all)
  qed simp
qed simp

text \<open>What every \<open>send\<close> and every yield leave alone, the whole loop leaves alone.\<close>

lemma send_loop_keeps:
  assumes "\<And>p len s n s'. send fd p len 0 s = (n, s') \<Longrightarrow> g s' = g s" "\<And>s. g (yield s) = g s"
    and "send_loop fuel send yield fd p len tot s = Some (r, s')"
  shows "g s' = g s"
  using assms(3)
proof (induction fuel arbitrary: p len tot s)
  case (Suc fuel)
  obtain n s1 where sd: "send fd p len 0 s = (n, s1)"
    by fastforce
  note k = assms(1)[OF sd] assms(2)[of s1]
  show ?case
    using Suc.prems Suc.IH sd k by (simp split: if_splits)
qed simp

lemma send_loop_retries:
  assumes "send_progress (\<lambda>p len. send fd p len 0) yield retries" "len < 2 ^ 32"
    and "\<And>p len s n s'. send fd p len 0 s = (n, s') \<Longrightarrow> sint n < 0 \<Longrightarrow> n = - EAGAIN \<or> n = - EINTR"
    and "send_loop fuel send yield fd p len tot s = Some (r, s')"
  shows "retries s' \<le> retries s \<and> (\<forall>e. r = Ok e \<longrightarrow> (\<exists>k. e = of_nat k \<and> k \<le> tot + len))"
  using assms(4,2)
proof (induction fuel arbitrary: p len tot s)
  case (Suc fuel)
  obtain n s1 where sd: "send fd p len 0 s = (n, s1)"
    by fastforce
  show ?case
  proof (cases "len = 0")
    case False
    note c = send_progressD[OF assms(1) _ Suc.prems(2) sd] and e = assms(3)[OF sd]
    consider (again) "sint n < 0" "n = - EAGAIN \<or> n = - EINTR"
      | (over) "\<not> sint n < 0" "len < unat n" | (some) "\<not> sint n < 0" "unat n \<le> len"
      using e by linarith
    then show ?thesis
    proof cases
      case again
      then have "send_loop fuel send yield fd p len tot (yield s1) = Some (r, s')"
        using Suc.prems False sd by (simp only: send_loop.simps prod.case if_False if_True)
      from Suc.IH[OF this Suc.prems(2)] show ?thesis
        using c(2) again False by force
    next
      case over
      then show ?thesis
        using Suc.prems False sd c(3) by auto
    next
      case some
      then have "send_loop fuel send yield fd (p + n) (len - unat n) (tot + unat n) s1 = Some (r, s')"
        using Suc.prems False sd by simp
      from Suc.IH[OF this] show ?thesis
        using c(3) some False Suc.prems(2) by force
    qed
  qed (use Suc.prems in auto)
qed simp

text \<open>Both paths of \<open>write_all\<close> are the loop over the stream's own \<open>send\<close>.\<close>

lemma write_all_loop:
  "\<exists>send. stream_write P t = (\<lambda>p len. send (gs_fd t) p len 0) \<and>
    write_all fuel P yield t buf len = send_loop fuel send yield (gs_fd t) buf len 0"
  by (cases "gs_shared t")
    (auto simp: fun_eq_iff stream_write_def write_all_def ksvc_send_all_def wr_send_all_def)

lemma write_all_outcome:
  assumes "stream_send (stream_write P t) yield sent" "send_progress (stream_write P t) yield retries"
    and "len + retries s < fuel" "len < 2 ^ 32"
  shows "\<exists>e s' k. write_all fuel P yield t buf len s = Some (Ok e, s') \<and> k \<le> len \<and>
    sent s' = sent s @ bytes_at buf k \<and>
    (if sint e < 0 then k < len \<and> e \<notin> {- EAGAIN, - EINTR} else k = len \<and> unat e = len)"
proof -
  obtain send where sd: "stream_write P t = (\<lambda>p len. send (gs_fd t) p len 0)"
    and wa: "write_all fuel P yield t buf len = send_loop fuel send yield (gs_fd t) buf len 0"
    using write_all_loop[of P t fuel yield buf len] by blast
  obtain r s' where r: "send_loop fuel send yield (gs_fd t) buf len 0 s = Some (r, s')"
    using send_loop_returns[of send "gs_fd t", OF assms(2)[unfolded sd] assms(3,4)] by blast
  obtain k where k: "k \<le> len" "sent s' = sent s @ bytes_at buf k" "send_result r k len 0"
    using send_loop_sends[of send "gs_fd t", OF assms(1)[unfolded sd] r] by blast
  have "sint (of_nat len :: i64) = int len" "unat (of_nat len :: i64) = len"
    using assms(4) by (simp_all add: signed_of_nat signed_take_bit_int_eq_self unat_of_nat_lt)
  then show ?thesis
    using k r wa unfolding send_result_def by auto
qed

text \<open>A stream whose \<open>send\<close> never fails for good takes the whole buffer.\<close>

lemma write_all_whole:
  assumes "stream_send (stream_write P t) yield sent" "send_progress (stream_write P t) yield retries"
    and "len + retries s < fuel" "len < 2 ^ 32"
    and "\<And>p len s n s'. stream_write P t p len s = (n, s') \<Longrightarrow> (sint n < 0 \<longrightarrow> n = - EAGAIN \<or> n = - EINTR) \<and> g s' = g s"
    and "\<And>s. g (yield s) = g s"
  shows "\<exists>e s'. write_all fuel P yield t buf len s = Some (Ok e, s') \<and> \<not> sint e < 0 \<and>
    sent s' = sent s @ bytes_at buf len \<and> retries s' \<le> retries s \<and> g s' = g s"
proof -
  obtain send where sd: "stream_write P t = (\<lambda>p len. send (gs_fd t) p len 0)"
    and wa: "write_all fuel P yield t buf len = send_loop fuel send yield (gs_fd t) buf len 0"
    using write_all_loop[of P t fuel yield buf len] by blast
  obtain e s' k where e: "write_all fuel P yield t buf len s = Some (Ok e, s')" "sent s' = sent s @ bytes_at buf k"
      "if sint e < 0 then k < len \<and> e \<notin> {- EAGAIN, - EINTR} else k = len \<and> unat e = len"
    using write_all_outcome[OF assms(1-4), of buf] by blast
  have lp: "send_loop fuel send yield (gs_fd t) buf len 0 s = Some (Ok e, s')"
    using e(1) wa by simp
  have snd: "(sint n < 0 \<longrightarrow> n = - EAGAIN \<or> n = - EINTR) \<and> g s2 = g s1" if "send (gs_fd t) p l 0 s1 = (n, s2)" for p l s1 n s2
    using assms(5)[of p l s1 n s2] that unfolding sd by simp
  have r: "retries s' \<le> retries s \<and> (\<forall>x. (Ok e :: (failure, i64) result) = Ok x \<longrightarrow> (\<exists>k. x = of_nat k \<and> k \<le> 0 + len))"
    by (rule send_loop_retries[of send "gs_fd t", OF assms(2)[unfolded sd] assms(4) _ lp]) (use snd in blast)
  have "g s' = g s"
    by (rule send_loop_keeps[of send "gs_fd t" g, OF _ assms(6) lp]) (use snd in blast)
  moreover have "\<not> sint e < 0"
    using r assms(4) by (auto simp: signed_of_nat signed_take_bit_int_eq_self)
  ultimately show ?thesis
    using e r by auto
qed

section \<open>Requests on their way to the kernel\<close>

definition sqe_op_of :: "ProbeRouter \<Rightarrow> u32 \<times> u64 list \<Rightarrow> sqe_op option" where
  "sqe_op_of rt req =
     (let r = route rt (fst req) in
      if tier r = IoUring then build_op (fst req) (snd req) (iouring_opcode r) else None)"

lemmas wrapper_defs = ksvc_read_def ksvc_write_def ksvc_close_def ksvc_accept4_def ksvc_recv_def ksvc_send_def
  ksvc_connect_def ksvc_openat_def ksvc_socket_def ksvc_shutdown_def

lemma cast_back:
  "ucast (scast x :: u64) = (x :: i32)" "ucast (ucast x :: u64) = (x :: u32)" "ucast (of_nat n :: u64) = (of_nat n :: u32)"
  by (transfer, simp add: take_bit_signed_take_bit)+

lemma wrapper_routes:
  assumes "set (map op [''READ'', ''WRITE'', ''CLOSE'', ''ACCEPT'', ''RECV'', ''SEND'', ''CONNECT'', ''OPENAT'',
      ''SOCKET'', ''SHUTDOWN'']) \<subseteq> S"
  shows "route_spec S 0 = route_iouring 22" "route_spec S 1 = route_iouring 23" "route_spec S 3 = route_iouring 19"
    "route_spec S 288 = route_iouring 13" "route_spec S 45 = route_iouring 27" "route_spec S 44 = route_iouring 26"
    "route_spec S 42 = route_iouring 16" "route_spec S 257 = route_iouring 18" "route_spec S 41 = route_iouring 45"
    "route_spec S 48 = route_iouring 34"
  using assms by (simp_all add: route_spec_def own_route_def at_variant_def lists_eval del: map_of_append)

section \<open>Properties\<close>

text \<open>
  Writing a whole buffer to a stream, on either path: when \<open>send\<close> keeps its contract and asks for
  finitely many retries, \<open>write_all\<close> returns within as many turns as there are bytes and retries; the
  peer gets a prefix of the buffer, in order and without repetition; a non-negative answer is the length
  of the buffer and the prefix is the whole of it; any other answer is an error that is not a retry, and
  the slicing never panics.
\<close>

theorem write_all_sends:
  assumes "stream_send (stream_write P t) yield sent" "send_progress (stream_write P t) yield retries"
    and "len + retries s < fuel" "len < 2 ^ 32"
  shows "\<exists>e s' k. write_all fuel P yield t buf len s = Some (Ok e, s') \<and> k \<le> len \<and>
    sent s' = sent s @ bytes_at buf k \<and>
    (if sint e < 0 then k < len \<and> e \<notin> {- EAGAIN, - EINTR} else k = len \<and> unat e = len)"
  by (rule write_all_outcome[OF assms])

text \<open>A stream that takes at most two bytes at a time, after one interruption.\<close>

definition two_byte_stream :: "(unit, nat \<times> u64 list) Parks" where
  "two_byte_stream =
     \<lparr> pk_shared = (\<lambda>_ _ _ s. (- EINTR, s)),
       pk_local = (\<lambda>n a s. if fst s > 0 then (- EINTR, s)
          else (of_nat (min 2 (unat (a ! 2))), (0, snd s @ bytes_at (a ! 1) (min 2 (unat (a ! 2)))))) \<rparr>"

theorem write_all_sends_witness:
  "\<exists>e s' k. write_all 10 two_byte_stream (map_prod (\<lambda>n. n - 1) id) \<lparr> gs_fd = 5, gs_shared = None \<rparr> 0x1000 3 (1, []) =
     Some (Ok e, s') \<and> snd s' = bytes_at 0x1000 k \<and>
     (if sint e < 0 then k < 3 \<and> e \<notin> {- EAGAIN, - EINTR} else k = 3 \<and> unat e = 3)"
proof -
  let ?t = "\<lparr> gs_fd = 5, gs_shared = None \<rparr> :: unit GvtStream" and ?y = "map_prod (\<lambda>n :: nat. n - 1) (id :: u64 list \<Rightarrow> _)"
  have w: "stream_write two_byte_stream ?t p len s =
      (if fst s > 0 then (- EINTR, s)
       else (of_nat (min 2 (unat (of_nat len :: u64))), (0, snd s @ bytes_at p (min 2 (unat (of_nat len :: u64))))))" for p len s
    by (simp add: stream_write_def two_byte_stream_def wr_send_def)
  have m: "unat (of_nat len :: u64) \<le> len" for len
    by (simp add: unsigned_of_nat take_bit_nat_eq_self_iff take_bit_nat_less_eq_self)
  have c: "unat (of_nat (min 2 k) :: i64) = min 2 k" "sint (of_nat (min 2 k) :: i64) = int (min 2 k)" for k :: nat
    by (simp_all add: unat_of_nat_lt signed_of_nat signed_take_bit_int_eq_self min_def)
  have neg: "sint (- EINTR) < 0" "- EINTR \<noteq> 0"
    by (simp_all add: EINTR_def)
  have one_or_two: "len = 1" if "0 < len" "\<not> 2 \<le> len" for len :: nat
    using that by simp
  have st: "stream_send (stream_write two_byte_stream ?t) ?y snd"
    using m neg(1) by (auto simp: stream_send_def w c split: if_splits) (meson min.coboundedI2)
  have sp: "send_progress (stream_write two_byte_stream ?t) ?y fst"
    unfolding send_progress_def w
    by (auto simp: neg unat_of_nat_lt min_def EINTR_def EAGAIN_def split: if_splits dest: one_or_two)
  have "(3 :: nat) + fst (1 :: nat, [] :: u64 list) < 10" "(3 :: nat) < 2 ^ 32"
    by simp_all
  from write_all_sends[OF st sp this, of "0x1000"] obtain e s' k where
    "write_all 10 two_byte_stream ?y ?t 0x1000 3 (1, []) = Some (Ok e, s')" "snd s' = snd (1 :: nat, []) @ bytes_at 0x1000 k"
    "if sint e < 0 then k < 3 \<and> e \<notin> {- EAGAIN, - EINTR} else k = 3 \<and> unat e = 3"
    by blast
  then show ?thesis
    by (intro exI[of _ e] exI[of _ s'] exI[of _ k]) simp
qed

text \<open>
  C33: Each wrapper reaches the kernel as the operation it names: on a kernel that supports the ten opcodes,
  the request is routed to io\_uring and translated to that operation, with the descriptor, the flags
  and the other 32-bit arguments as the caller gave them, also when they are negative. The length of a
  buffer arrives modulo \<open>2^32\<close>.
\<close>

theorem wrappers_reach_kernel:
  assumes "set (map op [''READ'', ''WRITE'', ''CLOSE'', ''ACCEPT'', ''RECV'', ''SEND'', ''CONNECT'', ''OPENAT'',
      ''SOCKET'', ''SHUTDOWN'']) \<subseteq> set supported"
    and "rt = ProbeRouter_new supported"
  shows "sqe_op_of rt (ksvc_read Pair fd buf len) = Some (OpRead fd buf (of_nat len) (- 1)) \<and>
    sqe_op_of rt (ksvc_write Pair fd buf len) = Some (OpWrite fd buf (of_nat len) (- 1)) \<and>
    sqe_op_of rt (ksvc_close Pair fd) = Some (OpClose fd) \<and>
    sqe_op_of rt (ksvc_accept4 Pair fd addr addrlen flags) = Some (OpAccept fd addr addrlen flags) \<and>
    sqe_op_of rt (ksvc_recv Pair fd buf len flags) = Some (OpRecv fd buf (of_nat len) flags) \<and>
    sqe_op_of rt (ksvc_send Pair fd buf len flags) = Some (OpSend fd buf (of_nat len) flags) \<and>
    sqe_op_of rt (ksvc_connect Pair fd addr salen) = Some (OpConnect fd addr salen) \<and>
    sqe_op_of rt (ksvc_openat Pair fd path flags mode) = Some (OpOpenAt fd path flags mode) \<and>
    sqe_op_of rt (ksvc_socket Pair domain ty proto) = Some (OpSocket domain ty proto) \<and>
    sqe_op_of rt (ksvc_shutdown Pair fd how) = Some (OpShutdown fd how)"
  unfolding assms(2) wrapper_defs fst_conv snd_conv sqe_op_of_def Let_def route_by_spec wrapper_routes[OF assms(1)]
  by (simp add: build_op_def Let_def cast_back)

theorem wrappers_reach_kernel_witness:
  "sqe_op_of (ProbeRouter_new (map of_nat [0..<81])) (ksvc_openat Pair (- 100) 0x1000 0 0) = Some (OpOpenAt (- 100) 0x1000 0 0)"
proof -
  have "(set (map op [''READ'', ''WRITE'', ''CLOSE'', ''ACCEPT'', ''RECV'', ''SEND'', ''CONNECT'', ''OPENAT'',
      ''SOCKET'', ''SHUTDOWN'']) :: u8 set) \<subseteq> set (map of_nat [0..<81])"
    by (simp add: upt_rec)
  from wrappers_reach_kernel[OF this refl, of "- 100" 0 0 0 0 0 0 "0x1000" 0 0 0 0 0] show ?thesis
    by simp
qed

end
