(* ===== verification/Kmod.thy ===== *)
theory Kmod
  imports Core_Types Ksvc_Rings
begin

text \<open>
  The kernel module of \<open>kmod/\<close> (\<open>ksvc_main.c\<close>, \<open>ksvc_ring.c\<close>, \<open>ksvc_shared.c\<close>, \<open>ksvc_uapi.h\<close>) and the
  reader of its shared page, \<open>mmap_shared_page.rs\<close>. The kernel's allocator, user copies, page mapping
  and process data are parameters; what is allocated is a set of live objects, so that leaks and double
  releases are visible. Error codes are integers as in C.
\<close>

section \<open>Kernel objects\<close>

abbreviation ENOMEM :: int where "ENOMEM \<equiv> 12"
abbreviation EFAULT :: int where "EFAULT \<equiv> 14"
abbreviation EBUSY :: int where "EBUSY \<equiv> 16"
abbreviation EINVAL :: int where "EINVAL \<equiv> 22"
abbreviation ENOTTY :: int where "ENOTTY \<equiv> 25"

record ksvc_ring_header =
  rh_magic :: u32
  rh_ring_size :: u32
  rh_mask :: u32
  rh_entry_size :: u32
  rh_head :: u64
  rh_tail :: u64

text \<open>
  The kernel's memory: the number of requests so far, which also names the next object, the live
  objects, whether an object that was not live has been released, the ring headers by page and the
  bytes of the shared pages.
\<close>

record Kern =
  k_next :: nat
  k_live :: "nat set"
  k_bad :: bool
  k_header :: "nat \<Rightarrow> ksvc_ring_header option"
  k_bytes :: "nat \<Rightarrow> nat \<Rightarrow> u8"

text \<open>What the kernel answers: to the allocation with a given number, to \<open>page_address\<close>, to the user copies, to the eventfd lookup (\<open>0\<close> or a negative error) and to the insertion of the page with a given index.\<close>

record ksvc_create_params =
  cp_submit :: u32
  cp_complete :: u32
  cp_flags :: u32
  cp_eventfd :: i32

record Proc =
  p_pid :: i32
  p_tgid :: i32
  p_ppid :: i32
  p_pgid :: i32
  p_sid :: i32
  p_uid :: u32
  p_gid :: u32
  p_euid :: u32
  p_egid :: u32
  p_suid :: u32
  p_sgid :: u32
  p_uts :: "(u8 list \<times> u8 list \<times> u8 list) option"
  p_rlimit_nofile :: u64
  p_rlimit_nproc :: u64
  p_boot_ns :: u64
  p_mono_ns :: u64
  p_real_ns :: u64

record Kapi =
  ka_ok :: "nat \<Rightarrow> bool"
  ka_addr :: "nat \<Rightarrow> bool"
  ka_from_user :: "ksvc_create_params option"
  ka_to_user :: bool
  ka_eventfd :: "i32 \<Rightarrow> int"
  ka_insert :: "nat \<Rightarrow> int"
  ka_proc :: Proc

definition k_alloc :: "Kapi \<Rightarrow> Kern \<Rightarrow> nat option \<times> Kern" where
  "k_alloc api k =
     (if ka_ok api (k_next k)
      then (Some (k_next k), k\<lparr> k_next := k_next k + 1, k_live := insert (k_next k) (k_live k) \<rparr>)
      else (None, k\<lparr> k_next := k_next k + 1 \<rparr>))"

definition k_free :: "nat \<Rightarrow> Kern \<Rightarrow> Kern" where
  "k_free i k = k\<lparr> k_live := k_live k - {i}, k_bad := k_bad k \<or> i \<notin> k_live k \<rparr>"

section \<open>Rings (\<open>ksvc_ring.c\<close>)\<close>

record ksvc_ring =
  kr_pages :: "(nat \<times> nat list) option"
  kr_nr_pages :: u32
  kr_kaddr :: "nat option"
  kr_nr_entries :: u32
  kr_entry_size :: u32

definition ring_pages_needed :: "u32 \<Rightarrow> u32 \<Rightarrow> u32" where
  "ring_pages_needed nr_entries entry_size =
     (let data_bytes = (ucast nr_entries :: u64) * ucast entry_size;
          data_pages = ucast ((data_bytes + (4096 - 1)) div 4096)
      in 1 + data_pages)"

text \<open>The pages allocated until the first failure, and whether there was none.\<close>

fun alloc_pages :: "Kapi \<Rightarrow> nat \<Rightarrow> Kern \<Rightarrow> nat list \<times> bool \<times> Kern" where
  "alloc_pages api 0 k = ([], True, k)"
| "alloc_pages api (Suc n) k =
     (case k_alloc api k of
        (None, k1) \<Rightarrow> ([], False, k1)
      | (Some p, k1) \<Rightarrow> (case alloc_pages api n k1 of (ps, b, k2) \<Rightarrow> (p # ps, b, k2)))"

definition ksvc_ring_alloc ::
  "Kapi \<Rightarrow> u32 \<Rightarrow> u32 \<Rightarrow> ksvc_ring \<Rightarrow> Kern \<Rightarrow> int \<times> ksvc_ring \<times> Kern" where
  "ksvc_ring_alloc api nr_entries entry_size ring k =
     (let nr_pages = ring_pages_needed nr_entries entry_size in
      case k_alloc api k of
        (None, k1) \<Rightarrow> (- ENOMEM, ring\<lparr> kr_pages := None \<rparr>, k1)
      | (Some arr, k1) \<Rightarrow>
          (case alloc_pages api (unat nr_pages) k1 of
             (ps, False, k2) \<Rightarrow> (- ENOMEM, ring\<lparr> kr_pages := None \<rparr>, k_free arr (fold k_free (rev ps) k2))
           | (ps, True, k2) \<Rightarrow>
               let r1 = ring\<lparr> kr_nr_pages := nr_pages, kr_nr_entries := nr_entries, kr_entry_size := entry_size \<rparr>
               in if \<not> ka_addr api (hd ps)
                  then (- ENOMEM, r1\<lparr> kr_pages := None, kr_kaddr := None \<rparr>, k_free arr (fold k_free (rev ps) k2))
                  else (0, r1\<lparr> kr_pages := Some (arr, ps), kr_kaddr := Some (hd ps) \<rparr>,
                        k2\<lparr> k_header := (k_header k2)(hd ps := Some
                          \<lparr> rh_magic = KSVC_RING_MAGIC, rh_ring_size = nr_entries, rh_mask = nr_entries - 1,
                            rh_entry_size = entry_size, rh_head = 0, rh_tail = 0 \<rparr>) \<rparr>)))"

definition ksvc_ring_free :: "ksvc_ring \<Rightarrow> Kern \<Rightarrow> ksvc_ring \<times> Kern" where
  "ksvc_ring_free ring k =
     (case kr_pages ring of
        None \<Rightarrow> (ring, k)
      | Some (arr, ps) \<Rightarrow>
          (ring\<lparr> kr_pages := None, kr_kaddr := None, kr_nr_pages := 0 \<rparr>,
           k_free arr (fold k_free (take (unat (kr_nr_pages ring)) ps) k)))"

text \<open>A mapping is the list of its addresses with the pages behind them.\<close>

fun insert_pages :: "Kapi \<Rightarrow> u64 \<Rightarrow> nat list \<Rightarrow> int \<times> (u64 \<times> nat) list" where
  "insert_pages api addr [] = (0, [])"
| "insert_pages api addr (p # ps) =
     (if ka_insert api p \<noteq> 0 then (ka_insert api p, [])
      else case insert_pages api (addr + 4096) ps of (ret, m) \<Rightarrow> (ret, (addr, p) # m))"

definition ksvc_ring_mmap :: "Kapi \<Rightarrow> ksvc_ring \<Rightarrow> u64 \<Rightarrow> u64 \<Rightarrow> int \<times> (u64 \<times> nat) list" where
  "ksvc_ring_mmap api ring vm_start vm_end =
     (if vm_end - vm_start \<noteq> push_bit 12 (ucast (kr_nr_pages ring)) then (- EINVAL, [])
      else insert_pages api vm_start
             (take (unat (kr_nr_pages ring)) (case kr_pages ring of None \<Rightarrow> [] | Some (_, ps) \<Rightarrow> ps)))"

section \<open>The shared page (\<open>ksvc_shared.c\<close>)\<close>

text \<open>Name, size and alignment of each field of \<open>struct ksvc_shared_page\<close>; its offsets follow from the rules of C.\<close>

definition shared_page_fields :: "(string \<times> nat \<times> nat) list" where
  "shared_page_fields =
    [(''magic'', 4, 4), (''version'', 4, 4), (''pid'', 4, 4), (''tgid'', 4, 4), (''ppid'', 4, 4), (''pgid'', 4, 4),
     (''sid'', 4, 4), (''_pad_id'', 4, 4), (''uid'', 4, 4), (''gid'', 4, 4), (''euid'', 4, 4), (''egid'', 4, 4),
     (''suid'', 4, 4), (''sgid'', 4, 4), (''_pad_cred'', 8, 4), (''utsname_release'', 65, 1),
     (''utsname_nodename'', 65, 1), (''utsname_machine'', 65, 1), (''_pad_uts'', 5, 1), (''rlimit_nofile'', 8, 8),
     (''rlimit_nproc'', 8, 8), (''_reserved_static'', 232, 1), (''kthread_cpu'', 4, 4), (''worker_state'', 4, 4),
     (''entries_processed'', 8, 8), (''batches_processed'', 8, 8), (''io_uring_inflight'', 8, 8),
     (''worker_pool_active'', 8, 8), (''submit_ring_head'', 8, 8), (''submit_ring_tail'', 8, 8),
     (''complete_ring_head'', 8, 8), (''complete_ring_tail'', 8, 8), (''_reserved_runtime'', 56, 1),
     (''clock_monotonic_ns'', 8, 8), (''clock_realtime_ns'', 8, 8), (''boot_time_ns'', 8, 8)]"

definition shared_offset :: "string \<Rightarrow> nat" where
  "shared_offset nm = the (map_of (repr_C_offsets 0 shared_page_fields) nm)"

text \<open>Little-endian integers of \<open>n\<close> bytes, and the bytes of a page.\<close>

fun le_bytes :: "nat \<Rightarrow> nat \<Rightarrow> u8 list" where
  "le_bytes 0 x = []"
| "le_bytes (Suc n) x = of_nat (x mod 256) # le_bytes n (x div 256)"

fun from_le :: "u8 list \<Rightarrow> nat" where
  "from_le [] = 0"
| "from_le (b # bs) = unat b + 256 * from_le bs"

definition put_bytes :: "nat \<Rightarrow> u8 list \<Rightarrow> (nat \<Rightarrow> u8) \<Rightarrow> nat \<Rightarrow> u8" where
  "put_bytes off bs pg = (\<lambda>i. if off \<le> i \<and> i < off + length bs then bs ! (i - off) else pg i)"

definition get_bytes :: "nat \<Rightarrow> nat \<Rightarrow> (nat \<Rightarrow> u8) \<Rightarrow> u8 list" where
  "get_bytes n off pg = map pg [off..<off + n]"

definition strscpy :: "nat \<Rightarrow> u8 list \<Rightarrow> u8 list" where
  "strscpy n src = take (n - 1) src @ [0]"

definition put_u32 :: "string \<Rightarrow> u32 \<Rightarrow> (nat \<Rightarrow> u8) \<Rightarrow> nat \<Rightarrow> u8" where
  "put_u32 nm x = put_bytes (shared_offset nm) (le_bytes 4 (unat x))"

definition put_u64 :: "string \<Rightarrow> u64 \<Rightarrow> (nat \<Rightarrow> u8) \<Rightarrow> nat \<Rightarrow> u8" where
  "put_u64 nm x = put_bytes (shared_offset nm) (le_bytes 8 (unat x))"

definition put_uts :: "(u8 list \<times> u8 list \<times> u8 list) option \<Rightarrow> (nat \<Rightarrow> u8) \<Rightarrow> nat \<Rightarrow> u8" where
  "put_uts uts pg =
     (case uts of
        None \<Rightarrow> pg
      | Some (release, nodename, machine) \<Rightarrow>
          put_bytes (shared_offset ''utsname_machine'') (strscpy 65 machine)
            (put_bytes (shared_offset ''utsname_nodename'') (strscpy 65 nodename)
              (put_bytes (shared_offset ''utsname_release'') (strscpy 65 release) pg)))"

definition KSVC_SHARED_MAGIC :: u32 where
  "KSVC_SHARED_MAGIC = 0x4B534850"

definition KSVC_VERSION :: u32 where
  "KSVC_VERSION = 2"

definition populate :: "Proc \<Rightarrow> (nat \<Rightarrow> u8) \<Rightarrow> nat \<Rightarrow> u8" where
  "populate p pg =
     fold (\<lambda>f. f)
       [put_u32 ''magic'' KSVC_SHARED_MAGIC, put_u32 ''version'' KSVC_VERSION, put_u32 ''pid'' (p_pid p),
        put_u32 ''tgid'' (p_tgid p), put_u32 ''ppid'' (p_ppid p), put_u32 ''pgid'' (p_pgid p),
        put_u32 ''sid'' (p_sid p), put_u32 ''uid'' (p_uid p), put_u32 ''gid'' (p_gid p), put_u32 ''euid'' (p_euid p),
        put_u32 ''egid'' (p_egid p), put_u32 ''suid'' (p_suid p), put_u32 ''sgid'' (p_sgid p), put_uts (p_uts p),
        put_u64 ''rlimit_nofile'' (p_rlimit_nofile p), put_u64 ''rlimit_nproc'' (p_rlimit_nproc p),
        put_u64 ''boot_time_ns'' (p_boot_ns p), put_u64 ''clock_monotonic_ns'' (p_mono_ns p),
        put_u64 ''clock_realtime_ns'' (p_real_ns p)] pg"

record ksvc_instance =
  ki_submit :: ksvc_ring
  ki_complete :: ksvc_ring
  ki_shared_page :: "nat option"
  ki_shared_kaddr :: "nat option"
  ki_eventfd :: "nat option"
  ki_created :: bool

definition ksvc_shared_alloc :: "Kapi \<Rightarrow> ksvc_instance \<Rightarrow> Kern \<Rightarrow> int \<times> ksvc_instance \<times> Kern" where
  "ksvc_shared_alloc api inst k =
     (case k_alloc api k of
        (None, k1) \<Rightarrow> (- ENOMEM, inst\<lparr> ki_shared_page := None \<rparr>, k1)
      | (Some p, k1) \<Rightarrow>
          if \<not> ka_addr api p
          then (- ENOMEM, inst\<lparr> ki_shared_page := None, ki_shared_kaddr := None \<rparr>, k_free p k1)
          else (0, inst\<lparr> ki_shared_page := Some p, ki_shared_kaddr := Some p \<rparr>,
                k1\<lparr> k_bytes := (k_bytes k1)(p := (\<lambda>_. 0)) \<rparr>))"

definition ksvc_shared_free :: "ksvc_instance \<Rightarrow> Kern \<Rightarrow> ksvc_instance \<times> Kern" where
  "ksvc_shared_free inst k =
     (case ki_shared_page inst of
        None \<Rightarrow> (inst, k)
      | Some p \<Rightarrow> (inst\<lparr> ki_shared_page := None, ki_shared_kaddr := None \<rparr>, k_free p k))"

definition ksvc_shared_populate :: "Kapi \<Rightarrow> ksvc_instance \<Rightarrow> Kern \<Rightarrow> Kern" where
  "ksvc_shared_populate api inst k =
     (case ki_shared_kaddr inst of
        None \<Rightarrow> k
      | Some p \<Rightarrow> k\<lparr> k_bytes := (k_bytes k)(p := populate (ka_proc api) (k_bytes k p)) \<rparr>)"

text \<open>The mapping is read-only; a ring's is not.\<close>

definition ksvc_shared_mmap :: "Kapi \<Rightarrow> ksvc_instance \<Rightarrow> u64 \<Rightarrow> u64 \<Rightarrow> int \<times> (u64 \<times> nat) list" where
  "ksvc_shared_mmap api inst vm_start vm_end =
     (if vm_end - vm_start \<noteq> 4096 then (- EINVAL, [])
      else insert_pages api vm_start (case ki_shared_page inst of None \<Rightarrow> [] | Some p \<Rightarrow> [p]))"

section \<open>The device (\<open>ksvc_main.c\<close>)\<close>

definition ksvc_ring_zeroed :: ksvc_ring where
  "ksvc_ring_zeroed = \<lparr> kr_pages = None, kr_nr_pages = 0, kr_kaddr = None, kr_nr_entries = 0, kr_entry_size = 0 \<rparr>"

definition ksvc_instance_create :: "Kapi \<Rightarrow> Kern \<Rightarrow> (nat \<times> ksvc_instance) option \<times> Kern" where
  "ksvc_instance_create api k =
     (case k_alloc api k of
        (None, k1) \<Rightarrow> (None, k1)
      | (Some i, k1) \<Rightarrow>
          (Some (i, \<lparr> ki_submit = ksvc_ring_zeroed, ki_complete = ksvc_ring_zeroed, ki_shared_page = None,
             ki_shared_kaddr = None, ki_eventfd = None, ki_created = False \<rparr>), k1))"

definition eventfd_put :: "ksvc_instance \<Rightarrow> Kern \<Rightarrow> Kern" where
  "eventfd_put inst k = (case ki_eventfd inst of None \<Rightarrow> k | Some e \<Rightarrow> k_free e k)"

definition ksvc_instance_destroy :: "nat \<times> ksvc_instance \<Rightarrow> Kern \<Rightarrow> Kern" where
  "ksvc_instance_destroy ii k =
     (let inst = snd ii;
          k1 = eventfd_put inst k;
          k2 = snd (ksvc_ring_free (ki_submit inst) k1);
          k3 = snd (ksvc_ring_free (ki_complete inst) k2);
          k4 = snd (ksvc_shared_free inst k3)
      in k_free (fst ii) k4)"

text \<open>The error exits of \<open>ksvc_ioctl_create\<close>, each falling into the next.\<close>

definition err_free_submit :: "int \<Rightarrow> ksvc_instance \<Rightarrow> Kern \<Rightarrow> int \<times> ksvc_instance \<times> Kern" where
  "err_free_submit ret inst k =
     (case ksvc_ring_free (ki_submit inst) k of (r, k1) \<Rightarrow> (ret, inst\<lparr> ki_submit := r \<rparr>, k1))"

definition err_free_complete :: "int \<Rightarrow> ksvc_instance \<Rightarrow> Kern \<Rightarrow> int \<times> ksvc_instance \<times> Kern" where
  "err_free_complete ret inst k =
     (case ksvc_ring_free (ki_complete inst) k of (r, k1) \<Rightarrow> err_free_submit ret (inst\<lparr> ki_complete := r \<rparr>) k1)"

definition err_free_shared :: "int \<Rightarrow> ksvc_instance \<Rightarrow> Kern \<Rightarrow> int \<times> ksvc_instance \<times> Kern" where
  "err_free_shared ret inst k = (case ksvc_shared_free inst k of (inst1, k1) \<Rightarrow> err_free_complete ret inst1 k1)"

definition err_free_eventfd :: "int \<Rightarrow> ksvc_instance \<Rightarrow> Kern \<Rightarrow> int \<times> ksvc_instance \<times> Kern" where
  "err_free_eventfd ret inst k = err_free_shared ret (inst\<lparr> ki_eventfd := None \<rparr>) (eventfd_put inst k)"

definition valid_ring_entries :: "u32 \<Rightarrow> bool" where
  "valid_ring_entries n \<longleftrightarrow> \<not> (n < 16 \<or> n > 4096 \<or> \<not> (n \<noteq> 0 \<and> n AND (n - 1) = 0))"

text \<open>A negative descriptor asks for no eventfd; a successful lookup takes a reference.\<close>

definition eventfd_get :: "Kapi \<Rightarrow> i32 \<Rightarrow> ksvc_instance \<Rightarrow> Kern \<Rightarrow> int \<times> ksvc_instance \<times> Kern" where
  "eventfd_get api fd inst k =
     (if sint fd < 0 then (0, inst, k)
      else if ka_eventfd api fd \<noteq> 0 then (ka_eventfd api fd, inst\<lparr> ki_eventfd := None \<rparr>, k)
      else (0, inst\<lparr> ki_eventfd := Some (k_next k) \<rparr>,
            k\<lparr> k_next := k_next k + 1, k_live := insert (k_next k) (k_live k) \<rparr>))"

text \<open>The stages of \<open>ksvc_ioctl_create\<close>, the last one first: eventfd and the copy back, the shared page, the completion ring.\<close>

definition create_eventfd ::
  "Kapi \<Rightarrow> ksvc_create_params \<Rightarrow> ksvc_instance \<Rightarrow> Kern \<Rightarrow> int \<times> ksvc_instance \<times> Kern" where
  "create_eventfd api params inst k =
     (case eventfd_get api (cp_eventfd params) inst k of
        (ret, inst1, k1) \<Rightarrow>
          if ret \<noteq> 0 then err_free_shared ret inst1 k1
          else if \<not> ka_to_user api then err_free_eventfd (- EFAULT) inst1 k1
          else (0, inst1\<lparr> ki_created := True \<rparr>, k1))"

definition create_shared ::
  "Kapi \<Rightarrow> ksvc_create_params \<Rightarrow> ksvc_instance \<Rightarrow> Kern \<Rightarrow> int \<times> ksvc_instance \<times> Kern" where
  "create_shared api params inst k =
     (case ksvc_shared_alloc api inst k of
        (ret, inst1, k1) \<Rightarrow>
          if ret \<noteq> 0 then err_free_complete ret inst1 k1
          else create_eventfd api params inst1 (ksvc_shared_populate api inst1 k1))"

definition create_complete ::
  "Kapi \<Rightarrow> ksvc_create_params \<Rightarrow> ksvc_instance \<Rightarrow> Kern \<Rightarrow> int \<times> ksvc_instance \<times> Kern" where
  "create_complete api params inst k =
     (case ksvc_ring_alloc api (cp_complete params) 32 (ki_complete inst) k of
        (ret, r, k1) \<Rightarrow>
          let inst1 = inst\<lparr> ki_complete := r \<rparr> in
          if ret \<noteq> 0 then err_free_submit ret inst1 k1 else create_shared api params inst1 k1)"

text \<open>What follows the check of \<open>created\<close>, and the whole.\<close>

definition create_rest :: "Kapi \<Rightarrow> ksvc_instance \<Rightarrow> Kern \<Rightarrow> int \<times> ksvc_instance \<times> Kern" where
  "create_rest api inst k =
     (case ka_from_user api of
        None \<Rightarrow> (- EFAULT, inst, k)
      | Some params \<Rightarrow>
          if \<not> valid_ring_entries (cp_submit params) then (- EINVAL, inst, k)
          else if \<not> valid_ring_entries (cp_complete params) then (- EINVAL, inst, k)
          else case ksvc_ring_alloc api (cp_submit params) 64 (ki_submit inst) k of
            (ret, r, k1) \<Rightarrow>
              let inst1 = inst\<lparr> ki_submit := r \<rparr> in
              if ret \<noteq> 0 then (ret, inst1, k1) else create_complete api params inst1 k1)"

definition ksvc_ioctl_create :: "Kapi \<Rightarrow> ksvc_instance \<Rightarrow> Kern \<Rightarrow> int \<times> ksvc_instance \<times> Kern" where
  "ksvc_ioctl_create api inst k = (if ki_created inst then (- EBUSY, inst, k) else create_rest api inst k)"

text \<open>An open file: its private data and the instance, each with the object that holds it.\<close>

record ksvc_file =
  kf_id :: nat
  kf_inst :: "nat \<times> ksvc_instance"

definition ksvc_open :: "Kapi \<Rightarrow> Kern \<Rightarrow> (int, ksvc_file) result \<times> Kern" where
  "ksvc_open api k =
     (case k_alloc api k of
        (None, k1) \<Rightarrow> (Err (- ENOMEM), k1)
      | (Some f, k1) \<Rightarrow>
          (case ksvc_instance_create api k1 of
             (None, k2) \<Rightarrow> (Err (- ENOMEM), k_free f k2)
           | (Some ii, k2) \<Rightarrow> (Ok \<lparr> kf_id = f, kf_inst = ii \<rparr>, k2)))"

definition ksvc_release :: "ksvc_file \<Rightarrow> Kern \<Rightarrow> Kern" where
  "ksvc_release file k = k_free (kf_id file) (ksvc_instance_destroy (kf_inst file) k)"

datatype ioctl_cmd = KSVC_IOC_CREATE | OtherCmd

definition ksvc_ioctl :: "Kapi \<Rightarrow> ioctl_cmd \<Rightarrow> ksvc_file \<Rightarrow> Kern \<Rightarrow> int \<times> ksvc_file \<times> Kern" where
  "ksvc_ioctl api cmd file k =
     (case cmd of
        KSVC_IOC_CREATE \<Rightarrow>
          (case ksvc_ioctl_create api (snd (kf_inst file)) k of
             (ret, inst, k1) \<Rightarrow> (ret, file\<lparr> kf_inst := (fst (kf_inst file), inst) \<rparr>, k1))
      | OtherCmd \<Rightarrow> (- ENOTTY, file, k))"

definition ksvc_mmap :: "Kapi \<Rightarrow> ksvc_file \<Rightarrow> u64 \<Rightarrow> u64 \<Rightarrow> u64 \<Rightarrow> int \<times> (u64 \<times> nat) list" where
  "ksvc_mmap api file vm_start vm_end vm_pgoff =
     (let inst = snd (kf_inst file); offset = push_bit 12 vm_pgoff in
      if \<not> ki_created inst then (- EINVAL, [])
      else if offset = 0 then ksvc_ring_mmap api (ki_submit inst) vm_start vm_end
      else if offset = 0x100000 then ksvc_ring_mmap api (ki_complete inst) vm_start vm_end
      else if offset = 0x200000 then ksvc_shared_mmap api inst vm_start vm_end
      else (- EINVAL, []))"

section \<open>The reader of the shared page (\<open>mmap_shared_page.rs\<close>)\<close>

definition read_u32 :: "nat \<Rightarrow> (nat \<Rightarrow> u8) \<Rightarrow> u32" where
  "read_u32 off pg = of_nat (from_le (get_bytes 4 off pg))"

definition read_u64 :: "nat \<Rightarrow> (nat \<Rightarrow> u8) \<Rightarrow> u64" where
  "read_u64 off pg = of_nat (from_le (get_bytes 8 off pg))"

record SharedPage =
  sp_pid :: i32
  sp_tgid :: i32
  sp_ppid :: i32
  sp_pgid :: i32
  sp_sid :: i32
  sp_uid :: u32
  sp_gid :: u32
  sp_euid :: u32
  sp_egid :: u32
  sp_rlimit_nofile :: u64
  sp_clock_monotonic_ns :: u64
  sp_entries_processed :: u64
  sp_kthread_cpu :: u32
  sp_worker_state :: u32

definition MmapSharedPage :: "(nat \<Rightarrow> u8) \<Rightarrow> SharedPage" where
  "MmapSharedPage pg =
     \<lparr> sp_pid = read_u32 8 pg, sp_tgid = read_u32 12 pg, sp_ppid = read_u32 16 pg, sp_pgid = read_u32 20 pg,
       sp_sid = read_u32 24 pg, sp_uid = read_u32 32 pg, sp_gid = read_u32 36 pg, sp_euid = read_u32 40 pg,
       sp_egid = read_u32 44 pg, sp_rlimit_nofile = read_u64 0x108 pg,
       sp_clock_monotonic_ns = read_u64 0x280 pg, sp_entries_processed = read_u64 64 pg,
       sp_kthread_cpu = read_u32 56 pg, sp_worker_state = read_u32 60 pg \<rparr>"

section \<open>Who owns what\<close>

text \<open>The live objects are \<open>L\<close>, none with a number still to come, and \<open>b\<close> is the flag of a bad release.\<close>

definition kst :: "Kern \<Rightarrow> nat set \<Rightarrow> bool \<Rightarrow> bool" where
  "kst k L b \<longleftrightarrow> k_live k = L \<and> k_bad k = b \<and> (\<forall>i \<in> L. i < k_next k)"

lemma kst_alloc:
  assumes "kst k L b" "k_alloc api k = (r, k')"
  shows "case r of None \<Rightarrow> kst k' L b | Some p \<Rightarrow> p \<notin> L \<and> kst k' (insert p L) b"
  using assms by (auto simp: kst_def k_alloc_def less_Suc_eq split: if_splits dest: subsetD)

lemma kst_free: "kst k L b \<Longrightarrow> p \<in> L \<Longrightarrow> kst (k_free p k) (L - {p}) b"
  by (auto simp: kst_def k_free_def)

lemma kst_free_all: "kst k L b \<Longrightarrow> distinct ps \<Longrightarrow> set ps \<subseteq> L \<Longrightarrow> kst (fold k_free ps k) (L - set ps) b"
proof (induction ps arbitrary: k L)
  case (Cons p ps)
  have p: "p \<in> L" "distinct ps" "set ps \<subseteq> L - {p}"
    using Cons.prems(2,3) by auto
  have "kst (fold k_free ps (k_free p k)) (L - {p} - set ps) b"
    by (rule Cons.IH[OF kst_free[OF Cons.prems(1) p(1)] p(2,3)])
  moreover have "L - {p} - set ps = L - set (p # ps)"
    by auto
  ultimately show ?case
    by (simp only: fold_simps)
qed simp

lemma kst_alloc_pages:
  assumes "kst k L b" "alloc_pages api n k = (ps, done, k')"
  shows "distinct ps \<and> set ps \<inter> L = {} \<and> kst k' (L \<union> set ps) b \<and> (done \<longrightarrow> length ps = n)"
  using assms
proof (induction n arbitrary: k L ps)
  case (Suc n)
  obtain r k1 where a: "k_alloc api k = (r, k1)"
    by fastforce
  note s = kst_alloc[OF Suc.prems(1) a]
  show ?case
  proof (cases r)
    case None
    then show ?thesis
      using s a Suc.prems(2) by simp
  next
    case (Some p)
    obtain qs where q: "alloc_pages api n k1 = (qs, done, k')" "ps = p # qs"
      using Some a Suc.prems(2) by (auto split: prod.splits)
    have p: "kst k1 (insert p L) b" "p \<notin> L"
      using s Some by simp_all
    show ?thesis
      using Suc.IH[OF p(1) q(1)] p(2) q(2) by auto
  qed
qed simp

text \<open>The objects of a ring and of an instance, without sharing.\<close>

definition owns :: "ksvc_ring \<Rightarrow> nat set \<Rightarrow> bool" where
  "owns r A \<longleftrightarrow>
     (case kr_pages r of
        None \<Rightarrow> A = {}
      | Some (arr, ps) \<Rightarrow> A = insert arr (set ps) \<and> distinct (arr # ps) \<and> length ps = unat (kr_nr_pages r))"

definition iowns :: "ksvc_instance \<Rightarrow> nat set \<Rightarrow> bool" where
  "iowns inst A \<longleftrightarrow>
     (\<exists>S C. owns (ki_submit inst) S \<and> owns (ki_complete inst) C \<and>
        S \<inter> C = {} \<and> set_option (ki_shared_page inst) \<inter> (S \<union> C) = {} \<and>
        set_option (ki_eventfd inst) \<inter> (S \<union> C \<union> set_option (ki_shared_page inst)) = {} \<and>
        A = S \<union> C \<union> set_option (ki_shared_page inst) \<union> set_option (ki_eventfd inst))"

lemma ring_alloc_owns:
  assumes "kst k L b" "ksvc_ring_alloc api n es ring k = (ret, r, k')"
  shows "if ret = 0 then \<exists>A. A \<inter> L = {} \<and> owns r A \<and> kst k' (L \<union> A) b else owns r {} \<and> kst k' L b"
proof -
  obtain o1 k1 where a: "k_alloc api k = (o1, k1)"
    by fastforce
  note s1 = kst_alloc[OF assms(1) a]
  show ?thesis
  proof (cases o1)
    case None
    then show ?thesis
      using assms(2) a s1 by (auto simp: ksvc_ring_alloc_def Let_def owns_def)
  next
    case (Some arr)
    obtain ps ok k2 where p: "alloc_pages api (unat (ring_pages_needed n es)) k1 = (ps, ok, k2)"
      by (metis prod_cases3)
    have s: "arr \<notin> L" "kst k1 (insert arr L) b"
      using s1 Some by simp_all
    note s2 = kst_alloc_pages[OF s(2) p]
    have "kst (fold k_free (rev ps) k2) (insert arr L \<union> set ps - set (rev ps)) b"
      using s2 by (intro kst_free_all) auto
    moreover have "insert arr L \<union> set ps - set (rev ps) = insert arr L"
      using s2 by auto
    ultimately have "kst (fold k_free (rev ps) k2) (insert arr L) b"
      by (simp only:)
    from kst_free[OF this, of arr] have f: "kst (k_free arr (fold k_free (rev ps) k2)) L b"
      using s(1) by simp
    have g: "kst (k2\<lparr> k_header := h \<rparr>) (L \<union> insert arr (set ps)) b" for h
      using s2 by (simp add: kst_def)
    show ?thesis
      using assms(2) a Some p s s2 f g
      by (auto simp: ksvc_ring_alloc_def Let_def owns_def split: if_splits bool.splits)
  qed
qed

lemma ring_free_owns:
  assumes "kst k L b" "owns r A" "A \<subseteq> L" "ksvc_ring_free r k = (r', k')"
  shows "owns r' {} \<and> kst k' (L - A) b"
proof (cases "kr_pages r")
  case None
  then show ?thesis
    using assms by (auto simp: ksvc_ring_free_def owns_def)
next
  case (Some x)
  obtain arr ps where x: "x = (arr, ps)"
    by fastforce
  have o: "A = insert arr (set ps)" "distinct ps" "arr \<notin> set ps" "length ps = unat (kr_nr_pages r)"
    using assms(2) Some x by (simp_all add: owns_def)
  have "kst (fold k_free ps k) (L - set ps) b"
    using kst_free_all[OF assms(1) o(2)] assms(3) o(1) by blast
  from kst_free[OF this, of arr] have "kst (k_free arr (fold k_free ps k)) (L - set ps - {arr}) b"
    using assms(3) o(1,3) by blast
  moreover have "L - set ps - {arr} = L - A"
    using o(1) by blast
  ultimately have "kst (k_free arr (fold k_free ps k)) (L - A) b"
    by (simp only:)
  then show ?thesis
    using assms(4) Some x o(4)[symmetric] by (auto simp: ksvc_ring_free_def owns_def)
qed

lemma shared_free_owns:
  assumes "kst k L b" "set_option (ki_shared_page inst) \<subseteq> L" "ksvc_shared_free inst k = (inst', k')"
  shows "ki_shared_page inst' = None \<and> ki_submit inst' = ki_submit inst \<and> ki_complete inst' = ki_complete inst \<and>
    ki_eventfd inst' = ki_eventfd inst \<and> ki_created inst' = ki_created inst \<and>
    kst k' (L - set_option (ki_shared_page inst)) b"
proof (cases "ki_shared_page inst")
  case None
  then show ?thesis
    using assms(1,3) by (auto simp: ksvc_shared_free_def)
next
  case (Some p)
  then have "kst (k_free p k) (L - {p}) b"
    using kst_free[OF assms(1), of p] assms(2) by simp
  then show ?thesis
    using assms(3) Some by (auto simp: ksvc_shared_free_def)
qed

lemma eventfd_put_owns:
  "kst k L b \<Longrightarrow> set_option (ki_eventfd inst) \<subseteq> L \<Longrightarrow> kst (eventfd_put inst k) (L - set_option (ki_eventfd inst)) b"
  using kst_free[of k L b "the (ki_eventfd inst)"] by (cases "ki_eventfd inst") (simp_all add: eventfd_put_def)

text \<open>Each error exit returns what the instance holds at that point.\<close>

lemma err_free_submit_owns:
  assumes "kst k (L \<union> S) b" "L \<inter> S = {}" "owns (ki_submit inst) S"
  shows "\<exists>inst' k'. err_free_submit ret inst k = (ret, inst', k') \<and> kst k' L b \<and> owns (ki_submit inst') {} \<and>
    ki_complete inst' = ki_complete inst \<and> ki_shared_page inst' = ki_shared_page inst \<and>
    ki_eventfd inst' = ki_eventfd inst \<and> ki_created inst' = ki_created inst"
proof -
  obtain r k' where f: "ksvc_ring_free (ki_submit inst) k = (r, k')"
    by fastforce
  have "L \<union> S - S = L"
    using assms(2) by blast
  then show ?thesis
    using ring_free_owns[OF assms(1,3) _ f] f by (simp add: err_free_submit_def)
qed

lemma err_free_complete_owns:
  assumes "kst k (L \<union> S \<union> C) b" "L \<inter> S = {}" "(L \<union> S) \<inter> C = {}" "owns (ki_submit inst) S" "owns (ki_complete inst) C"
  shows "\<exists>inst' k'. err_free_complete ret inst k = (ret, inst', k') \<and> kst k' L b \<and> owns (ki_submit inst') {} \<and>
    owns (ki_complete inst') {} \<and> ki_shared_page inst' = ki_shared_page inst \<and>
    ki_eventfd inst' = ki_eventfd inst \<and> ki_created inst' = ki_created inst"
proof -
  obtain r k1 where f: "ksvc_ring_free (ki_complete inst) k = (r, k1)"
    by fastforce
  have "L \<union> S \<union> C - C = L \<union> S"
    using assms(3) by blast
  then have "owns r {}" "kst k1 (L \<union> S) b"
    using ring_free_owns[OF assms(1,5) _ f] by auto
  then show ?thesis
    using err_free_submit_owns[of k1 L S b "inst\<lparr> ki_complete := r \<rparr>" ret] assms(2,4) f
    by (auto simp: err_free_complete_def)
qed

lemma err_free_shared_owns:
  assumes "kst k (L \<union> S \<union> C \<union> set_option (ki_shared_page inst)) b" "L \<inter> S = {}" "(L \<union> S) \<inter> C = {}"
    and "(L \<union> S \<union> C) \<inter> set_option (ki_shared_page inst) = {}" "owns (ki_submit inst) S" "owns (ki_complete inst) C"
  shows "\<exists>inst' k'. err_free_shared ret inst k = (ret, inst', k') \<and> kst k' L b \<and> owns (ki_submit inst') {} \<and>
    owns (ki_complete inst') {} \<and> ki_shared_page inst' = None \<and>
    ki_eventfd inst' = ki_eventfd inst \<and> ki_created inst' = ki_created inst"
proof -
  obtain inst1 k1 where f: "ksvc_shared_free inst k = (inst1, k1)"
    by fastforce
  have "L \<union> S \<union> C \<union> set_option (ki_shared_page inst) - set_option (ki_shared_page inst) = L \<union> S \<union> C"
    using assms(4) by blast
  then have "ki_shared_page inst1 = None" "ki_submit inst1 = ki_submit inst" "ki_complete inst1 = ki_complete inst"
    "ki_eventfd inst1 = ki_eventfd inst" "ki_created inst1 = ki_created inst" "kst k1 (L \<union> S \<union> C) b"
    using shared_free_owns[OF assms(1) _ f] by auto
  then show ?thesis
    using err_free_complete_owns[of k1 L S C b inst1 ret] assms(2,3,5,6) f by (auto simp: err_free_shared_def)
qed

text \<open>The outcome of a stage: everything is owned by the instance, or nothing is and nothing is left.\<close>

definition all_or_nothing :: "nat set \<Rightarrow> bool \<Rightarrow> bool \<Rightarrow> int \<times> ksvc_instance \<times> Kern \<Rightarrow> bool" where
  "all_or_nothing L b c res \<longleftrightarrow>
     (case res of (ret, inst, k) \<Rightarrow>
        if ret = 0 then ki_created inst \<and> (\<exists>A. A \<inter> L = {} \<and> iowns inst A \<and> kst k (L \<union> A) b)
        else ki_created inst = c \<and> iowns inst {} \<and> kst k L b)"

lemma iowns_nothing:
  "owns (ki_submit inst) {} \<Longrightarrow> owns (ki_complete inst) {} \<Longrightarrow> ki_shared_page inst = None \<Longrightarrow>
    ki_eventfd inst = None \<Longrightarrow> iowns inst {}"
  by (auto simp: iowns_def)

lemma nothingI:
  assumes "\<exists>inst' k'. res = (ret, inst', k') \<and> kst k' L b \<and> owns (ki_submit inst') {} \<and> owns (ki_complete inst') {} \<and>
      ki_shared_page inst' = None \<and> ki_eventfd inst' = None \<and> ki_created inst' = c"
    and "ret \<noteq> 0"
  shows "all_or_nothing L b c res"
  using assms by (auto simp: all_or_nothing_def iowns_nothing)

lemma create_eventfd_owns:
  assumes "kst k (L \<union> S \<union> C \<union> {p}) b" "L \<inter> S = {}" "(L \<union> S) \<inter> C = {}" "p \<notin> L \<union> S \<union> C"
    and "owns (ki_submit inst) S" "owns (ki_complete inst) C" "ki_shared_page inst = Some p" "ki_eventfd inst = None"
  shows "all_or_nothing L b (ki_created inst) (create_eventfd api params inst k)"
proof -
  note sf = err_free_shared_owns[of _ L S C _ b]
  obtain ret inst1 k1 where e: "eventfd_get api (cp_eventfd params) inst k = (ret, inst1, k1)"
    by (metis prod_cases3)
  have k: "ki_submit inst1 = ki_submit inst" "ki_complete inst1 = ki_complete inst" "ki_shared_page inst1 = Some p"
      "ki_created inst1 = ki_created inst"
    using e assms(7) by (auto simp: eventfd_get_def split: if_splits)
  have f: "kst k1 (L \<union> S \<union> C \<union> {p} \<union> set_option (ki_eventfd inst1)) b"
      "set_option (ki_eventfd inst1) \<inter> (L \<union> S \<union> C \<union> {p}) = {}" "ret \<noteq> 0 \<Longrightarrow> ki_eventfd inst1 = None"
    using e assms(1,8) by (auto simp: eventfd_get_def kst_def less_Suc_eq split: if_splits)
  show ?thesis
  proof (cases "ret = 0 \<and> ka_to_user api")
    case True
    have "iowns (inst1\<lparr> ki_created := True \<rparr>) (S \<union> C \<union> {p} \<union> set_option (ki_eventfd inst1))"
      using assms(2-6) k f(2) unfolding iowns_def by (intro exI[of _ S] exI[of _ C]) auto
    moreover have "(S \<union> C \<union> {p} \<union> set_option (ki_eventfd inst1)) \<inter> L = {}"
      using assms(2-4) f(2) by blast
    ultimately show ?thesis
      using True e f(1) unfolding all_or_nothing_def create_eventfd_def
      by (auto simp: Un_assoc intro!: exI[of _ "S \<union> C \<union> {p} \<union> set_option (ki_eventfd inst1)"])
  next
    case False
    let ?i = "inst1\<lparr> ki_eventfd := None \<rparr>" and ?k = "eventfd_put inst1 k1"
    have "L \<union> S \<union> C \<union> {p} \<union> set_option (ki_eventfd inst1) - set_option (ki_eventfd inst1) = L \<union> S \<union> C \<union> {p}"
      using f(2) by blast
    then have kk: "kst ?k (L \<union> S \<union> C \<union> set_option (ki_shared_page ?i)) b"
      using eventfd_put_owns[OF f(1), of inst1, OF Un_upper2] k(3) by simp
    have ev: "ki_eventfd inst1 = None \<Longrightarrow> ?i = inst1 \<and> ?k = k1"
      by (simp add: eventfd_put_def)
    obtain ret' where r: "ret' \<noteq> 0" "create_eventfd api params inst k = err_free_shared ret' ?i ?k"
    proof (cases "ret = 0")
      case True
      then show ?thesis
        using that[of "- EFAULT"] False e by (simp add: create_eventfd_def err_free_eventfd_def)
    next
      case False
      then show ?thesis
        using that[of ret] e ev[OF f(3)[OF False]] by (simp add: create_eventfd_def)
    qed
    show ?thesis
      using err_free_shared_owns[OF kk assms(2,3), of ret'] assms(4-6) k r
      by (intro nothingI[OF _ r(1)]) auto
  qed
qed

lemma create_shared_owns:
  assumes "kst k (L \<union> S \<union> C) b" "L \<inter> S = {}" "(L \<union> S) \<inter> C = {}"
    and "owns (ki_submit inst) S" "owns (ki_complete inst) C" "ki_shared_page inst = None" "ki_eventfd inst = None"
  shows "all_or_nothing L b (ki_created inst) (create_shared api params inst k)"
proof -
  obtain o1 k1 where a: "k_alloc api k = (o1, k1)"
    by fastforce
  note s1 = kst_alloc[OF assms(1) a]
  obtain ret inst1 k2 where sh: "ksvc_shared_alloc api inst k = (ret, inst1, k2)"
    by (metis prod_cases3)
  show ?thesis
  proof (cases "ret = 0")
    case True
    then obtain p where p: "o1 = Some p" "inst1 = inst\<lparr> ki_shared_page := Some p, ki_shared_kaddr := Some p \<rparr>"
        "k2 = k1\<lparr> k_bytes := (k_bytes k1)(p := (\<lambda>_. 0)) \<rparr>"
      using sh a by (auto simp: ksvc_shared_alloc_def split: option.splits if_splits)
    have "kst (ksvc_shared_populate api inst1 k2) (L \<union> S \<union> C \<union> {p}) b" "p \<notin> L \<union> S \<union> C"
      using s1 p by (simp_all add: ksvc_shared_populate_def kst_def)
    from create_eventfd_owns[OF this(1) assms(2,3) this(2), of inst1 api params] show ?thesis
      using sh True p assms(4,5,7) by (simp add: create_shared_def)
  next
    case False
    then have i: "ki_submit inst1 = ki_submit inst" "ki_complete inst1 = ki_complete inst" "ki_shared_page inst1 = None"
        "ki_eventfd inst1 = None" "ki_created inst1 = ki_created inst"
      using sh a assms(6,7) by (auto simp: ksvc_shared_alloc_def split: option.splits if_splits)
    have "kst k2 (L \<union> S \<union> C) b"
    proof (cases o1)
      case None
      then show ?thesis
        using s1 sh a by (simp add: ksvc_shared_alloc_def)
    next
      case (Some p)
      then have "p \<notin> L \<union> S \<union> C" "kst (k_free p k1) (insert p (L \<union> S \<union> C) - {p}) b" "k2 = k_free p k1"
        using s1 sh a False kst_free[of k1 "insert p (L \<union> S \<union> C)" b p] by (auto simp: ksvc_shared_alloc_def split: if_splits)
      then show ?thesis
        by simp
    qed
    from err_free_complete_owns[OF this assms(2,3), of inst1 ret] show ?thesis
      using sh False i assms(4,5) by (intro nothingI[OF _ False]) (auto simp: create_shared_def)
  qed
qed

lemma create_complete_owns:
  assumes "kst k (L \<union> S) b" "L \<inter> S = {}"
    and "owns (ki_submit inst) S" "ki_shared_page inst = None" "ki_eventfd inst = None"
  shows "all_or_nothing L b (ki_created inst) (create_complete api params inst k)"
proof -
  obtain ret r k1 where a: "ksvc_ring_alloc api (cp_complete params) 32 (ki_complete inst) k = (ret, r, k1)"
    by (metis prod_cases3)
  note o = ring_alloc_owns[OF assms(1) a]
  show ?thesis
  proof (cases "ret = 0")
    case True
    then obtain C where "C \<inter> (L \<union> S) = {}" "owns r C" "kst k1 (L \<union> S \<union> C) b"
      using o by auto
    then show ?thesis
      using create_shared_owns[of k1 L S C b "inst\<lparr> ki_complete := r \<rparr>" api params] assms(2-5) a True
      by (simp add: create_complete_def Int_commute)
  next
    case False
    then have "owns r {}" "kst k1 (L \<union> S) b"
      using o by simp_all
    then show ?thesis
      using err_free_submit_owns[of k1 L S b "inst\<lparr> ki_complete := r \<rparr>" ret] assms(2-5) a False
      by (intro nothingI[OF _ False]) (auto simp: create_complete_def)
  qed
qed

lemma create_rest_owns:
  assumes "kst k L b" "iowns inst {}"
  shows "all_or_nothing L b (ki_created inst) (create_rest api inst k)"
proof -
  have i: "owns (ki_submit inst) {}" "owns (ki_complete inst) {}" "ki_shared_page inst = None" "ki_eventfd inst = None"
    using assms(2) by (auto simp: iowns_def)
  have early: "all_or_nothing L b (ki_created inst) (ret, inst, k)" if "ret \<noteq> 0" for ret
    using that assms by (simp add: all_or_nothing_def)
  have late: "all_or_nothing L b (ki_created inst)
      (if ret \<noteq> 0 then (ret, inst\<lparr> ki_submit := r \<rparr>, k1) else create_complete api params (inst\<lparr> ki_submit := r \<rparr>) k1)"
    if a: "ksvc_ring_alloc api n 64 (ki_submit inst) k = (ret, r, k1)" for n ret r k1 params
  proof (cases "ret = 0")
    case True
    then obtain S where "S \<inter> L = {}" "owns r S" "kst k1 (L \<union> S) b"
      using ring_alloc_owns[OF assms(1) a] by auto
    then show ?thesis
      using create_complete_owns[of k1 L S b "inst\<lparr> ki_submit := r \<rparr>" api params] i True by (simp add: Int_commute)
  next
    case False
    then show ?thesis
      using ring_alloc_owns[OF assms(1) a] i iowns_nothing[of "inst\<lparr> ki_submit := r \<rparr>"] by (simp add: all_or_nothing_def)
  qed
  show ?thesis
    unfolding create_rest_def Let_def using early late by (auto split: option.splits prod.splits)
qed

lemma destroy_owns:
  assumes "kst k (L \<union> A \<union> {i}) b" "iowns inst A" "A \<inter> L = {}" "i \<notin> L \<union> A"
  shows "kst (ksvc_instance_destroy (i, inst) k) L b"
proof -
  obtain S C where o: "owns (ki_submit inst) S" "owns (ki_complete inst) C" "S \<inter> C = {}"
      "set_option (ki_shared_page inst) \<inter> (S \<union> C) = {}"
      "set_option (ki_eventfd inst) \<inter> (S \<union> C \<union> set_option (ki_shared_page inst)) = {}"
      "A = S \<union> C \<union> set_option (ki_shared_page inst) \<union> set_option (ki_eventfd inst)"
    using assms(2) unfolding iowns_def by blast
  let ?P = "set_option (ki_shared_page inst)" and ?E = "set_option (ki_eventfd inst)" and ?L = "L \<union> A \<union> {i}"
  let ?k1 = "eventfd_put inst k"
  have k1: "kst ?k1 (?L - ?E) b"
    using o(6) by (intro eventfd_put_owns[OF assms(1)]) blast
  obtain r2 k2 where f2: "ksvc_ring_free (ki_submit inst) ?k1 = (r2, k2)"
    by fastforce
  have k2: "kst k2 (?L - ?E - S) b"
    using ring_free_owns[OF k1 o(1) _ f2] o(5,6) by blast
  obtain r3 k3 where f3: "ksvc_ring_free (ki_complete inst) k2 = (r3, k3)"
    by fastforce
  have k3: "kst k3 (?L - ?E - S - C) b"
    using ring_free_owns[OF k2 o(2) _ f3] o(3,5,6) by blast
  obtain i4 k4 where f4: "ksvc_shared_free inst k3 = (i4, k4)"
    by fastforce
  have k4: "kst k4 (?L - ?E - S - C - ?P) b"
    using shared_free_owns[OF k3 _ f4] o(4-6) by blast
  have "kst (k_free i k4) (?L - ?E - S - C - ?P - {i}) b"
    using assms(4) o(6) by (intro kst_free[OF k4]) blast
  moreover have "?L - ?E - S - C - ?P - {i} = L"
    using assms(3,4) o(6) by blast
  ultimately show ?thesis
    using f2 f3 f4 by (simp add: ksvc_instance_destroy_def Let_def)
qed

section \<open>Sessions on the device\<close>

fun ioctls :: "(Kapi \<times> ioctl_cmd) list \<Rightarrow> ksvc_file \<Rightarrow> Kern \<Rightarrow> ksvc_file \<times> Kern" where
  "ioctls [] f k = (f, k)"
| "ioctls ((api, cmd) # cs) f k = (case ksvc_ioctl api cmd f k of (_, f1, k1) \<Rightarrow> ioctls cs f1 k1)"

definition file_inv :: "nat set \<Rightarrow> bool \<Rightarrow> ksvc_file \<Rightarrow> Kern \<Rightarrow> bool" where
  "file_inv L b f k \<longleftrightarrow>
     (\<exists>A. iowns (snd (kf_inst f)) A \<and> A \<inter> (L \<union> {kf_id f, fst (kf_inst f)}) = {} \<and> kf_id f \<notin> L \<and> fst (kf_inst f) \<notin> L \<and>
        kf_id f \<noteq> fst (kf_inst f) \<and> kst k (L \<union> {kf_id f, fst (kf_inst f)} \<union> A) b \<and> (\<not> ki_created (snd (kf_inst f)) \<longrightarrow> A = {}))"

lemma ioctl_inv:
  assumes "file_inv L b f k" "ksvc_ioctl api cmd f k = (ret, f', k')"
  shows "file_inv L b f' k'"
proof (cases "cmd = KSVC_IOC_CREATE \<and> \<not> ki_created (snd (kf_inst f))")
  case True
  let ?L = "L \<union> {kf_id f, fst (kf_inst f)}"
  obtain inst' where c: "create_rest api (snd (kf_inst f)) k = (ret, inst', k')"
      "f' = f\<lparr> kf_inst := (fst (kf_inst f), inst') \<rparr>"
    using assms(2) True by (auto simp: ksvc_ioctl_def ksvc_ioctl_create_def split: prod.splits)
  have i: "iowns (snd (kf_inst f)) {}" "kst k ?L b" "kf_id f \<notin> L" "fst (kf_inst f) \<notin> L" "kf_id f \<noteq> fst (kf_inst f)"
    using assms(1) True by (auto simp: file_inv_def)
  obtain A where "A \<inter> ?L = {}" "iowns inst' A" "kst k' (?L \<union> A) b" "\<not> ki_created inst' \<longrightarrow> A = {}"
  proof (cases "ret = 0")
    case True
    then show ?thesis
      using create_rest_owns[OF i(2,1), of api] that unfolding c(1) all_or_nothing_def by auto
  next
    case False
    then show ?thesis
      using create_rest_owns[OF i(2,1), of api] that[of "{}"] unfolding c(1) all_or_nothing_def by simp
  qed
  then show ?thesis
    unfolding file_inv_def c(2) using i(3-5) by (intro exI[of _ A]) simp
next
  case False
  then have "f' = f" "k' = k"
    using assms(2) by (auto simp: ksvc_ioctl_def ksvc_ioctl_create_def split: ioctl_cmd.splits)
  then show ?thesis
    using assms(1) by simp
qed

lemma ioctls_inv: "file_inv L b f k \<Longrightarrow> ioctls cs f k = (f', k') \<Longrightarrow> file_inv L b f' k'"
proof (induction cs arbitrary: f k)
  case (Cons c cs)
  obtain api cmd ret f1 k1 where c: "c = (api, cmd)" "ksvc_ioctl api cmd f k = (ret, f1, k1)"
    by (metis prod_cases3 surj_pair)
  show ?case
    using Cons.IH[OF ioctl_inv[OF Cons.prems(1) c(2)]] Cons.prems(2) c by simp
qed simp

lemma open_inv:
  assumes "kst k L b" "ksvc_open api k = (r, k')"
  shows "case r of Inl _ \<Rightarrow> kst k' L b | Inr f \<Rightarrow> file_inv L b f k'"
proof -
  obtain o1 k1 where a: "k_alloc api k = (o1, k1)"
    by fastforce
  obtain o2 k2 where c: "k_alloc api k1 = (o2, k2)"
    by fastforce
  show ?thesis
  proof (cases o1)
    case None
    then show ?thesis
      using kst_alloc[OF assms(1) a] assms(2) a by (auto simp: ksvc_open_def)
  next
    case (Some f)
    have f: "f \<notin> L" "kst k1 (insert f L) b"
      using kst_alloc[OF assms(1) a] Some by simp_all
    show ?thesis
    proof (cases o2)
      case None
      then have "kst (k_free f k2) (insert f L - {f}) b"
        using kst_alloc[OF f(2) c] by (intro kst_free) simp_all
      then show ?thesis
        using assms(2) a c Some None f(1) by (auto simp: ksvc_open_def ksvc_instance_create_def)
    next
      case (Some i)
      have i: "i \<notin> insert f L" "kst k2 (insert i (insert f L)) b"
        using kst_alloc[OF f(2) c] Some by simp_all
      obtain inst where r: "r = Ok \<lparr> kf_id = f, kf_inst = (i, inst) \<rparr>" "k' = k2" "ki_submit inst = ksvc_ring_zeroed"
          "ki_complete inst = ksvc_ring_zeroed" "ki_shared_page inst = None" "ki_eventfd inst = None"
        using assms(2) a c \<open>o1 = Some f\<close> Some by (auto simp: ksvc_open_def ksvc_instance_create_def)
      have "iowns inst {}"
        using r by (intro iowns_nothing) (simp_all add: owns_def ksvc_ring_zeroed_def)
      moreover have "L \<union> {f, i} = insert i (insert f L)"
        by auto
      ultimately show ?thesis
        using r(1,2) f i by (auto simp: file_inv_def)
    qed
  qed
qed

lemma release_inv:
  assumes "file_inv L b f k"
  shows "kst (ksvc_release f k) L b"
proof -
  let ?i = "fst (kf_inst f)" and ?inst = "snd (kf_inst f)"
  obtain A where a: "iowns ?inst A" "A \<inter> (L \<union> {kf_id f, ?i}) = {}" "kf_id f \<notin> L" "?i \<notin> L" "kf_id f \<noteq> ?i"
      "kst k (L \<union> {kf_id f, ?i} \<union> A) b"
    using assms unfolding file_inv_def by blast
  have "L \<union> {kf_id f, ?i} \<union> A = insert (kf_id f) L \<union> A \<union> {?i}"
    by blast
  then have "kst (ksvc_instance_destroy (?i, ?inst) k) (insert (kf_id f) L) b"
    using a by (intro destroy_owns[OF _ a(1)]) auto
  from kst_free[OF this, of "kf_id f"] show ?thesis
    using a(3) by (simp add: ksvc_release_def)
qed

end
