(* ===== verification/Kmod_Props.thy ===== *)
theory Kmod_Props
  imports Kmod
begin

text \<open>
  What the kernel module guarantees: nothing leaks and nothing is released twice in any sequence of
  calls on a file, two calls of \<open>CREATE\<close> that overlap do leak, a created ring is accepted by the
  user-space consumer, and what the reader of the shared page sees of what the module wrote.
\<close>

section \<open>Bytes of the shared page\<close>

lemma from_le_bytes: "x < 256 ^ n \<Longrightarrow> from_le (le_bytes n x) = x"
  by (induction n arbitrary: x) (auto simp: unat_of_nat_lt less_mult_imp_div_less)

lemma length_le_bytes [simp]: "length (le_bytes n x) = n"
  by (induction n arbitrary: x) auto

lemma from_le_u32: "of_nat (from_le (le_bytes 4 (unat (x :: u32)))) = x"
  using unsigned_less[of x, where 'a = nat] by (subst from_le_bytes) simp_all

lemma from_le_u64: "of_nat (from_le (le_bytes 8 (unat (x :: u64)))) = x"
  using unsigned_less[of x, where 'a = nat] by (subst from_le_bytes) simp_all

lemma get_put_same: "length bs = n \<Longrightarrow> get_bytes n off (put_bytes off bs pg) = bs"
  by (auto simp: get_bytes_def put_bytes_def intro!: nth_equalityI)

lemma get_put_other: "off + n \<le> o' \<or> o' + length bs \<le> off \<Longrightarrow> get_bytes n off (put_bytes o' bs pg) = get_bytes n off pg"
  by (auto simp: get_bytes_def put_bytes_def)

lemma shared_offsets_eval: "repr_C_offsets 0 shared_page_fields =
    [(''magic'', 0), (''version'', 4), (''pid'', 8), (''tgid'', 12), (''ppid'', 16), (''pgid'', 20), (''sid'', 24),
     (''_pad_id'', 28), (''uid'', 32), (''gid'', 36), (''euid'', 40), (''egid'', 44), (''suid'', 48), (''sgid'', 52),
     (''_pad_cred'', 56), (''utsname_release'', 64), (''utsname_nodename'', 129), (''utsname_machine'', 194),
     (''_pad_uts'', 259), (''rlimit_nofile'', 264), (''rlimit_nproc'', 272), (''_reserved_static'', 280),
     (''kthread_cpu'', 512), (''worker_state'', 516), (''entries_processed'', 520), (''batches_processed'', 528),
     (''io_uring_inflight'', 536), (''worker_pool_active'', 544), (''submit_ring_head'', 552),
     (''submit_ring_tail'', 560), (''complete_ring_head'', 568), (''complete_ring_tail'', 576),
     (''_reserved_runtime'', 584), (''clock_monotonic_ns'', 640), (''clock_realtime_ns'', 648), (''boot_time_ns'', 656)]"
  by (simp add: shared_page_fields_def align_up_def)

lemma shared_offset_eval:
  "map shared_offset [''magic'', ''version'', ''pid'', ''tgid'', ''ppid'', ''pgid'', ''sid'', ''uid'', ''gid'', ''euid'', ''egid'',
     ''suid'', ''sgid'', ''utsname_release'', ''utsname_nodename'', ''utsname_machine'', ''rlimit_nofile'', ''rlimit_nproc'',
     ''clock_monotonic_ns'', ''clock_realtime_ns'', ''boot_time_ns''] =
   [0, 4, 8, 12, 16, 20, 24, 32, 36, 40, 44, 48, 52, 64, 129, 194, 264, 272, 640, 648, 656]"
  by (simp add: shared_offset_def shared_offsets_eval)

lemmas shared_offsets = shared_offset_eval[simplified]

lemma length_strscpy: "length (strscpy 65 bs) \<le> 65"
  by (simp add: strscpy_def)

text \<open>A page after the names have been written, outside them and at the first one.\<close>

lemma get_put_uts:
  assumes "off + n \<le> 64 \<or> 259 \<le> off"
  shows "get_bytes n off (put_uts uts pg) = get_bytes n off pg"
proof (cases uts)
  case (Some x)
  obtain rel nod mac where x: "x = (rel, nod, mac)"
    by (cases x) blast
  have "length (strscpy 65 rel) \<le> 65" "length (strscpy 65 nod) \<le> 65" "length (strscpy 65 mac) \<le> 65"
    by (rule length_strscpy)+
  then show ?thesis
    using assms Some x by (auto simp: put_uts_def shared_offsets get_put_other)
qed (simp add: put_uts_def)

lemma get_put_release:
  "get_bytes 8 64 (put_uts (Some (rel, nod, mac)) pg) = get_bytes 8 64 (put_bytes 64 (strscpy 65 rel) pg)"
  using length_strscpy by (simp add: put_uts_def shared_offsets get_put_other)

lemma populate_reads:
  assumes "populate p pg = pg'"
  shows "get_bytes 4 8 pg' = le_bytes 4 (unat (p_pid p))" "get_bytes 4 12 pg' = le_bytes 4 (unat (p_tgid p))"
    "get_bytes 4 16 pg' = le_bytes 4 (unat (p_ppid p))" "get_bytes 4 20 pg' = le_bytes 4 (unat (p_pgid p))"
    "get_bytes 4 24 pg' = le_bytes 4 (unat (p_sid p))" "get_bytes 4 32 pg' = le_bytes 4 (unat (p_uid p))"
    "get_bytes 4 36 pg' = le_bytes 4 (unat (p_gid p))" "get_bytes 4 40 pg' = le_bytes 4 (unat (p_euid p))"
    "get_bytes 4 44 pg' = le_bytes 4 (unat (p_egid p))" "get_bytes 8 264 pg' = le_bytes 8 (unat (p_rlimit_nofile p))"
    "get_bytes 8 640 pg' = le_bytes 8 (unat (p_mono_ns p))" "get_bytes 4 56 pg' = get_bytes 4 56 pg"
    "get_bytes 4 60 pg' = get_bytes 4 60 pg"
  unfolding assms[symmetric] populate_def put_u32_def put_u64_def
  by (simp_all add: shared_offsets get_put_same get_put_other get_put_uts)

lemma get_put_over: "get_bytes n off (put_bytes off bs pg) = take n bs @ drop (length bs) (get_bytes n off pg)"
  by (rule nth_equalityI) (auto simp: get_bytes_def put_bytes_def nth_append)

lemma put_uts_cong:
  assumes "get_bytes 8 64 pg = get_bytes 8 64 pg'"
  shows "get_bytes 8 64 (put_uts uts pg) = get_bytes 8 64 (put_uts uts pg')"
  using assms by (cases uts) (auto simp: get_put_release get_put_over put_uts_def[of None])

lemma populate_names: "get_bytes 8 64 (populate p pg) = get_bytes 8 64 (put_uts (p_uts p) pg)"
  unfolding populate_def put_u32_def put_u64_def fold_simps id_apply
  by (simp add: shared_offsets get_put_other cong: put_uts_cong)

text \<open>The first eight bytes of the kernel's release name, as the integer that stands in their place.\<close>

definition release_word :: "Proc \<Rightarrow> u64" where
  "release_word p =
     (case p_uts p of
        None \<Rightarrow> 0
      | Some (release, _, _) \<Rightarrow>
          let bs = take 8 (strscpy 65 release) in of_nat (from_le (bs @ replicate (8 - length bs) 0)))"

lemma from_le_zeros [simp]: "from_le (replicate n 0) = 0"
  by (induction n) auto

lemma get_zeros: "get_bytes n off (\<lambda>_. 0) = replicate n 0"
  by (auto simp: get_bytes_def intro!: nth_equalityI)

lemma populate_release: "read_u64 64 (populate p (\<lambda>_. 0)) = release_word p"
proof (cases "p_uts p")
  case None
  then show ?thesis
    by (simp add: read_u64_def populate_names put_uts_def get_zeros release_word_def)
next
  case (Some x)
  obtain rel nod mac where x: "x = (rel, nod, mac)"
    by (cases x) blast
  have "8 - min (length (strscpy 65 rel)) 8 = 8 - length (strscpy 65 rel)"
    by simp
  then show ?thesis
    using Some x
    by (simp add: read_u64_def populate_names get_put_release get_put_over get_zeros release_word_def Let_def min.commute)
qed

section \<open>Properties of the shared page\<close>

text \<open>
  What user space reads of a freshly populated shared page: the identity, the credentials, the descriptor limit
  and the clock are those of the creating process; but \<open>entries_processed\<close>, which the reader places at offset 64,
  is the beginning of the kernel's release name, and \<open>kthread_cpu\<close> and \<open>worker_state\<close> are read from padding.
\<close>

theorem shared_page_reads:
  "MmapSharedPage (populate p (\<lambda>_. 0)) =
     \<lparr> sp_pid = p_pid p, sp_tgid = p_tgid p, sp_ppid = p_ppid p, sp_pgid = p_pgid p, sp_sid = p_sid p,
       sp_uid = p_uid p, sp_gid = p_gid p, sp_euid = p_euid p, sp_egid = p_egid p,
       sp_rlimit_nofile = p_rlimit_nofile p, sp_clock_monotonic_ns = p_mono_ns p,
       sp_entries_processed = release_word p, sp_kthread_cpu = 0, sp_worker_state = 0 \<rparr>"
  unfolding MmapSharedPage_def populate_release
  by (simp add: read_u32_def read_u64_def populate_reads[OF refl] from_le_u32 from_le_u64 get_zeros)

section \<open>Properties of the device\<close>

text \<open>
  C7: Whatever the kernel's allocator, the user copies and the eventfd lookup answer, opening the device, calling
  any sequence of ioctls on the file and closing it leaves exactly the live objects there were before, and never
  releases an object that is not live. A failed open leaves nothing either.
\<close>

theorem device_no_leak:
  assumes "\<forall>i \<in> k_live k. i < k_next k" "ksvc_open api k = (r, k1)"
  shows "case r of
      Inl e \<Rightarrow> k_live k1 = k_live k \<and> k_bad k1 = k_bad k
    | Inr f \<Rightarrow> (case ioctls cs f k1 of (f', k2) \<Rightarrow>
        k_live (ksvc_release f' k2) = k_live k \<and> k_bad (ksvc_release f' k2) = k_bad k)"
proof -
  have "kst k (k_live k) (k_bad k)"
    using assms(1) by (simp add: kst_def)
  note o = open_inv[OF this assms(2)]
  show ?thesis
  proof (cases r)
    case (Inl e)
    then show ?thesis
      using o by (simp add: kst_def)
  next
    case (Inr f)
    obtain f' k2 where c: "ioctls cs f k1 = (f', k2)"
      by fastforce
    have "file_inv (k_live k) (k_bad k) f k1"
      using o Inr by simp
    from release_inv[OF ioctls_inv[OF this c]] show ?thesis
      using c Inr by (simp add: kst_def)
  qed
qed

text \<open>A kernel whose allocations succeed, and a process that asks for two rings of 16 entries without an eventfd.\<close>

definition demo_proc :: Proc where
  "demo_proc = \<lparr> p_pid = 7, p_tgid = 7, p_ppid = 1, p_pgid = 7, p_sid = 7, p_uid = 1000, p_gid = 1000, p_euid = 1000,
     p_egid = 1000, p_suid = 1000, p_sgid = 1000, p_uts = None, p_rlimit_nofile = 1024, p_rlimit_nproc = 100,
     p_boot_ns = 1, p_mono_ns = 2, p_real_ns = 3 \<rparr>"

definition demo_kapi :: "bool \<Rightarrow> Kapi" where
  "demo_kapi copy_back = \<lparr> ka_ok = (\<lambda>_. True), ka_addr = (\<lambda>_. True),
     ka_from_user = Some \<lparr> cp_submit = 16, cp_complete = 16, cp_flags = 0, cp_eventfd = - 1 \<rparr>, ka_to_user = copy_back,
     ka_eventfd = (\<lambda>_. - 9), ka_insert = (\<lambda>_. 0), ka_proc = demo_proc \<rparr>"

definition demo_kern :: Kern where
  "demo_kern = \<lparr> k_next = 5, k_live = {4}, k_bad = False, k_header = (\<lambda>_. None), k_bytes = (\<lambda>_ _. 0) \<rparr>"

lemma ring_pages_16: "unat (ring_pages_needed 16 64) = 2" "unat (ring_pages_needed 16 32) = 2"
  by (simp_all add: ring_pages_needed_def)

lemma valid_16: "valid_ring_entries 16"
  by (simp add: valid_ring_entries_def)

lemma alloc_pages_2: "alloc_pages api 2 k = alloc_pages api (Suc (Suc 0)) k"
  by (simp only: numeral_2_eq_2)

lemmas demo_kernel_simps = demo_kapi_def demo_kern_def ksvc_open_def ksvc_instance_create_def k_alloc_def
  ksvc_ioctl_def ksvc_ioctl_create_def create_rest_def create_complete_def create_shared_def create_eventfd_def
  valid_16 alloc_pages_2 ksvc_ring_alloc_def ring_pages_16 ksvc_ring_zeroed_def ksvc_shared_alloc_def
  ksvc_shared_populate_def eventfd_get_def

theorem device_no_leak_witness:
  "case ksvc_open (demo_kapi True) demo_kern of
     (Inl e, k1) \<Rightarrow> False
   | (Inr f, k1) \<Rightarrow> (case ioctls [(demo_kapi True, KSVC_IOC_CREATE), (demo_kapi True, OtherCmd)] f k1 of (f', k2) \<Rightarrow>
       ki_created (snd (kf_inst f')) \<and> k_live (ksvc_release f' k2) = {4} \<and> \<not> k_bad (ksvc_release f' k2))"
proof -
  let ?cs = "[(demo_kapi True, KSVC_IOC_CREATE), (demo_kapi True, OtherCmd)]"
  obtain f k1 where o: "ksvc_open (demo_kapi True) demo_kern = (Inr f, k1)"
    by (simp add: demo_kernel_simps)
  obtain f' k2 where c: "ioctls ?cs f k1 = (f', k2)"
    by fastforce
  have "ki_created (snd (kf_inst (fst (ioctls ?cs f k1))))"
    using o by (auto simp: demo_kernel_simps Let_def)
  moreover have "k_live (ksvc_release f' k2) = {4} \<and> \<not> k_bad (ksvc_release f' k2)"
    using device_no_leak[OF _ o, of ?cs] c by (simp add: demo_kern_def del: ioctls.simps)
  ultimately show ?thesis
    unfolding c by (simp add: o c del: ioctls.simps)
qed

section \<open>Overlapping calls of \<open>CREATE\<close>\<close>

lemma err_free_ret:
  "fst (err_free_submit ret inst k) = ret" "fst (err_free_complete ret inst k) = ret"
  "fst (err_free_shared ret inst k) = ret" "fst (err_free_eventfd ret inst k) = ret"
  by (simp_all add: err_free_submit_def err_free_complete_def err_free_shared_def err_free_eventfd_def split: prod.splits)

lemma err_free_retD:
  "err_free_submit ret inst k = (0, x) \<Longrightarrow> ret = 0" "err_free_complete ret inst k = (0, x) \<Longrightarrow> ret = 0"
  "err_free_shared ret inst k = (0, x) \<Longrightarrow> ret = 0" "err_free_eventfd ret inst k = (0, x) \<Longrightarrow> ret = 0"
  using err_free_ret by (metis fst_conv)+

lemma create_eventfd_0:
  assumes "create_eventfd api params inst k = (0, inst', k')"
  shows "ki_submit inst' = ki_submit inst" "ki_complete inst' = ki_complete inst" "ki_shared_page inst' = ki_shared_page inst"
    "set_option (ki_eventfd inst') \<subseteq> set_option (ki_eventfd inst) \<union> {k_next k}" "k_live k \<subseteq> k_live k'"
proof -
  obtain ret inst1 k1 where e: "eventfd_get api (cp_eventfd params) inst k = (ret, inst1, k1)"
    by (metis prod_cases3)
  have "ret = 0" "inst' = inst1\<lparr> ki_created := True \<rparr>" "k' = k1"
    using assms err_free_retD(3,4) unfolding create_eventfd_def e by (force split: if_splits)+
  then show "ki_submit inst' = ki_submit inst" "ki_complete inst' = ki_complete inst" "ki_shared_page inst' = ki_shared_page inst"
    "set_option (ki_eventfd inst') \<subseteq> set_option (ki_eventfd inst) \<union> {k_next k}" "k_live k \<subseteq> k_live k'"
    using e by (auto simp: eventfd_get_def split: if_splits)
qed

text \<open>The stages of a successful run.\<close>

abbreviation with_rings :: "ksvc_instance \<Rightarrow> ksvc_ring \<Rightarrow> ksvc_ring \<Rightarrow> nat \<Rightarrow> ksvc_instance" where
  "with_rings inst r1 r2 p \<equiv>
     inst\<lparr> ki_submit := r1, ki_complete := r2, ki_shared_page := Some p, ki_shared_kaddr := Some p \<rparr>"

abbreviation with_page :: "Kapi \<Rightarrow> nat \<Rightarrow> ksvc_instance \<Rightarrow> Kern \<Rightarrow> Kern" where
  "with_page api p inst k \<equiv> ksvc_shared_populate api inst (k\<lparr> k_bytes := (k_bytes k)(p := (\<lambda>_. 0)) \<rparr>)"

lemma create_rest_0E:
  assumes "create_rest api inst k = (0, inst', k')"
  obtains params r1 k1 r2 k2 p k3 where "ka_from_user api = Some params" "valid_ring_entries (cp_submit params)"
    "valid_ring_entries (cp_complete params)" "ksvc_ring_alloc api (cp_submit params) 64 (ki_submit inst) k = (0, r1, k1)"
    "ksvc_ring_alloc api (cp_complete params) 32 (ki_complete inst) k1 = (0, r2, k2)" "k_alloc api k2 = (Some p, k3)"
    "create_eventfd api params (with_rings inst r1 r2 p) (with_page api p (with_rings inst r1 r2 p) k3) = (0, inst', k')"
proof -
  obtain params ret1 r1 k1 where a: "ka_from_user api = Some params" "valid_ring_entries (cp_submit params)"
      "valid_ring_entries (cp_complete params)" "ksvc_ring_alloc api (cp_submit params) 64 (ki_submit inst) k = (ret1, r1, k1)"
      "(if ret1 \<noteq> 0 then (ret1, inst\<lparr> ki_submit := r1 \<rparr>, k1)
        else create_complete api params (inst\<lparr> ki_submit := r1 \<rparr>) k1) = (0, inst', k')"
    using assms unfolding create_rest_def Let_def by (auto split: option.splits if_splits prod.splits)
  then have a2: "create_complete api params (inst\<lparr> ki_submit := r1 \<rparr>) k1 = (0, inst', k')" "ret1 = 0"
    by (auto split: if_splits)
  obtain ret2 r2 k2 where c: "ksvc_ring_alloc api (cp_complete params) 32 (ki_complete inst) k1 = (ret2, r2, k2)"
    by (metis prod_cases3)
  let ?i2 = "inst\<lparr> ki_submit := r1, ki_complete := r2 \<rparr>"
  have c2: "create_shared api params ?i2 k2 = (0, inst', k')" "ret2 = 0"
    using a2(1) c err_free_ret(1)[of ret2 ?i2 k2] unfolding create_complete_def Let_def by (auto split: if_splits)
  obtain p k3 where p: "k_alloc api k2 = (Some p, k3)" "create_eventfd api params
      (?i2\<lparr> ki_shared_page := Some p, ki_shared_kaddr := Some p \<rparr>)
      (with_page api p (?i2\<lparr> ki_shared_page := Some p, ki_shared_kaddr := Some p \<rparr>) k3) = (0, inst', k')"
    using c2(1) unfolding create_shared_def ksvc_shared_alloc_def
    by (auto split: option.splits prod.splits if_splits dest!: err_free_retD(2))
  show thesis
    using that[OF a(1-3)] a(4) a2(2) c c2(2) p by simp
qed

text \<open>What a successful run leaves in the instance is new, apart from an eventfd that was there before.\<close>

lemma create_rest_fresh:
  assumes "kst k L b" "create_rest api inst k = (0, inst', k')"
  shows "\<exists>S C p. owns (ki_submit inst') S \<and> S \<noteq> {} \<and> owns (ki_complete inst') C \<and> ki_shared_page inst' = Some p \<and>
    (S \<union> C \<union> {p}) \<inter> L = {} \<and> set_option (ki_eventfd inst') \<inter> L \<subseteq> set_option (ki_eventfd inst) \<and>
    L \<union> S \<subseteq> k_live k'"
  using assms(2)
proof (rule create_rest_0E)
  fix params r1 k1 r2 k2 p k3
  assume a: "ksvc_ring_alloc api (cp_submit params) 64 (ki_submit inst) k = (0, r1, k1)"
    and c: "ksvc_ring_alloc api (cp_complete params) 32 (ki_complete inst) k1 = (0, r2, k2)"
    and al: "k_alloc api k2 = (Some p, k3)"
    and ev: "create_eventfd api params (with_rings inst r1 r2 p) (with_page api p (with_rings inst r1 r2 p) k3) = (0, inst', k')"
  obtain S where S: "S \<inter> L = {}" "owns r1 S" "kst k1 (L \<union> S) b"
    using ring_alloc_owns[OF assms(1) a] by auto
  have ne: "S \<noteq> {}"
    using a S(2) by (auto simp: ksvc_ring_alloc_def Let_def owns_def split: option.splits prod.splits bool.splits if_splits)
  obtain C where C: "C \<inter> (L \<union> S) = {}" "owns r2 C" "kst k2 (L \<union> S \<union> C) b"
    using ring_alloc_owns[OF S(3) c] by auto
  have P: "p \<notin> L \<union> S \<union> C" "kst k3 (insert p (L \<union> S \<union> C)) b"
    using kst_alloc[OF C(3) al] by simp_all
  let ?k4 = "with_page api p (with_rings inst r1 r2 p) k3"
  have k4: "k_live ?k4 = insert p (L \<union> S \<union> C)" "\<forall>i \<in> L. i < k_next ?k4"
    using P(2) by (simp_all add: ksvc_shared_populate_def kst_def)
  note f = create_eventfd_0[OF ev]
  have "set_option (ki_eventfd inst') \<inter> L \<subseteq> set_option (ki_eventfd inst)"
    using f(4) k4(2) by auto
  moreover have "L \<union> S \<subseteq> k_live k'"
    using f(5) k4(1) by blast
  ultimately show ?thesis
    using f(1-3) S(1,2) C(1,2) P(1) ne by (intro exI[of _ S] exI[of _ C] exI[of _ p]) auto
qed

lemma ring_free_live:
  assumes "owns r A"
  shows "k_live k - A \<subseteq> k_live (snd (ksvc_ring_free r k))"
proof -
  have *: "k_live (fold k_free ps k) = k_live k - set ps" for ps and k :: Kern
    by (induction ps arbitrary: k) (auto simp: k_free_def)
  show ?thesis
    using assms by (auto simp: ksvc_ring_free_def owns_def k_free_def * split: option.splits prod.splits)
qed

lemma destroy_live:
  assumes "owns (ki_submit inst) S" "owns (ki_complete inst) C" "ki_shared_page inst = Some p"
  shows "k_live k - (S \<union> C \<union> {p, i} \<union> set_option (ki_eventfd inst)) \<subseteq> k_live (ksvc_instance_destroy (i, inst) k)"
proof -
  let ?k1 = "eventfd_put inst k"
  let ?k2 = "snd (ksvc_ring_free (ki_submit inst) ?k1)"
  let ?k3 = "snd (ksvc_ring_free (ki_complete inst) ?k2)"
  have "k_live k - set_option (ki_eventfd inst) \<subseteq> k_live ?k1"
    by (auto simp: eventfd_put_def k_free_def split: option.splits)
  moreover have "k_live ?k1 - S \<subseteq> k_live ?k2" "k_live ?k2 - C \<subseteq> k_live ?k3"
    using ring_free_live assms(1,2) by blast+
  moreover have "k_live ?k3 - {p, i} \<subseteq> k_live (ksvc_instance_destroy (i, inst) k)"
    using assms(3) by (auto simp: ksvc_instance_destroy_def Let_def ksvc_shared_free_def k_free_def)
  ultimately show ?thesis
    by blast
qed

text \<open>
  C37: Two calls of \<open>CREATE\<close> on one file that overlap: when the second has passed the check of \<open>created\<close> before the
  first sets it, and both succeed, the pages of the first submit ring stay allocated after the file is closed.
\<close>

theorem concurrent_create_leaks:
  assumes "\<forall>j \<in> k_live k. j < k_next k" "iowns inst {}" "i \<in> k_live k"
    and "create_rest api1 inst k = (0, inst1, k1)" "create_rest api2 inst1 k1 = (0, inst2, k2)"
  shows "\<exists>S. S \<noteq> {} \<and> owns (ki_submit inst1) S \<and> S \<inter> k_live k = {} \<and>
    S \<subseteq> k_live (ksvc_instance_destroy (i, inst2) k2)"
proof -
  have k0: "kst k (k_live k) (k_bad k)"
    using assms(1) by (simp add: kst_def)
  obtain A where A: "A \<inter> k_live k = {}" "iowns inst1 A" "kst k1 (k_live k \<union> A) (k_bad k)"
    using create_rest_owns[OF k0 assms(2), of api1] unfolding assms(4) all_or_nothing_def by auto
  obtain S where S: "S \<noteq> {}" "owns (ki_submit inst1) S" "S \<subseteq> A" "S \<inter> set_option (ki_eventfd inst1) = {}"
  proof -
    obtain S where s: "owns (ki_submit inst1) S" "S \<noteq> {}"
      using create_rest_fresh[OF k0 assms(4)] by blast
    have "S' = S" if "owns (ki_submit inst1) S'" for S'
      using that s(1) by (auto simp: owns_def split: option.splits)
    then show thesis
      using that[OF s(2,1)] A(2) unfolding iowns_def by blast
  qed
  obtain S2 C2 p2 where n: "owns (ki_submit inst2) S2" "owns (ki_complete inst2) C2" "ki_shared_page inst2 = Some p2"
      "(S2 \<union> C2 \<union> {p2}) \<inter> (k_live k \<union> A) = {}"
      "set_option (ki_eventfd inst2) \<inter> (k_live k \<union> A) \<subseteq> set_option (ki_eventfd inst1)"
      "k_live k \<union> A \<subseteq> k_live k2"
    using create_rest_fresh[OF A(3) assms(5)] by blast
  have "S \<subseteq> k_live k2 - (S2 \<union> C2 \<union> {p2, i} \<union> set_option (ki_eventfd inst2))"
    using S(3,4) A(1) assms(3) n(4-6) by blast
  from subset_trans[OF this destroy_live[OF n(1-3)]] have "S \<subseteq> k_live (ksvc_instance_destroy (i, inst2) k2)" .
  moreover have "S \<inter> k_live k = {}"
    using S(3) A(1) by blast
  ultimately show ?thesis
    using S(1,2) by (intro exI[of _ S]) simp
qed

definition demo_instance :: ksvc_instance where
  "demo_instance = \<lparr> ki_submit = ksvc_ring_zeroed, ki_complete = ksvc_ring_zeroed, ki_shared_page = None,
     ki_shared_kaddr = None, ki_eventfd = None, ki_created = False \<rparr>"

theorem concurrent_create_leaks_witness:
  "\<exists>inst1 k1 inst2 k2 S. create_rest (demo_kapi True) demo_instance demo_kern = (0, inst1, k1) \<and>
     create_rest (demo_kapi True) inst1 k1 = (0, inst2, k2) \<and> S \<noteq> {} \<and>
     S \<subseteq> k_live (ksvc_instance_destroy (4, inst2) k2)"
proof -
  obtain inst1 k1 where a: "create_rest (demo_kapi True) demo_instance demo_kern = (0, inst1, k1)"
    by (simp add: demo_kernel_simps demo_instance_def Let_def)
  obtain inst2 k2 where b: "create_rest (demo_kapi True) inst1 k1 = (0, inst2, k2)"
    by (simp add: demo_kernel_simps Let_def)
  have i: "iowns demo_instance {}"
    by (rule iowns_nothing) (simp_all add: demo_instance_def owns_def ksvc_ring_zeroed_def)
  have "\<forall>j \<in> k_live demo_kern. j < k_next demo_kern" "4 \<in> k_live demo_kern"
    by (simp_all add: demo_kern_def)
  from concurrent_create_leaks[OF this(1) i this(2) a b] show ?thesis
    using a b by blast
qed

section \<open>Created rings\<close>

lemma ring_pages_needed_valid:
  assumes "valid_ring_entries n" "unat es \<le> 64"
  shows "unat (ring_pages_needed n es) = 1 + (unat n * unat es + 4095) div 4096"
proof -
  have n: "unat n \<le> 4096"
    using assms(1) by (auto simp: valid_ring_entries_def word_le_nat_alt word_less_nat_alt)
  then have m: "unat n * unat es \<le> 4096 * 64"
    using assms(2) by (rule mult_le_mono)
  have p: "unat ((ucast n :: u64) * ucast es) = unat n * unat es"
    using m by (simp add: unat_word_ariths)
  let ?x = "((ucast n :: u64) * ucast es + (4096 - 1)) div 4096"
  have x: "unat ?x = (unat n * unat es + 4095) div 4096"
    using m p by (simp add: unat_div unat_word_ariths(1))
  then have "unat ?x \<le> 65"
    using m by simp
  then have "unat (ucast ?x :: u32) = unat ?x"
    by (simp add: unsigned_ucast_eq take_bit_nat_eq_self)
  then show ?thesis
    using x \<open>unat ?x \<le> 65\<close> by (simp add: ring_pages_needed_def Let_def unat_word_ariths(1))
qed

lemma alloc_pages_header: "alloc_pages api n k = (ps, ok, k') \<Longrightarrow> k_header k' = k_header k"
proof (induction n arbitrary: k ps)
  case (Suc n)
  obtain o1 k1 where a: "k_alloc api k = (o1, k1)"
    by fastforce
  then have "k_header k1 = k_header k"
    by (auto simp: k_alloc_def split: if_splits)
  then show ?case
    using Suc.IH[of k1] Suc.prems a by (cases o1) (auto split: prod.splits)
qed simp

definition new_header :: "u32 \<Rightarrow> u32 \<Rightarrow> ksvc_ring_header" where
  "new_header n es = \<lparr> rh_magic = KSVC_RING_MAGIC, rh_ring_size = n, rh_mask = n - 1, rh_entry_size = es,
     rh_head = 0, rh_tail = 0 \<rparr>"

lemma ring_alloc_0:
  assumes "kst k L b" "valid_ring_entries n" "unat es \<le> 64" "ksvc_ring_alloc api n es ring k = (0, r, k')"
  shows "\<exists>arr p ps. kr_pages r = Some (arr, p # ps) \<and> kr_nr_pages r = ring_pages_needed n es \<and>
    length (p # ps) = unat (ring_pages_needed n es) \<and> k_header k' p = Some (new_header n es) \<and>
    (\<forall>q \<in> L. k_header k' q = k_header k q)"
proof -
  obtain arr k1 ps k2 where a: "k_alloc api k = (Some arr, k1)"
      "alloc_pages api (unat (ring_pages_needed n es)) k1 = (ps, True, k2)"
      "r = ring\<lparr> kr_nr_pages := ring_pages_needed n es, kr_nr_entries := n, kr_entry_size := es,
        kr_pages := Some (arr, ps), kr_kaddr := Some (hd ps) \<rparr>"
      "k' = k2\<lparr> k_header := (k_header k2)(hd ps := Some (new_header n es)) \<rparr>"
    using assms(4) by (auto simp: ksvc_ring_alloc_def Let_def new_header_def split: option.splits prod.splits bool.splits if_splits)
  have k1: "kst k1 (insert arr L) b" "k_header k1 = k_header k"
    using kst_alloc[OF assms(1) a(1)] a(1) by (auto simp: k_alloc_def split: if_splits)
  note p = kst_alloc_pages[OF k1(1) a(2)]
  obtain q qs where q: "ps = q # qs"
    using p ring_pages_needed_valid[OF assms(2,3)] by (cases ps) auto
  show ?thesis
    using a(3,4) p q alloc_pages_header[OF a(2)] k1(2) by auto
qed

lemma insert_pages_all:
  "\<forall>p. ka_insert api p = 0 \<Longrightarrow> insert_pages api addr ps = (0, map (\<lambda>i. (addr + 4096 * of_nat i, ps ! i)) [0..<length ps])"
proof (induction ps arbitrary: addr)
  case (Cons p ps)
  have "map (\<lambda>i. (addr + 4096 * of_nat i, (p # ps) ! i)) [0..<length (p # ps)] =
      (addr, p) # map (\<lambda>i. (addr + 4096 + 4096 * of_nat i, ps ! i)) [0..<length ps]"
    by (simp add: map_upt_Suc algebra_simps del: upt_Suc)
  then show ?case
    using Cons.IH[OF Cons.prems, of "addr + 4096"] Cons.prems by simp
qed simp

lemma ring_mmap_all:
  assumes "kr_pages r = Some (arr, ps)" "length ps = unat (kr_nr_pages r)" "\<forall>p. ka_insert api p = 0"
  shows "ksvc_ring_mmap api r start (start + 4096 * of_nat (length ps)) =
    (0, map (\<lambda>j. (start + 4096 * of_nat j, ps ! j)) [0..<length ps])"
proof -
  have "push_bit 12 (ucast (kr_nr_pages r) :: u64) = 4096 * of_nat (length ps)"
    unfolding assms(2) by (simp add: push_bit_eq_mult)
  then show ?thesis
    using assms(1,3) assms(2)[symmetric] by (simp add: ksvc_ring_mmap_def insert_pages_all)
qed

lemma create_eventfd_header:
  assumes "create_eventfd api params inst k = (0, inst', k')"
  shows "k_header k' = k_header k" "ki_created inst'" "k_bytes k' = k_bytes k"
proof -
  obtain ret inst1 k1 where e: "eventfd_get api (cp_eventfd params) inst k = (ret, inst1, k1)"
    by (metis prod_cases3)
  have "ret = 0" "inst' = inst1\<lparr> ki_created := True \<rparr>" "k' = k1"
    using assms err_free_retD(3,4) unfolding create_eventfd_def e by (force split: if_splits)+
  then show "k_header k' = k_header k" "ki_created inst'" "k_bytes k' = k_bytes k"
    using e by (auto simp: eventfd_get_def split: if_splits)
qed

text \<open>What a successful \<open>CREATE\<close> leaves: the pages and the header of the submit ring, and the populated shared page.\<close>

lemma created_state:
  assumes "\<forall>j \<in> k_live k. j < k_next k" "ksvc_ioctl_create api inst k = (0, inst', k')" "ka_from_user api = Some params"
  obtains arr q qs p where "kr_pages (ki_submit inst') = Some (arr, q # qs)"
    "kr_nr_pages (ki_submit inst') = ring_pages_needed (cp_submit params) 64"
    "length (q # qs) = unat (ring_pages_needed (cp_submit params) 64)" "k_header k' q = Some (new_header (cp_submit params) 64)"
    "ki_created inst'" "valid_ring_entries (cp_submit params)" "ki_shared_page inst' = Some p"
    "k_bytes k' p = populate (ka_proc api) (\<lambda>_. 0)"
proof -
  have k0: "kst k (k_live k) (k_bad k)"
    using assms(1) by (simp add: kst_def)
  have "create_rest api inst k = (0, inst', k')"
    using assms(2) by (auto simp: ksvc_ioctl_create_def split: if_splits)
  then show thesis
  proof (rule create_rest_0E)
    fix params' r1 k1 r2 k2 p k3
    assume pr: "ka_from_user api = Some params'" and v: "valid_ring_entries (cp_submit params')" "valid_ring_entries (cp_complete params')"
      and a: "ksvc_ring_alloc api (cp_submit params') 64 (ki_submit inst) k = (0, r1, k1)"
      and c: "ksvc_ring_alloc api (cp_complete params') 32 (ki_complete inst) k1 = (0, r2, k2)"
      and al: "k_alloc api k2 = (Some p, k3)"
      and ev: "create_eventfd api params' (with_rings inst r1 r2 p) (with_page api p (with_rings inst r1 r2 p) k3) = (0, inst', k')"
    have pp: "params' = params"
      using pr assms(3) by simp
    obtain arr q qs where q: "kr_pages r1 = Some (arr, q # qs)" "kr_nr_pages r1 = ring_pages_needed (cp_submit params) 64"
        "length (q # qs) = unat (ring_pages_needed (cp_submit params) 64)" "k_header k1 q = Some (new_header (cp_submit params) 64)"
      using ring_alloc_0[OF k0 v(1) _ a] unfolding pp by auto
    obtain S where S: "owns r1 S" "kst k1 (k_live k \<union> S) (k_bad k)"
      using ring_alloc_owns[OF k0 a] by auto
    have "q \<in> k_live k \<union> S"
      using S(1) q(1) by (simp add: owns_def)
    then have "k_header k2 q = k_header k1 q"
      using ring_alloc_0[OF S(2) v(2) _ c] by auto
    moreover have "k_header k3 = k_header k2"
      using al by (auto simp: k_alloc_def split: if_splits)
    ultimately have h: "k_header k' q = Some (new_header (cp_submit params) 64)"
      using create_eventfd_header(1)[OF ev] q(4) by (simp add: ksvc_shared_populate_def)
    have i: "ki_submit inst' = r1" "ki_created inst'" "ki_shared_page inst' = Some p"
      using create_eventfd_0(1,3)[OF ev] create_eventfd_header(2)[OF ev] by simp_all
    have "k_bytes k' p = populate (ka_proc api) (\<lambda>_. 0)"
      using create_eventfd_header(3)[OF ev] by (simp add: ksvc_shared_populate_def)
    from that[OF q(1,2)[folded i(1)] q(3) h i(2) v(1)[unfolded pp] i(3) this] show thesis .
  qed
qed

text \<open>
  After a successful \<open>CREATE\<close> the submit ring can be mapped: a mapping of the ring's size at offset 0 succeeds
  and shows the ring's pages in order; the header on its first page passes every check of the user-space
  \<open>SubmitRing::from_mmap\<close>; and the mapping has room for all entries after that page.
\<close>

theorem created_ring_accepted:
  assumes "\<forall>j \<in> k_live k. j < k_next k" "ksvc_ioctl_create api inst k = (0, inst', k')"
    and "kf_inst f = (i, inst')" "\<forall>p. ka_insert api' p = 0" "ka_from_user api = Some params"
  shows "\<exists>pages h. kr_pages (ki_submit inst') = Some pages \<and>
    ksvc_mmap api' f start (start + 4096 * of_nat (length (snd pages))) 0 =
      (0, map (\<lambda>j. (start + 4096 * of_nat j, snd pages ! j)) [0..<length (snd pages)]) \<and>
    k_header k' (hd (snd pages)) = Some h \<and>
    from_mmap False \<lparr> rm_magic = rh_magic h, rm_size = rh_ring_size h, rm_mask = rh_mask h,
      rm_entry_size = rh_entry_size h, rm_head = rh_head h, rm_tail = rh_tail h, rm_entries = es \<rparr> =
      Ok \<lparr> rm_magic = KSVC_RING_MAGIC, rm_size = cp_submit params, rm_mask = cp_submit params - 1,
        rm_entry_size = 64, rm_head = 0, rm_tail = 0, rm_entries = es \<rparr> \<and>
    4096 + 64 * unat (cp_submit params) \<le> 4096 * length (snd pages)"
proof -
  obtain arr q qs p where q: "kr_pages (ki_submit inst') = Some (arr, q # qs)"
      "kr_nr_pages (ki_submit inst') = ring_pages_needed (cp_submit params) 64"
      "length (q # qs) = unat (ring_pages_needed (cp_submit params) 64)" "k_header k' q = Some (new_header (cp_submit params) 64)"
      "ki_created inst'" "valid_ring_entries (cp_submit params)"
    using created_state[OF assms(1,2,5)] by blast
  have len: "4096 + 64 * unat (cp_submit params) \<le> 4096 * length (q # qs)"
    using ring_pages_needed_valid[OF q(6), of 64] unfolding q(3) by simp
  have "ksvc_mmap api' f start (start + 4096 * of_nat (length (q # qs))) 0 =
      (0, map (\<lambda>j. (start + 4096 * of_nat j, (q # qs) ! j)) [0..<length (q # qs)])"
    using ring_mmap_all[OF q(1) q(3)[folded q(2)] assms(4), of start] assms(3) q(5)
    by (simp add: ksvc_mmap_def del: upt_Suc list.size)
  moreover have "from_mmap False \<lparr> rm_magic = rh_magic (new_header n 64), rm_size = rh_ring_size (new_header n 64),
      rm_mask = rh_mask (new_header n 64), rm_entry_size = rh_entry_size (new_header n 64), rm_head = rh_head (new_header n 64),
      rm_tail = rh_tail (new_header n 64), rm_entries = es \<rparr> =
    Ok \<lparr> rm_magic = KSVC_RING_MAGIC, rm_size = n, rm_mask = n - 1, rm_entry_size = 64, rm_head = 0, rm_tail = 0,
      rm_entries = es \<rparr>" if "valid_ring_entries n" for n
    using that by (simp add: from_mmap_def new_header_def valid_ring_entries_def)
  ultimately show ?thesis
    using q(1,4,6) len
    by (intro exI[of _ "(arr, q # qs)"] exI[of _ "new_header (cp_submit params) 64"]) (simp del: upt_Suc)
qed

theorem created_ring_accepted_witness:
  "\<exists>inst1 k1 pages. ksvc_ioctl_create (demo_kapi True) demo_instance demo_kern = (0, inst1, k1) \<and>
     kr_pages (ki_submit inst1) = Some pages \<and> 4096 + 64 * 16 \<le> 4096 * length (snd pages) \<and>
     fst (ksvc_mmap (demo_kapi True) \<lparr> kf_id = 1, kf_inst = (2, inst1) \<rparr> 0 (4096 * of_nat (length (snd pages))) 0) = 0"
proof -
  obtain inst1 k1 where a: "ksvc_ioctl_create (demo_kapi True) demo_instance demo_kern = (0, inst1, k1)"
    by (simp add: demo_kernel_simps demo_instance_def Let_def)
  have "\<forall>j \<in> k_live demo_kern. j < k_next demo_kern" "\<forall>p. ka_insert (demo_kapi True) p = 0"
    "ka_from_user (demo_kapi True) = Some \<lparr> cp_submit = 16, cp_complete = 16, cp_flags = 0, cp_eventfd = - 1 \<rparr>"
    by (simp_all add: demo_kern_def demo_kapi_def)
  from created_ring_accepted[OF this(1) a _ this(2,3), of "\<lparr> kf_id = 1, kf_inst = (2, inst1) \<rparr>" 2 0 "[]"] show ?thesis
    using a by auto
qed

end
