(* ===== verification/Conn_Slab.thy ===== *)
theory Conn_Slab
  imports Core_Types "HOL-Library.Multiset"
begin

text \<open>
  The slab of connections that the event-driven servers share in shape, and the discipline they follow:
  besides one accept, exactly one operation is pending for each live connection.
\<close>

section \<open>The slab\<close>

text \<open>The free list is a stack, its top first.\<close>

record 'c Slab =
  slots :: "'c option list"
  slab_free :: "usize list"

definition live_slots :: "'c option list \<Rightarrow> usize set" where
  "live_slots xs = {i. i < length xs \<and> xs ! i \<noteq> None}"

definition slab_ok :: "usize \<Rightarrow> 'c Slab \<Rightarrow> bool" where
  "slab_ok n sl \<longleftrightarrow> length (slots sl) = n \<and> distinct (slab_free sl) \<and>
     set (slab_free sl) = {i. i < n \<and> slots sl ! i = None}"

lemma finite_live [simp]: "finite (live_slots xs)"
  by (simp add: live_slots_def)

lemma live_update:
  "i < length xs \<Longrightarrow> live_slots (xs[i := Some c]) = insert i (live_slots xs)"
  "i < length xs \<Longrightarrow> live_slots (xs[i := None]) = live_slots xs - {i}"
  by (auto simp: live_slots_def nth_list_update split: if_splits)

lemma slab_ok_free:
  assumes "slab_ok n sl"
  shows "set (slab_free sl) = {..<n} - live_slots (slots sl) \<and> distinct (slab_free sl)"
proof -
  have s: "length (slots sl) = n" "set (slab_free sl) = {i. i < n \<and> slots sl ! i = None}" "distinct (slab_free sl)"
    using assms unfolding slab_ok_def by simp_all
  have "{..<n} - live_slots (slots sl) = {i. i < n \<and> slots sl ! i = None}"
    unfolding live_slots_def s(1) by auto
  then show ?thesis
    using s(2,3) by simp
qed

lemma slab_ok_new: "slab_ok n \<lparr> slots = replicate n None, slab_free = [0..<n] \<rparr>"
  by (auto simp: slab_ok_def)

lemma empty_update:
  "length xs = n \<Longrightarrow> i < n \<Longrightarrow>
   {j. j < n \<and> xs[i := x] ! j = None} = (if x = None then insert i {j. j < n \<and> xs ! j = None} else {j. j < n \<and> xs ! j = None} - {i})"
  by (auto simp: nth_list_update)

lemma slab_okD:
  assumes "slab_ok n sl"
  shows "length (slots sl) = n" "distinct (slab_free sl)" "set (slab_free sl) = {i. i < n \<and> slots sl ! i = None}"
  using assms unfolding slab_ok_def by simp_all

lemma slab_ok_put:
  assumes "slab_ok n sl" "i \<in> live_slots (slots sl)"
  shows "slab_ok n (sl\<lparr> slots := (slots sl)[i := Some c] \<rparr>)"
proof -
  note s = slab_okD[OF assms(1)]
  have i: "i < n" "i \<notin> {j. j < n \<and> slots sl ! j = None}"
    using assms(2) unfolding live_slots_def s(1) by auto
  show ?thesis
    unfolding slab_ok_def using s i by (simp add: empty_update)
qed

lemma slab_ok_release:
  assumes "slab_ok n sl" "i \<in> live_slots (slots sl)"
  shows "slab_ok n \<lparr> slots = (slots sl)[i := None], slab_free = i # slab_free sl \<rparr>"
proof -
  note s = slab_okD[OF assms(1)]
  have i: "i < n" "i \<notin> set (slab_free sl)"
    using assms(2) unfolding live_slots_def s by auto
  show ?thesis
    unfolding slab_ok_def using s i by (simp add: empty_update)
qed

lemma slab_ok_alloc:
  assumes "slab_ok n sl" "slab_free sl = i # fr"
  shows "slab_ok n \<lparr> slots = (slots sl)[i := Some c], slab_free = fr \<rparr>" "i < n" "slots sl ! i = None"
proof -
  note s = slab_okD[OF assms(1)]
  have i: "i \<in> {j. j < n \<and> slots sl ! j = None}"
    using s(3) assms(2) by (metis list.set_intros(1))
  then show "i < n" "slots sl ! i = None"
    by auto
  have "set fr = {j. j < n \<and> slots sl ! j = None} - {i}"
    using s(2,3) assms(2) by (metis Diff_insert_absorb distinct.simps(2) list.simps(15))
  then show "slab_ok n \<lparr> slots = (slots sl)[i := Some c], slab_free = fr \<rparr>"
    unfolding slab_ok_def using s(1,2) assms(2) i by (simp add: empty_update)
qed

section \<open>One operation per connection\<close>

text \<open>\<open>ok i c e\<close>: \<open>e\<close> is the operation that connection \<open>c\<close> in slot \<open>i\<close> calls for.\<close>

definition one_op :: "'e \<Rightarrow> (usize \<Rightarrow> 'c \<Rightarrow> 'e \<Rightarrow> bool) \<Rightarrow> 'c option list \<Rightarrow> 'e multiset \<Rightarrow> bool" where
  "one_op acc ok xs pending \<longleftrightarrow>
     (\<exists>f. pending = add_mset acc (image_mset f (mset_set (live_slots xs))) \<and>
        (\<forall>i \<in> live_slots xs. \<forall>c. xs ! i = Some c \<longrightarrow> ok i c (f i)))"

lemma one_opE:
  assumes "one_op acc ok xs pending"
  obtains f where "pending = add_mset acc (image_mset f (mset_set (live_slots xs)))"
    "\<And>i c. i \<in> live_slots xs \<Longrightarrow> xs ! i = Some c \<Longrightarrow> ok i c (f i)"
  using assms unfolding one_op_def by blast

lemma one_op_init:
  fixes ok :: "usize \<Rightarrow> 'c \<Rightarrow> 'e \<Rightarrow> bool"
  shows "one_op acc ok (replicate n None) {# acc #}"
proof -
  have "live_slots (replicate n (None :: 'c option)) = {}"
    by (auto simp: live_slots_def)
  then show ?thesis
    by (simp add: one_op_def)
qed

lemma one_op_add:
  assumes "one_op acc ok xs pending" "i < length xs" "xs ! i = None" "ok' i c e"
    and "\<And>j d x. j \<noteq> i \<Longrightarrow> ok j d x \<Longrightarrow> ok' j d x"
  shows "one_op acc ok' (xs[i := Some c]) (add_mset e pending)"
proof -
  obtain f where f: "pending = add_mset acc (image_mset f (mset_set (live_slots xs)))"
      "\<And>i c. i \<in> live_slots xs \<Longrightarrow> xs ! i = Some c \<Longrightarrow> ok i c (f i)"
    using assms(1) by (rule one_opE) blast
  let ?f = "f(i := e)"
  have n: "i \<notin> live_slots xs"
    using assms(3) by (simp add: live_slots_def)
  then have "image_mset ?f (mset_set (live_slots xs)) = image_mset f (mset_set (live_slots xs))"
    by (intro image_mset_cong) auto
  then have "add_mset e pending = add_mset acc (image_mset ?f (mset_set (live_slots (xs[i := Some c]))))"
    using n f(1) live_update(1)[OF assms(2)] by simp
  moreover have "\<forall>j \<in> live_slots (xs[i := Some c]). \<forall>d. (xs[i := Some c]) ! j = Some d \<longrightarrow> ok' j d (?f j)"
    using n f(2) assms(2,4,5) live_update(1)[OF assms(2)] by (auto simp: nth_list_update)
  ultimately show ?thesis
    unfolding one_op_def by blast
qed

text \<open>
  A pending operation is the accept or belongs to a live connection; then it can be replaced together with
  the connection, or leave together with it. What is required of the other connections may be relaxed.
\<close>

lemma one_op_cases:
  assumes "one_op acc ok xs pending" "e \<in># pending"
  shows "e = acc \<or> (\<exists>i c. i < length xs \<and> xs ! i = Some c \<and> ok i c e \<and>
    (\<forall>ok' c' e'. (\<forall>j d x. j \<noteq> i \<longrightarrow> ok j d x \<longrightarrow> ok' j d x) \<longrightarrow> ok' i c' e' \<longrightarrow>
       one_op acc ok' (xs[i := Some c']) (pending - {# e #} + {# e' #})) \<and>
    one_op acc ok (xs[i := None]) (pending - {# e #}))"
proof (cases "e = acc")
  case False
  obtain f where f: "pending = add_mset acc (image_mset f (mset_set (live_slots xs)))"
      "\<And>i c. i \<in> live_slots xs \<Longrightarrow> xs ! i = Some c \<Longrightarrow> ok i c (f i)"
    using assms(1) by (rule one_opE) blast
  then obtain i where i: "i \<in> live_slots xs" "e = f i"
    using False assms(2) by auto
  let ?L = "live_slots xs - {i}"
  have l: "i < length xs" "insert i ?L = live_slots xs"
    using i(1) by (auto simp: live_slots_def)
  have m: "image_mset f (mset_set (live_slots xs)) = add_mset e (image_mset f (mset_set ?L))"
    using i by (simp add: mset_set.remove)
  have "one_op acc ok' (xs[i := Some c']) (pending - {# e #} + {# e' #})"
    if o: "\<forall>j d x. j \<noteq> i \<longrightarrow> ok j d x \<longrightarrow> ok' j d x" "ok' i c' e'" for ok' c' e'
  proof -
    let ?f = "f(i := e')"
    have "image_mset ?f (mset_set ?L) = image_mset f (mset_set ?L)"
      by (intro image_mset_cong) auto
    then have "pending - {# e #} + {# e' #} = add_mset acc (image_mset ?f (mset_set (live_slots (xs[i := Some c']))))"
      using f(1) m l live_update(1)[OF l(1), of c'] i(1) by (simp add: insert_absorb mset_set.remove)
    moreover have "\<forall>j \<in> live_slots (xs[i := Some c']). \<forall>d. (xs[i := Some c']) ! j = Some d \<longrightarrow> ok' j d (?f j)"
      using f(2) o l(1) live_update(1)[OF l(1), of c'] by (auto simp: nth_list_update)
    ultimately show ?thesis
      unfolding one_op_def by blast
  qed
  moreover have "one_op acc ok (xs[i := None]) (pending - {# e #})"
    using f m live_update(2)[OF l(1)] unfolding one_op_def
    by (intro exI[of _ f]) (auto simp: nth_list_update live_slots_def)
  moreover obtain c where "xs ! i = Some c"
    using i(1) by (auto simp: live_slots_def)
  ultimately show ?thesis
    using l(1) f(2)[OF i(1)] i(2) by blast
qed simp

end
