(* ===== verification/Httpd.thy ===== *)
theory Httpd
  imports Io_Uring Conn_Slab
begin

text \<open>
  The event-driven HTTP server \<open>cmd/httpd/rust/ksvc/src/main.rs\<close>: request parsing, responses, the
  connection slab, the submissions and the handler of every completion. A byte string is a \<open>string\<close>. A
  handler returns the new state and the entries it submits, in order; the results of the submissions are
  ignored by the code. \<open>None\<close> is a panic. The addresses of the buffers are a parameter; socket options
  and logging are left out.
\<close>

section \<open>Correlation ids\<close>

abbreviation OP_ACCEPT :: u64 where "OP_ACCEPT \<equiv> 0x100000000000000"
abbreviation OP_RECV :: u64 where "OP_RECV \<equiv> 0x200000000000000"
abbreviation OP_SEND :: u64 where "OP_SEND \<equiv> 0x300000000000000"
abbreviation OP_CLOSE :: u64 where "OP_CLOSE \<equiv> 0x400000000000000"
abbreviation OP_FILE_OPEN :: u64 where "OP_FILE_OPEN \<equiv> 0x500000000000000"
abbreviation OP_FILE_READ :: u64 where "OP_FILE_READ \<equiv> 0x600000000000000"
abbreviation OP_FILE_CLOSE :: u64 where "OP_FILE_CLOSE \<equiv> 0x700000000000000"

definition make_id :: "u64 \<Rightarrow> usize \<Rightarrow> CorrId" where
  "make_id oper idx = oper OR of_nat idx"

definition decode_op :: "CorrId \<Rightarrow> u64" where
  "decode_op cid = cid AND 0xFF00000000000000"

definition decode_idx :: "CorrId \<Rightarrow> usize" where
  "decode_idx cid = unat (cid AND 0xFFFFFFFF)"

section \<open>Responses\<close>

abbreviation RECV_BUF :: usize where "RECV_BUF \<equiv> 4096"
abbreviation FILE_BUF :: usize where "FILE_BUF \<equiv> 65536"

definition crlf :: string where
  "crlf = [CHR 0x0D, CHR 0x0A]"

definition HELLO_BODY :: string where
  "HELLO_BODY = ''Hello from KSVC!'' @ [CHR 0x0A]"

definition make_hello_response :: string where
  "make_hello_response =
     ''HTTP/1.1 200 OK'' @ crlf @ ''Content-Type: text/plain'' @ crlf @ ''Content-Length: '' @
     show_nat (length HELLO_BODY) @ crlf @ ''Connection: keep-alive'' @ crlf @ ''Server: ksvc-httpd'' @ crlf @ crlf @ HELLO_BODY"

definition make_404_response :: string where
  "make_404_response =
     (let body = ''404 Not Found'' @ [CHR 0x0A] in
      ''HTTP/1.1 404 Not Found'' @ crlf @ ''Content-Type: text/plain'' @ crlf @ ''Content-Length: '' @
      show_nat (length body) @ crlf @ ''Connection: keep-alive'' @ crlf @ crlf @ body)"

definition make_file_response :: "string \<Rightarrow> string \<Rightarrow> string" where
  "make_file_response content_type body =
     ''HTTP/1.1 200 OK'' @ crlf @ ''Content-Type: '' @ content_type @ crlf @ ''Content-Length: '' @
     show_nat (length body) @ crlf @ ''Connection: keep-alive'' @ crlf @ ''Server: ksvc-httpd'' @ crlf @ crlf @ body"

definition ends_with :: "string \<Rightarrow> string \<Rightarrow> bool" where
  "ends_with s suf \<longleftrightarrow> length suf \<le> length s \<and> drop (length s - length suf) s = suf"

definition guess_content_type :: "string \<Rightarrow> string" where
  "guess_content_type path =
     (if ends_with path ''.html'' \<or> ends_with path ''.htm'' then ''text/html''
      else if ends_with path ''.css'' then ''text/css''
      else if ends_with path ''.js'' then ''application/javascript''
      else if ends_with path ''.json'' then ''application/json''
      else if ends_with path ''.txt'' then ''text/plain''
      else if ends_with path ''.png'' then ''image/png''
      else if ends_with path ''.jpg'' \<or> ends_with path ''.jpeg'' then ''image/jpeg''
      else if ends_with path ''.gif'' then ''image/gif''
      else if ends_with path ''.svg'' then ''image/svg+xml''
      else ''application/octet-stream'')"

section \<open>Requests\<close>

text \<open>The first position of the empty line that ends the headers.\<close>

fun find_end :: "string \<Rightarrow> nat option" where
  "find_end [] = None"
| "find_end (c # cs) = (if take 4 (c # cs) = crlf @ crlf then Some 0 else map_option Suc (find_end cs))"

definition position :: "char \<Rightarrow> string \<Rightarrow> nat option" where
  "position c s = (if c \<in> set s then Some (length (takeWhile (\<lambda>x. x \<noteq> c) s)) else None)"

definition parse_request :: "string \<Rightarrow> usize \<Rightarrow> (usize \<times> string) option" where
  "parse_request buf len =
     (let dat = take len buf in
      case find_end dat of
        None \<Rightarrow> None
      | Some e \<Rightarrow>
          let header_end = e + 4 in
          if length dat < 14 \<or> take 4 dat \<noteq> ''GET '' then Some (header_end, ''/'')
          else
            let path_end = (case position (CHR '' '') (drop 4 dat) of Some p \<Rightarrow> 4 + p | None \<Rightarrow> 4 + 1)
            in Some (header_end, take (path_end - 4) (drop 4 dat)))"

fun has_dotdot :: "string \<Rightarrow> bool" where
  "has_dotdot (a # b # s) \<longleftrightarrow> (a = CHR ''.'' \<and> b = CHR ''.'') \<or> has_dotdot (b # s)"
| "has_dotdot _ \<longleftrightarrow> False"

text \<open>\<open>str::from_utf8\<close>: the byte sequences that Unicode calls well-formed.\<close>

abbreviation cont :: "char \<Rightarrow> bool" where
  "cont c \<equiv> of_char c div 64 = (2 :: nat)"

fun utf8_valid :: "string \<Rightarrow> bool" where
  "utf8_valid [] = True"
| "utf8_valid (a # s) =
     (let n = of_char a :: nat in
      if n < 128 then utf8_valid s
      else if 194 \<le> n \<and> n \<le> 223 then (case s of b # r \<Rightarrow> cont b \<and> utf8_valid r | _ \<Rightarrow> False)
      else if 224 \<le> n \<and> n \<le> 239 then
        (case s of
           b # c # r \<Rightarrow> cont b \<and> cont c \<and> (n = 224 \<longrightarrow> 160 \<le> (of_char b :: nat)) \<and>
             (n = 237 \<longrightarrow> of_char b \<le> (159 :: nat)) \<and> utf8_valid r
         | _ \<Rightarrow> False)
      else if 240 \<le> n \<and> n \<le> 244 then
        (case s of
           b # c # d # r \<Rightarrow> cont b \<and> cont c \<and> cont d \<and> (n = 240 \<longrightarrow> 144 \<le> (of_char b :: nat)) \<and>
             (n = 244 \<longrightarrow> of_char b \<le> (143 :: nat)) \<and> utf8_valid r
         | _ \<Rightarrow> False)
      else False)"

section \<open>Connections\<close>

datatype ConnState =
    Receiving | SendingReply | FileOpening | FileReading | FileSending | FileClosing | Closing

record Conn =
  c_fd :: i32
  c_state :: ConnState
  c_recv_buf :: string
  c_recv_len :: usize
  c_send_buf :: string
  c_send_off :: usize
  c_file_fd :: i32
  c_file_buf :: string
  c_file_path :: string

definition reset_for_next_request :: "Conn \<Rightarrow> Conn" where
  "reset_for_next_request c =
     c\<lparr> c_recv_len := 0, c_send_buf := [], c_send_off := 0, c_state := Receiving, c_file_fd := - 1 \<rparr>"

type_synonym ConnSlab = "Conn Slab"

definition ConnSlab_new :: "usize \<Rightarrow> ConnSlab" where
  "ConnSlab_new n = \<lparr> slots = replicate n None, slab_free = [0..<n] \<rparr>"

definition Conn_new :: "i32 \<Rightarrow> Conn" where
  "Conn_new fd =
     \<lparr> c_fd = fd, c_state = Receiving, c_recv_buf = replicate RECV_BUF (CHR 0x00), c_recv_len = 0, c_send_buf = [],
       c_send_off = 0, c_file_fd = - 1, c_file_buf = replicate FILE_BUF (CHR 0x00), c_file_path = [] \<rparr>"

definition slab_alloc :: "i32 \<Rightarrow> ConnSlab \<Rightarrow> usize option \<times> ConnSlab" where
  "slab_alloc fd sl =
     (case slab_free sl of
        [] \<Rightarrow> (None, sl)
      | idx # fr \<Rightarrow> (Some idx, \<lparr> slots = (slots sl)[idx := Some (Conn_new fd)], slab_free = fr \<rparr>))"

definition get_conn :: "usize \<Rightarrow> ConnSlab \<Rightarrow> Conn option" where
  "get_conn idx sl = (if idx < length (slots sl) then slots sl ! idx else None)"

definition put_conn :: "usize \<Rightarrow> Conn \<Rightarrow> ConnSlab \<Rightarrow> ConnSlab" where
  "put_conn idx c sl = sl\<lparr> slots := (slots sl)[idx := Some c] \<rparr>"

definition slab_release :: "usize \<Rightarrow> ConnSlab \<Rightarrow> ConnSlab option" where
  "slab_release idx sl =
     (if idx < length (slots sl)
      then Some \<lparr> slots = (slots sl)[idx := None], slab_free = idx # slab_free sl \<rparr> else None)"

record Stats =
  accepts :: u64
  requests :: u64
  responses :: u64
  bytes_in :: u64
  bytes_out :: u64
  errors :: u64
  file_opens :: u64

definition Stats_new :: Stats where
  "Stats_new = \<lparr> accepts = 0, requests = 0, responses = 0, bytes_in = 0, bytes_out = 0, errors = 0, file_opens = 0 \<rparr>"

definition active :: "ConnSlab \<Rightarrow> usize" where
  "active sl = length (filter (\<lambda>s. s \<noteq> None) (slots sl))"

section \<open>Submissions\<close>

datatype buffer = RecvBuf | SendBuf | FileBuf | PathBuf

record HttpCfg =
  listener :: i32
  accept_addr :: u64
  accept_addr_len :: u64
  buf_addr :: "usize \<Rightarrow> buffer \<Rightarrow> u64"
  file_mode :: bool
  base_dir :: string

definition entry_of :: "u64 \<Rightarrow> usize \<Rightarrow> u32 \<Rightarrow> u64 list \<Rightarrow> SubmitEntry" where
  "entry_of oper idx syscall_nr args =
     \<lparr> sb_corr_id = make_id oper idx, sb_syscall_nr = syscall_nr, sb_flags = 0, sb_args = args \<rparr>"

definition submit_accept :: "HttpCfg \<Rightarrow> SubmitEntry" where
  "submit_accept cfg =
     entry_of OP_ACCEPT 0 288 [scast (listener cfg), accept_addr cfg, accept_addr_len cfg, 0x80000, 0, 0]"

definition submit_recv :: "HttpCfg \<Rightarrow> Conn \<Rightarrow> usize \<Rightarrow> SubmitEntry" where
  "submit_recv cfg c idx =
     entry_of OP_RECV idx 45 [scast (c_fd c), buf_addr cfg idx RecvBuf + of_nat (c_recv_len c),
       of_nat (RECV_BUF - c_recv_len c), 0, 0, 0]"

definition submit_send :: "HttpCfg \<Rightarrow> Conn \<Rightarrow> usize \<Rightarrow> SubmitEntry" where
  "submit_send cfg c idx =
     entry_of OP_SEND idx 44 [scast (c_fd c), buf_addr cfg idx SendBuf + of_nat (c_send_off c),
       of_nat (length (c_send_buf c) - c_send_off c), 0, 0, 0]"

definition submit_close :: "i32 \<Rightarrow> usize \<Rightarrow> SubmitEntry" where
  "submit_close fd idx = entry_of OP_CLOSE idx 3 [scast fd, 0, 0, 0, 0, 0]"

definition submit_file_open :: "HttpCfg \<Rightarrow> usize \<Rightarrow> SubmitEntry" where
  "submit_file_open cfg idx = entry_of OP_FILE_OPEN idx 257 [- 100, buf_addr cfg idx PathBuf, 0, 0, 0, 0]"

definition submit_file_read :: "HttpCfg \<Rightarrow> Conn \<Rightarrow> usize \<Rightarrow> SubmitEntry" where
  "submit_file_read cfg c idx =
     entry_of OP_FILE_READ idx 0 [scast (c_file_fd c), buf_addr cfg idx FileBuf, of_nat FILE_BUF, 0, 0, 0]"

definition submit_file_close :: "i32 \<Rightarrow> usize \<Rightarrow> SubmitEntry" where
  "submit_file_close fd idx = entry_of OP_FILE_CLOSE idx 3 [scast fd, 0, 0, 0, 0, 0]"

section \<open>Completions\<close>

text \<open>\<open>h_closed\<close> records the descriptors closed on the spot because the slab was full.\<close>

record Httpd =
  h_conns :: ConnSlab
  h_stats :: Stats
  h_closed :: "i32 list"

abbreviation upd_stats :: "(Stats \<Rightarrow> Stats) \<Rightarrow> Httpd \<Rightarrow> Httpd" where
  "upd_stats f st \<equiv> st\<lparr> h_stats := f (h_stats st) \<rparr>"

abbreviation upd_conn :: "usize \<Rightarrow> Conn \<Rightarrow> Httpd \<Rightarrow> Httpd" where
  "upd_conn idx c st \<equiv> st\<lparr> h_conns := put_conn idx c (h_conns st) \<rparr>"

definition handle_accept :: "HttpCfg \<Rightarrow> i64 \<Rightarrow> Httpd \<Rightarrow> Httpd \<times> SubmitEntry list" where
  "handle_accept cfg result st =
     (if 0 \<le> sint result then
        let st1 = upd_stats (\<lambda>s. s\<lparr> accepts := accepts s + 1 \<rparr>) st in
        case slab_alloc (ucast result) (h_conns st1) of
          (Some cidx, sl) \<Rightarrow>
            (st1\<lparr> h_conns := sl \<rparr>,
             (case get_conn cidx sl of None \<Rightarrow> [] | Some c \<Rightarrow> [submit_recv cfg c cidx]) @ [submit_accept cfg])
        | (None, sl) \<Rightarrow>
            (upd_stats (\<lambda>s. s\<lparr> errors := errors s + 1 \<rparr>)
               (st1\<lparr> h_conns := sl, h_closed := h_closed st1 @ [ucast result] \<rparr>), [submit_accept cfg])
      else (upd_stats (\<lambda>s. s\<lparr> errors := errors s + 1 \<rparr>) st, [submit_accept cfg]))"

text \<open>Giving up a connection, and answering with a prepared response.\<close>

definition start_close :: "usize \<Rightarrow> Httpd \<Rightarrow> Httpd \<times> SubmitEntry list" where
  "start_close idx st =
     (case get_conn idx (h_conns st) of
        None \<Rightarrow> (st, [])
      | Some c \<Rightarrow> (upd_conn idx (c\<lparr> c_state := Closing \<rparr>) st, [submit_close (c_fd c) idx]))"

definition start_reply :: "HttpCfg \<Rightarrow> usize \<Rightarrow> Conn \<Rightarrow> ConnState \<Rightarrow> string \<Rightarrow> Httpd \<Rightarrow> Httpd \<times> SubmitEntry list" where
  "start_reply cfg idx c next resp st =
     (let c' = c\<lparr> c_send_buf := resp, c_send_off := 0, c_state := next \<rparr>
      in (upd_conn idx c' st, [submit_send cfg c' idx]))"

definition serve_path :: "HttpCfg \<Rightarrow> usize \<Rightarrow> Conn \<Rightarrow> string \<Rightarrow> Httpd \<Rightarrow> Httpd \<times> SubmitEntry list" where
  "serve_path cfg idx c path st =
     (let p1 = (if utf8_valid path then path else ''/'');
          p2 = (if p1 = ''/'' then ''/index.html'' else p1);
          full_path = base_dir cfg @ p2
      in if has_dotdot p2 then start_reply cfg idx c SendingReply make_404_response st
         else if CHR 0x00 \<in> set full_path then start_reply cfg idx c SendingReply make_404_response st
         else (upd_stats (\<lambda>s. s\<lparr> file_opens := file_opens s + 1 \<rparr>)
                 (upd_conn idx (c\<lparr> c_file_path := full_path, c_state := FileOpening \<rparr>) st),
               [submit_file_open cfg idx]))"

definition handle_recv :: "HttpCfg \<Rightarrow> usize \<Rightarrow> i64 \<Rightarrow> Httpd \<Rightarrow> (Httpd \<times> SubmitEntry list) option" where
  "handle_recv cfg idx result st =
     (if sint result \<le> 0 then Some (start_close idx st)
      else
        let nbytes = unat result;
            st1 = upd_stats (\<lambda>s. s\<lparr> bytes_in := bytes_in s + of_nat nbytes \<rparr>) st
        in case get_conn idx (h_conns st1) of
             None \<Rightarrow> Some (st1, [])
           | Some c \<Rightarrow>
               let c1 = c\<lparr> c_recv_len := c_recv_len c + nbytes \<rparr>; st2 = upd_conn idx c1 st1 in
               if RECV_BUF < c_recv_len c1 then None
               else case parse_request (c_recv_buf c1) (c_recv_len c1) of
                      None \<Rightarrow>
                        if c_recv_len c1 \<ge> RECV_BUF then Some (start_close idx st2)
                        else Some (st2, [submit_recv cfg c1 idx])
                    | Some (consumed, path) \<Rightarrow>
                        let st3 = upd_stats (\<lambda>s. s\<lparr> requests := requests s + 1 \<rparr>) st2 in
                        if \<not> file_mode cfg then Some (start_reply cfg idx c1 SendingReply make_hello_response st3)
                        else Some (serve_path cfg idx c1 path st3))"

definition handle_send :: "HttpCfg \<Rightarrow> usize \<Rightarrow> i64 \<Rightarrow> Httpd \<Rightarrow> Httpd \<times> SubmitEntry list" where
  "handle_send cfg idx result st =
     (if sint result \<le> 0 then
        (case start_close idx st of (st1, es) \<Rightarrow> (upd_stats (\<lambda>s. s\<lparr> errors := errors s + 1 \<rparr>) st1, es))
      else
        let st1 = upd_stats (\<lambda>s. s\<lparr> bytes_out := bytes_out s + result \<rparr>) st in
        case get_conn idx (h_conns st1) of
          None \<Rightarrow> (st1, [])
        | Some c \<Rightarrow>
            let c1 = c\<lparr> c_send_off := c_send_off c + unat result \<rparr> in
            if c_send_off c1 < length (c_send_buf c1) then (upd_conn idx c1 st1, [submit_send cfg c1 idx])
            else
              let st2 = upd_stats (\<lambda>s. s\<lparr> responses := responses s + 1 \<rparr>) st1 in
              if c_state c1 = FileSending then
                (upd_conn idx (c1\<lparr> c_file_fd := - 1, c_state := FileClosing \<rparr>) st2, [submit_file_close (c_file_fd c1) idx])
              else
                let c2 = reset_for_next_request c1 in (upd_conn idx c2 st2, [submit_recv cfg c2 idx]))"

definition handle_file_open :: "HttpCfg \<Rightarrow> usize \<Rightarrow> i64 \<Rightarrow> Httpd \<Rightarrow> Httpd \<times> SubmitEntry list" where
  "handle_file_open cfg idx result st =
     (case get_conn idx (h_conns st) of
        None \<Rightarrow> (st, [])
      | Some c \<Rightarrow>
          if sint result < 0 then start_reply cfg idx c SendingReply make_404_response st
          else
            let c1 = c\<lparr> c_file_fd := ucast result, c_state := FileReading \<rparr>
            in (upd_conn idx c1 st, [submit_file_read cfg c1 idx]))"

definition handle_file_read :: "HttpCfg \<Rightarrow> usize \<Rightarrow> i64 \<Rightarrow> Httpd \<Rightarrow> (Httpd \<times> SubmitEntry list) option" where
  "handle_file_read cfg idx result st =
     (case get_conn idx (h_conns st) of
        None \<Rightarrow> Some (st, [])
      | Some c \<Rightarrow>
          if sint result \<le> 0 then
            Some (start_reply cfg idx c FileSending (make_file_response ''text/plain'' []) st)
          else if FILE_BUF < unat result then None
          else
            let path = (if utf8_valid (c_file_path c) then c_file_path c else []) in
            Some (start_reply cfg idx c FileSending
              (make_file_response (guess_content_type path) (take (unat result) (c_file_buf c))) st))"

definition handle_file_close :: "HttpCfg \<Rightarrow> usize \<Rightarrow> Httpd \<Rightarrow> Httpd \<times> SubmitEntry list" where
  "handle_file_close cfg idx st =
     (case get_conn idx (h_conns st) of
        None \<Rightarrow> (st, [])
      | Some c \<Rightarrow> let c1 = reset_for_next_request c in (upd_conn idx c1 st, [submit_recv cfg c1 idx]))"

definition handle_close :: "usize \<Rightarrow> Httpd \<Rightarrow> (Httpd \<times> SubmitEntry list) option" where
  "handle_close idx st = map_option (\<lambda>sl. (st\<lparr> h_conns := sl \<rparr>, [])) (slab_release idx (h_conns st))"

definition handle_cqe :: "HttpCfg \<Rightarrow> IoCompletion \<Rightarrow> Httpd \<Rightarrow> (Httpd \<times> SubmitEntry list) option" where
  "handle_cqe cfg cqe st =
     (let oper = decode_op (ioc_corr_id cqe); idx = decode_idx (ioc_corr_id cqe); result = ioc_result cqe in
      if oper = OP_ACCEPT then Some (handle_accept cfg result st)
      else if oper = OP_RECV then handle_recv cfg idx result st
      else if oper = OP_SEND then Some (handle_send cfg idx result st)
      else if oper = OP_FILE_OPEN then Some (handle_file_open cfg idx result st)
      else if oper = OP_FILE_READ then handle_file_read cfg idx result st
      else if oper = OP_FILE_CLOSE then Some (handle_file_close cfg idx st)
      else if oper = OP_CLOSE then handle_close idx st
      else Some (st, []))"

section \<open>The event loop\<close>

definition submit_all :: "'r Uring \<Rightarrow> ProbeRouter \<Rightarrow> SubmitEntry list \<Rightarrow> 'r BasicIoUring \<Rightarrow> 'r BasicIoUring" where
  "submit_all u rt es b =
     fold (\<lambda>e b. snd (submit_with_opcode u e (iouring_opcode (route rt (sb_syscall_nr e))) b)) es b"

fun handle_batch ::
  "'r Uring \<Rightarrow> ProbeRouter \<Rightarrow> HttpCfg \<Rightarrow> IoCompletion list \<Rightarrow> Httpd \<Rightarrow> 'r BasicIoUring \<Rightarrow> (Httpd \<times> 'r BasicIoUring) option" where
  "handle_batch u rt cfg [] st b = Some (st, b)"
| "handle_batch u rt cfg (c # cs) st b =
     (case handle_cqe cfg c st of
        None \<Rightarrow> None
      | Some (st1, es) \<Rightarrow> handle_batch u rt cfg cs st1 (submit_all u rt es b))"

definition httpd_turn ::
  "'r Uring \<Rightarrow> ProbeRouter \<Rightarrow> HttpCfg \<Rightarrow> Httpd \<Rightarrow> 'r BasicIoUring \<Rightarrow> (Httpd \<times> 'r BasicIoUring) option" where
  "httpd_turn u rt cfg st b =
     (case iouring_poll_completions u 128 128 (snd (flush_and_wait u 1 b)) of
        (cs, b1) \<Rightarrow> handle_batch u rt cfg cs st b1)"

definition httpd_start :: "'r Uring \<Rightarrow> ProbeRouter \<Rightarrow> HttpCfg \<Rightarrow> usize \<Rightarrow> 'r BasicIoUring \<Rightarrow> Httpd \<times> 'r BasicIoUring" where
  "httpd_start u rt cfg max_conns b =
     (\<lparr> h_conns = ConnSlab_new max_conns, h_stats = Stats_new, h_closed = [] \<rparr>,
      snd (iouring_flush u (submit_all u rt [submit_accept cfg] b)))"

end
