(* ===== verification/Httpd_Safety.thy ===== *)
theory Httpd_Safety
  imports Httpd
begin

text \<open>
  The HTTP server against a kernel that completes the pending operations in any order, refuses submissions
  and loses completions: every live connection has one operation outstanding, the one its state calls for,
  which is pending or lost, no slot is freed twice and no handler panics. Then the requests: what is parsed,
  what is opened, and what is dropped.
\<close>

section \<open>The kernel's side\<close>

text \<open>
  \<open>hs_pending\<close> are the operations the kernel has, \<open>hs_lost\<close> those the server waits for in vain: refused at
  their submission, or done by the kernel with the completion discarded.
\<close>

record HttpSys =
  hs_state :: Httpd
  hs_pending :: "SubmitEntry multiset"
  hs_lost :: "SubmitEntry multiset"

definition overwrite :: "nat \<Rightarrow> string \<Rightarrow> string \<Rightarrow> string" where
  "overwrite off dat buf = take off buf @ dat @ drop (off + length dat) buf"

text \<open>
  What a completed operation has done to the buffers: a receive or a file read has stored as many bytes as
  it reports, at most those asked for; a send reports at most what was offered.
\<close>

definition kernel_done :: "HttpCfg \<Rightarrow> SubmitEntry \<Rightarrow> i64 \<Rightarrow> Httpd \<Rightarrow> Httpd \<Rightarrow> bool" where
  "kernel_done cfg e result st st1 \<longleftrightarrow>
     (let oper = decode_op (sb_corr_id e); idx = decode_idx (sb_corr_id e);
          off = (\<lambda>b. unat (sb_args e ! 1 - buf_addr cfg idx b))
      in if sint result \<le> 0 then st1 = st
         else if oper = OP_RECV then
           unat result \<le> unat (sb_args e ! 2) \<and>
           (case get_conn idx (h_conns st) of
              None \<Rightarrow> st1 = st
            | Some c \<Rightarrow> \<exists>dat. length dat = unat result \<and>
                st1 = upd_conn idx (c\<lparr> c_recv_buf := overwrite (off RecvBuf) dat (c_recv_buf c) \<rparr>) st)
         else if oper = OP_FILE_READ then
           unat result \<le> unat (sb_args e ! 2) \<and>
           (case get_conn idx (h_conns st) of
              None \<Rightarrow> st1 = st
            | Some c \<Rightarrow> \<exists>dat. length dat = unat result \<and>
                st1 = upd_conn idx (c\<lparr> c_file_buf := overwrite (off FileBuf) dat (c_file_buf c) \<rparr>) st)
         else (oper = OP_SEND \<longrightarrow> unat result \<le> unat (sb_args e ! 2)) \<and> st1 = st)"

definition cqe_of :: "SubmitEntry \<Rightarrow> i64 \<Rightarrow> IoCompletion" where
  "cqe_of e result = \<lparr> ioc_corr_id = sb_corr_id e, ioc_result = result, ioc_flags = 0 \<rparr>"

text \<open>
  One completion is handled; any of the submissions this makes may be refused, which the code ignores. Or the
  operation is done and its completion is discarded: \<open>poll_completions\<close> does that to one completion when more
  are ready than the 128 the loop has room for.
\<close>

inductive http_step :: "HttpCfg \<Rightarrow> HttpSys \<Rightarrow> HttpSys \<Rightarrow> bool" for cfg where
  Complete: "e \<in># hs_pending s \<Longrightarrow> kernel_done cfg e result (hs_state s) st1 \<Longrightarrow>
    handle_cqe cfg (cqe_of e result) st1 = Some (st2, es) \<Longrightarrow> refused \<subseteq># mset es \<Longrightarrow>
    http_step cfg s
      \<lparr> hs_state = st2, hs_pending = hs_pending s - {#e#} + (mset es - refused), hs_lost = hs_lost s + refused \<rparr>"
| Discard: "e \<in># hs_pending s \<Longrightarrow> kernel_done cfg e result (hs_state s) st1 \<Longrightarrow>
    http_step cfg s \<lparr> hs_state = st1, hs_pending = hs_pending s - {#e#}, hs_lost = hs_lost s + {#e#} \<rparr>"

definition http_init :: "HttpCfg \<Rightarrow> usize \<Rightarrow> HttpSys" where
  "http_init cfg n =
     \<lparr> hs_state = \<lparr> h_conns = ConnSlab_new n, h_stats = Stats_new, h_closed = [] \<rparr>, hs_pending = {# submit_accept cfg #},
       hs_lost = {#} \<rparr>"

section \<open>Decoding\<close>

lemma small_index_bits:
  assumes "i < 2 ^ 32"
  shows "(of_nat i :: u64) AND 0xFFFFFFFF = of_nat i" "(of_nat i :: u64) AND 0xFF00000000000000 = 0"
proof -
  have "(of_nat i :: u64) AND mask 32 = of_nat i"
    using assms by (simp add: take_bit_eq_mask[symmetric] take_bit_of_nat take_bit_nat_eq_self)
  then show m: "(of_nat i :: u64) AND 0xFFFFFFFF = of_nat i"
    by (simp add: mask_eq_exp_minus_1)
  have "(of_nat i :: u64) AND 0xFF00000000000000 = of_nat i AND (0xFFFFFFFF AND 0xFF00000000000000)"
    by (subst m[symmetric]) (rule and.assoc)
  then show "(of_nat i :: u64) AND 0xFF00000000000000 = 0"
    by simp
qed

lemma decode_make:
  assumes "i < 2 ^ 32" "oper AND 0xFF00000000000000 = oper" "oper AND 0xFFFFFFFF = 0"
  shows "decode_op (make_id oper i) = oper" "decode_idx (make_id oper i) = i"
  using assms
  by (simp_all add: decode_op_def decode_idx_def make_id_def bit.conj_disj_distrib2 small_index_bits unat_of_nat_lt)

lemmas entry_defs = submit_accept_def submit_recv_def submit_send_def submit_close_def submit_file_open_def
  submit_file_read_def submit_file_close_def entry_of_def

section \<open>The invariant\<close>

abbreviation live_conns :: "ConnSlab \<Rightarrow> usize set" where
  "live_conns sl \<equiv> live_slots (slots sl)"

text \<open>The operation that the state of a connection calls for.\<close>

definition entry_ok :: "HttpCfg \<Rightarrow> usize \<Rightarrow> Conn \<Rightarrow> SubmitEntry \<Rightarrow> bool" where
  "entry_ok cfg i c e \<longleftrightarrow>
     (case c_state c of
        Receiving \<Rightarrow> e = submit_recv cfg c i
      | SendingReply \<Rightarrow> e = submit_send cfg c i
      | FileOpening \<Rightarrow> e = submit_file_open cfg i
      | FileReading \<Rightarrow> e = submit_file_read cfg c i
      | FileSending \<Rightarrow> e = submit_send cfg c i
      | FileClosing \<Rightarrow> \<exists>fd. e = submit_file_close fd i
      | Closing \<Rightarrow> e = submit_close (c_fd c) i)"

definition conn_ok :: "Conn \<Rightarrow> bool" where
  "conn_ok c \<longleftrightarrow> length (c_recv_buf c) = RECV_BUF \<and> length (c_file_buf c) = FILE_BUF \<and>
     (c_state c = Receiving \<longrightarrow> c_recv_len c < RECV_BUF) \<and>
     (c_state c \<in> {SendingReply, FileSending} \<longrightarrow> c_send_off c < length (c_send_buf c))"

text \<open>The state of the server together with the operations it waits for.\<close>

definition http_ok :: "HttpCfg \<Rightarrow> usize \<Rightarrow> Httpd \<Rightarrow> SubmitEntry multiset \<Rightarrow> bool" where
  "http_ok cfg n st ops \<longleftrightarrow>
     slab_ok n (h_conns st) \<and>
     one_op (submit_accept cfg) (\<lambda>i c e. entry_ok cfg i c e \<and> conn_ok c) (slots (h_conns st)) ops"

definition http_inv :: "HttpCfg \<Rightarrow> usize \<Rightarrow> HttpSys \<Rightarrow> bool" where
  "http_inv cfg n s \<longleftrightarrow> http_ok cfg n (hs_state s) (hs_pending s + hs_lost s)"

section \<open>The handlers\<close>

definition bufs_ok :: "Conn \<Rightarrow> bool" where
  "bufs_ok c \<longleftrightarrow> length (c_recv_buf c) = RECV_BUF \<and> length (c_file_buf c) = FILE_BUF"

text \<open>The connection goes on with one new operation, the one its new state calls for.\<close>

definition next_ok :: "HttpCfg \<Rightarrow> usize \<Rightarrow> ConnSlab \<Rightarrow> Httpd \<times> SubmitEntry list \<Rightarrow> bool" where
  "next_ok cfg i sl res \<longleftrightarrow>
     (\<exists>c' e'. snd res = [e'] \<and> h_conns (fst res) = put_conn i c' sl \<and> entry_ok cfg i c' e' \<and> conn_ok c')"

lemma put_put [simp]: "put_conn i a (put_conn i b sl) = put_conn i a sl"
  by (simp add: put_conn_def)

lemma get_put [simp]: "get_conn i (put_conn i c sl) = (if i < length (slots sl) then Some c else None)"
  by (simp add: get_conn_def put_conn_def)

lemma length_put [simp]: "length (slots (put_conn i c sl)) = length (slots sl)"
  by (simp add: put_conn_def)

lemma get_conn_length: "get_conn i sl = Some c \<Longrightarrow> i < length (slots sl)"
  by (simp add: get_conn_def split: if_splits)

lemma put_same: "get_conn i sl = Some c \<Longrightarrow> put_conn i c sl = sl"
  by (cases sl) (auto simp: get_conn_def put_conn_def list_update_same_conv split: if_splits)

lemma next_okI:
  "snd res = [e'] \<Longrightarrow> h_conns (fst res) = put_conn i c' sl \<Longrightarrow> entry_ok cfg i c' e' \<Longrightarrow> conn_ok c' \<Longrightarrow> next_ok cfg i sl res"
  unfolding next_ok_def by blast

lemma start_close_ok:
  assumes "get_conn i (h_conns st) = Some c" "bufs_ok c" "h_conns st = put_conn i c sl"
  shows "next_ok cfg i sl (start_close i st)"
  using assms by (intro next_okI[of _ "submit_close (c_fd c) i" i "c\<lparr> c_state := Closing \<rparr>"])
    (auto simp: start_close_def entry_ok_def conn_ok_def bufs_ok_def)

lemma start_reply_ok:
  assumes "bufs_ok c" "resp \<noteq> []" "next \<in> {SendingReply, FileSending}" "h_conns st = put_conn i c0 sl"
  shows "next_ok cfg i sl (start_reply cfg i c next resp st)"
  using assms
  by (intro next_okI[of _ "submit_send cfg (c\<lparr> c_send_buf := resp, c_send_off := 0, c_state := next \<rparr>) i" i
        "c\<lparr> c_send_buf := resp, c_send_off := 0, c_state := next \<rparr>"])
    (auto simp: start_reply_def Let_def entry_ok_def conn_ok_def bufs_ok_def)

lemma responses_nonempty [simp]:
  "make_hello_response \<noteq> []" "make_404_response \<noteq> []" "make_file_response t b \<noteq> []"
  by (simp_all add: make_hello_response_def make_404_response_def make_file_response_def Let_def)

lemma serve_path_ok:
  assumes "bufs_ok c" "h_conns st = put_conn i c0 sl"
  shows "next_ok cfg i sl (serve_path cfg i c path st)"
proof -
  let ?p1 = "if utf8_valid path then path else ''/''"
  let ?p = "if ?p1 = ''/'' then ''/index.html'' else ?p1"
  let ?c = "c\<lparr> c_file_path := base_dir cfg @ ?p, c_state := FileOpening \<rparr>"
  have r: "next_ok cfg i sl (start_reply cfg i c SendingReply make_404_response st)"
    using assms by (intro start_reply_ok) auto
  have o: "next_ok cfg i sl (upd_stats g (upd_conn i ?c st), [submit_file_open cfg i])" for g
    using assms by (intro next_okI[of _ _ i ?c]) (auto simp: entry_ok_def conn_ok_def bufs_ok_def)
  show ?thesis
    unfolding serve_path_def Let_def using r o by (simp only: split: if_splits) auto
qed

lemma handle_recv_ok:
  assumes "get_conn i (h_conns st) = Some c" "bufs_ok c" "h_conns st = put_conn i c sl" "c_state c = Receiving"
    and "0 < sint result \<longrightarrow> c_recv_len c + unat result \<le> RECV_BUF"
  shows "handle_recv cfg i result st \<noteq> None \<and> next_ok cfg i sl (the (handle_recv cfg i result st))"
proof (cases "sint result \<le> 0")
  case True
  then show ?thesis
    using start_close_ok[OF assms(1-3)] by (simp add: handle_recv_def)
next
  case False
  let ?c = "c\<lparr> c_recv_len := c_recv_len c + unat result \<rparr>"
  have i: "i < length (slots sl)"
    using get_conn_length[OF assms(1)] assms(3) by simp
  have b: "bufs_ok ?c" "c_recv_len ?c \<le> RECV_BUF"
    using assms(2,5) False by (simp_all add: bufs_ok_def)
  have close: "next_ok cfg i sl (start_close i st')" if "h_conns st' = put_conn i ?c sl" for st'
    using that b(1) i by (intro start_close_ok[of _ _ ?c]) auto
  have more: "next_ok cfg i sl (st', [submit_recv cfg ?c i])" if "h_conns st' = put_conn i ?c sl" "c_recv_len ?c < RECV_BUF" for st'
    using that b(1) assms(4) by (intro next_okI[of _ _ i ?c]) (auto simp: entry_ok_def conn_ok_def bufs_ok_def)
  have hello: "next_ok cfg i sl (start_reply cfg i ?c SendingReply make_hello_response st')" if "h_conns st' = put_conn i ?c sl" for st'
    using that b(1) by (intro start_reply_ok) auto
  have serve: "next_ok cfg i sl (serve_path cfg i ?c path st')" if "h_conns st' = put_conn i ?c sl" for st' path
    using that b(1) by (intro serve_path_ok)
  show ?thesis
  proof (cases "parse_request (c_recv_buf ?c) (c_recv_len ?c)")
    case None
    then show ?thesis
      using False assms(1,3) b(2) close more by (simp add: handle_recv_def Let_def)
  next
    case (Some x)
    then show ?thesis
      using False assms(1,3) b(2) hello serve by (cases x) (simp add: handle_recv_def Let_def)
  qed
qed

lemma handle_send_ok:
  assumes "get_conn i (h_conns st) = Some c" "bufs_ok c" "h_conns st = put_conn i c sl"
    and "c_state c \<in> {SendingReply, FileSending}"
  shows "next_ok cfg i sl (handle_send cfg i result st)"
proof (cases "sint result \<le> 0")
  case True
  have "next_ok cfg i sl (case start_close i st of (st1, es) \<Rightarrow> (upd_stats g st1, es))" for g
    using start_close_ok[OF assms(1-3)] unfolding next_ok_def by (auto split: prod.splits)
  then show ?thesis
    using True by (simp add: handle_send_def)
next
  case False
  let ?c = "c\<lparr> c_send_off := c_send_off c + unat result \<rparr>"
  let ?f = "?c\<lparr> c_file_fd := - 1, c_state := FileClosing \<rparr>" and ?r = "reset_for_next_request ?c"
  have more: "next_ok cfg i sl (upd_conn i ?c st', [submit_send cfg ?c i])"
    if "h_conns st' = put_conn i c sl" "c_send_off ?c < length (c_send_buf ?c)" for st'
    using that assms(2,4) by (intro next_okI[of _ _ i ?c]) (auto simp: entry_ok_def conn_ok_def bufs_ok_def)
  have shut: "next_ok cfg i sl (upd_conn i ?f st', [submit_file_close (c_file_fd ?c) i])"
    if "h_conns st' = put_conn i c sl" for st'
    using that assms(2) by (intro next_okI[of _ _ i ?f]) (auto simp: entry_ok_def conn_ok_def bufs_ok_def)
  have again: "next_ok cfg i sl (upd_conn i ?r st', [submit_recv cfg ?r i])" if "h_conns st' = put_conn i c sl" for st'
    using that assms(2) by (intro next_okI[of _ _ i ?r]) (auto simp: entry_ok_def conn_ok_def bufs_ok_def reset_for_next_request_def)
  show ?thesis
    using False assms(1,3) more shut again by (simp add: handle_send_def Let_def)
qed

lemma handle_file_open_ok:
  assumes "get_conn i (h_conns st) = Some c" "bufs_ok c" "h_conns st = put_conn i c sl"
  shows "next_ok cfg i sl (handle_file_open cfg i result st)"
proof -
  let ?c = "c\<lparr> c_file_fd := ucast result, c_state := FileReading \<rparr>"
  have "next_ok cfg i sl (upd_conn i ?c st, [submit_file_read cfg ?c i])"
    using assms by (intro next_okI[of _ _ i ?c]) (auto simp: entry_ok_def conn_ok_def bufs_ok_def)
  moreover have "next_ok cfg i sl (start_reply cfg i c SendingReply make_404_response st)"
    using assms by (intro start_reply_ok) auto
  ultimately show ?thesis
    using assms(1) by (simp add: handle_file_open_def Let_def)
qed

lemma handle_file_read_ok:
  assumes "get_conn i (h_conns st) = Some c" "bufs_ok c" "h_conns st = put_conn i c sl"
    and "0 < sint result \<longrightarrow> unat result \<le> FILE_BUF"
  shows "handle_file_read cfg i result st \<noteq> None \<and> next_ok cfg i sl (the (handle_file_read cfg i result st))"
proof -
  have "next_ok cfg i sl (start_reply cfg i c FileSending (make_file_response t b) st)" for t b
    using assms by (intro start_reply_ok) auto
  then show ?thesis
    using assms(1,4) by (auto simp: handle_file_read_def Let_def)
qed

lemma handle_file_close_ok:
  assumes "get_conn i (h_conns st) = Some c" "bufs_ok c" "h_conns st = put_conn i c sl"
  shows "next_ok cfg i sl (handle_file_close cfg i st)"
  using assms
  by (intro next_okI[of _ "submit_recv cfg (reset_for_next_request c) i" i "reset_for_next_request c"])
    (auto simp: handle_file_close_def Let_def entry_ok_def conn_ok_def bufs_ok_def reset_for_next_request_def)

text \<open>A completion for connection \<open>i\<close>.\<close>

lemma overwrite_length: "off + length dat \<le> length buf \<Longrightarrow> length (overwrite off dat buf) = length buf"
  by (simp add: overwrite_def)

lemma kernel_recv:
  assumes "get_conn i (h_conns st) = Some c" "i < 2 ^ 32" "bufs_ok c" "c_recv_len c < RECV_BUF"
    and "kernel_done cfg (submit_recv cfg c i) result st st1" "h_conns st = put_conn i c (h_conns st)"
  shows "\<exists>buf. h_conns st1 = put_conn i (c\<lparr> c_recv_buf := buf \<rparr>) (h_conns st) \<and> length buf = RECV_BUF \<and>
    (0 < sint result \<longrightarrow> c_recv_len c + unat result \<le> RECV_BUF)"
proof (cases "sint result \<le> 0")
  case True
  then show ?thesis
    using assms(3,5,6) by (intro exI[of _ "c_recv_buf c"]) (simp add: kernel_done_def Let_def bufs_ok_def)
next
  case False
  have "unat (of_nat (RECV_BUF - c_recv_len c) :: u64) = RECV_BUF - c_recv_len c"
    by (rule unat_of_nat_lt) simp
  moreover have "unat (of_nat (c_recv_len c) :: u64) = c_recv_len c"
    using assms(4) by (simp add: unat_of_nat_lt)
  ultimately have u: "unat (of_nat (c_recv_len c) :: u64) = c_recv_len c"
      "unat result \<le> unat (of_nat (RECV_BUF - c_recv_len c) :: u64) \<longleftrightarrow> unat result \<le> RECV_BUF - c_recv_len c"
    by simp_all
  obtain dat where dat: "unat result \<le> RECV_BUF - c_recv_len c" "length dat = unat result"
      "st1 = upd_conn i (c\<lparr> c_recv_buf := overwrite (c_recv_len c) dat (c_recv_buf c) \<rparr>) st"
    using assms(1,5) False u(1)
    unfolding kernel_done_def Let_def entry_defs by (auto simp: decode_make[OF assms(2)] u(2) simp del: of_nat_diff)
  have "length (overwrite (c_recv_len c) dat (c_recv_buf c)) = RECV_BUF"
    using dat(1,2) assms(3,4) by (subst overwrite_length) (auto simp: bufs_ok_def)
  moreover have "c_recv_len c + unat result \<le> RECV_BUF"
    using dat(1) assms(4) by linarith
  ultimately show ?thesis
    using dat(3) by (intro exI[of _ "overwrite (c_recv_len c) dat (c_recv_buf c)"]) simp
qed

lemma kernel_file_read:
  assumes "get_conn i (h_conns st) = Some c" "i < 2 ^ 32" "bufs_ok c"
    and "kernel_done cfg (submit_file_read cfg c i) result st st1" "h_conns st = put_conn i c (h_conns st)"
  shows "\<exists>buf. h_conns st1 = put_conn i (c\<lparr> c_file_buf := buf \<rparr>) (h_conns st) \<and> length buf = FILE_BUF \<and>
    (0 < sint result \<longrightarrow> unat result \<le> FILE_BUF)"
proof (cases "sint result \<le> 0")
  case True
  then show ?thesis
    using assms(3-5) by (intro exI[of _ "c_file_buf c"]) (simp add: kernel_done_def Let_def bufs_ok_def)
next
  case False
  obtain dat where dat: "unat result \<le> FILE_BUF" "length dat = unat result"
      "st1 = upd_conn i (c\<lparr> c_file_buf := overwrite 0 dat (c_file_buf c) \<rparr>) st"
    using assms(1,4) False by (auto simp: kernel_done_def Let_def entry_defs decode_make[OF assms(2)])
  have "length (overwrite 0 dat (c_file_buf c)) = FILE_BUF"
    using dat(1,2) assms(3) by (subst overwrite_length) (auto simp: bufs_ok_def)
  then show ?thesis
    using dat by (intro exI[of _ "overwrite 0 dat (c_file_buf c)"]) simp
qed

lemma step_conn:
  assumes "get_conn i (h_conns st) = Some c" "entry_ok cfg i c e" "conn_ok c" "i < 2 ^ 32"
    and "kernel_done cfg e result st st1"
  shows "\<exists>st2 es. handle_cqe cfg (cqe_of e result) st1 = Some (st2, es) \<and>
    (next_ok cfg i (h_conns st) (st2, es) \<or> c_state c = Closing \<and> es = [] \<and> slab_release i (h_conns st) = Some (h_conns st2))"
proof -
  note d = decode_make[OF assms(4)]
  note same = put_same[OF assms(1), symmetric]
  have b: "bufs_ok c"
    using assms(3) by (simp add: conn_ok_def bufs_ok_def)
  have i: "i < length (slots (h_conns st))"
    using get_conn_length[OF assms(1)] .
  have other: "st1 = st" if "decode_op (sb_corr_id e) \<noteq> OP_RECV" "decode_op (sb_corr_id e) \<noteq> OP_FILE_READ"
    using assms(5) that by (auto simp: kernel_done_def Let_def split: if_splits)
  have res: ?thesis if "handle_cqe cfg (cqe_of e result) st1 = Some r" "next_ok cfg i (h_conns st) r" for r
    using that by (cases r) simp
  show ?thesis
  proof (cases "c_state c")
    case Receiving
    have e: "e = submit_recv cfg c i"
      using assms(2) Receiving by (simp add: entry_ok_def)
    have n: "c_recv_len c < RECV_BUF"
      using assms(3) Receiving by (simp add: conn_ok_def)
    obtain buf where k: "h_conns st1 = put_conn i (c\<lparr> c_recv_buf := buf \<rparr>) (h_conns st)" "length buf = RECV_BUF"
        "0 < sint result \<longrightarrow> c_recv_len c + unat result \<le> RECV_BUF"
      using kernel_recv[OF assms(1,4) b n assms(5)[unfolded e] same] by blast
    have h: "handle_cqe cfg (cqe_of e result) st1 = handle_recv cfg i result st1"
      by (simp add: handle_cqe_def cqe_of_def e entry_defs d)
    show ?thesis
      using handle_recv_ok[of i st1 "c\<lparr> c_recv_buf := buf \<rparr>" "h_conns st" result cfg] k b i Receiving
      by (intro res[of "the (handle_recv cfg i result st1)"]) (auto simp: bufs_ok_def h)
  next
    case FileReading
    have e: "e = submit_file_read cfg c i"
      using assms(2) FileReading by (simp add: entry_ok_def)
    obtain buf where k: "h_conns st1 = put_conn i (c\<lparr> c_file_buf := buf \<rparr>) (h_conns st)" "length buf = FILE_BUF"
        "0 < sint result \<longrightarrow> unat result \<le> FILE_BUF"
      using kernel_file_read[OF assms(1,4) b assms(5)[unfolded e] same] by blast
    have h: "handle_cqe cfg (cqe_of e result) st1 = handle_file_read cfg i result st1"
      by (simp add: handle_cqe_def cqe_of_def e entry_defs d)
    show ?thesis
      using handle_file_read_ok[of i st1 "c\<lparr> c_file_buf := buf \<rparr>" "h_conns st" result cfg] k b i
      by (intro res[of "the (handle_file_read cfg i result st1)"]) (auto simp: bufs_ok_def h)
  next
    case SendingReply
    then have "handle_cqe cfg (cqe_of e result) st1 = Some (handle_send cfg i result st)"
      using assms(2) other by (simp add: entry_ok_def handle_cqe_def cqe_of_def entry_defs d)
    then show ?thesis
      using res handle_send_ok[OF assms(1) b same, of cfg result] SendingReply by simp
  next
    case FileSending
    then have "handle_cqe cfg (cqe_of e result) st1 = Some (handle_send cfg i result st)"
      using assms(2) other by (simp add: entry_ok_def handle_cqe_def cqe_of_def entry_defs d)
    then show ?thesis
      using res handle_send_ok[OF assms(1) b same, of cfg result] FileSending by simp
  next
    case FileOpening
    then have "handle_cqe cfg (cqe_of e result) st1 = Some (handle_file_open cfg i result st)"
      using assms(2) other by (simp add: entry_ok_def handle_cqe_def cqe_of_def entry_defs d)
    then show ?thesis
      using res handle_file_open_ok[OF assms(1) b same, of cfg result] by simp
  next
    case FileClosing
    then obtain fd where "e = submit_file_close fd i"
      using assms(2) by (auto simp: entry_ok_def)
    then have "handle_cqe cfg (cqe_of e result) st1 = Some (handle_file_close cfg i st)"
      using other by (simp add: handle_cqe_def cqe_of_def entry_defs d)
    then show ?thesis
      using res handle_file_close_ok[OF assms(1) b same, of cfg] by simp
  next
    case Closing
    then show ?thesis
      using assms(2) other i
      by (simp add: entry_ok_def handle_cqe_def cqe_of_def entry_defs d handle_close_def slab_release_def)
  qed
qed

section \<open>Preservation\<close>

lemma conn_new_ok: "conn_ok (Conn_new fd)" "entry_ok cfg i (Conn_new fd) (submit_recv cfg (Conn_new fd) i)"
  by (simp_all add: conn_ok_def Conn_new_def entry_ok_def)

lemma inv_accept:
  assumes "http_ok cfg n st ops" "submit_accept cfg \<in># ops" "handle_accept cfg result st = (st2, es)"
  shows "http_ok cfg n st2 (ops - {# submit_accept cfg #} + mset es)"
proof (cases "0 \<le> sint result \<and> slab_free (h_conns st) \<noteq> []")
  case False
  then have "es = [submit_accept cfg]" "h_conns st2 = h_conns st"
    using assms(3) by (auto simp: handle_accept_def Let_def slab_alloc_def split: if_splits list.splits)
  then show ?thesis
    using assms(1,2) by (simp add: http_ok_def)
next
  case True
  let ?sl = "h_conns st" and ?c = "Conn_new (ucast result)"
  obtain i fr where fr: "slab_free ?sl = i # fr"
    using True by (meson list.exhaust)
  have ok: "slab_ok n ?sl"
    using assms(1) by (simp add: http_ok_def)
  note al = slab_ok_alloc(1)[OF ok fr, of ?c] slab_ok_alloc(2,3)[OF ok fr]
  have r: "es = [submit_recv cfg ?c i, submit_accept cfg]" "slots (h_conns st2) = (slots ?sl)[i := Some ?c]"
      "slab_free (h_conns st2) = fr"
    using assms(3) True fr al(2) slab_okD(1)[OF ok]
    by (auto simp: handle_accept_def Let_def slab_alloc_def get_conn_def)
  have "one_op (submit_accept cfg) (\<lambda>i c e. entry_ok cfg i c e \<and> conn_ok c) ((slots ?sl)[i := Some ?c])
      (add_mset (submit_recv cfg ?c i) (ops))"
    using assms(1) al(2,3) slab_okD(1)[OF ok] conn_new_ok by (intro one_op_add) (auto simp: http_ok_def)
  moreover have "ops - {# submit_accept cfg #} + mset es = add_mset (submit_recv cfg ?c i) (ops)"
    using assms(2) r(1) by simp
  moreover have "h_conns st2 = \<lparr> slots = (slots ?sl)[i := Some ?c], slab_free = fr \<rparr>"
    using r(2,3) by simp
  ultimately show ?thesis
    using al(1) unfolding http_ok_def by simp
qed

lemma http_ok_step:
  assumes "http_ok cfg n st ops" "n \<le> 2 ^ 32" "e \<in># ops" "kernel_done cfg e result st st1"
  shows "\<exists>st2 es. handle_cqe cfg (cqe_of e result) st1 = Some (st2, es) \<and>
    http_ok cfg n st2 (ops - {#e#} + mset es)"
proof -
  let ?sl = "h_conns st" and ?ok = "\<lambda>i c e. entry_ok cfg i c e \<and> conn_ok c"
  have inv: "slab_ok n ?sl" "one_op (submit_accept cfg) ?ok (slots ?sl) (ops)"
    using assms(1) by (simp_all add: http_ok_def)
  from one_op_cases[OF inv(2) assms(3)] show ?thesis
  proof (elim disjE exE conjE)
    assume e: "e = submit_accept cfg"
    have d: "decode_op (sb_corr_id e) = OP_ACCEPT"
      by (simp add: e entry_defs decode_make)
    then have "st1 = st"
      using assms(4) by (auto simp: kernel_done_def Let_def split: if_splits)
    moreover have "handle_cqe cfg (cqe_of e result) st1 = Some (handle_accept cfg result st1)"
      using d by (simp add: handle_cqe_def cqe_of_def)
    ultimately show ?thesis
      using inv_accept[OF assms(1), of result] assms(3) e by (cases "handle_accept cfg result st") simp
  next
    fix i c
    assume i: "i < length (slots ?sl)" "slots ?sl ! i = Some c" "entry_ok cfg i c e" "conn_ok c"
      and stay: "\<forall>ok' c' e'. (\<forall>j d x. j \<noteq> i \<longrightarrow> ?ok j d x \<longrightarrow> ok' j d x) \<longrightarrow> ok' i c' e' \<longrightarrow>
        one_op (submit_accept cfg) ok' ((slots ?sl)[i := Some c']) (ops - {# e #} + {# e' #})"
      and go: "one_op (submit_accept cfg) ?ok ((slots ?sl)[i := None]) (ops - {# e #})"
    have g: "get_conn i ?sl = Some c" "i \<in> live_conns ?sl" "i < 2 ^ 32"
      using i(1,2) assms(2) slab_okD(1)[OF inv(1)] by (simp_all add: get_conn_def live_slots_def)
    obtain st2 es where h: "handle_cqe cfg (cqe_of e result) st1 = Some (st2, es)"
        "next_ok cfg i ?sl (st2, es) \<or> c_state c = Closing \<and> es = [] \<and> slab_release i ?sl = Some (h_conns st2)"
      using step_conn[OF g(1) i(3,4) g(3) assms(4)] by blast
    from h(2) have "http_ok cfg n st2 (ops - {#e#} + mset es)"
    proof
      assume "next_ok cfg i ?sl (st2, es)"
      then obtain c' e' where "es = [e']" "h_conns st2 = put_conn i c' ?sl" "entry_ok cfg i c' e'" "conn_ok c'"
        by (auto simp: next_ok_def)
      then show ?thesis
        using stay[rule_format, of ?ok c' e'] slab_ok_put[OF inv(1) g(2)] by (simp add: http_ok_def put_conn_def)
    next
      assume c: "c_state c = Closing \<and> es = [] \<and> slab_release i ?sl = Some (h_conns st2)"
      then have "h_conns st2 = \<lparr> slots = (slots ?sl)[i := None], slab_free = i # slab_free ?sl \<rparr>"
        using i(1) by (simp add: slab_release_def)
      then show ?thesis
        using c go slab_ok_release[OF inv(1) g(2)] by (simp add: http_ok_def)
    qed
    then show ?thesis
      using h(1) by blast
  qed
qed

text \<open>A completion that is discarded leaves its connection as it was, but for the bytes in a buffer.\<close>

lemma http_ok_discard:
  assumes "http_ok cfg n st ops" "n \<le> 2 ^ 32" "e \<in># ops" "kernel_done cfg e result st st1"
  shows "http_ok cfg n st1 ops"
proof -
  let ?sl = "h_conns st" and ?ok = "\<lambda>i c e. entry_ok cfg i c e \<and> conn_ok c"
  have inv: "slab_ok n ?sl" "one_op (submit_accept cfg) ?ok (slots ?sl) ops"
    using assms(1) by (simp_all add: http_ok_def)
  have other: "st1 = st" if "decode_op (sb_corr_id e) \<noteq> OP_RECV" "decode_op (sb_corr_id e) \<noteq> OP_FILE_READ"
    using assms(4) that by (auto simp: kernel_done_def Let_def split: if_splits)
  from one_op_cases[OF inv(2) assms(3)] show ?thesis
  proof (elim disjE exE conjE)
    assume "e = submit_accept cfg"
    then show ?thesis
      using other assms(1) by (simp add: entry_defs decode_make)
  next
    fix i c
    assume i: "i < length (slots ?sl)" "slots ?sl ! i = Some c" "entry_ok cfg i c e" "conn_ok c"
      and stay: "\<forall>ok' c' e'. (\<forall>j d x. j \<noteq> i \<longrightarrow> ?ok j d x \<longrightarrow> ok' j d x) \<longrightarrow> ok' i c' e' \<longrightarrow>
        one_op (submit_accept cfg) ok' ((slots ?sl)[i := Some c']) (ops - {# e #} + {# e' #})"
    have g: "get_conn i ?sl = Some c" "i \<in> live_conns ?sl" "i < 2 ^ 32"
      using i(1,2) assms(2) slab_okD(1)[OF inv(1)] by (simp_all add: get_conn_def live_slots_def)
    have b: "bufs_ok c"
      using i(4) by (simp add: conn_ok_def bufs_ok_def)
    note same = put_same[OF g(1), symmetric]
    have put: "http_ok cfg n st1 ops" if "h_conns st1 = put_conn i c' ?sl" "entry_ok cfg i c' e" "conn_ok c'" for c'
      using stay[rule_format, of ?ok c' e] slab_ok_put[OF inv(1) g(2)] that assms(3)
      by (simp add: http_ok_def put_conn_def)
    consider "c_state c = Receiving" | "c_state c = FileReading" | "st1 = st"
      using other i(3) by (cases "c_state c") (auto simp: entry_ok_def entry_defs decode_make[OF g(3)])
    then show ?thesis
    proof cases
      case 1
      have e: "e = submit_recv cfg c i" and n: "c_recv_len c < RECV_BUF"
        using 1 i(3,4) by (simp_all add: entry_ok_def conn_ok_def)
      obtain buf where "h_conns st1 = put_conn i (c\<lparr> c_recv_buf := buf \<rparr>) ?sl" "length buf = RECV_BUF"
        using kernel_recv[OF g(1,3) b n assms(4)[unfolded e] same] by blast
      then show ?thesis
        using put i(3,4) 1 by (auto simp: entry_ok_def conn_ok_def submit_recv_def)
    next
      case 2
      have e: "e = submit_file_read cfg c i"
        using 2 i(3) by (simp add: entry_ok_def)
      obtain buf where "h_conns st1 = put_conn i (c\<lparr> c_file_buf := buf \<rparr>) ?sl" "length buf = FILE_BUF"
        using kernel_file_read[OF g(1,3) b assms(4)[unfolded e] same] by blast
      then show ?thesis
        using put i(3,4) 2 by (auto simp: entry_ok_def conn_ok_def submit_file_read_def)
    next
      case 3
      then show ?thesis using assms(1) by simp
    qed
  qed
qed

lemma http_inv_init: "http_inv cfg n (http_init cfg n)"
  by (simp add: http_inv_def http_ok_def http_init_def ConnSlab_new_def slab_ok_new one_op_init)

lemma http_inv_step:
  assumes "http_step cfg s s'" "http_inv cfg n s" "n \<le> 2 ^ 32"
  shows "http_inv cfg n s'"
  using assms(1)
proof cases
  case (Complete e result st1 st2 es refused)
  have "http_ok cfg n st2 (hs_pending s + hs_lost s - {#e#} + mset es)"
    using http_ok_step[of cfg n "hs_state s" "hs_pending s + hs_lost s" e result st1] assms(2,3) Complete(2-4)
    by (auto simp: http_inv_def)
  moreover have "hs_pending s - {#e#} + (mset es - refused) + (hs_lost s + refused) = hs_pending s + hs_lost s - {#e#} + mset es"
  proof -
    obtain ps rs where "hs_pending s = add_mset e ps" "mset es = refused + rs"
      using multi_member_split[OF Complete(2)] Complete(5) by (auto simp: mset_subset_eq_exists_conv)
    then show ?thesis
      by simp
  qed
  ultimately show ?thesis
    by (simp add: http_inv_def Complete(1))
next
  case (Discard e result st1)
  have "http_ok cfg n st1 (hs_pending s + hs_lost s)"
    using http_ok_discard[of cfg n "hs_state s" "hs_pending s + hs_lost s" e result st1] assms(2,3) Discard(2,3)
    by (simp add: http_inv_def)
  moreover have "hs_pending s - {#e#} + (hs_lost s + {#e#}) = hs_pending s + hs_lost s"
    using multi_member_split[OF Discard(2)] by auto
  ultimately show ?thesis
    by (simp only: http_inv_def Discard(1) HttpSys.simps)
qed

lemma http_inv_reachable:
  assumes "(http_step cfg)\<^sup>*\<^sup>* (http_init cfg n) s" "n \<le> 2 ^ 32"
  shows "http_inv cfg n s"
  using assms(1) by (induction rule: rtranclp_induct) (auto intro: http_inv_init http_inv_step assms(2))

text \<open>
  C8: in every state the server reaches, whatever the order in which the kernel completes the operations,
  whatever it reports for them, whichever submissions are refused and whichever completions are discarded: the
  operations that are pending or lost are exactly one accept and one operation per live connection, the one
  the state of that connection calls for. So no connection ever has two operations pending, each has one as
  long as nothing was lost, and a connection without one waits for an operation that was lost. The free list
  holds each empty slot exactly once; the next completion is handled without a panic.
\<close>

theorem httpd_one_op_per_conn:
  assumes "(http_step cfg)\<^sup>*\<^sup>* (http_init cfg n) s" "n \<le> 2 ^ 32"
  shows "(\<exists>f. hs_pending s + hs_lost s =
        add_mset (submit_accept cfg) (image_mset f (mset_set (live_conns (h_conns (hs_state s))))) \<and>
      (\<forall>i \<in> live_conns (h_conns (hs_state s)). entry_ok cfg i (the (get_conn i (h_conns (hs_state s)))) (f i))) \<and>
    distinct (slab_free (h_conns (hs_state s))) \<and>
    set (slab_free (h_conns (hs_state s))) = {..<n} - live_conns (h_conns (hs_state s)) \<and>
    (\<forall>e \<in># hs_pending s. \<forall>result st1. kernel_done cfg e result (hs_state s) st1 \<longrightarrow>
      handle_cqe cfg (cqe_of e result) st1 \<noteq> None)"
proof -
  let ?sl = "h_conns (hs_state s)"
  have inv: "http_ok cfg n (hs_state s) (hs_pending s + hs_lost s)"
    using http_inv_reachable[OF assms] by (simp add: http_inv_def)
  then obtain f where f: "hs_pending s + hs_lost s = add_mset (submit_accept cfg) (image_mset f (mset_set (live_conns ?sl)))"
      "\<And>i c. i \<in> live_conns ?sl \<Longrightarrow> slots ?sl ! i = Some c \<Longrightarrow> entry_ok cfg i c (f i) \<and> conn_ok c"
    unfolding http_ok_def by (elim conjE one_opE) blast
  have "\<forall>i \<in> live_conns ?sl. entry_ok cfg i (the (get_conn i ?sl)) (f i)"
    using f(2) by (auto simp: live_slots_def get_conn_def)
  moreover have "set (slab_free ?sl) = {..<n} - live_conns ?sl" "distinct (slab_free ?sl)"
    using slab_ok_free[of n ?sl] inv unfolding http_ok_def by blast+
  moreover have "\<forall>e \<in># hs_pending s. \<forall>result st1. kernel_done cfg e result (hs_state s) st1 \<longrightarrow>
      handle_cqe cfg (cqe_of e result) st1 \<noteq> None"
  proof (intro ballI allI impI)
    fix e result st1 assume "e \<in># hs_pending s" "kernel_done cfg e result (hs_state s) st1"
    then show "handle_cqe cfg (cqe_of e result) st1 \<noteq> None"
      using http_ok_step[OF inv assms(2), of e result st1] by force
  qed
  ultimately show ?thesis
    using f(1) by blast
qed

definition demo_http :: HttpCfg where
  "demo_http = \<lparr> listener = 3, accept_addr = 0, accept_addr_len = 0, buf_addr = (\<lambda>i b. 0), file_mode = True, base_dir = ''./www'' \<rparr>"

text \<open>A connection is accepted and the ring refuses its first receive.\<close>

definition demo_accepted :: HttpSys where
  "demo_accepted =
     \<lparr> hs_state = fst (handle_accept demo_http 5 (hs_state (http_init demo_http 1))),
       hs_pending = {# submit_accept demo_http #}, hs_lost = {# submit_recv demo_http (Conn_new 5) 0 #} \<rparr>"

lemma accept_first:
  "handle_accept cfg 5 (hs_state (http_init cfg (Suc 0))) =
     (\<lparr> h_conns = \<lparr> slots = [Some (Conn_new 5)], slab_free = [] \<rparr>, h_stats = Stats_new\<lparr> accepts := 1 \<rparr>, h_closed = [] \<rparr>,
      [submit_recv cfg (Conn_new 5) 0, submit_accept cfg])"
  by (simp add: handle_accept_def http_init_def ConnSlab_new_def slab_alloc_def get_conn_def Stats_new_def)

lemma accept_done: "kernel_done cfg (submit_accept cfg) result st st"
  by (simp add: kernel_done_def entry_defs decode_make)

lemma demo_accepted_reached: "(http_step demo_http)\<^sup>*\<^sup>* (http_init demo_http 1) demo_accepted"
proof (rule r_into_rtranclp)
  let ?e = "submit_accept demo_http" and ?r = "submit_recv demo_http (Conn_new 5) 0"
  let ?st = "hs_state (http_init demo_http 1)"
  let ?h = "handle_accept demo_http 5 ?st"
  have "decode_op (sb_corr_id ?e) = OP_ACCEPT"
    by (simp add: entry_defs decode_make)
  then have h: "handle_cqe demo_http (cqe_of ?e 5) ?st = Some (fst ?h, snd ?h)"
    by (simp add: handle_cqe_def cqe_of_def)
  have p: "?e \<in># hs_pending (http_init demo_http 1)" "hs_pending (http_init demo_http 1) - {# ?e #} = {#}"
      "hs_lost (http_init demo_http 1) = {#}"
    by (simp_all add: http_init_def)
  have r: "{# ?r #} \<subseteq># mset (snd ?h)" "mset (snd ?h) - {# ?r #} = {# ?e #}"
    by (simp_all add: accept_first)
  show "http_step demo_http (http_init demo_http 1) demo_accepted"
    using http_step.Complete[OF p(1) accept_done h r(1)] by (simp only: p r(2) demo_accepted_def) simp
qed

theorem httpd_one_op_per_conn_witness:
  "(http_step demo_http)\<^sup>*\<^sup>* (http_init demo_http 1) demo_accepted \<and>
   live_conns (h_conns (hs_state demo_accepted)) = {0} \<and> hs_lost demo_accepted \<noteq> {#} \<and>
   set (slab_free (h_conns (hs_state demo_accepted))) = {..<1} - live_conns (h_conns (hs_state demo_accepted)) \<and>
   handle_cqe demo_http (cqe_of (submit_accept demo_http) 7) (hs_state demo_accepted) \<noteq> None"
proof -
  have n: "(1 :: nat) \<le> 2 ^ 32"
    by simp
  have p: "submit_accept demo_http \<in># hs_pending demo_accepted" "hs_lost demo_accepted \<noteq> {#}"
    by (simp_all add: demo_accepted_def)
  have l: "live_conns (h_conns (hs_state demo_accepted)) = {0}"
    by (auto simp: demo_accepted_def accept_first live_slots_def)
  note w = httpd_one_op_per_conn[OF demo_accepted_reached n, THEN conjunct2, THEN conjunct2]
  show ?thesis
    using demo_accepted_reached l p(2) w[THEN conjunct1] w[THEN conjunct2, rule_format, OF p(1) accept_done] by (intro conjI)
qed

section \<open>Requests\<close>

lemma find_end_some: "find_end (x @ crlf @ crlf @ y) \<noteq> None"
  by (induction x) (auto simp: crlf_def)

lemma position_found: "c \<notin> set p \<Longrightarrow> position c (p @ c # r) = Some (length p)"
  by (simp add: position_def takeWhile_append)

lemma parse_get:
  assumes "CHR '' '' \<notin> set p" "take len buf = ''GET '' @ p @ '' HTTP/1.1'' @ headers @ crlf @ crlf @ body"
  shows "\<exists>e. parse_request buf len = Some (e, p)"
proof -
  have "find_end (take len buf) \<noteq> None"
    using find_end_some[of "''GET '' @ p @ '' HTTP/1.1'' @ headers" body] assms(2) by simp
  moreover have "position (CHR '' '') (drop 4 (take len buf)) = Some (length p)"
    using position_found[OF assms(1), of "''HTTP/1.1'' @ headers @ crlf @ crlf @ body"] assms(2) by simp
  moreover have "take 4 (take len buf) = ''GET ''" "14 \<le> length (take len buf)"
    unfolding assms(2) by (simp_all add: crlf_def)
  moreover have "take (length p) (drop 4 (take len buf)) = p"
    unfolding assms(2) by simp
  ultimately show ?thesis
    by (auto simp: parse_request_def Let_def)
qed

text \<open>
  a complete GET request whose path is valid text without a blank, a zero byte or two dots in a row makes
  the server in file mode open the base directory's name followed directly by the path, and nothing else. The
  path need not begin with a slash, so what is opened need not lie below the base directory.
\<close>

theorem request_opens_path:
  assumes "get_conn idx (h_conns st) = Some c" "file_mode cfg" "0 < sint result" "c_recv_len c + unat result \<le> RECV_BUF"
    and "take (c_recv_len c + unat result) (c_recv_buf c) = ''GET '' @ p @ '' HTTP/1.1'' @ headers @ crlf @ crlf @ body"
    and "CHR '' '' \<notin> set p" "utf8_valid p" "\<not> has_dotdot p" "p \<noteq> ''/''" "CHR 0x00 \<notin> set (base_dir cfg @ p)"
  shows "\<exists>st1 c1. handle_recv cfg idx result st = Some (st1, [submit_file_open cfg idx]) \<and>
    get_conn idx (h_conns st1) = Some c1 \<and> c_file_path c1 = base_dir cfg @ p \<and> c_state c1 = FileOpening"
proof -
  obtain e where e: "parse_request (c_recv_buf c) (c_recv_len c + unat result) = Some (e, p)"
    using parse_get[OF assms(6,5)] by blast
  have "CHR 0x00 \<notin> set (base_dir cfg)" "CHR 0x00 \<notin> set p"
    using assms(10) by simp_all
  then show ?thesis
    using assms(1-4,7-9) e get_conn_length[OF assms(1)]
    by (simp add: handle_recv_def Let_def serve_path_def)
qed

definition escaping :: string where
  "escaping = ''GET -secret/key HTTP/1.1'' @ crlf @ crlf"

definition demo_conn :: Conn where
  "demo_conn = Conn_new 5\<lparr> c_recv_buf := overwrite 0 escaping (replicate RECV_BUF (CHR 0x00)) \<rparr>"

definition demo_httpd :: "Conn \<Rightarrow> Httpd" where
  "demo_httpd c = \<lparr> h_conns = \<lparr> slots = [Some c], slab_free = [] \<rparr>, h_stats = Stats_new, h_closed = [] \<rparr>"

theorem request_opens_path_witness:
  "\<exists>st1 c1. handle_recv demo_http 0 (of_nat (length escaping)) (demo_httpd demo_conn) = Some (st1, [submit_file_open demo_http 0]) \<and>
    get_conn 0 (h_conns st1) = Some c1 \<and> c_file_path c1 = ''./www-secret/key'' \<and> c_state c1 = FileOpening"
proof -
  have l: "length escaping = 28"
    by (simp add: escaping_def crlf_def)
  have r: "c_recv_len demo_conn = 0" "c_recv_buf demo_conn = escaping @ drop 28 (replicate RECV_BUF (CHR 0x00))"
    by (simp_all add: demo_conn_def Conn_new_def overwrite_def l)
  have t: "take (c_recv_len demo_conn + unat (28 :: i64)) (c_recv_buf demo_conn) =
      ''GET '' @ ''-secret/key'' @ '' HTTP/1.1'' @ [] @ crlf @ crlf @ []"
    unfolding r by (simp add: l) (simp add: escaping_def)
  show ?thesis
    using request_opens_path[of 0 "demo_httpd demo_conn" demo_conn demo_http 28, OF _ _ _ _ t]
    by (simp add: l r(1)) (simp add: demo_httpd_def get_conn_def demo_http_def of_char_def utf8_valid.simps)
qed

text \<open>
  when a send of a file's contents fails, the server closes only the connection. The completion of that
  close frees the slot with the file's descriptor in it: no operation that closes the file is ever submitted.
\<close>

theorem send_error_leaks_file:
  assumes "get_conn idx (h_conns st) = Some c" "c_state c = FileSending" "sint result \<le> 0" "idx < 2 ^ 32"
  shows "\<exists>st1 c1 st2. handle_cqe cfg (cqe_of (submit_send cfg c idx) result) st = Some (st1, [submit_close (c_fd c) idx]) \<and>
    get_conn idx (h_conns st1) = Some c1 \<and> c_file_fd c1 = c_file_fd c \<and>
    handle_cqe cfg (cqe_of (submit_close (c_fd c) idx) result') st1 = Some (st2, []) \<and>
    get_conn idx (h_conns st2) = None \<and> h_closed st2 = h_closed st"
proof -
  have d: "decode_op (sb_corr_id (submit_send cfg c idx)) = OP_SEND" "decode_idx (sb_corr_id (submit_send cfg c idx)) = idx"
      "decode_op (sb_corr_id (submit_close (c_fd c) idx)) = OP_CLOSE" "decode_idx (sb_corr_id (submit_close (c_fd c) idx)) = idx"
    using assms(4) by (simp_all add: entry_defs decode_make)
  show ?thesis
    using assms(1-3) get_conn_length[OF assms(1)]
    by (simp add: handle_cqe_def cqe_of_def d handle_send_def start_close_def handle_close_def slab_release_def)
      (simp add: get_conn_def)
qed

theorem send_error_leaks_file_witness:
  "\<exists>st1 c1 st2. handle_cqe demo_http (cqe_of (submit_send demo_http (demo_conn\<lparr> c_state := FileSending, c_file_fd := 9 \<rparr>) 0) (- 32))
      (demo_httpd (demo_conn\<lparr> c_state := FileSending, c_file_fd := 9 \<rparr>)) = Some (st1, [submit_close 5 0]) \<and>
    get_conn 0 (h_conns st1) = Some c1 \<and> c_file_fd c1 = 9 \<and>
    handle_cqe demo_http (cqe_of (submit_close 5 0) 0) st1 = Some (st2, []) \<and> get_conn 0 (h_conns st2) = None \<and> h_closed st2 = []"
proof -
  have "c_fd demo_conn = 5"
    by (simp add: demo_conn_def Conn_new_def)
  then show ?thesis
    using send_error_leaks_file[of 0 "demo_httpd (demo_conn\<lparr> c_state := FileSending, c_file_fd := 9 \<rparr>)"
        "demo_conn\<lparr> c_state := FileSending, c_file_fd := 9 \<rparr>" "- 32" demo_http 0]
    by (simp add: demo_httpd_def get_conn_def)
qed

text \<open>What the client has sent beyond the first request is forgotten with the reply.\<close>

lemma pipelined_request_dropped:
  assumes "get_conn idx (h_conns st) = Some c" "c_state c = SendingReply" "0 < sint result"
    and "c_send_off c + unat result = length (c_send_buf c)"
  shows "\<exists>st1 c1. handle_send cfg idx result st = (st1, [submit_recv cfg c1 idx]) \<and>
    get_conn idx (h_conns st1) = Some c1 \<and> c_recv_len c1 = 0"
  using assms get_conn_length[OF assms(1)]
  by (simp add: handle_send_def Let_def reset_for_next_request_def)

end
