(* ===== verification/Parking.thy ===== *)
theory Parking
  imports Core_Types
begin

text \<open>
  The parking of idle workers on Linux (\<open>parking/futex_linux.rs\<close>): any number of threads that park and
  wake, interleaved at their atomic accesses and at the futex system call, with the accounting that shows
  that no wake-up is lost and how many are answered twice.
\<close>

section \<open>State\<close>

record FutexParking =
  fp_futex :: u32
  fp_parked :: usize

definition FutexParking_new :: FutexParking where
  "FutexParking_new = \<lparr> fp_futex = 0, fp_parked = 0 \<rparr>"

definition FutexParking_parked_count :: "FutexParking \<Rightarrow> usize" where
  "FutexParking_parked_count f = fp_parked f"

text \<open>
  Where a thread is: in \<open>park\<close> before the load of the first loop, before its compare-exchange, before the
  increment, before the system call, asleep in it, before the decrement with the result of the call, in the
  second loop; in \<open>wake_one\<close> before the addition, the load and the system call; in \<open>wake_all\<close> likewise, with
  the number it adds.
\<close>

datatype ParkPc =
    PkIdle | PkLoad | PkCas u32 | PkInc | PkWait | PkAsleep | PkDec bool | PkRetry | PkRetryCas u32
  | WkAdd | WkCheck | WkWake
  | WaLoad | WaAdd nat | WaWake nat

text \<open>
  Counters beside the state: the wakes added to the futex word, those taken back by a compare-exchange, the
  sleepers released by the kernel's wake, and the calls of \<open>park\<close> that returned true.
\<close>

record ParkSys =
  ps_park :: FutexParking
  ps_pc :: "ParkPc list"
  ps_added :: nat
  ps_taken :: nat
  ps_woken :: nat
  ps_true :: nat

definition park_init :: "nat \<Rightarrow> ParkSys" where
  "park_init n = \<lparr> ps_park = FutexParking_new, ps_pc = replicate n PkIdle, ps_added = 0, ps_taken = 0, ps_woken = 0, ps_true = 0 \<rparr>"

abbreviation pc_at :: "ParkSys \<Rightarrow> nat \<Rightarrow> ParkPc \<Rightarrow> bool" where
  "pc_at s t p \<equiv> t < length (ps_pc s) \<and> ps_pc s ! t = p"

abbreviation goto :: "nat \<Rightarrow> ParkPc \<Rightarrow> ParkSys \<Rightarrow> ParkSys" where
  "goto t p s \<equiv> s\<lparr> ps_pc := (ps_pc s)[t := p] \<rparr>"

abbreviation word :: "ParkSys \<Rightarrow> u32" where
  "word s \<equiv> fp_futex (ps_park s)"

abbreviation set_word :: "u32 \<Rightarrow> ParkSys \<Rightarrow> ParkSys" where
  "set_word x s \<equiv> s\<lparr> ps_park := (ps_park s)\<lparr> fp_futex := x \<rparr> \<rparr>"

abbreviation set_parked :: "nat \<Rightarrow> ParkSys \<Rightarrow> ParkSys" where
  "set_parked n s \<equiv> s\<lparr> ps_park := (ps_park s)\<lparr> fp_parked := n \<rparr> \<rparr>"

text \<open>A successful compare-exchange takes one pending wake and \<open>park\<close> returns true.\<close>

definition take_wake :: "nat \<Rightarrow> u32 \<Rightarrow> ParkSys \<Rightarrow> ParkSys" where
  "take_wake t c s = goto t PkIdle (set_word (c - 1) (s\<lparr> ps_taken := ps_taken s + 1, ps_true := ps_true s + 1 \<rparr>))"

definition release_pc :: "ParkPc \<Rightarrow> ParkPc" where
  "release_pc p = (if p = PkAsleep then PkDec True else p)"

definition sleepers :: "ParkSys \<Rightarrow> nat" where
  "sleepers s = length (filter (\<lambda>p. p = PkAsleep) (ps_pc s))"

section \<open>Steps\<close>

text \<open>
  \<open>FUTEX_WAIT\<close> compares and falls asleep in one step; a sleeper leaves it woken, or with an error after a
  timeout or a signal, or woken for no reason. \<open>FUTEX_WAKE\<close> with count 1 wakes one sleeper, any of them, if
  there is one.
\<close>

inductive park_step :: "ParkSys \<Rightarrow> ParkSys \<Rightarrow> bool" where
  Park: "pc_at s t PkIdle \<Longrightarrow> park_step s (goto t PkLoad s)"
| Load_none: "pc_at s t PkLoad \<Longrightarrow> word s = 0 \<Longrightarrow> park_step s (goto t PkInc s)"
| Load_some: "pc_at s t PkLoad \<Longrightarrow> word s \<noteq> 0 \<Longrightarrow> park_step s (goto t (PkCas (word s)) s)"
| Cas_ok: "pc_at s t (PkCas c) \<Longrightarrow> word s = c \<Longrightarrow> c \<noteq> 0 \<Longrightarrow> park_step s (take_wake t c s)"
| Cas_fail: "pc_at s t (PkCas c) \<Longrightarrow> park_step s (goto t PkLoad s)"
| Inc: "pc_at s t PkInc \<Longrightarrow> park_step s (goto t PkWait (set_parked (fp_parked (ps_park s) + 1) s))"
| Wait_sleep: "pc_at s t PkWait \<Longrightarrow> word s = 0 \<Longrightarrow> park_step s (goto t PkAsleep s)"
| Wait_again: "pc_at s t PkWait \<Longrightarrow> word s \<noteq> 0 \<Longrightarrow> park_step s (goto t (PkDec False) s)"
| Leave: "pc_at s t PkAsleep \<Longrightarrow> park_step s (goto t (PkDec b) s)"
| Dec_woken: "pc_at s t (PkDec True) \<Longrightarrow>
    park_step s (goto t PkIdle (set_parked (fp_parked (ps_park s) - 1) (s\<lparr> ps_true := ps_true s + 1 \<rparr>)))"
| Dec_error: "pc_at s t (PkDec False) \<Longrightarrow> park_step s (goto t PkRetry (set_parked (fp_parked (ps_park s) - 1) s))"
| Retry_none: "pc_at s t PkRetry \<Longrightarrow> word s = 0 \<Longrightarrow> park_step s (goto t PkIdle s)"
| Retry_some: "pc_at s t PkRetry \<Longrightarrow> word s \<noteq> 0 \<Longrightarrow> park_step s (goto t (PkRetryCas (word s)) s)"
| Retry_ok: "pc_at s t (PkRetryCas c) \<Longrightarrow> word s = c \<Longrightarrow> c \<noteq> 0 \<Longrightarrow> park_step s (take_wake t c s)"
| Retry_fail: "pc_at s t (PkRetryCas c) \<Longrightarrow> park_step s (goto t PkRetry s)"
| Wake_one: "pc_at s t PkIdle \<Longrightarrow> park_step s (goto t WkAdd s)"
| Add: "pc_at s t WkAdd \<Longrightarrow>
    park_step s (goto t WkCheck (set_word (word s + 1) (s\<lparr> ps_added := ps_added s + 1 \<rparr>)))"
| Check_none: "pc_at s t WkCheck \<Longrightarrow> fp_parked (ps_park s) = 0 \<Longrightarrow> park_step s (goto t PkIdle s)"
| Check_some: "pc_at s t WkCheck \<Longrightarrow> fp_parked (ps_park s) > 0 \<Longrightarrow> park_step s (goto t WkWake s)"
| Wake_none: "pc_at s t WkWake \<Longrightarrow> PkAsleep \<notin> set (ps_pc s) \<Longrightarrow> park_step s (goto t PkIdle s)"
| Wake_some: "pc_at s t WkWake \<Longrightarrow> pc_at s v PkAsleep \<Longrightarrow>
    park_step s (goto t PkIdle (goto v (PkDec True) (s\<lparr> ps_woken := ps_woken s + 1 \<rparr>)))"
| Wake_all: "pc_at s t PkIdle \<Longrightarrow> park_step s (goto t WaLoad s)"
| All_none: "pc_at s t WaLoad \<Longrightarrow> fp_parked (ps_park s) = 0 \<Longrightarrow> park_step s (goto t PkIdle s)"
| All_some: "pc_at s t WaLoad \<Longrightarrow> fp_parked (ps_park s) > 0 \<Longrightarrow>
    park_step s (goto t (WaAdd (fp_parked (ps_park s) + 1)) s)"
| All_add: "pc_at s t (WaAdd n) \<Longrightarrow>
    park_step s (goto t (WaWake n) (set_word (word s + of_nat n) (s\<lparr> ps_added := ps_added s + n \<rparr>)))"
| All_wake: "pc_at s t (WaWake n) \<Longrightarrow>
    park_step s (goto t PkIdle (s\<lparr> ps_pc := map release_pc (ps_pc s), ps_woken := ps_woken s + sleepers s \<rparr>))"

section \<open>Accounting\<close>

text \<open>The threads counted as parked, the wakes on their way to a sleeper, and the sleepers released but not yet back.\<close>

primrec w_parked :: "ParkPc \<Rightarrow> nat" where
  "w_parked PkIdle = 0" | "w_parked PkLoad = 0" | "w_parked (PkCas c) = 0" | "w_parked PkInc = 0"
| "w_parked PkWait = 1" | "w_parked PkAsleep = 1" | "w_parked (PkDec b) = 1" | "w_parked PkRetry = 0"
| "w_parked (PkRetryCas c) = 0" | "w_parked WkAdd = 0" | "w_parked WkCheck = 0" | "w_parked WkWake = 0"
| "w_parked WaLoad = 0" | "w_parked (WaAdd n) = 0" | "w_parked (WaWake n) = 0"

primrec w_coming :: "ParkPc \<Rightarrow> nat" where
  "w_coming PkIdle = 0" | "w_coming PkLoad = 0" | "w_coming (PkCas c) = 0" | "w_coming PkInc = 0"
| "w_coming PkWait = 0" | "w_coming PkAsleep = 0" | "w_coming (PkDec b) = 0" | "w_coming PkRetry = 0"
| "w_coming (PkRetryCas c) = 0" | "w_coming WkAdd = 0" | "w_coming WkCheck = 1" | "w_coming WkWake = 1"
| "w_coming WaLoad = 0" | "w_coming (WaAdd n) = 0" | "w_coming (WaWake n) = n"

definition w_released :: "ParkPc \<Rightarrow> nat" where
  "w_released p = (if p = PkDec True then 1 else 0)"

definition tally :: "(ParkPc \<Rightarrow> nat) \<Rightarrow> ParkPc list \<Rightarrow> nat" where
  "tally w pcs = sum_list (map w pcs)"

definition park_inv :: "ParkSys \<Rightarrow> bool" where
  "park_inv s \<longleftrightarrow>
     fp_parked (ps_park s) = tally w_parked (ps_pc s) \<and>
     ps_taken s \<le> ps_added s \<and> word s = of_nat (ps_added s - ps_taken s) \<and>
     ps_taken s + ps_woken s \<le> ps_true s + tally w_released (ps_pc s) \<and>
     (PkAsleep \<in> set (ps_pc s) \<longrightarrow> ps_added s \<le> ps_taken s + ps_woken s + tally w_coming (ps_pc s))"

lemma tally_goto: "t < length pcs \<Longrightarrow> tally w (pcs[t := q]) = tally w pcs + w q - w (pcs ! t)"
  by (simp add: tally_def map_update sum_list_update)

lemma tally_ge: "t < length pcs \<Longrightarrow> w (pcs ! t) \<le> tally w pcs"
  unfolding tally_def by (metis elem_le_sum_list length_map nth_map)

lemma asleep_goto: "q \<noteq> PkAsleep \<Longrightarrow> PkAsleep \<in> set (xs[t := q]) \<Longrightarrow> PkAsleep \<in> set xs"
  using set_update_subset_insert by fastforce

lemma asleep_counted: "PkAsleep \<in> set (ps_pc s) \<Longrightarrow> 0 < tally w_parked (ps_pc s)"
  unfolding tally_def
  by (metis w_parked.simps(6) gr0I image_eqI list.set_map sum_list_eq_0_iff zero_neq_one)

lemma word_zero:
  "park_inv s \<Longrightarrow> ps_added s < 2 ^ 32 \<Longrightarrow> word s = 0 \<Longrightarrow> ps_added s = ps_taken s"
proof -
  assume "park_inv s" "ps_added s < 2 ^ 32" "word s = 0"
  then have "ps_taken s \<le> ps_added s" "(of_nat (ps_added s - ps_taken s) :: u32) = 0" "ps_added s - ps_taken s < 2 ^ 32"
    by (auto simp: park_inv_def)
  then show ?thesis
    using unat_of_nat_lt[of "ps_added s - ps_taken s", where 'a = 32] by fastforce
qed

section \<open>Preservation\<close>

lemma inv_move:
  assumes "park_inv s" "pc_at s t p" "w_parked q = w_parked p" "w_released p \<le> w_released q" "q \<noteq> PkAsleep"
    and "PkAsleep \<in> set (ps_pc s) \<Longrightarrow> w_coming p \<le> w_coming q"
  shows "park_inv (goto t q s)"
proof -
  have "w p \<le> tally w (ps_pc s)" for w
    using tally_ge[of t "ps_pc s" w] assms(2) by simp
  note g = this[of w_parked] this[of w_released] this[of w_coming]
  show ?thesis
    using assms asleep_goto[OF assms(5), of "ps_pc s" t] g
    unfolding park_inv_def by (simp add: tally_goto) force
qed

lemma inv_sleep:
  assumes "park_inv s" "pc_at s t PkWait" "word s = 0" "ps_added s < 2 ^ 32"
  shows "park_inv (goto t PkAsleep s)"
  using assms(1,2) word_zero[OF assms(1,4,3)] unfolding park_inv_def by (simp add: tally_goto w_released_def)

lemma inv_take:
  assumes "park_inv s" "pc_at s t p" "word s = c" "c \<noteq> 0" "w_parked p = 0" "w_released p = 0" "w_coming p = 0"
  shows "park_inv (take_wake t c s)"
proof -
  have lt: "ps_taken s < ps_added s"
  proof (rule ccontr)
    assume "\<not> ps_taken s < ps_added s"
    then show False
      using assms(1,3,4) by (simp add: park_inv_def)
  qed
  then obtain k where k: "ps_added s - ps_taken s = Suc k" "ps_added s - Suc (ps_taken s) = k"
    by (metis Suc_diff_Suc)
  have "c = of_nat (Suc k)"
    using assms(1,3) k(1) by (simp add: park_inv_def)
  then show ?thesis
    using assms(1,2,5-7) lt k(2) asleep_goto[of PkIdle "ps_pc s" t]
    unfolding park_inv_def take_wake_def by (auto simp: tally_goto w_released_def)
qed

lemma inv_inc:
  assumes "park_inv s" "pc_at s t PkInc"
  shows "park_inv (goto t PkWait (set_parked (fp_parked (ps_park s) + 1) s))"
  using assms asleep_goto[of PkWait "ps_pc s" t] unfolding park_inv_def by (auto simp: tally_goto w_released_def)

lemma inv_dec:
  assumes "park_inv s" "pc_at s t (PkDec b)" "w_parked q = 0" "w_coming q = 0" "q \<noteq> PkAsleep" "w_released q = 0"
  shows "park_inv (goto t q (set_parked (fp_parked (ps_park s) - 1) (s\<lparr> ps_true := ps_true s + (if b then 1 else 0) \<rparr>)))"
proof -
  have r: "w_released (PkDec b) = (if b then 1 else 0)"
    by (simp add: w_released_def)
  have "w (PkDec b) \<le> tally w (ps_pc s)" for w
    using tally_ge[of t "ps_pc s" w] assms(2) by simp
  note g = this[of w_parked] this[of w_released]
  show ?thesis
    using assms asleep_goto[OF assms(5), of "ps_pc s" t] r g
    unfolding park_inv_def by (auto simp: tally_goto)
qed

lemma inv_add:
  assumes "park_inv s" "pc_at s t p" "w_parked p = 0" "w_coming p = 0" "w_released p = 0"
    and "w_parked q = 0" "w_coming q = n" "w_released q = 0" "q \<noteq> PkAsleep"
  shows "park_inv (goto t q (set_word (word s + of_nat n) (s\<lparr> ps_added := ps_added s + n \<rparr>)))"
  using assms asleep_goto[OF assms(9), of "ps_pc s" t]
  unfolding park_inv_def by (auto simp: tally_goto of_nat_diff)

lemma inv_wake:
  assumes "park_inv s" "pc_at s t WkWake" "pc_at s v PkAsleep"
  shows "park_inv (goto t PkIdle (goto v (PkDec True) (s\<lparr> ps_woken := ps_woken s + 1 \<rparr>)))"
proof -
  have "t \<noteq> v"
    using assms(2,3) by auto
  moreover have "1 \<le> tally w_coming (ps_pc s)" "1 \<le> tally w_parked (ps_pc s)"
    using tally_ge[of t "ps_pc s" w_coming] tally_ge[of v "ps_pc s" w_parked] assms(2,3) by simp_all
  moreover have "PkAsleep \<in> set (ps_pc s)"
    using assms(3) by (metis nth_mem)
  ultimately show ?thesis
    using assms unfolding park_inv_def by (auto simp: tally_goto w_released_def)
qed

lemma tally_release:
  "tally w_parked (map release_pc xs) = tally w_parked xs"
  "tally w_released (map release_pc xs) = tally w_released xs + length (filter (\<lambda>p. p = PkAsleep) xs)"
  "PkAsleep \<notin> set (map release_pc xs)"
  by (induction xs) (auto simp: tally_def release_pc_def w_released_def)

lemma inv_wake_all:
  assumes "park_inv s" "pc_at s t (WaWake n)"
  shows "park_inv (goto t PkIdle (s\<lparr> ps_pc := map release_pc (ps_pc s), ps_woken := ps_woken s + sleepers s \<rparr>))"
proof -
  have "map release_pc (ps_pc s) ! t = WaWake n"
    using assms(2) by (simp add: release_pc_def)
  moreover have "PkAsleep \<notin> set ((map release_pc (ps_pc s))[t := PkIdle])"
    using asleep_goto[of PkIdle "map release_pc (ps_pc s)" t] tally_release(3) by auto
  ultimately show ?thesis
    using assms unfolding park_inv_def sleepers_def by (simp add: tally_goto tally_release w_released_def del: nth_map)
qed

lemma park_step_added: "park_step s s' \<Longrightarrow> ps_added s \<le> ps_added s'"
  by (induction rule: park_step.induct) (simp_all add: take_wake_def)

lemma park_inv_step:
  assumes "park_step s s'" "park_inv s" "ps_added s < 2 ^ 32"
  shows "park_inv s'"
  using assms
proof (induction rule: park_step.induct)
  case (Cas_ok s t c)
  then show ?case
    by (intro inv_take) (auto simp: w_released_def)
next
  case (Retry_ok s t c)
  then show ?case
    by (intro inv_take) (auto simp: w_released_def)
next
  case (Inc s t)
  then show ?case
    by (intro inv_inc)
next
  case (Wait_sleep s t)
  then show ?case
    by (intro inv_sleep)
next
  case (Dec_woken s t)
  then show ?case
    using inv_dec[of s t True PkIdle] by (simp add: w_released_def)
next
  case (Dec_error s t)
  then show ?case
    using inv_dec[of s t False PkRetry] by (simp add: w_released_def)
next
  case (Add s t)
  then show ?case
    using inv_add[of s t WkAdd WkCheck 1] by (simp add: w_released_def)
next
  case (All_add s t n)
  then show ?case
    using inv_add[of s t "WaAdd n" "WaWake n" n] by (simp add: w_released_def)
next
  case (Check_none s t)
  then have "PkAsleep \<notin> set (ps_pc s)"
    using asleep_counted[of s] by (auto simp: park_inv_def)
  with Check_none show ?case
    by (intro inv_move) (auto simp: w_released_def)
next
  case (Wake_some s t v)
  then show ?case
    by (intro inv_wake)
next
  case (All_wake s t n)
  then show ?case
    by (intro inv_wake_all)
qed (auto intro!: inv_move simp: w_released_def)

lemma park_inv_init: "park_inv (park_init n)"
  by (simp add: park_inv_def park_init_def FutexParking_new_def tally_def w_released_def sum_list_replicate)

lemma park_inv_reachable:
  assumes "park_step\<^sup>*\<^sup>* (park_init n) s" "ps_added s < 2 ^ 32"
  shows "park_inv s"
  using assms
proof (induction rule: rtranclp_induct)
  case base
  show ?case
    by (rule park_inv_init)
next
  case (step y z)
  then show ?case
    using park_inv_step park_step_added by (meson order_le_less_trans)
qed

section \<open>No wake-up is lost\<close>

lemma tally_rest:
  assumes "set pcs \<subseteq> {PkIdle, PkAsleep}"
  shows "tally w_coming pcs = 0 \<and> tally w_released pcs = 0 \<and> tally w_parked pcs = length (filter (\<lambda>p. p = PkAsleep) pcs)"
  using assms
proof (induction pcs)
  case (Cons p ps)
  then have "p = PkIdle \<or> p = PkAsleep" "set ps \<subseteq> {PkIdle, PkAsleep}"
    by simp_all
  then show ?case
    using Cons.IH by (auto simp: tally_def w_released_def)
qed (simp add: tally_def)

text \<open>
  C11: in every reachable state the parked count is the number of threads between its increment and its decrement,
  so it never underflows. In a state at rest where a worker sleeps, at least as many calls of \<open>park\<close> have
  returned true as wakes were ever added to the word: no wake was lost on a worker that kept sleeping.
\<close>

theorem futex_no_lost_wakeup:
  assumes "park_step\<^sup>*\<^sup>* (park_init n) s" "ps_added s < 2 ^ 32"
  shows "FutexParking_parked_count (ps_park s) = tally w_parked (ps_pc s) \<and>
    (PkAsleep \<in> set (ps_pc s) \<and> set (ps_pc s) \<subseteq> {PkIdle, PkAsleep} \<longrightarrow>
      FutexParking_parked_count (ps_park s) = sleepers s \<and> ps_added s \<le> ps_true s)"
proof -
  have inv: "park_inv s"
    by (rule park_inv_reachable[OF assms])
  have "FutexParking_parked_count (ps_park s) = sleepers s \<and> ps_added s \<le> ps_true s"
    if "PkAsleep \<in> set (ps_pc s)" "set (ps_pc s) \<subseteq> {PkIdle, PkAsleep}"
    using inv that(1) tally_rest[OF that(2)]
    unfolding park_inv_def FutexParking_parked_count_def sleepers_def by linarith
  with inv show ?thesis
    by (simp add: park_inv_def FutexParking_parked_count_def)
qed

text \<open>A run by a schedule: an idle thread starts a call, any other takes its next step.\<close>

definition park_next :: "nat \<Rightarrow> ParkSys \<Rightarrow> ParkSys" where
  "park_next t s =
     (case ps_pc s ! t of
        PkLoad \<Rightarrow> goto t (if word s = 0 then PkInc else PkCas (word s)) s
      | PkCas c \<Rightarrow> if word s = c \<and> c \<noteq> 0 then take_wake t c s else goto t PkLoad s
      | PkInc \<Rightarrow> goto t PkWait (set_parked (fp_parked (ps_park s) + 1) s)
      | PkWait \<Rightarrow> goto t (if word s = 0 then PkAsleep else PkDec False) s
      | PkDec b \<Rightarrow>
          if b then goto t PkIdle (set_parked (fp_parked (ps_park s) - 1) (s\<lparr> ps_true := ps_true s + 1 \<rparr>))
          else goto t PkRetry (set_parked (fp_parked (ps_park s) - 1) s)
      | WkAdd \<Rightarrow> goto t WkCheck (set_word (word s + 1) (s\<lparr> ps_added := ps_added s + 1 \<rparr>))
      | WkCheck \<Rightarrow> goto t (if fp_parked (ps_park s) = 0 then PkIdle else WkWake) s
      | WkWake \<Rightarrow>
          if PkAsleep \<in> set (ps_pc s)
          then goto t PkIdle (goto (length (takeWhile (\<lambda>p. p \<noteq> PkAsleep) (ps_pc s))) (PkDec True) (s\<lparr> ps_woken := ps_woken s + 1 \<rparr>))
          else goto t PkIdle s
      | _ \<Rightarrow> goto t PkLoad s)"

definition park_move :: "bool \<Rightarrow> nat \<Rightarrow> ParkSys \<Rightarrow> ParkSys" where
  "park_move wake t s = (if ps_pc s ! t = PkIdle then goto t (if wake then WkAdd else PkLoad) s else park_next t s)"

lemma first_asleep:
  "PkAsleep \<in> set xs \<Longrightarrow> length (takeWhile (\<lambda>p. p \<noteq> PkAsleep) xs) < length xs \<and>
     xs ! length (takeWhile (\<lambda>p. p \<noteq> PkAsleep) xs) = PkAsleep"
  by (induction xs) auto

lemma park_move_sound:
  assumes "t < length (ps_pc s)" "ps_pc s ! t \<notin> {PkAsleep, PkRetry, WaLoad}" "\<And>c. ps_pc s ! t \<noteq> PkRetryCas c"
    and "\<And>n. ps_pc s ! t \<noteq> WaAdd n" "\<And>n. ps_pc s ! t \<noteq> WaWake n"
  shows "park_step s (park_move wake t s)"
proof (cases "ps_pc s ! t")
  case PkIdle
  then show ?thesis
    using assms(1) park_step.Park[of t s] park_step.Wake_one[of t s] by (simp add: park_move_def park_next_def)
next
  case PkLoad
  then show ?thesis
    using assms(1) park_step.Load_none[of t s] park_step.Load_some[of t s] by (simp add: park_move_def park_next_def)
next
  case (PkCas c)
  then show ?thesis
    using assms(1) park_step.Cas_ok[of t s c] park_step.Cas_fail[of t s c] by (simp add: park_move_def park_next_def)
next
  case PkInc
  then show ?thesis
    using assms(1) park_step.Inc[of t s] by (simp add: park_move_def park_next_def)
next
  case PkWait
  then show ?thesis
    using assms(1) park_step.Wait_sleep[of t s] park_step.Wait_again[of t s] by (simp add: park_move_def park_next_def)
next
  case (PkDec b)
  then show ?thesis
    using assms(1) park_step.Dec_woken[of t s] park_step.Dec_error[of t s] by (cases b) (simp_all add: park_move_def park_next_def)
next
  case WkAdd
  then show ?thesis
    using assms(1) park_step.Add[of t s] by (simp add: park_move_def park_next_def)
next
  case WkCheck
  then show ?thesis
    using assms(1) park_step.Check_none[of t s] park_step.Check_some[of t s] by (simp add: park_move_def park_next_def)
next
  case WkWake
  then show ?thesis
    using assms(1)
      park_step.Wake_none[of t s] park_step.Wake_some[of t s "length (takeWhile (\<lambda>p. p \<noteq> PkAsleep) (ps_pc s))"] first_asleep[of "ps_pc s"] by (simp add: park_move_def park_next_def)
qed (use assms in auto)

definition demo_schedule :: "(bool \<times> nat) list" where
  "demo_schedule =
     replicate 4 (False, 0) @ replicate 4 (True, 1) @ [(False, 0)] @ replicate 3 (False, 0) @ replicate 4 (False, 0)"

fun park_run :: "(bool \<times> nat) list \<Rightarrow> ParkSys \<Rightarrow> ParkSys" where
  "park_run [] s = s"
| "park_run ((wake, t) # ms) s = park_run ms (park_move wake t s)"

fun park_ok :: "(bool \<times> nat) list \<Rightarrow> ParkSys \<Rightarrow> bool" where
  "park_ok [] s = True"
| "park_ok ((wake, t) # ms) s \<longleftrightarrow> t < length (ps_pc s) \<and>
     (case ps_pc s ! t of PkAsleep \<Rightarrow> False | PkRetry \<Rightarrow> False | PkRetryCas _ \<Rightarrow> False | WaLoad \<Rightarrow> False | WaAdd _ \<Rightarrow> False | WaWake _ \<Rightarrow> False
        | _ \<Rightarrow> True) \<and> park_ok ms (park_move wake t s)"

lemma park_run_reaches: "park_ok ms s \<Longrightarrow> park_step\<^sup>*\<^sup>* s (park_run ms s)"
proof (induction ms s rule: park_run.induct)
  case (2 wake t ms s)
  then have "park_step s (park_move wake t s)"
    by (intro park_move_sound) (auto split: ParkPc.splits)
  moreover have "park_step\<^sup>*\<^sup>* (park_move wake t s) (park_run ms (park_move wake t s))"
    using 2 by simp
  ultimately show ?case
    by (simp add: converse_rtranclp_into_rtranclp)
qed simp

lemma demo_run:
  "park_ok demo_schedule (park_init 2)"
  "park_run demo_schedule (park_init 2) =
     \<lparr> ps_park = \<lparr> fp_futex = 0, fp_parked = 1 \<rparr>, ps_pc = [PkAsleep, PkIdle], ps_added = 1, ps_taken = 1, ps_woken = 1, ps_true = 2 \<rparr>"
  by (simp_all add: demo_schedule_def park_init_def FutexParking_new_def park_move_def park_next_def take_wake_def numeral_eq_Suc)

theorem futex_no_lost_wakeup_witness:
  "FutexParking_parked_count (ps_park (park_run demo_schedule (park_init 2))) = 1 \<and>
   ps_added (park_run demo_schedule (park_init 2)) \<le> ps_true (park_run demo_schedule (park_init 2))"
  using futex_no_lost_wakeup[OF park_run_reaches[OF demo_run(1)]]
  by (simp add: demo_run(2) sleepers_def)

text \<open>
  one call of \<open>wake_one\<close> can make two calls of \<open>park\<close> return true: the sleeper that the kernel wakes
  leaves the wake pending in the futex word, and the next call takes it from there.
\<close>

theorem one_wake_two_returns:
  "\<exists>s. park_step\<^sup>*\<^sup>* (park_init 2) s \<and> ps_added s = 1 \<and> ps_true s = 2"
  using park_run_reaches[OF demo_run(1)] by (intro exI[of _ "park_run demo_schedule (park_init 2)"]) (simp add: demo_run(2))

end
