(* ===== verification/Worker_Rings.thy ===== *)
theory Worker_Rings
  imports Reactor
begin

text \<open>
  The pool of per-worker rings (\<open>WorkerReactorPool\<close> of \<open>worker_reactor.rs\<close>): building it, the operations by
  worker number, the global pool with the hooks of the worker loop, and shutdown. \<open>None\<close> is a panic. Each
  operation works on the ring of its worker, with the shared results slab and the scheduler, by the
  definitions of \<open>Reactor\<close>.
\<close>

section \<open>The pool\<close>

record 'r WorkerRing =
  wk_io :: "'r BasicIoUring"
  wk_router :: ProbeRouter

record 'r WorkerReactorPool =
  wp_rings :: "'r WorkerRing list"
  wp_results :: "i64 list"
  wp_num_workers :: usize
  wp_shutdown :: bool

text \<open>\<open>built i\<close> is what the io\_uring builder answers for the ring of worker \<open>i\<close>.\<close>

fun build_rings :: "'r Uring \<Rightarrow> (nat \<Rightarrow> (i32 option, 'r) result) \<Rightarrow> nat \<Rightarrow> nat \<Rightarrow> 'r WorkerRing list option" where
  "build_rings u built i 0 = Some []"
| "build_rings u built i (Suc k) =
     (case BasicIoUring_new (built i) of
        Inl _ \<Rightarrow> None
      | Inr io \<Rightarrow>
          map_option (Cons \<lparr> wk_io = io, wk_router = ProbeRouter_new (probe_opcodes_static u io) \<rparr>) (build_rings u built (Suc i) k))"

definition WorkerReactorPool_new ::
  "'r Uring \<Rightarrow> (nat \<Rightarrow> (i32 option, 'r) result) \<Rightarrow> usize \<Rightarrow> usize \<Rightarrow> 'r WorkerReactorPool option" where
  "WorkerReactorPool_new u built num_workers slot_count =
     map_option (\<lambda>rs. \<lparr> wp_rings = rs, wp_results = replicate slot_count 0, wp_num_workers = num_workers, wp_shutdown = False \<rparr>)
       (build_rings u built 0 num_workers)"

text \<open>The ring of one worker taken out, used and put back.\<close>

abbreviation ring_of :: "nat \<Rightarrow> 'r WorkerReactorPool \<Rightarrow> Sched \<Rightarrow> 'r Io" where
  "ring_of w p sc \<equiv> \<lparr> io_ring = wk_io (wp_rings p ! w), io_results = wp_results p, io_sched = sc \<rparr>"

definition put_ring :: "nat \<Rightarrow> 'r WorkerReactorPool \<Rightarrow> 'r Io \<Rightarrow> 'r WorkerReactorPool \<times> Sched" where
  "put_ring w p s =
     (p\<lparr> wp_rings := (wp_rings p)[w := (wp_rings p ! w)\<lparr> wk_io := io_ring s \<rparr>], wp_results := io_results s \<rparr>, io_sched s)"

definition pool_submit ::
  "'r Uring \<Rightarrow> nat \<Rightarrow> u32 \<Rightarrow> u32 \<Rightarrow> u64 list \<Rightarrow> 'r WorkerReactorPool \<times> Sched \<Rightarrow> ('r WorkerReactorPool \<times> Sched) option" where
  "pool_submit u w slot syscall_nr args = (\<lambda>(p, sc).
     if w < length (wp_rings p)
     then map_option (put_ring w p) (wr_submit u (wk_router (wp_rings p ! w)) w slot syscall_nr args (ring_of w p sc))
     else None)"

definition pool_poll :: "'r Uring \<Rightarrow> nat \<Rightarrow> 'r WorkerReactorPool \<times> Sched \<Rightarrow> (nat \<times> 'r WorkerReactorPool \<times> Sched) option" where
  "pool_poll u w = (\<lambda>(p, sc).
     if w < length (wp_rings p) then map_option (map_prod id (put_ring w p)) (wr_poll u w (ring_of w p sc)) else None)"

definition pool_has_inflight :: "nat \<Rightarrow> 'r WorkerReactorPool \<Rightarrow> bool option" where
  "pool_has_inflight w p = (if w < length (wp_rings p) then Some (inflight (wk_io (wp_rings p ! w)) > 0) else None)"

definition pool_wait_and_poll ::
  "'r Uring \<Rightarrow> nat \<Rightarrow> 'r WorkerReactorPool \<times> Sched \<Rightarrow> (nat \<times> 'r WorkerReactorPool \<times> Sched) option" where
  "pool_wait_and_poll u w = (\<lambda>(p, sc).
     if w < length (wp_rings p) then map_option (map_prod id (put_ring w p)) (wait_and_poll u w (ring_of w p sc)) else None)"

definition pool_read_result :: "u32 \<Rightarrow> 'r WorkerReactorPool \<Rightarrow> i64 option" where
  "pool_read_result slot p = read_result slot (wp_results p)"

text \<open>Shutdown drains every ring in turn; dropping the pool shuts it down unless that was done.\<close>

fun shutdown_rings :: "nat \<Rightarrow> 'r Uring \<Rightarrow> 'r WorkerRing list \<Rightarrow> 'r WorkerRing list option" where
  "shutdown_rings fuel u [] = Some []"
| "shutdown_rings fuel u (r # rs) =
     (case iouring_shutdown fuel u (wk_io r) of
        None \<Rightarrow> None
      | Some b \<Rightarrow> map_option (Cons (r\<lparr> wk_io := b \<rparr>)) (shutdown_rings fuel u rs))"

definition rings_shutdown :: "nat \<Rightarrow> 'r Uring \<Rightarrow> 'r WorkerReactorPool \<Rightarrow> 'r WorkerReactorPool option" where
  "rings_shutdown fuel u p =
     map_option (\<lambda>rs. p\<lparr> wp_shutdown := True, wp_rings := rs \<rparr>) (shutdown_rings fuel u (wp_rings p))"

definition pool_drop :: "nat \<Rightarrow> 'r Uring \<Rightarrow> 'r WorkerReactorPool \<Rightarrow> 'r WorkerReactorPool option" where
  "pool_drop fuel u p = (if wp_shutdown p then Some p else rings_shutdown fuel u p)"

section \<open>The global pool and the hooks\<close>

text \<open>\<open>g\<close> is \<open>GLOBAL_POOL\<close>. The hooks do nothing before \<open>init_global\<close>; a call of \<open>global_pool\<close> panics.\<close>

definition init_global ::
  "'r Uring \<Rightarrow> (nat \<Rightarrow> (i32 option, 'r) result) \<Rightarrow> usize \<Rightarrow> usize \<Rightarrow> ('r WorkerReactorPool \<times> 'r WorkerReactorPool option) option" where
  "init_global u built num_workers slot_count =
     map_option (\<lambda>p. (p, Some p)) (WorkerReactorPool_new u built num_workers slot_count)"

definition global_pool :: "'r WorkerReactorPool option \<Rightarrow> 'r WorkerReactorPool option" where
  "global_pool g = g"

definition hook_poll ::
  "'r Uring \<Rightarrow> nat \<Rightarrow> 'r WorkerReactorPool option \<times> Sched \<Rightarrow> (nat \<times> 'r WorkerReactorPool option \<times> Sched) option" where
  "hook_poll u w = (\<lambda>(g, sc).
     case g of
       None \<Rightarrow> Some (0, None, sc)
     | Some p \<Rightarrow> map_option (\<lambda>(n, p', sc'). (n, Some p', sc')) (pool_poll u w (p, sc)))"

definition hook_has_io :: "nat \<Rightarrow> 'r WorkerReactorPool option \<Rightarrow> bool option" where
  "hook_has_io w g = (case g of None \<Rightarrow> Some False | Some p \<Rightarrow> pool_has_inflight w p)"

definition hook_wait_io ::
  "'r Uring \<Rightarrow> nat \<Rightarrow> 'r WorkerReactorPool option \<times> Sched \<Rightarrow> (nat \<times> 'r WorkerReactorPool option \<times> Sched) option" where
  "hook_wait_io u w = (\<lambda>(g, sc).
     case g of
       None \<Rightarrow> Some (0, None, sc)
     | Some p \<Rightarrow> map_option (\<lambda>(n, p', sc'). (n, Some p', sc')) (pool_wait_and_poll u w (p, sc)))"

text \<open>\<open>submit_and_park_worker\<close> on the global pool, up to the switch.\<close>

definition park_on_pool ::
  "'r Uring \<Rightarrow> nat \<Rightarrow> u32 \<Rightarrow> u64 list \<Rightarrow> 'r WorkerReactorPool option \<times> Sched \<Rightarrow> ('r WorkerReactorPool option \<times> Sched) option" where
  "park_on_pool u w syscall_nr args = (\<lambda>(g, sc).
     let slot = tls_current (s_tls sc w) in
     if slot = GVTHREAD_NONE then None
     else case global_pool g of
            None \<Rightarrow> None
          | Some p \<Rightarrow> map_option (\<lambda>(p', sc'). (Some p', block_current w sc')) (pool_submit u w slot syscall_nr args (p, sc)))"

section \<open>Building and shutting down\<close>

lemma build_rings_length: "build_rings u built i k = Some rs \<Longrightarrow> length rs = k"
  by (induction u built i k arbitrary: rs rule: build_rings.induct) (auto split: sum.splits)

lemma build_rings_fresh:
  "build_rings u built i k = Some rs \<Longrightarrow> r \<in> set rs \<Longrightarrow> inflight (wk_io r) = 0 \<and> pending_submit (wk_io r) = 0"
  by (induction u built i k arbitrary: rs rule: build_rings.induct) (auto simp: BasicIoUring_new_def split: sum.splits)

text \<open>A new pool has one idle ring per worker and a zero result for every slot; one failed ring is a panic.\<close>

lemma WorkerReactorPool_new_spec:
  "(\<exists>p. WorkerReactorPool_new u built n m = Some p) \<longleftrightarrow> (\<forall>i < n. \<exists>r. built i = Inr r)"
proof -
  have "(\<exists>rs. build_rings u built i k = Some rs) \<longleftrightarrow> (\<forall>j \<in> {i..<i + k}. \<exists>r. built j = Inr r)" for i k
  proof (induction u built i k rule: build_rings.induct)
    case (2 u built i k)
    have "{i..<i + Suc k} = insert i {Suc i..<Suc i + k}"
      by auto
    then show ?case
      using 2 by (cases "built i") (auto simp: BasicIoUring_new_def)
  qed simp
  from this[of 0 n] show ?thesis
    by (auto simp: WorkerReactorPool_new_def)
qed

lemma shutdown_rings_empties:
  assumes "shutdown_rings fuel u rs = Some rs'"
  shows "length rs' = length rs \<and> (\<forall>r \<in> set rs'. inflight (wk_io r) = 0 \<and> pending_submit (wk_io r) = 0)"
  using assms
  by (induction fuel u rs arbitrary: rs' rule: shutdown_rings.induct) (auto simp: iouring_shutdown_def split: option.splits)

section \<open>Isolation\<close>

lemma put_ring_other:
  "put_ring w p s = (p', sc') \<Longrightarrow> length (wp_rings p') = length (wp_rings p) \<and> wp_shutdown p' = wp_shutdown p \<and>
     (\<forall>v. v \<noteq> w \<longrightarrow> wp_rings p' ! v = wp_rings p ! v) \<and>
     (w < length (wp_rings p) \<longrightarrow> wk_router (wp_rings p' ! w) = wk_router (wp_rings p ! w))"
  by (auto simp: put_ring_def)

text \<open>
  what a worker submits, polls or waits for changes the ring of that worker only; the other rings and
  all routing tables stay as they are.
\<close>

theorem worker_rings_isolated:
  assumes "pool_submit u w slot call args (p, sc) = Some (p', sc') \<or> pool_poll u w (p, sc) = Some (n, p', sc') \<or>
    pool_wait_and_poll u w (p, sc) = Some (n, p', sc')"
  shows "w < length (wp_rings p) \<and> length (wp_rings p') = length (wp_rings p) \<and>
    (\<forall>v. v \<noteq> w \<longrightarrow> wp_rings p' ! v = wp_rings p ! v) \<and> map wk_router (wp_rings p') = map wk_router (wp_rings p)"
proof -
  obtain s where s: "w < length (wp_rings p)" "put_ring w p s = (p', sc')"
    using assms by (auto simp: pool_submit_def pool_poll_def pool_wait_and_poll_def split: if_splits)
  have "map wk_router (wp_rings p') = map wk_router (wp_rings p)"
    using s by (auto simp: put_ring_def map_update list_update_same_conv)
  then show ?thesis
    using s(1) put_ring_other[OF s(2)] by blast
qed

section \<open>A call from start to end\<close>

lemma pool_submit_accepted:
  assumes "w < length (wp_rings p)" "tier (route (wk_router (wp_rings p ! w)) call) = IoUring"
    and "submit_with_opcode u \<lparr> sb_corr_id = from_gvthread_id slot, sb_syscall_nr = call, sb_flags = 0, sb_args = args \<rparr>
      (iouring_opcode (route (wk_router (wp_rings p ! w)) call)) (wk_io (wp_rings p ! w)) = (Inr (), b)"
  shows "pool_submit u w slot call args (p, sc) = Some (p\<lparr> wp_rings := (wp_rings p)[w := (wp_rings p ! w)\<lparr> wk_io := b \<rparr>] \<rparr>, sc)"
  using assms by (simp add: pool_submit_def wr_submit_def submit_request_def Let_def put_ring_def)

text \<open>
  The two hooks of the worker loop that take completions, \<open>hook_wait_io\<close> and \<open>hook_poll\<close>, and the batch one
  of them finds: what the completion queue of the ring yields after the flush, if it fits the buffer of 256
  and names slots of the slab.
\<close>

definition io_hook ::
  "'r Uring \<Rightarrow> bool \<Rightarrow> nat \<Rightarrow> 'r WorkerReactorPool option \<times> Sched \<Rightarrow> (nat \<times> 'r WorkerReactorPool option \<times> Sched) option" where
  "io_hook u wait w = (if wait then hook_wait_io u w else hook_poll u w)"

definition hook_batch :: "'r Uring \<Rightarrow> bool \<Rightarrow> nat \<Rightarrow> 'r WorkerReactorPool \<Rightarrow> Cqe list \<Rightarrow> bool" where
  "hook_batch u wait w p cs \<longleftrightarrow>
     (let b = wk_io (wp_rings p ! w); b0 = (if wait then snd (flush_and_wait u 1 b) else snd (iouring_flush u b)) in
      cq_yields u (ring b0) cs \<and> length cs \<le> 256 \<and>
      (\<forall>j \<in> slots_of (map completion_of cs). unat j < length (wp_results p)))"

lemma io_hook_delivers:
  assumes "hook_batch u wait w p cs" "w < length (wp_rings p)" "sq_inv (s_queue sc)"
  shows "\<exists>p' sc'. io_hook u wait w (Some p, sc) = Some (length cs, Some p', sc') \<and> length (wp_rings p') = length (wp_rings p) \<and>
    length (wp_results p') = length (wp_results p) \<and> sq_inv (s_queue sc') \<and>
    (i \<noteq> - 1 \<longrightarrow> unat i < length (wp_results p) \<longrightarrow>
       wp_results p' ! unat i = last_result i (wp_results p ! unat i) (map completion_of cs)) \<and>
    get_state (s_meta sc' i) =
      (if i \<in> blocked_in (slots_of (map completion_of cs)) sc then Ready else get_state (s_meta sc i)) \<and>
    count (queued (s_queue sc')) i =
      count (queued (s_queue sc)) i + (if i \<in> blocked_in (slots_of (map completion_of cs)) sc then 1 else 0)"
proof -
  define b0 where "b0 = (let b = wk_io (wp_rings p ! w) in
      if wait then snd (flush_and_wait u 1 b) else snd (iouring_flush u b))"
  let ?s = "\<lparr> io_ring = b0, io_results = wp_results p, io_sched = sc \<rparr>" and ?cs = "map completion_of cs"
  obtain b1 s' where f: "poll_and_finish u (s_tls sc w) ?s = Some (length cs, s')" "delivers ?cs (?s\<lparr> io_ring := b1 \<rparr>) s'"
    using poll_and_finish_delivers[of u ?s cs "s_tls sc w"] assms(1,3) by (auto simp: hook_batch_def b0_def Let_def)
  have h: "io_hook u wait w (Some p, sc) = Some (length cs, Some (fst (put_ring w p s')), io_sched s')"
    using f(1) assms(2)
    by (cases wait) (simp_all add: io_hook_def hook_wait_io_def hook_poll_def pool_wait_and_poll_def pool_poll_def
        wait_and_poll_def wr_poll_def put_ring_def b0_def Let_def)
  have "count (mset_set (blocked_in (slots_of ?cs) sc)) i = (if i \<in> blocked_in (slots_of ?cs) sc then 1 else 0)"
    by (simp add: blocked_in_def)
  then show ?thesis
    using f(2) h
    by (intro exI[of _ "fst (put_ring w p s')"] exI[of _ "io_sched s'"]) (simp add: delivers_def put_ring_def)
qed

lemma last_result_single:
  assumes "filter (\<lambda>c. as_gvthread_id (cqe_user_data c) = i) cs = [c]"
  shows "last_result i old (map completion_of cs) = scast (cqe_result c)"
proof -
  have "last_result i old (map completion_of cs) =
      foldl (\<lambda>r c. scast (cqe_result c)) old (filter (\<lambda>c. as_gvthread_id (cqe_user_data c) = i) cs)" for old
    by (induction cs arbitrary: old) (simp_all add: last_result_def completion_of_def)
  then show ?thesis
    by (simp add: assms)
qed

text \<open>
  What may happen while the thread in slot \<open>i\<close> waits: rounds of either hook on its worker whose batches do
  not name the slot, and anything else, of other threads and workers, that neither changes the thread's state
  nor queues it.
\<close>

inductive call_waits ::
  "'r Uring \<Rightarrow> nat \<Rightarrow> u32 \<Rightarrow> 'r WorkerReactorPool \<times> Sched \<Rightarrow> 'r WorkerReactorPool \<times> Sched \<Rightarrow> bool" for u w i s0 where
  Start: "call_waits u w i s0 s0"
| Round: "call_waits u w i s0 (p, sc) \<Longrightarrow> hook_batch u wait w p cs \<Longrightarrow> i \<notin> slots_of (map completion_of cs) \<Longrightarrow>
    io_hook u wait w (Some p, sc) = Some (n, Some p', sc') \<Longrightarrow> call_waits u w i s0 (p', sc')"
| Others: "call_waits u w i s0 (p, sc) \<Longrightarrow> length (wp_rings p') = length (wp_rings p) \<Longrightarrow> sq_inv (s_queue sc') \<Longrightarrow>
    get_state (s_meta sc' i) = get_state (s_meta sc i) \<Longrightarrow>
    count (queued (s_queue sc')) i = count (queued (s_queue sc)) i \<Longrightarrow> call_waits u w i s0 (p', sc')"

lemma call_waits_keeps:
  assumes "call_waits u w i s0 s" "w < length (wp_rings (fst s0))" "sq_inv (s_queue (snd s0))"
  shows "length (wp_rings (fst s)) = length (wp_rings (fst s0)) \<and> sq_inv (s_queue (snd s)) \<and>
    get_state (s_meta (snd s) i) = get_state (s_meta (snd s0) i) \<and>
    count (queued (s_queue (snd s))) i = count (queued (s_queue (snd s0))) i"
  using assms
proof (induction rule: call_waits.induct)
  case (Round p sc wait cs n p' sc')
  then show ?case
    using io_hook_delivers[of u wait w p cs sc i] by (auto simp: blocked_in_def)
qed simp_all

text \<open>
  C12: a green thread that calls through its worker's ring and whose submission is accepted comes back. The
  operation is pushed with the thread's slot as user data, and the thread is blocked; while batches name other
  slots it stays blocked and is not queued; and the poll or wait that finds exactly one completion for the slot,
  in a batch of at most 256, stores the result of that completion, makes the thread ready and queues it once.
\<close>

theorem worker_call_completes:
  assumes "tls_current (s_tls sc w) = i" "i \<noteq> GVTHREAD_NONE" "tls_base (s_tls sc w) \<noteq> 0" "sq_inv (s_queue sc)"
    and "w < length (wp_rings p)" "rt = route (wk_router (wp_rings p ! w)) call" "tier rt = IoUring"
    and "submit_with_opcode u \<lparr> sb_corr_id = from_gvthread_id i, sb_syscall_nr = call, sb_flags = 0, sb_args = args \<rparr>
      (iouring_opcode rt) (wk_io (wp_rings p ! w)) = (Inr (), b)"
  shows "\<exists>p1 sc1. park_on_pool u w call args (Some p, sc) = Some (Some p1, sc1) \<and>
    (\<exists>oper. build_op call args (iouring_opcode rt) = Some oper \<and>
       push_sqe u \<lparr> sqe_op = oper, sqe_user_data = from_gvthread_id i \<rparr> (ring (wk_io (wp_rings p ! w))) =
         Some (ring (wk_io (wp_rings p1 ! w)))) \<and>
    (\<forall>p2 sc2 wait cs c. call_waits u w i (p1, sc1) (p2, sc2) \<longrightarrow>
       get_state (s_meta sc2 i) = Blocked \<and> count (queued (s_queue sc2)) i = count (queued (s_queue sc)) i \<and>
       (hook_batch u wait w p2 cs \<and> filter (\<lambda>c. as_gvthread_id (cqe_user_data c) = i) cs = [c] \<longrightarrow>
          (\<exists>p3 sc3. io_hook u wait w (Some p2, sc2) = Some (length cs, Some p3, sc3) \<and>
             pool_read_result i p3 = Some (scast (cqe_result c)) \<and> get_state (s_meta sc3 i) = Ready \<and>
             count (queued (s_queue sc3)) i = count (queued (s_queue sc)) i + 1)))"
proof -
  let ?p1 = "p\<lparr> wp_rings := (wp_rings p)[w := (wp_rings p ! w)\<lparr> wk_io := b \<rparr>] \<rparr>"
  let ?sc1 = "upd_meta i (set_state Blocked) sc"
  have park: "park_on_pool u w call args (Some p, sc) = Some (Some ?p1, ?sc1)"
    using assms(1-3) pool_submit_accepted[OF assms(5) assms(7)[unfolded assms(6)] assms(8)[unfolded assms(6)], of sc]
    by (simp add: park_on_pool_def global_pool_def block_current_running)
  have blk: "get_state (s_meta ?sc1 i) = Blocked"
    by (simp add: get_state_def set_state_def GVThreadState_from_u8_def)
  have push: "\<exists>oper. build_op call args (iouring_opcode rt) = Some oper \<and>
      push_sqe u \<lparr> sqe_op = oper, sqe_user_data = from_gvthread_id i \<rparr> (ring (wk_io (wp_rings p ! w))) =
        Some (ring (wk_io (wp_rings ?p1 ! w)))"
    using assms(5,8) by (auto simp: submit_with_opcode_def translate_and_push_def build_sqe_def split: if_splits option.splits)
  have waits: "w < length (wp_rings p2) \<and> sq_inv (s_queue sc2) \<and> get_state (s_meta sc2 i) = Blocked \<and>
      count (queued (s_queue sc2)) i = count (queued (s_queue sc)) i"
    if "call_waits u w i (?p1, ?sc1) (p2, sc2)" for p2 sc2
    using call_waits_keeps[OF that] assms(4,5) blk by simp
  have fin: "\<exists>p3 sc3. io_hook u wait w (Some p2, sc2) = Some (length cs, Some p3, sc3) \<and>
      pool_read_result i p3 = Some (scast (cqe_result c)) \<and> get_state (s_meta sc3 i) = Ready \<and>
      count (queued (s_queue sc3)) i = count (queued (s_queue sc)) i + 1"
    if w: "call_waits u w i (?p1, ?sc1) (p2, sc2)" and hb: "hook_batch u wait w p2 cs"
      and c: "filter (\<lambda>c. as_gvthread_id (cqe_user_data c) = i) cs = [c]" for p2 sc2 wait cs c
  proof -
    have "c \<in> set cs" "as_gvthread_id (cqe_user_data c) = i"
      using filter_eq_ConsD[OF c] by auto
    then have sl: "i \<in> slots_of (map completion_of cs)" and i: "i \<noteq> - 1"
      using assms(2) by (auto simp: slots_of_def completion_of_def GVTHREAD_NONE_def image_image)
    then have "unat i < length (wp_results p2)" "i \<in> blocked_in (slots_of (map completion_of cs)) sc2"
      using hb waits[OF w] by (auto simp: hook_batch_def blocked_in_def Let_def)
    then show ?thesis
      using io_hook_delivers[OF hb, of sc2 i] waits[OF w] last_result_single[OF c] i
      by (fastforce simp: pool_read_result_def read_result_def)
  qed
  show ?thesis
    using park push waits fin by (intro exI[of _ ?p1] exI[of _ ?sc1]) blast
qed

definition demo_rings :: "(Sqe list \<times> Cqe list) WorkerReactorPool" where
  "demo_rings =
     \<lparr> wp_rings = [\<lparr> wk_io = \<lparr> ring = ([], [cqe_for 1]), inflight = 0, pending_submit = 0 \<rparr>, wk_router = ProbeRouter_new [22] \<rparr>],
       wp_results = replicate 4 7, wp_num_workers = 1, wp_shutdown = False \<rparr>"

theorem worker_call_completes_witness:
  "\<exists>p1 sc1 p2 sc2. park_on_pool list_ring 0 0 [3, 0x1000, 64, 0, 0, 0] (Some demo_rings, run_prologue 0 1 0 (y_sched demo_sys)) = Some (Some p1, sc1) \<and>
     hook_wait_io list_ring 0 (Some p1, sc1) = Some (1, Some p2, sc2) \<and> pool_read_result 1 p2 = Some 0 \<and>
     get_state (s_meta sc2 1) = Ready"
proof -
  let ?sc = "run_prologue 0 1 0 (y_sched demo_sys)" and ?a = "[3, 0x1000, 64, 0, 0, 0] :: u64 list"
  have rt: "route (ProbeRouter_new [22]) 0 = route_iouring 22"
    by (simp add: route_by_spec route_spec_def own_route_def at_variant_def lists_eval del: map_of_append)
  have tls: "tls_current (s_tls ?sc 0) = 1" "1 \<noteq> GVTHREAD_NONE" "tls_base (s_tls ?sc 0) \<noteq> 0"
    by (simp_all add: run_prologue_def Let_def demo_step_simps metadata_addr_def slot_base_def GVTHREAD_NONE_def)
  have q: "sq_inv (s_queue ?sc)"
    by (simp add: run_prologue_def Let_def demo_sched sq_inv_def lq_inv_def LocalQueue_new_def GlobalQueue_new_def)
  have tier: "tier (route (wk_router (wp_rings demo_rings ! 0)) 0) = IoUring"
    by (simp add: demo_rings_def rt route_iouring_def)
  let ?e = "\<lparr> sb_corr_id = from_gvthread_id 1, sb_syscall_nr = 0, sb_flags = 0, sb_args = ?a \<rparr>"
  have "build_op 0 ?a 22 = Some (OpRead 3 0x1000 64 (- 1))"
    by (simp add: build_op_def Let_def lists_eval)
  then obtain b where b: "submit_with_opcode list_ring ?e (iouring_opcode (route (wk_router (wp_rings demo_rings ! 0)) 0))
      (wk_io (wp_rings demo_rings ! 0)) = (Inr (), b)" "snd (ring b) = [cqe_for 1]"
    by (simp add: demo_rings_def rt route_iouring_def submit_with_opcode_def translate_and_push_def build_sqe_def list_ring_def)
  have len: "0 < length (wp_rings demo_rings)"
    by (simp add: demo_rings_def)
  obtain p1 sc1 where p1: "park_on_pool list_ring 0 0 ?a (Some demo_rings, ?sc) = Some (Some p1, sc1)"
      "\<And>cs c. hook_batch list_ring True 0 p1 cs \<Longrightarrow> filter (\<lambda>c. as_gvthread_id (cqe_user_data c) = 1) cs = [c] \<Longrightarrow>
        \<exists>p2 sc2. io_hook list_ring True 0 (Some p1, sc1) = Some (length cs, Some p2, sc2) \<and>
          pool_read_result 1 p2 = Some (scast (cqe_result c)) \<and> get_state (s_meta sc2 1) = Ready"
    using worker_call_completes[OF tls q len refl tier b(1)] call_waits.Start[of list_ring 0 1] by meson
  have sub: "pool_submit list_ring 0 1 0 ?a (demo_rings, ?sc) =
      Some (demo_rings\<lparr> wp_rings := (wp_rings demo_rings)[0 := (wp_rings demo_rings ! 0)\<lparr> wk_io := b \<rparr>] \<rparr>, ?sc)"
    by (rule pool_submit_accepted[OF len tier b(1)])
  have "p1 = demo_rings\<lparr> wp_rings := (wp_rings demo_rings)[0 := (wp_rings demo_rings ! 0)\<lparr> wk_io := b \<rparr>] \<rparr>"
    using p1(1) tls(2) by (simp add: park_on_pool_def global_pool_def Let_def tls(1) sub)
  then have "wk_io (wp_rings p1 ! 0) = b" "length (wp_results p1) = 4"
    using len by (simp_all add: demo_rings_def)
  moreover have "snd (ring (snd (flush_and_wait list_ring 1 b))) = [cqe_for 1]"
    using b(2) by (simp add: flush_and_wait_def enter_and_count_def list_ring_def)
  then have "cq_yields list_ring (ring (snd (flush_and_wait list_ring 1 b))) [cqe_for 1]"
    by (metis list_ring_yields prod.collapse)
  ultimately have hb: "hook_batch list_ring True 0 p1 [cqe_for 1]"
    by (simp add: hook_batch_def cqe_for_def completion_of_def as_gvthread_id_def)
  have "filter (\<lambda>c. as_gvthread_id (cqe_user_data c) = 1) [cqe_for 1] = [cqe_for 1]"
    by (simp add: cqe_for_def as_gvthread_id_def)
  from p1(2)[OF hb this] show ?thesis
    using p1(1) by (auto simp: io_hook_def cqe_for_def)
qed

end
