(* ===== verification/Gerror.thy ===== *)
theory Gerror
  imports Core_Types "HOL-Library.Char_ord" "HOL-Library.List_Lexorder"
begin

text \<open>
  The error crate \<open>gerror\<close>: identifiers, call sites, the two representations of an error, conversions from
  and to \<open>std::io::Error\<close>, the macros, and the per-site counters. The feature flags of the crate are a
  record; the texts that the standard library has for operating system errors are a parameter. The
  \<open>Debug\<close> renderings are left out.
\<close>

section \<open>Identifiers and sites (\<open>id.rs\<close>, \<open>site.rs\<close>)\<close>

record GlobalId =
  gid_name :: string
  gid_code :: u64

definition GlobalId_new :: "string \<Rightarrow> u64 \<Rightarrow> GlobalId" where
  "GlobalId_new nm code = \<lparr> gid_name = nm, gid_code = code \<rparr>"

definition UNSET :: GlobalId where
  "UNSET = GlobalId_new ''unset'' 0"

text \<open>Two identifiers are equal when their codes are.\<close>

definition gid_eq :: "GlobalId \<Rightarrow> GlobalId \<Rightarrow> bool" where
  "gid_eq a b \<longleftrightarrow> gid_code a = gid_code b"

record Features =
  production :: bool
  metrics :: bool
  backtrace :: bool

definition GlobalId_display :: "Features \<Rightarrow> GlobalId \<Rightarrow> string" where
  "GlobalId_display ft g = (if production ft then show_nat (unat (gid_code g)) else gid_name g)"

type_synonym SiteId = u64

definition SiteId_new :: "u32 \<Rightarrow> u32 \<Rightarrow> SiteId" where
  "SiteId_new counter_index unique_id = push_bit 32 (ucast counter_index) OR ucast unique_id"

definition counter_index :: "SiteId \<Rightarrow> u32" where
  "counter_index s = ucast (drop_bit 32 s)"

definition unique_id :: "SiteId \<Rightarrow> u32" where
  "unique_id s = ucast s"

definition site_is_none :: "SiteId \<Rightarrow> bool" where
  "site_is_none s \<longleftrightarrow> s = 0"

text \<open>The hexadecimal rendering with its prefix.\<close>

definition hex_char :: "nat \<Rightarrow> char" where
  "hex_char d = (if d < 10 then char_of (48 + d) else char_of (87 + d))"

fun hex_digits :: "nat \<Rightarrow> string" where
  "hex_digits n = (if n < 16 then [hex_char n] else hex_digits (n div 16) @ [hex_char (n mod 16)])"

declare hex_digits.simps [simp del]

definition SiteId_display :: "SiteId \<Rightarrow> string" where
  "SiteId_display s =
     (if site_is_none s then ''site:none''
      else ''site:0x'' @ hex_digits (unat (counter_index s)) @ '':0x'' @ hex_digits (unat (unique_id s)))"

section \<open>Errors (\<open>context.rs\<close>, \<open>error.rs\<close>)\<close>

datatype ErrorKind =
    NotFound | PermissionDenied | ConnectionRefused | ConnectionReset | ConnectionAborted | NotConnected
  | AddrInUse | AddrNotAvailable | BrokenPipe | AlreadyExists | WouldBlock | InvalidInput | InvalidData
  | TimedOut | Interrupted | UnexpectedEof | OutOfMemory | OtherKind | UnlistedKind nat

text \<open>
  \<open>DynError\<close> is a boxed error: one of this crate, one of \<open>std::io\<close>, or any other, known by its text.
\<close>

datatype GError =
    Simple (sm_system: GlobalId) (sm_error_code: GlobalId) (sm_user_code: GlobalId) (sm_site_id: SiteId)
  | Full (fl_ctx: ErrorContext)
and ErrorContext = ErrorContext
    (ec_app: GlobalId) (ec_system: GlobalId) (ec_subsystem: GlobalId) (ec_error_code: GlobalId) (ec_user_code: GlobalId)
    (ec_site_id: SiteId) (ec_message: string) (ec_file: string) (ec_line: u32)
    (ec_metadata: "(string \<times> string) list option") (ec_source: "DynError option") (ec_backtrace: "string option")
and DynError = FromGError GError | FromIo IoError | FromOther string
and IoError = IoOs i32 | IoKind ErrorKind | IoCustom ErrorKind DynError

definition ErrorContext_default :: ErrorContext where
  "ErrorContext_default = ErrorContext UNSET UNSET UNSET UNSET UNSET 0 [] [] 0 None None None"

fun with_source :: "DynError \<Rightarrow> ErrorContext \<Rightarrow> ErrorContext" where
  "with_source e (ErrorContext a s b c u site msg fl ln md src bt) = ErrorContext a s b c u site msg fl ln md (Some e) bt"

text \<open>The metadata are an ordered map: insertion replaces the value of a key it has.\<close>

fun meta_insert :: "string \<Rightarrow> string \<Rightarrow> (string \<times> string) list \<Rightarrow> (string \<times> string) list" where
  "meta_insert k v [] = [(k, v)]"
| "meta_insert k v ((k', v') # kvs) =
     (if k = k' then (k, v) # kvs
      else if k < k' then (k, v) # (k', v') # kvs
      else (k', v') # meta_insert k v kvs)"

fun with_meta :: "string \<Rightarrow> string \<Rightarrow> ErrorContext \<Rightarrow> ErrorContext" where
  "with_meta k v (ErrorContext a s b c u site msg fl ln md src bt) =
     ErrorContext a s b c u site msg fl ln (Some (meta_insert k v (case md of None \<Rightarrow> [] | Some m \<Rightarrow> m))) src bt"

fun capture_backtrace :: "string \<Rightarrow> ErrorContext \<Rightarrow> ErrorContext" where
  "capture_backtrace trace (ErrorContext a s b c u site msg fl ln md src bt) =
     ErrorContext a s b c u site msg fl ln md src (case bt of None \<Rightarrow> Some trace | Some t \<Rightarrow> Some t)"

text \<open>Accessors.\<close>

fun system :: "GError \<Rightarrow> GlobalId" where
  "system (Simple s e u site) = s"
| "system (Full ctx) = ec_system ctx"

fun error_code :: "GError \<Rightarrow> GlobalId" where
  "error_code (Simple s e u site) = e"
| "error_code (Full ctx) = ec_error_code ctx"

fun user_code :: "GError \<Rightarrow> GlobalId" where
  "user_code (Simple s e u site) = u"
| "user_code (Full ctx) = ec_user_code ctx"

fun kind :: "GError \<Rightarrow> GlobalId \<times> GlobalId \<times> GlobalId" where
  "kind (Simple s e u site) = (s, e, u)"
| "kind (Full ctx) = (ec_system ctx, ec_error_code ctx, ec_user_code ctx)"

fun subsystem :: "GError \<Rightarrow> GlobalId" where
  "subsystem (Simple s e u site) = UNSET"
| "subsystem (Full ctx) = ec_subsystem ctx"

fun site_id :: "GError \<Rightarrow> SiteId" where
  "site_id (Simple s e u site) = site"
| "site_id (Full ctx) = ec_site_id ctx"

fun is_simple :: "GError \<Rightarrow> bool" where
  "is_simple (Simple s e u site) = True"
| "is_simple (Full ctx) = False"

fun gerror_context :: "GError \<Rightarrow> ErrorContext option" where
  "gerror_context (Simple s e u site) = None"
| "gerror_context (Full ctx) = Some ctx"

fun into_context :: "GError \<Rightarrow> ErrorContext" where
  "into_context (Simple s e u site) = ErrorContext UNSET s UNSET e u site [] [] 0 None None None"
| "into_context (Full ctx) = ctx"

fun gerror_source :: "GError \<Rightarrow> DynError option" where
  "gerror_source (Simple s e u site) = None"
| "gerror_source (Full ctx) = ec_source ctx"

text \<open>
  \<open>Display\<close>. The texts of the standard library: of an operating system error and of an error kind.
\<close>

record StdIo =
  os_kind :: "i32 \<Rightarrow> ErrorKind"
  os_text :: "i32 \<Rightarrow> string"
  kind_text :: "ErrorKind \<Rightarrow> string"

definition em_dash :: string where
  "em_dash = [CHR 0xE2, CHR 0x80, CHR 0x94]"

fun GError_display :: "StdIo \<Rightarrow> Features \<Rightarrow> GError \<Rightarrow> string"
  and ctx_display :: "StdIo \<Rightarrow> Features \<Rightarrow> ErrorContext \<Rightarrow> string"
  and dyn_display :: "StdIo \<Rightarrow> Features \<Rightarrow> DynError \<Rightarrow> string"
  and io_display :: "StdIo \<Rightarrow> Features \<Rightarrow> IoError \<Rightarrow> string" where
  "GError_display io ft (Simple s e u site) =
     ''['' @ GlobalId_display ft s @ ''/'' @ GlobalId_display ft e @ ''] '' @ GlobalId_display ft u @
     (if site_is_none site then [] else '' ('' @ SiteId_display site @ '')'')"
| "GError_display io ft (Full ctx) = ctx_display io ft ctx"
| "ctx_display io ft (ErrorContext a s b e u site msg fl ln md src bt) =
     ''['' @ GlobalId_display ft s @ ''/'' @ GlobalId_display ft b @ ''/'' @ GlobalId_display ft e @ ''] '' @ GlobalId_display ft u @
     (if \<not> production ft \<and> msg \<noteq> [] then '': '' @ msg else []) @
     (if site_is_none site then [] else '' ('' @ SiteId_display site @ '')'') @
     (case src of None \<Rightarrow> [] | Some d \<Rightarrow> '' '' @ em_dash @ '' caused by: '' @ dyn_display io ft d) @
     (if \<not> production ft \<and> fl \<noteq> [] then '' at '' @ fl @ '':'' @ show_nat (unat ln) else [])"
| "dyn_display io ft (FromGError e) = GError_display io ft e"
| "dyn_display io ft (FromIo e) = io_display io ft e"
| "dyn_display io ft (FromOther msg) = msg"
| "io_display io ft (IoOs n) = os_text io n @ '' (os error '' @ show_i32 n @ '')''"
| "io_display io ft (IoKind k) = kind_text io k"
| "io_display io ft (IoCustom k d) = dyn_display io ft d"

section \<open>Counters and registry (\<open>metrics.rs\<close>)\<close>

abbreviation MAX_SITES :: nat where "MAX_SITES \<equiv> 65536"

record SiteInfo =
  si_counter_index :: u32
  si_unique_id :: u32
  si_subsystem :: string
  si_error_class :: string
  si_operation :: string
  si_description :: string
  si_recoverable :: bool
  si_action :: string

record Metrics =
  counters :: "u64 list"
  registry :: "SiteInfo list"

definition Metrics_initial :: Metrics where
  "Metrics_initial = \<lparr> counters = replicate MAX_SITES 0, registry = [] \<rparr>"

definition bump :: "SiteId \<Rightarrow> Metrics \<Rightarrow> u64 \<times> Metrics" where
  "bump site m =
     (let idx = unat (counter_index site) in
      if 0 < idx \<and> idx < MAX_SITES
      then (counters m ! idx, m\<lparr> counters := (counters m)[idx := counters m ! idx + 1] \<rparr>) else (0, m))"

definition site_count :: "SiteId \<Rightarrow> Metrics \<Rightarrow> u64" where
  "site_count site m = (let idx = unat (counter_index site) in if idx < MAX_SITES then counters m ! idx else 0)"

definition site_reset :: "SiteId \<Rightarrow> Metrics \<Rightarrow> u64 \<times> Metrics" where
  "site_reset site m =
     (let idx = unat (counter_index site) in
      if idx < MAX_SITES then (counters m ! idx, m\<lparr> counters := (counters m)[idx := 0] \<rparr>) else (0, m))"

definition reset_all :: "Metrics \<Rightarrow> Metrics" where
  "reset_all m = m\<lparr> counters := map (\<lambda>_. 0) (counters m) \<rparr>"

definition register_site :: "SiteInfo \<Rightarrow> Metrics \<Rightarrow> Metrics" where
  "register_site info m = m\<lparr> registry := registry m @ [info] \<rparr>"

definition site_info :: "u32 \<Rightarrow> Metrics \<Rightarrow> SiteInfo option" where
  "site_info idx m = find (\<lambda>s. si_counter_index s = idx) (registry m)"

record SiteSnapshot =
  ss_site_id :: SiteId
  ss_count :: u64
  ss_info :: "SiteInfo option"

definition dump :: "Metrics \<Rightarrow> SiteSnapshot list" where
  "dump m =
     map (\<lambda>idx. let info = site_info (of_nat idx) m in
            \<lparr> ss_site_id = SiteId_new (of_nat idx) (case info of None \<Rightarrow> 0 | Some i \<Rightarrow> si_unique_id i),
              ss_count = counters m ! idx, ss_info = info \<rparr>)
       (filter (\<lambda>idx. counters m ! idx > 0) [1..<MAX_SITES])"

definition quoted :: "string \<Rightarrow> string" where
  "quoted s = [CHR 0x22] @ s @ [CHR 0x22]"

definition prometheus_line :: "SiteSnapshot \<Rightarrow> string" where
  "prometheus_line snap =
     (let idx = show_nat (unat (counter_index (ss_site_id snap))) in
      (case ss_info snap of
         Some i \<Rightarrow>
           ''gerror_total{site='' @ quoted idx @ '',subsys='' @ quoted (si_subsystem i) @ '',class='' @ quoted (si_error_class i) @
           '',op='' @ quoted (si_operation i) @ '',recover='' @ quoted (if si_recoverable i then ''true'' else ''false'') @ ''} ''
       | None \<Rightarrow> ''gerror_total{site='' @ quoted idx @ ''} '') @ show_nat (unat (ss_count snap)) @ [CHR 0x0A])"

definition dump_prometheus :: "Metrics \<Rightarrow> string" where
  "dump_prometheus m =
     ''# HELP gerror_total Per-site error counter'' @ [CHR 0x0A] @ ''# TYPE gerror_total counter'' @ [CHR 0x0A] @
     concat (map prometheus_line (dump m))"

definition pad_left :: "nat \<Rightarrow> string \<Rightarrow> string" where
  "pad_left n s = replicate (n - length s) (CHR '' '') @ s"

definition pad_right :: "nat \<Rightarrow> string \<Rightarrow> string" where
  "pad_right n s = s @ replicate (n - length s) (CHR '' '')"

definition dump_line :: "SiteSnapshot \<Rightarrow> string" where
  "dump_line snap =
     ''['' @ pad_left 5 (show_nat (unat (counter_index (ss_site_id snap)))) @ ''] count='' @ pad_right 10 (show_nat (unat (ss_count snap))) @
     (case ss_info snap of
        Some i \<Rightarrow>
          '' subsys='' @ pad_right 20 (si_subsystem i) @ '' class='' @ pad_right 16 (si_error_class i) @
          '' op='' @ pad_right 12 (si_operation i) @ '' recover='' @ (if si_recoverable i then ''true'' else ''false'')
      | None \<Rightarrow> '' (unregistered)'') @ [CHR 0x0A]"

definition dump_string :: "Metrics \<Rightarrow> string" where
  "dump_string m = concat (map dump_line (dump m))"

text \<open>The macro \<open>register_error_site!\<close>: the metadata become a constant that nothing uses.\<close>

definition register_error_site :: "SiteInfo \<Rightarrow> Metrics \<Rightarrow> SiteId \<times> Metrics" where
  "register_error_site info m = (SiteId_new (si_counter_index info) (si_unique_id info), m)"

section \<open>Construction\<close>

definition GError_simple :: "GlobalId \<Rightarrow> GlobalId \<Rightarrow> GlobalId \<Rightarrow> GError" where
  "GError_simple s e u = Simple s e u 0"

definition GError_simple_site ::
  "Features \<Rightarrow> GlobalId \<Rightarrow> GlobalId \<Rightarrow> GlobalId \<Rightarrow> SiteId \<Rightarrow> Metrics \<Rightarrow> GError \<times> Metrics" where
  "GError_simple_site ft s e u site m = (Simple s e u site, if metrics ft then snd (bump site m) else m)"

definition GError_full :: "Features \<Rightarrow> ErrorContext \<Rightarrow> Metrics \<Rightarrow> GError \<times> Metrics" where
  "GError_full ft ctx m =
     (Full ctx, if metrics ft \<and> \<not> site_is_none (ec_site_id ctx) then snd (bump (ec_site_id ctx) m) else m)"

text \<open>
  The macro \<open>err!\<close> in its four forms: with or without a source, with field assignments \<open>upd\<close> or none.
\<close>

definition err_macro ::
  "Features \<Rightarrow> string \<Rightarrow> string \<Rightarrow> u32 \<Rightarrow> GlobalId \<Rightarrow> GlobalId \<Rightarrow> GlobalId \<Rightarrow> GlobalId \<Rightarrow> string \<Rightarrow>
   DynError option \<Rightarrow> (ErrorContext \<Rightarrow> ErrorContext) \<Rightarrow> Metrics \<Rightarrow> GError \<times> Metrics" where
  "err_macro ft trace fl ln s b e u msg src upd m =
     (let c0 = (if production ft then ErrorContext UNSET s b e u 0 [] [] 0 None None None
                else ErrorContext UNSET s b e u 0 msg fl ln None None None);
          c1 = (case src of None \<Rightarrow> c0 | Some d \<Rightarrow> with_source d c0);
          c2 = upd c1;
          c3 = (if backtrace ft then capture_backtrace trace c2 else c2)
      in GError_full ft c3 m)"

definition quick_err ::
  "Features \<Rightarrow> string \<Rightarrow> string \<Rightarrow> u32 \<Rightarrow> GlobalId \<Rightarrow> GlobalId \<Rightarrow> string \<Rightarrow> Metrics \<Rightarrow> GError \<times> Metrics" where
  "quick_err ft trace fl ln s e msg m = err_macro ft trace fl ln s UNSET e UNSET msg None id m"

definition ensure ::
  "Features \<Rightarrow> string \<Rightarrow> string \<Rightarrow> u32 \<Rightarrow> bool \<Rightarrow> GlobalId \<Rightarrow> GlobalId \<Rightarrow> GlobalId \<Rightarrow> GlobalId \<Rightarrow> string \<Rightarrow>
   Metrics \<Rightarrow> (GError, unit) result \<times> Metrics" where
  "ensure ft trace fl ln cond s b e u msg m =
     (if cond then (Ok (), m) else (case err_macro ft trace fl ln s b e u msg None id m of (g, m') \<Rightarrow> (Err g, m')))"

text \<open>The arms that the macro \<open>match_error!\<close> accepts; no arm left is a panic.\<close>

datatype 'h ErrorArm =
    AnyArm 'h | SystemArm GlobalId 'h | CodeArm GlobalId GlobalId 'h | ExactArm GlobalId GlobalId GlobalId 'h

fun match_error_arms :: "GlobalId \<Rightarrow> GlobalId \<Rightarrow> GlobalId \<Rightarrow> 'h ErrorArm list \<Rightarrow> 'h option" where
  "match_error_arms s e u [] = None"
| "match_error_arms s e u (AnyArm h # arms) = Some h"
| "match_error_arms s e u (SystemArm s' h # arms) =
     (if gid_code s = gid_code s' then Some h else match_error_arms s e u arms)"
| "match_error_arms s e u (CodeArm s' e' h # arms) =
     (if gid_code s = gid_code s' \<and> gid_code e = gid_code e' then Some h else match_error_arms s e u arms)"
| "match_error_arms s e u (ExactArm s' e' u' h # arms) =
     (if gid_code s = gid_code s' \<and> gid_code e = gid_code e' \<and> gid_code u = gid_code u' then Some h
      else match_error_arms s e u arms)"

definition match_error :: "GError \<Rightarrow> 'h ErrorArm list \<Rightarrow> 'h option" where
  "match_error err arms = (case kind err of (s, e, u) \<Rightarrow> match_error_arms s e u arms)"

section \<open>Conversions (\<open>convert.rs\<close>)\<close>

definition SYS_IO :: GlobalId where
  "SYS_IO = GlobalId_new ''io'' 100"

fun io_error_code :: "ErrorKind \<Rightarrow> GlobalId" where
  "io_error_code NotFound = GlobalId_new ''not_found'' 101"
| "io_error_code PermissionDenied = GlobalId_new ''permission_denied'' 102"
| "io_error_code ConnectionRefused = GlobalId_new ''conn_refused'' 103"
| "io_error_code ConnectionReset = GlobalId_new ''conn_reset'' 104"
| "io_error_code ConnectionAborted = GlobalId_new ''conn_aborted'' 105"
| "io_error_code NotConnected = GlobalId_new ''not_connected'' 106"
| "io_error_code AddrInUse = GlobalId_new ''addr_in_use'' 107"
| "io_error_code AddrNotAvailable = GlobalId_new ''addr_not_available'' 108"
| "io_error_code BrokenPipe = GlobalId_new ''broken_pipe'' 109"
| "io_error_code AlreadyExists = GlobalId_new ''already_exists'' 110"
| "io_error_code WouldBlock = GlobalId_new ''would_block'' 111"
| "io_error_code InvalidInput = GlobalId_new ''invalid_input'' 112"
| "io_error_code InvalidData = GlobalId_new ''invalid_data'' 113"
| "io_error_code TimedOut = GlobalId_new ''timed_out'' 114"
| "io_error_code Interrupted = GlobalId_new ''interrupted'' 115"
| "io_error_code UnexpectedEof = GlobalId_new ''unexpected_eof'' 116"
| "io_error_code OutOfMemory = GlobalId_new ''out_of_memory'' 117"
| "io_error_code OtherKind = GlobalId_new ''other'' 199"
| "io_error_code (UnlistedKind n) = GlobalId_new ''other'' 199"

fun io_kind :: "StdIo \<Rightarrow> IoError \<Rightarrow> ErrorKind" where
  "io_kind io (IoOs n) = os_kind io n"
| "io_kind io (IoKind k) = k"
| "io_kind io (IoCustom k d) = k"

fun raw_os_error :: "IoError \<Rightarrow> i32 option" where
  "raw_os_error (IoOs n) = Some n"
| "raw_os_error (IoKind k) = None"
| "raw_os_error (IoCustom k d) = None"

text \<open>The context of a converted error: a message outside of production, no location, the source.\<close>

definition convert_ctx :: "Features \<Rightarrow> GlobalId \<Rightarrow> GlobalId \<Rightarrow> GlobalId \<Rightarrow> string \<Rightarrow> DynError \<Rightarrow> ErrorContext" where
  "convert_ctx ft s e u msg d =
     with_source d (ErrorContext UNSET s UNSET e u 0 (if production ft then [] else msg) [] 0 None None None)"

definition GError_from_io :: "StdIo \<Rightarrow> Features \<Rightarrow> IoError \<Rightarrow> Metrics \<Rightarrow> GError \<times> Metrics" where
  "GError_from_io io ft err m =
     (let code = io_error_code (io_kind io err) in
      case raw_os_error err of
        Some _ \<Rightarrow> (GError_simple SYS_IO code UNSET, m)
      | None \<Rightarrow> GError_full ft (convert_ctx ft SYS_IO code UNSET (io_display io ft err) (FromIo err)) m)"

definition io_from_GError :: "GError \<Rightarrow> IoError" where
  "io_from_GError err = IoCustom OtherKind (FromGError err)"

definition gerr_ctx ::
  "Features \<Rightarrow> GlobalId \<Rightarrow> GlobalId \<Rightarrow> GlobalId \<Rightarrow> string \<Rightarrow> (DynError, 'a) result \<Rightarrow> Metrics \<Rightarrow> (GError, 'a) result \<times> Metrics" where
  "gerr_ctx ft s e u msg r m =
     (case r of
        Inr x \<Rightarrow> (Inr x, m)
      | Inl d \<Rightarrow> (case GError_full ft (convert_ctx ft s e u msg d) m of (g, m') \<Rightarrow> (Inl g, m')))"

definition gerr_context :: "Features \<Rightarrow> string \<Rightarrow> (DynError, 'a) result \<Rightarrow> Metrics \<Rightarrow> (GError, 'a) result \<times> Metrics" where
  "gerr_context ft msg r m = gerr_ctx ft SYS_IO UNSET UNSET msg r m"

section \<open>Sites\<close>

lemma site_parts [simp]:
  "counter_index (SiteId_new c n) = c" "unique_id (SiteId_new c n) = n"
  unfolding counter_index_def unique_id_def SiteId_new_def
  by (intro bit_eqI; auto simp: bit_simps dest: bit_imp_le_length)+

lemma site_eta: "SiteId_new (counter_index s) (unique_id s) = s"
  unfolding counter_index_def unique_id_def SiteId_new_def by (intro bit_eqI) (auto simp: bit_simps)

section \<open>Counting\<close>

text \<open>The calls that make an error, and the site each one names.\<close>

datatype Make =
    MakeSimple GlobalId GlobalId GlobalId
  | MakeSite GlobalId GlobalId GlobalId SiteId
  | MakeFull ErrorContext

fun make :: "Features \<Rightarrow> Make \<Rightarrow> Metrics \<Rightarrow> GError \<times> Metrics" where
  "make ft (MakeSimple s e u) m = (GError_simple s e u, m)"
| "make ft (MakeSite s e u site) m = GError_simple_site ft s e u site m"
| "make ft (MakeFull ctx) m = GError_full ft ctx m"

fun made_site :: "Make \<Rightarrow> SiteId" where
  "made_site (MakeSimple s e u) = 0"
| "made_site (MakeSite s e u site) = site"
| "made_site (MakeFull ctx) = ec_site_id ctx"

fun make_all :: "Features \<Rightarrow> Make list \<Rightarrow> Metrics \<Rightarrow> Metrics" where
  "make_all ft [] m = m"
| "make_all ft (c # cs) m = make_all ft cs (snd (make ft c m))"

lemma make_site: "site_id (fst (make ft c m)) = made_site c"
  by (cases c) (simp_all add: GError_simple_def GError_simple_site_def GError_full_def)

lemma counter_index_none [simp]: "counter_index 0 = 0"
  by (simp add: counter_index_def)

lemma make_metrics: "snd (make ft c m) = (if metrics ft then snd (bump (made_site c) m) else m)"
  by (cases c) (auto simp: GError_simple_site_def GError_full_def bump_def site_is_none_def)

lemma bump_counters:
  "length (counters m) = MAX_SITES \<Longrightarrow> 0 < k \<Longrightarrow> k < MAX_SITES \<Longrightarrow>
   length (counters (snd (bump site m))) = MAX_SITES \<and>
   counters (snd (bump site m)) ! k = counters m ! k + (if unat (counter_index site) = k then 1 else 0)"
  by (simp add: bump_def Let_def nth_list_update)

text \<open>
  with the counters built in, each counter in range grows by exactly the number of errors made at its
  site, modulo \<open>2^64\<close>; without them nothing is counted.
\<close>

theorem error_counts_exact:
  assumes "length (counters m) = MAX_SITES" "0 < k" "k < MAX_SITES"
  shows "counters (make_all ft cs m) ! k = counters m ! k +
    (if metrics ft then of_nat (length (filter (\<lambda>c. unat (counter_index (made_site c)) = k) cs)) else 0)"
  using assms
proof (induction cs arbitrary: m)
  case (Cons c cs)
  show ?case
    using Cons.IH[of "snd (make ft c m)"] Cons.prems bump_counters[OF Cons.prems, of "made_site c"]
    by (simp add: make_metrics)
qed simp

definition demo_site :: SiteId where
  "demo_site = SiteId_new 5 1"

theorem error_counts_exact_witness:
  "counters (make_all \<lparr> production = False, metrics = True, backtrace = False \<rparr>
      [MakeSite SYS_IO UNSET UNSET demo_site, MakeSimple SYS_IO UNSET UNSET, MakeSite UNSET UNSET UNSET demo_site] Metrics_initial) ! 5 = 2"
  using error_counts_exact[of Metrics_initial 5 "\<lparr> production = False, metrics = True, backtrace = False \<rparr>"
      "[MakeSite SYS_IO UNSET UNSET demo_site, MakeSimple SYS_IO UNSET UNSET, MakeSite UNSET UNSET UNSET demo_site]"]
  by (simp add: Metrics_initial_def demo_site_def)

text \<open>
  the sites that the documentation gives to applications, with a counter index of 0x10000 or more, are
  beyond the end of the counter array: errors made at them are never counted and never dumped.
\<close>

theorem user_sites_never_counted:
  assumes "\<forall>c \<in> set cs. counter_index (made_site c) \<ge> 0x10000"
  shows "make_all ft cs m = m \<and> (\<forall>c \<in> set cs. site_count (made_site c) (make_all ft cs m) = 0)"
proof -
  have r: "\<not> unat (counter_index (made_site c)) < MAX_SITES" if "c \<in> set cs" for c
    using assms that by (auto simp: word_le_nat_alt not_less)
  have "make_all ft cs m = m"
    using r by (induction cs) (simp_all add: make_metrics bump_def)
  then show ?thesis
    using r by (simp add: site_count_def)
qed

theorem user_sites_never_counted_witness:
  "site_count (SiteId_new 0x10000 7)
     (make_all \<lparr> production = False, metrics = True, backtrace = False \<rparr> [MakeSite SYS_IO UNSET UNSET (SiteId_new 0x10000 7)] Metrics_initial) = 0"
  using user_sites_never_counted[of "[MakeSite SYS_IO UNSET UNSET (SiteId_new 0x10000 7)]"
      "\<lparr> production = False, metrics = True, backtrace = False \<rparr>" Metrics_initial] by (auto simp del: make_all.simps)

text \<open>A site declared by the macro is unknown to the registry, so a dump calls it unregistered.\<close>

lemma declared_site_unregistered:
  "register_error_site info Metrics_initial = (site, m) \<Longrightarrow> site_info (counter_index site) m = None"
  by (auto simp: register_error_site_def site_info_def Metrics_initial_def)

text \<open>The dump has one entry for each counter that is not zero, in the order of the index.\<close>

lemma dump_indices:
  "map (\<lambda>s. unat (counter_index (ss_site_id s))) (dump m) = filter (\<lambda>k. counters m ! k > 0) [1..<MAX_SITES]"
proof -
  have "unat (of_nat k :: u32) = k" if "k \<in> set (filter (\<lambda>k. counters m ! k > 0) [1..<MAX_SITES])" for k
    using that by (intro unat_of_nat_lt) simp
  then have "map (\<lambda>k. unat (of_nat k :: u32)) (filter (\<lambda>k. counters m ! k > 0) [1..<MAX_SITES]) =
      filter (\<lambda>k. counters m ! k > 0) [1..<MAX_SITES]"
    by (intro map_idI) blast
  then show ?thesis
    by (simp add: dump_def Let_def comp_def)
qed

section \<open>Matching and conversion\<close>

fun arm_matches :: "GlobalId \<times> GlobalId \<times> GlobalId \<Rightarrow> 'h ErrorArm \<Rightarrow> bool" where
  "arm_matches k (AnyArm h) = True"
| "arm_matches (s, e, u) (SystemArm s' h) = gid_eq s s'"
| "arm_matches (s, e, u) (CodeArm s' e' h) = (gid_eq s s' \<and> gid_eq e e')"
| "arm_matches (s, e, u) (ExactArm s' e' u' h) = (gid_eq s s' \<and> gid_eq e e' \<and> gid_eq u u')"

fun arm_handler :: "'h ErrorArm \<Rightarrow> 'h" where
  "arm_handler (AnyArm h) = h"
| "arm_handler (SystemArm s h) = h"
| "arm_handler (CodeArm s e h) = h"
| "arm_handler (ExactArm s e u h) = h"

text \<open>
  matching an error takes the handler of the first arm whose identifiers all equal those of the error, and
  panics exactly when no arm matches; wrapping the error into a full one changes nothing.
\<close>

theorem match_error_first:
  "match_error err arms = map_option arm_handler (find (arm_matches (kind err)) arms) \<and>
   match_error (Full (into_context err)) arms = match_error err arms"
proof -
  have "match_error_arms s e u arms = map_option arm_handler (find (arm_matches (s, e, u)) arms)" for s e u
    by (induction s e u arms rule: match_error_arms.induct) (simp_all add: gid_eq_def)
  moreover have "kind (Full (into_context err)) = kind err"
    by (cases err) simp_all
  ultimately show ?thesis
    by (simp add: match_error_def split: prod.splits)
qed

text \<open>The number of an operating system error does not survive the conversion.\<close>

lemma os_error_lost:
  "os_kind io a = os_kind io b \<Longrightarrow> GError_from_io io ft (IoOs a) m = GError_from_io io ft (IoOs b) m"
  by (simp add: GError_from_io_def)

text \<open>An error that went through \<open>std::io::Error\<close> and back is the source of the result, under the code for other errors.\<close>

lemma io_round_trip:
  "\<exists>g m'. GError_from_io io ft (io_from_GError err) m = (g, m') \<and>
     gerror_source g = Some (FromIo (IoCustom OtherKind (FromGError err))) \<and> gid_code (error_code g) = 199 \<and> m' = m"
  by (simp add: GError_from_io_def io_from_GError_def GError_full_def convert_ctx_def site_is_none_def GlobalId_new_def)

end
