(* ===== verification/Echo.thy ===== *)
theory Echo
  imports Io_Uring Conn_Slab
begin

text \<open>
  The echo server \<open>cmd/echo/rust/ksvc/src/main.rs\<close>: connections, submissions and the handler of every
  completion, then the server against a kernel that completes the pending operations in any order. What a
  peer gets back is what it sent as long as the kernel takes every send in full. \<open>None\<close> is a panic; the
  results of the submissions are ignored by the code; socket set-up, statistics printing and signals are
  left out.
\<close>

section \<open>Connections\<close>

abbreviation ECHO_BUF :: usize where "ECHO_BUF \<equiv> 4096"

record EchoConn =
  eo_fd :: i32
  eo_buf :: string
  eo_pending :: usize

definition EchoConn_new :: "i32 \<Rightarrow> EchoConn" where
  "EchoConn_new fd = \<lparr> eo_fd = fd, eo_buf = replicate ECHO_BUF (CHR 0x00), eo_pending = 0 \<rparr>"

definition echo_slab :: "usize \<Rightarrow> EchoConn Slab" where
  "echo_slab n = \<lparr> slots = replicate n None, slab_free = [0..<n] \<rparr>"

definition echo_alloc :: "i32 \<Rightarrow> EchoConn Slab \<Rightarrow> usize option \<times> EchoConn Slab" where
  "echo_alloc fd sl =
     (case slab_free sl of
        [] \<Rightarrow> (None, sl)
      | idx # fr \<Rightarrow> (Some idx, \<lparr> slots = (slots sl)[idx := Some (EchoConn_new fd)], slab_free = fr \<rparr>))"

definition echo_get :: "usize \<Rightarrow> EchoConn Slab \<Rightarrow> EchoConn option" where
  "echo_get idx sl = (if idx < length (slots sl) then slots sl ! idx else None)"

definition echo_put :: "usize \<Rightarrow> EchoConn \<Rightarrow> EchoConn Slab \<Rightarrow> EchoConn Slab" where
  "echo_put idx c sl = sl\<lparr> slots := (slots sl)[idx := Some c] \<rparr>"

definition echo_free :: "usize \<Rightarrow> EchoConn Slab \<Rightarrow> EchoConn Slab option" where
  "echo_free idx sl =
     (if idx < length (slots sl)
      then Some \<lparr> slots = (slots sl)[idx := None], slab_free = idx # slab_free sl \<rparr> else None)"

definition echo_active :: "EchoConn Slab \<Rightarrow> usize" where
  "echo_active sl = length (filter (\<lambda>s. s \<noteq> None) (slots sl))"

record EchoStats =
  eo_accepts :: u64
  eo_recvs :: u64
  eo_sends :: u64
  eo_closes :: u64
  eo_bytes_in :: u64
  eo_bytes_out :: u64
  eo_errors :: u64

definition EchoStats_new :: EchoStats where
  "EchoStats_new =
     \<lparr> eo_accepts = 0, eo_recvs = 0, eo_sends = 0, eo_closes = 0, eo_bytes_in = 0, eo_bytes_out = 0, eo_errors = 0 \<rparr>"

section \<open>Submissions\<close>

abbreviation EO_ACCEPT :: u64 where "EO_ACCEPT \<equiv> 0x100000000000000"
abbreviation EO_RECV :: u64 where "EO_RECV \<equiv> 0x200000000000000"
abbreviation EO_SEND :: u64 where "EO_SEND \<equiv> 0x300000000000000"
abbreviation EO_CLOSE :: u64 where "EO_CLOSE \<equiv> 0x400000000000000"

definition echo_make_id :: "u64 \<Rightarrow> usize \<Rightarrow> CorrId" where
  "echo_make_id oper idx = oper OR of_nat idx"

definition echo_decode_op :: "CorrId \<Rightarrow> u64" where
  "echo_decode_op cid = cid AND 0xFF00000000000000"

definition echo_decode_idx :: "CorrId \<Rightarrow> usize" where
  "echo_decode_idx cid = unat (cid AND 0xFFFFFFFFFFFFFF)"

text \<open>The listener, the address buffers and the address of each connection's buffer.\<close>

record EchoCfg =
  eo_listener :: i32
  eo_addr :: u64
  eo_addr_len :: u64
  eo_buf_addr :: "usize \<Rightarrow> u64"

definition echo_entry :: "u64 \<Rightarrow> usize \<Rightarrow> u32 \<Rightarrow> u64 list \<Rightarrow> SubmitEntry" where
  "echo_entry oper idx syscall_nr args =
     \<lparr> sb_corr_id = echo_make_id oper idx, sb_syscall_nr = syscall_nr, sb_flags = 0, sb_args = args \<rparr>"

definition echo_accept :: "EchoCfg \<Rightarrow> SubmitEntry" where
  "echo_accept cfg =
     echo_entry EO_ACCEPT 0 288 [scast (eo_listener cfg), eo_addr cfg, eo_addr_len cfg, 0x80000, 0, 0]"

definition echo_recv :: "EchoCfg \<Rightarrow> EchoConn \<Rightarrow> usize \<Rightarrow> SubmitEntry" where
  "echo_recv cfg c idx = echo_entry EO_RECV idx 45 [scast (eo_fd c), eo_buf_addr cfg idx, of_nat ECHO_BUF, 0, 0, 0]"

definition echo_send :: "EchoCfg \<Rightarrow> EchoConn \<Rightarrow> usize \<Rightarrow> SubmitEntry" where
  "echo_send cfg c idx = echo_entry EO_SEND idx 44 [scast (eo_fd c), eo_buf_addr cfg idx, of_nat (eo_pending c), 0, 0, 0]"

definition echo_close :: "i32 \<Rightarrow> usize \<Rightarrow> SubmitEntry" where
  "echo_close fd idx = echo_entry EO_CLOSE idx 3 [scast fd, 0, 0, 0, 0, 0]"

section \<open>Completions\<close>

text \<open>\<open>eo_closed\<close> records the descriptors closed on the spot because the slab was full; \<open>running\<close> is the flag.\<close>

record Echo =
  eo_conns :: "EchoConn Slab"
  eo_stats :: EchoStats
  eo_closed :: "i32 list"

abbreviation eo_stat :: "(EchoStats \<Rightarrow> EchoStats) \<Rightarrow> Echo \<Rightarrow> Echo" where
  "eo_stat f st \<equiv> st\<lparr> eo_stats := f (eo_stats st) \<rparr>"

definition echo_on_accept :: "EchoCfg \<Rightarrow> bool \<Rightarrow> i64 \<Rightarrow> Echo \<Rightarrow> Echo \<times> SubmitEntry list" where
  "echo_on_accept cfg running result st =
     (if sint result < 0 then
        (eo_stat (\<lambda>s. s\<lparr> eo_errors := eo_errors s + 1 \<rparr>) st, if running then [echo_accept cfg] else [])
      else
        let st1 = eo_stat (\<lambda>s. s\<lparr> eo_accepts := eo_accepts s + 1 \<rparr>) st in
        case echo_alloc (ucast result) (eo_conns st1) of
          (Some cidx, sl) \<Rightarrow>
            (st1\<lparr> eo_conns := sl \<rparr>,
             (case echo_get cidx sl of None \<Rightarrow> [] | Some c \<Rightarrow> [echo_recv cfg c cidx]) @ [echo_accept cfg])
        | (None, sl) \<Rightarrow>
            (eo_stat (\<lambda>s. s\<lparr> eo_errors := eo_errors s + 1 \<rparr>)
               (st1\<lparr> eo_conns := sl, eo_closed := eo_closed st1 @ [ucast result] \<rparr>), [echo_accept cfg]))"

definition echo_start_close :: "usize \<Rightarrow> Echo \<Rightarrow> SubmitEntry list" where
  "echo_start_close idx st = (case echo_get idx (eo_conns st) of None \<Rightarrow> [] | Some c \<Rightarrow> [echo_close (eo_fd c) idx])"

definition echo_on_recv :: "EchoCfg \<Rightarrow> usize \<Rightarrow> i64 \<Rightarrow> Echo \<Rightarrow> Echo \<times> SubmitEntry list" where
  "echo_on_recv cfg idx result st =
     (if sint result \<le> 0 then (eo_stat (\<lambda>s. s\<lparr> eo_closes := eo_closes s + 1 \<rparr>) st, echo_start_close idx st)
      else
        let st1 = eo_stat (\<lambda>s. s\<lparr> eo_recvs := eo_recvs s + 1, eo_bytes_in := eo_bytes_in s + result \<rparr>) st in
        case echo_get idx (eo_conns st1) of
          None \<Rightarrow> (st1, [])
        | Some c \<Rightarrow>
            let c1 = c\<lparr> eo_pending := unat result \<rparr>
            in (st1\<lparr> eo_conns := echo_put idx c1 (eo_conns st1) \<rparr>, [echo_send cfg c1 idx]))"

definition echo_on_send :: "EchoCfg \<Rightarrow> usize \<Rightarrow> i64 \<Rightarrow> Echo \<Rightarrow> Echo \<times> SubmitEntry list" where
  "echo_on_send cfg idx result st =
     (if sint result \<le> 0 then (eo_stat (\<lambda>s. s\<lparr> eo_errors := eo_errors s + 1 \<rparr>) st, echo_start_close idx st)
      else
        let st1 = eo_stat (\<lambda>s. s\<lparr> eo_sends := eo_sends s + 1, eo_bytes_out := eo_bytes_out s + result \<rparr>) st in
        (st1, case echo_get idx (eo_conns st1) of None \<Rightarrow> [] | Some c \<Rightarrow> [echo_recv cfg c idx]))"

definition echo_on_close :: "usize \<Rightarrow> Echo \<Rightarrow> (Echo \<times> SubmitEntry list) option" where
  "echo_on_close idx st = map_option (\<lambda>sl. (st\<lparr> eo_conns := sl \<rparr>, [])) (echo_free idx (eo_conns st))"

definition echo_cqe :: "EchoCfg \<Rightarrow> bool \<Rightarrow> IoCompletion \<Rightarrow> Echo \<Rightarrow> (Echo \<times> SubmitEntry list) option" where
  "echo_cqe cfg running cqe st =
     (let oper = echo_decode_op (ioc_corr_id cqe); idx = echo_decode_idx (ioc_corr_id cqe); result = ioc_result cqe in
      if oper = EO_ACCEPT then Some (echo_on_accept cfg running result st)
      else if oper = EO_RECV then Some (echo_on_recv cfg idx result st)
      else if oper = EO_SEND then Some (echo_on_send cfg idx result st)
      else if oper = EO_CLOSE then echo_on_close idx st
      else Some (st, []))"

section \<open>The event loop\<close>

definition echo_submit :: "'r Uring \<Rightarrow> ProbeRouter \<Rightarrow> SubmitEntry list \<Rightarrow> 'r BasicIoUring \<Rightarrow> 'r BasicIoUring" where
  "echo_submit u rt es b =
     fold (\<lambda>e b. snd (submit_with_opcode u e (iouring_opcode (route rt (sb_syscall_nr e))) b)) es b"

fun echo_batch ::
  "'r Uring \<Rightarrow> ProbeRouter \<Rightarrow> EchoCfg \<Rightarrow> IoCompletion list \<Rightarrow> Echo \<Rightarrow> 'r BasicIoUring \<Rightarrow> (Echo \<times> 'r BasicIoUring) option" where
  "echo_batch u rt cfg [] st b = Some (st, b)"
| "echo_batch u rt cfg (c # cs) st b =
     (case echo_cqe cfg True c st of
        None \<Rightarrow> None
      | Some (st1, es) \<Rightarrow> echo_batch u rt cfg cs st1 (echo_submit u rt es b))"

text \<open>One turn of the loop while the running flag is set, and what \<open>main\<close> does before the first.\<close>

definition echo_turn ::
  "'r Uring \<Rightarrow> ProbeRouter \<Rightarrow> EchoCfg \<Rightarrow> Echo \<Rightarrow> 'r BasicIoUring \<Rightarrow> (Echo \<times> 'r BasicIoUring) option" where
  "echo_turn u rt cfg st b =
     (case iouring_poll_completions u 64 64 (snd (flush_and_wait u 1 b)) of
        (cs, b1) \<Rightarrow> echo_batch u rt cfg cs st b1)"

definition echo_start :: "'r Uring \<Rightarrow> ProbeRouter \<Rightarrow> EchoCfg \<Rightarrow> usize \<Rightarrow> 'r BasicIoUring \<Rightarrow> Echo \<times> 'r BasicIoUring" where
  "echo_start u rt cfg max_conns b =
     (\<lparr> eo_conns = echo_slab max_conns, eo_stats = EchoStats_new, eo_closed = [] \<rparr>,
      snd (iouring_flush u (echo_submit u rt [echo_accept cfg] b)))"

section \<open>The kernel's side\<close>

text \<open>
  Besides the server and its pending operations: what each connection has received and sent so far. With
  \<open>full\<close>, the kernel takes a send completely or fails it.
\<close>

record EchoSys =
  es_state :: Echo
  es_pending :: "SubmitEntry multiset"
  es_in :: "usize \<Rightarrow> string"
  es_out :: "usize \<Rightarrow> string"

abbreviation store_data :: "string \<Rightarrow> EchoConn \<Rightarrow> EchoConn" where
  "store_data dat c \<equiv> c\<lparr> eo_buf := dat @ drop (length dat) (eo_buf c) \<rparr>"

inductive echo_step :: "bool \<Rightarrow> EchoCfg \<Rightarrow> EchoSys \<Rightarrow> EchoSys \<Rightarrow> bool" for full cfg where
  Accept: "echo_accept cfg \<in># es_pending s \<Longrightarrow> echo_on_accept cfg True result (es_state s) = (st, es) \<Longrightarrow>
    new = (if length es = 2 then {hd (slab_free (eo_conns (es_state s)))} else {}) \<Longrightarrow>
    echo_step full cfg s
      \<lparr> es_state = st, es_pending = es_pending s - {# echo_accept cfg #} + mset es,
        es_in = (\<lambda>i. if i \<in> new then [] else es_in s i), es_out = (\<lambda>i. if i \<in> new then [] else es_out s i) \<rparr>"
| Received: "e \<in># es_pending s \<Longrightarrow> e = echo_recv cfg c idx \<Longrightarrow> echo_get idx (eo_conns (es_state s)) = Some c \<Longrightarrow>
    0 < length dat \<Longrightarrow> length dat \<le> ECHO_BUF \<Longrightarrow>
    st1 = (es_state s)\<lparr> eo_conns := echo_put idx (store_data dat c) (eo_conns (es_state s)) \<rparr> \<Longrightarrow>
    echo_cqe cfg True \<lparr> ioc_corr_id = sb_corr_id e, ioc_result = of_nat (length dat), ioc_flags = 0 \<rparr> st1 = Some (st, es) \<Longrightarrow>
    echo_step full cfg s
      \<lparr> es_state = st, es_pending = es_pending s - {# e #} + mset es,
        es_in = (es_in s)(idx := es_in s idx @ dat), es_out = es_out s \<rparr>"
| Sent: "e \<in># es_pending s \<Longrightarrow> e = echo_send cfg c idx \<Longrightarrow> echo_get idx (eo_conns (es_state s)) = Some c \<Longrightarrow>
    0 < n \<Longrightarrow> n \<le> eo_pending c \<Longrightarrow> (full \<longrightarrow> n = eo_pending c) \<Longrightarrow>
    echo_cqe cfg True \<lparr> ioc_corr_id = sb_corr_id e, ioc_result = of_nat n, ioc_flags = 0 \<rparr> (es_state s) = Some (st, es) \<Longrightarrow>
    echo_step full cfg s
      \<lparr> es_state = st, es_pending = es_pending s - {# e #} + mset es,
        es_in = es_in s, es_out = (es_out s)(idx := es_out s idx @ take n (eo_buf c)) \<rparr>"
| Other: "e \<in># es_pending s \<Longrightarrow> e \<noteq> echo_accept cfg \<Longrightarrow>
    sint result \<le> 0 \<or> echo_decode_op (sb_corr_id e) = EO_CLOSE \<Longrightarrow>
    echo_cqe cfg True \<lparr> ioc_corr_id = sb_corr_id e, ioc_result = result, ioc_flags = 0 \<rparr> (es_state s) = Some (st, es) \<Longrightarrow>
    echo_step full cfg s \<lparr> es_state = st, es_pending = es_pending s - {# e #} + mset es, es_in = es_in s, es_out = es_out s \<rparr>"

definition echo_init :: "EchoCfg \<Rightarrow> usize \<Rightarrow> EchoSys" where
  "echo_init cfg n =
     \<lparr> es_state = \<lparr> eo_conns = echo_slab n, eo_stats = EchoStats_new, eo_closed = [] \<rparr>,
       es_pending = {# echo_accept cfg #}, es_in = (\<lambda>i. []), es_out = (\<lambda>i. []) \<rparr>"

section \<open>Decoding\<close>

lemma echo_index_bits:
  assumes "i < 2 ^ 56"
  shows "(of_nat i :: u64) AND 0xFFFFFFFFFFFFFF = of_nat i" "(of_nat i :: u64) AND 0xFF00000000000000 = 0"
proof -
  have "(of_nat i :: u64) AND mask 56 = of_nat i"
    using assms by (simp add: take_bit_eq_mask[symmetric] take_bit_of_nat take_bit_nat_eq_self)
  then show m: "(of_nat i :: u64) AND 0xFFFFFFFFFFFFFF = of_nat i"
    by (simp add: mask_eq_exp_minus_1)
  have "(of_nat i :: u64) AND 0xFF00000000000000 = of_nat i AND (0xFFFFFFFFFFFFFF AND 0xFF00000000000000)"
    by (subst m[symmetric]) (rule and.assoc)
  then show "(of_nat i :: u64) AND 0xFF00000000000000 = 0"
    by simp
qed

lemma echo_decode:
  assumes "i < 2 ^ 56" "oper AND 0xFF00000000000000 = oper" "oper AND 0xFFFFFFFFFFFFFF = 0"
  shows "echo_decode_op (echo_make_id oper i) = oper" "echo_decode_idx (echo_make_id oper i) = i"
  using assms
  by (simp_all add: echo_decode_op_def echo_decode_idx_def echo_make_id_def bit.conj_disj_distrib2 echo_index_bits unat_of_nat_lt)

lemmas echo_entry_defs = echo_accept_def echo_recv_def echo_send_def echo_close_def echo_entry_def

lemma echo_corr:
  assumes "i < 2 ^ 56"
  shows "echo_decode_op (sb_corr_id (echo_accept cfg)) = EO_ACCEPT"
    "echo_decode_op (sb_corr_id (echo_recv cfg c i)) = EO_RECV" "echo_decode_idx (sb_corr_id (echo_recv cfg c i)) = i"
    "echo_decode_op (sb_corr_id (echo_send cfg c i)) = EO_SEND" "echo_decode_idx (sb_corr_id (echo_send cfg c i)) = i"
    "echo_decode_op (sb_corr_id (echo_close fd i)) = EO_CLOSE" "echo_decode_idx (sb_corr_id (echo_close fd i)) = i"
  using assms by (simp_all add: echo_entry_defs echo_decode)

lemma echo_not_accept: "echo_recv cfg c i \<noteq> echo_accept cfg" "echo_send cfg c i \<noteq> echo_accept cfg"
  by (simp_all add: echo_entry_defs)

section \<open>The invariant\<close>

text \<open>
  The operation pending for a connection is a receive, a send of what it has in its buffer, or its close. With
  full sends, everything received before is sent back when a receive is pending, and everything but the
  contents of the buffer when a send is.
\<close>

definition echo_ok :: "bool \<Rightarrow> EchoCfg \<Rightarrow> (usize \<Rightarrow> string) \<Rightarrow> (usize \<Rightarrow> string) \<Rightarrow> usize \<Rightarrow> EchoConn \<Rightarrow> SubmitEntry \<Rightarrow> bool" where
  "echo_ok full cfg inp out i c e \<longleftrightarrow>
     length (eo_buf c) = ECHO_BUF \<and>
     (e = echo_recv cfg c i \<and> (full \<longrightarrow> inp i = out i) \<or>
      e = echo_send cfg c i \<and> 0 < eo_pending c \<and> eo_pending c \<le> ECHO_BUF \<and> (full \<longrightarrow> inp i = out i @ take (eo_pending c) (eo_buf c)) \<or>
      e = echo_close (eo_fd c) i)"

definition echo_inv :: "bool \<Rightarrow> EchoCfg \<Rightarrow> usize \<Rightarrow> EchoSys \<Rightarrow> bool" where
  "echo_inv full cfg n s \<longleftrightarrow>
     slab_ok n (eo_conns (es_state s)) \<and>
     one_op (echo_accept cfg) (echo_ok full cfg (es_in s) (es_out s)) (slots (eo_conns (es_state s))) (es_pending s)"

lemma echo_inv_init: "echo_inv full cfg n (echo_init cfg n)"
  by (simp add: echo_inv_def echo_init_def echo_slab_def slab_ok_new one_op_init)

lemma echo_inv_accept:
  assumes "echo_inv full cfg n s" "echo_accept cfg \<in># es_pending s" "echo_on_accept cfg True result (es_state s) = (st, es)"
    and "new = (if length es = 2 then {hd (slab_free (eo_conns (es_state s)))} else {})"
  shows "echo_inv full cfg n
    \<lparr> es_state = st, es_pending = es_pending s - {# echo_accept cfg #} + mset es,
      es_in = (\<lambda>i. if i \<in> new then [] else es_in s i), es_out = (\<lambda>i. if i \<in> new then [] else es_out s i) \<rparr>"
proof (cases "0 \<le> sint result \<and> slab_free (eo_conns (es_state s)) \<noteq> []")
  case False
  then have "es = [echo_accept cfg]" "eo_conns st = eo_conns (es_state s)"
    using assms(3) by (auto simp: echo_on_accept_def Let_def echo_alloc_def split: if_splits list.splits)
  then show ?thesis
    using assms(1,2,4) by (simp add: echo_inv_def)
next
  case True
  let ?sl = "eo_conns (es_state s)" and ?c = "EchoConn_new (ucast result)"
  obtain i fr where fr: "slab_free ?sl = i # fr"
    using True by (meson list.exhaust)
  have ok: "slab_ok n ?sl"
    using assms(1) by (simp add: echo_inv_def)
  note al = slab_ok_alloc(1)[OF ok fr, of ?c] slab_ok_alloc(2,3)[OF ok fr]
  have r: "es = [echo_recv cfg ?c i, echo_accept cfg]" "eo_conns st = \<lparr> slots = (slots ?sl)[i := Some ?c], slab_free = fr \<rparr>"
    using assms(3) True fr al(2) slab_okD(1)[OF ok]
    by (auto simp: echo_on_accept_def Let_def echo_alloc_def echo_get_def)
  have new: "new = {i}"
    using assms(4) r(1) fr by simp
  have "one_op (echo_accept cfg) (echo_ok full cfg (\<lambda>j. if j \<in> new then [] else es_in s j) (\<lambda>j. if j \<in> new then [] else es_out s j))
      ((slots ?sl)[i := Some ?c]) (add_mset (echo_recv cfg ?c i) (es_pending s))"
    using assms(1) al(2,3) slab_okD(1)[OF ok]
    by (intro one_op_add[of _ "echo_ok full cfg (es_in s) (es_out s)"]) (auto simp: echo_inv_def echo_ok_def new EchoConn_new_def)
  moreover have "es_pending s - {# echo_accept cfg #} + mset es = add_mset (echo_recv cfg ?c i) (es_pending s)"
    using assms(2) r(1) by simp
  ultimately show ?thesis
    using al(1) r(2) unfolding echo_inv_def by simp
qed

text \<open>The connection that a pending operation belongs to, and how the invariant goes on from there.\<close>

definition goes_on :: "bool \<Rightarrow> EchoCfg \<Rightarrow> usize \<Rightarrow> EchoSys \<Rightarrow> SubmitEntry \<Rightarrow> usize \<Rightarrow> bool" where
  "goes_on full cfg n s e i \<longleftrightarrow>
     (\<forall>inp out c' e' st. (\<forall>j. j \<noteq> i \<longrightarrow> inp j = es_in s j \<and> out j = es_out s j) \<longrightarrow> echo_ok full cfg inp out i c' e' \<longrightarrow>
        eo_conns st = echo_put i c' (eo_conns (es_state s)) \<longrightarrow>
        echo_inv full cfg n \<lparr> es_state = st, es_pending = es_pending s - {# e #} + {# e' #}, es_in = inp, es_out = out \<rparr>)"

definition goes_away :: "bool \<Rightarrow> EchoCfg \<Rightarrow> usize \<Rightarrow> EchoSys \<Rightarrow> SubmitEntry \<Rightarrow> usize \<Rightarrow> bool" where
  "goes_away full cfg n s e i \<longleftrightarrow>
     (\<forall>st. echo_free i (eo_conns (es_state s)) = Some (eo_conns st) \<longrightarrow>
        echo_inv full cfg n \<lparr> es_state = st, es_pending = es_pending s - {# e #}, es_in = es_in s, es_out = es_out s \<rparr>)"

lemma goes_onD:
  "goes_on full cfg n s e i \<Longrightarrow> (\<And>j. j \<noteq> i \<Longrightarrow> inp j = es_in s j \<and> out j = es_out s j) \<Longrightarrow> echo_ok full cfg inp out i c' e' \<Longrightarrow>
   eo_conns st = echo_put i c' (eo_conns (es_state s)) \<Longrightarrow>
   echo_inv full cfg n \<lparr> es_state = st, es_pending = es_pending s - {# e #} + {# e' #}, es_in = inp, es_out = out \<rparr>"
  unfolding goes_on_def by blast

lemma echo_inv_conn:
  assumes "echo_inv full cfg n s" "n \<le> 2 ^ 56" "e \<in># es_pending s" "e \<noteq> echo_accept cfg"
  shows "\<exists>i c. i < 2 ^ 56 \<and> echo_get i (eo_conns (es_state s)) = Some c \<and> echo_ok full cfg (es_in s) (es_out s) i c e \<and>
    goes_on full cfg n s e i \<and> goes_away full cfg n s e i"
proof -
  let ?sl = "eo_conns (es_state s)" and ?ok = "echo_ok full cfg (es_in s) (es_out s)"
  have inv: "slab_ok n ?sl" "one_op (echo_accept cfg) ?ok (slots ?sl) (es_pending s)"
    using assms(1) by (simp_all add: echo_inv_def)
  obtain i c where i: "i < length (slots ?sl)" "slots ?sl ! i = Some c" "?ok i c e"
    and stay: "\<forall>ok' c' e'. (\<forall>j d x. j \<noteq> i \<longrightarrow> ?ok j d x \<longrightarrow> ok' j d x) \<longrightarrow> ok' i c' e' \<longrightarrow>
        one_op (echo_accept cfg) ok' ((slots ?sl)[i := Some c']) (es_pending s - {# e #} + {# e' #})"
    and go: "one_op (echo_accept cfg) ?ok ((slots ?sl)[i := None]) (es_pending s - {# e #})"
    using one_op_cases[OF inv(2) assms(3)] assms(4) by blast
  have l: "i \<in> live_slots (slots ?sl)"
    using i(1,2) by (simp add: live_slots_def)
  have "echo_inv full cfg n \<lparr> es_state = st, es_pending = es_pending s - {# e #} + {# e' #}, es_in = inp, es_out = out \<rparr>"
    if "\<forall>j. j \<noteq> i \<longrightarrow> inp j = es_in s j \<and> out j = es_out s j" "echo_ok full cfg inp out i c' e'"
      "eo_conns st = echo_put i c' ?sl" for inp out c' e' st
    using stay[rule_format, of "echo_ok full cfg inp out" c' e'] that slab_ok_put[OF inv(1) l, of c']
    by (simp add: echo_inv_def echo_put_def echo_ok_def)
  then have put: "goes_on full cfg n s e i"
    unfolding goes_on_def by blast
  have "echo_inv full cfg n \<lparr> es_state = st, es_pending = es_pending s - {# e #}, es_in = es_in s, es_out = es_out s \<rparr>"
    if "echo_free i ?sl = Some (eo_conns st)" for st
  proof -
    have "eo_conns st = \<lparr> slots = (slots ?sl)[i := None], slab_free = i # slab_free ?sl \<rparr>"
      using that i(1) by (simp add: echo_free_def)
    then show ?thesis
      using go slab_ok_release[OF inv(1) l] by (simp add: echo_inv_def)
  qed
  then have "goes_away full cfg n s e i"
    unfolding goes_away_def by blast
  moreover have "i < 2 ^ 56" "echo_get i ?sl = Some c"
    using i(1,2) assms(2) slab_okD(1)[OF inv(1)] by (simp_all add: echo_get_def)
  ultimately show ?thesis
    using i(3) put by blast
qed

section \<open>Preservation\<close>

lemma echo_put_same: "echo_get i sl = Some c \<Longrightarrow> echo_put i c sl = sl"
  by (simp add: echo_get_def echo_put_def list_update_same_conv split: if_splits)

lemma echo_get_put: "echo_get i sl = Some c \<Longrightarrow> echo_get i (echo_put i d sl) = Some d"
  by (simp add: echo_get_def echo_put_def split: if_splits)

lemma echo_put_put: "echo_put i a (echo_put i b sl) = echo_put i a sl"
  by (simp add: echo_put_def)

lemma echo_ok_op:
  assumes "echo_ok full cfg inp out i c e" "i < 2 ^ 56"
  shows "echo_decode_idx (sb_corr_id e) = i"
    "echo_decode_op (sb_corr_id e) = EO_RECV \<Longrightarrow> e = echo_recv cfg c i \<and> (full \<longrightarrow> inp i = out i)"
    "echo_decode_op (sb_corr_id e) = EO_SEND \<Longrightarrow> e = echo_send cfg c i \<and> 0 < eo_pending c \<and> eo_pending c \<le> ECHO_BUF \<and>
       (full \<longrightarrow> inp i = out i @ take (eo_pending c) (eo_buf c))"
    "echo_decode_op (sb_corr_id e) \<in> {EO_RECV, EO_SEND, EO_CLOSE}"
    "echo_decode_op (sb_corr_id e) = EO_CLOSE \<Longrightarrow> e = echo_close (eo_fd c) i"
  using assms(1) echo_corr[OF assms(2)] by (auto simp: echo_ok_def)

lemma sint_small: "0 < n \<Longrightarrow> n \<le> ECHO_BUF \<Longrightarrow> 0 < sint (of_nat n :: i64) \<and> unat (of_nat n :: i64) = n"
  by (simp add: signed_of_nat signed_take_bit_int_eq_self unat_of_nat_lt)

lemma echo_inv_received:
  assumes "echo_inv full cfg n s" "n \<le> 2 ^ 56" "e \<in># es_pending s" "e = echo_recv cfg c idx"
    and "echo_get idx (eo_conns (es_state s)) = Some c" "0 < length dat" "length dat \<le> ECHO_BUF"
    and "st1 = (es_state s)\<lparr> eo_conns := echo_put idx (store_data dat c) (eo_conns (es_state s)) \<rparr>"
    and "echo_cqe cfg True \<lparr> ioc_corr_id = sb_corr_id e, ioc_result = of_nat (length dat), ioc_flags = 0 \<rparr> st1 = Some (st, es)"
  shows "echo_inv full cfg n
    \<lparr> es_state = st, es_pending = es_pending s - {# e #} + mset es, es_in = (es_in s)(idx := es_in s idx @ dat), es_out = es_out s \<rparr>"
proof -
  let ?sl = "eo_conns (es_state s)" and ?c = "(store_data dat c)\<lparr> eo_pending := length dat \<rparr>"
  have "idx < 2 ^ 56"
    using assms(1,2,5) slab_okD(1)[of n ?sl] by (simp add: echo_inv_def echo_get_def split: if_splits)
  note d = echo_corr[OF this]
  have ne: "e \<noteq> echo_accept cfg"
    by (simp add: assms(4) echo_not_accept)
  obtain i c0 where i: "i < 2 ^ 56" "echo_get i ?sl = Some c0" "echo_ok full cfg (es_in s) (es_out s) i c0 e"
    and put: "goes_on full cfg n s e i" and go: "goes_away full cfg n s e i"
    using echo_inv_conn[OF assms(1-3) ne] by blast
  have idx: "i = idx" "c0 = c"
    using echo_ok_op(1)[OF i(3,1)] d(3) assms(4,5) i(2) by simp_all
  have st: "es = [echo_send cfg ?c idx]" "eo_conns st = echo_put idx ?c ?sl"
    using assms(4,5,8,9) sint_small[OF assms(6,7)] d
    by (auto simp: echo_cqe_def echo_on_recv_def Let_def echo_get_put echo_put_put)
  have "full \<longrightarrow> es_in s idx = es_out s idx"
    using echo_ok_op(2)[OF i(3,1)] d(2) assms(4) idx by simp
  moreover have "length (eo_buf c) = ECHO_BUF"
    using i(3) idx by (simp add: echo_ok_def)
  ultimately have "echo_ok full cfg ((es_in s)(idx := es_in s idx @ dat)) (es_out s) i ?c (echo_send cfg ?c idx)"
    using idx assms(6,7) by (simp add: echo_ok_def)
  then show ?thesis
    using goes_onD[OF put _ _, of "(es_in s)(idx := es_in s idx @ dat)" "es_out s" ?c "echo_send cfg ?c idx" st] st idx by simp
qed

lemma echo_inv_sent:
  assumes "echo_inv full cfg n s" "n \<le> 2 ^ 56" "e \<in># es_pending s" "e = echo_send cfg c idx"
    and "echo_get idx (eo_conns (es_state s)) = Some c" "0 < k" "k \<le> eo_pending c" "full \<longrightarrow> k = eo_pending c"
    and "echo_cqe cfg True \<lparr> ioc_corr_id = sb_corr_id e, ioc_result = of_nat k, ioc_flags = 0 \<rparr> (es_state s) = Some (st, es)"
  shows "echo_inv full cfg n
    \<lparr> es_state = st, es_pending = es_pending s - {# e #} + mset es, es_in = es_in s, es_out = (es_out s)(idx := es_out s idx @ take k (eo_buf c)) \<rparr>"
proof -
  let ?sl = "eo_conns (es_state s)"
  have "idx < 2 ^ 56"
    using assms(1,2,5) slab_okD(1)[of n ?sl] by (simp add: echo_inv_def echo_get_def split: if_splits)
  note d = echo_corr[OF this]
  have ne: "e \<noteq> echo_accept cfg"
    by (simp add: assms(4) echo_not_accept)
  obtain i c0 where i: "i < 2 ^ 56" "echo_get i ?sl = Some c0" "echo_ok full cfg (es_in s) (es_out s) i c0 e"
    and put: "goes_on full cfg n s e i" and go: "goes_away full cfg n s e i"
    using echo_inv_conn[OF assms(1-3) ne] by blast
  have idx: "i = idx" "c0 = c"
    using echo_ok_op(1)[OF i(3,1)] d(5) assms(4,5) i(2) by simp_all
  have p: "eo_pending c \<le> ECHO_BUF" "full \<longrightarrow> es_in s idx = es_out s idx @ take (eo_pending c) (eo_buf c)"
    using echo_ok_op(3)[OF i(3,1)] d(4) assms(4) idx by simp_all
  have st: "es = [echo_recv cfg c idx]" "eo_conns st = echo_put idx c ?sl"
    using assms(4,5,9) sint_small[OF assms(6)] assms(7) p(1) d
    by (auto simp: echo_cqe_def echo_on_send_def Let_def echo_put_same)
  have "echo_ok full cfg (es_in s) ((es_out s)(idx := es_out s idx @ take k (eo_buf c))) i c (echo_recv cfg c idx)"
    using i(3) idx p(2) assms(8) by (auto simp: echo_ok_def)
  then show ?thesis
    using goes_onD[OF put _ _, of "es_in s" "(es_out s)(idx := es_out s idx @ take k (eo_buf c))" c "echo_recv cfg c idx" st] st idx by simp
qed

lemma echo_inv_other:
  assumes "echo_inv full cfg n s" "n \<le> 2 ^ 56" "e \<in># es_pending s" "e \<noteq> echo_accept cfg"
    and "sint result \<le> 0 \<or> echo_decode_op (sb_corr_id e) = EO_CLOSE"
  shows "\<exists>st es. echo_cqe cfg True \<lparr> ioc_corr_id = sb_corr_id e, ioc_result = result, ioc_flags = 0 \<rparr> (es_state s) = Some (st, es) \<and>
    echo_inv full cfg n \<lparr> es_state = st, es_pending = es_pending s - {# e #} + mset es, es_in = es_in s, es_out = es_out s \<rparr>"
proof -
  let ?sl = "eo_conns (es_state s)"
  obtain i c where i: "i < 2 ^ 56" "echo_get i ?sl = Some c" "echo_ok full cfg (es_in s) (es_out s) i c e"
    and put: "goes_on full cfg n s e i" and go: "goes_away full cfg n s e i"
    using echo_inv_conn[OF assms(1-4)] by blast
  note o = echo_ok_op[OF i(3,1)]
  let ?r = "echo_cqe cfg True \<lparr> ioc_corr_id = sb_corr_id e, ioc_result = result, ioc_flags = 0 \<rparr> (es_state s)"
  show ?thesis
  proof (cases "echo_decode_op (sb_corr_id e) = EO_CLOSE")
    case True
    obtain sl' where "echo_free i ?sl = Some sl'"
      using i(2) by (auto simp: echo_free_def echo_get_def split: if_splits)
    then show ?thesis
      using True o(1) go by (simp add: goes_away_def echo_cqe_def echo_on_close_def)
  next
    case False
    then have r: "sint result \<le> 0" "echo_decode_op (sb_corr_id e) = EO_RECV \<or> echo_decode_op (sb_corr_id e) = EO_SEND"
      using assms(5) o(4) by auto
    then obtain st where st: "?r = Some (st, [echo_close (eo_fd c) i])" "eo_conns st = ?sl"
      using o(1) i(2) by (auto simp: echo_cqe_def echo_on_recv_def echo_on_send_def echo_start_close_def)
    have "echo_ok full cfg (es_in s) (es_out s) i c (echo_close (eo_fd c) i)"
      using i(3) by (simp add: echo_ok_def)
    then show ?thesis
      using goes_onD[OF put _ _, of "es_in s" "es_out s" c "echo_close (eo_fd c) i" st] st echo_put_same[OF i(2)] by simp
  qed
qed

lemma echo_inv_step: "echo_step full cfg s s' \<Longrightarrow> echo_inv full cfg n s \<Longrightarrow> n \<le> 2 ^ 56 \<Longrightarrow> echo_inv full cfg n s'"
proof (induction rule: echo_step.induct)
  case (Accept s result st es new)
  then show ?case
    by (intro echo_inv_accept)
next
  case (Received e s c idx dat st1 st es)
  then show ?case
    by (intro echo_inv_received)
next
  case (Sent e s c idx k st es)
  then show ?case
    by (intro echo_inv_sent)
next
  case (Other e s result st es)
  then show ?case
    using echo_inv_other[OF Other.prems Other.hyps(1-3)] by auto
qed

lemma echo_inv_reachable:
  assumes "(echo_step full cfg)\<^sup>*\<^sup>* (echo_init cfg n) s" "n \<le> 2 ^ 56"
  shows "echo_inv full cfg n s"
  using assms(1) by (induction rule: rtranclp_induct) (auto intro: echo_inv_init echo_inv_step assms(2))

text \<open>
  C9: as long as the kernel takes every send in full, a connection that waits for input has sent back exactly
  what it received, in order, and one that is sending still owes exactly the contents of its buffer.
\<close>

theorem echo_faithful:
  assumes "(echo_step True cfg)\<^sup>*\<^sup>* (echo_init cfg n) s" "n \<le> 2 ^ 56" "echo_get i (eo_conns (es_state s)) = Some c"
  shows "(echo_recv cfg c i \<in># es_pending s \<longrightarrow> es_out s i = es_in s i) \<and>
    (echo_send cfg c i \<in># es_pending s \<longrightarrow> es_in s i = es_out s i @ take (eo_pending c) (eo_buf c))"
proof -
  have inv: "echo_inv True cfg n s"
    by (rule echo_inv_reachable[OF assms(1,2)])
  have i: "i < 2 ^ 56"
    using inv assms(2,3) slab_okD(1)[of n "eo_conns (es_state s)"] by (simp add: echo_inv_def echo_get_def split: if_splits)
  note d = echo_corr[OF i]
  have own: "echo_ok True cfg (es_in s) (es_out s) i c e"
    if e: "e \<in># es_pending s" "e \<noteq> echo_accept cfg" "echo_decode_idx (sb_corr_id e) = i" for e
  proof -
    obtain j c' where j: "j < 2 ^ 56" "echo_get j (eo_conns (es_state s)) = Some c'" "echo_ok True cfg (es_in s) (es_out s) j c' e"
      using echo_inv_conn[OF inv assms(2) e(1,2)] by blast
    show ?thesis
      using j echo_ok_op(1)[OF j(3,1)] e(3) assms(3) by simp
  qed
  show ?thesis
  proof (intro conjI impI)
    assume "echo_recv cfg c i \<in># es_pending s"
    from echo_ok_op(2)[OF own[OF this echo_not_accept(1) d(3)] i d(2)] show "es_out s i = es_in s i"
      by simp
  next
    assume "echo_send cfg c i \<in># es_pending s"
    from echo_ok_op(3)[OF own[OF this echo_not_accept(2) d(5)] i d(4)]
    show "es_in s i = es_out s i @ take (eo_pending c) (eo_buf c)"
      by simp
  qed
qed

section \<open>A connection that sends two bytes\<close>

definition demo_echo :: EchoCfg where
  "demo_echo = \<lparr> eo_listener = 3, eo_addr = 0, eo_addr_len = 0, eo_buf_addr = (\<lambda>i. 0) \<rparr>"

abbreviation echo_at :: "EchoConn option \<Rightarrow> SubmitEntry multiset \<Rightarrow> string \<Rightarrow> string \<Rightarrow> EchoSys \<Rightarrow> bool" where
  "echo_at c p inp out s \<equiv> slots (eo_conns (es_state s)) = [c] \<and> es_pending s = p \<and> es_in s 0 = inp \<and> es_out s 0 = out"

definition demo_conn1 :: EchoConn where
  "demo_conn1 = (store_data ''ab'' (EchoConn_new 5))\<lparr> eo_pending := 2 \<rparr>"

lemma demo_accept:
  "\<exists>s. echo_step full demo_echo (echo_init demo_echo 1) s \<and>
     echo_at (Some (EchoConn_new 5)) {# echo_recv demo_echo (EchoConn_new 5) 0, echo_accept demo_echo #} [] [] s"
proof -
  let ?s = "echo_init demo_echo 1"
  obtain st where st: "echo_on_accept demo_echo True 5 (es_state ?s) =
      (st, [echo_recv demo_echo (EchoConn_new 5) 0, echo_accept demo_echo])" "slots (eo_conns st) = [Some (EchoConn_new 5)]"
    by (simp add: echo_on_accept_def echo_init_def echo_slab_def echo_alloc_def echo_get_def)
  have "echo_accept demo_echo \<in># es_pending ?s"
    by (simp add: echo_init_def)
  from echo_step.Accept[OF this st(1) refl, of full] show ?thesis
    using st(2) by (intro exI conjI) (assumption, simp_all add: echo_init_def)
qed

lemma demo_receive:
  assumes "echo_at (Some (EchoConn_new 5)) {# echo_recv demo_echo (EchoConn_new 5) 0, echo_accept demo_echo #} [] [] s"
  shows "\<exists>s'. echo_step full demo_echo s s' \<and> echo_at (Some demo_conn1) {# echo_send demo_echo demo_conn1 0, echo_accept demo_echo #} ''ab'' [] s'"
proof -
  let ?e = "echo_recv demo_echo (EchoConn_new 5) 0" and ?c = "store_data ''ab'' (EchoConn_new 5)"
  let ?st1 = "(es_state s)\<lparr> eo_conns := echo_put 0 ?c (eo_conns (es_state s)) \<rparr>"
  obtain st where st: "echo_cqe demo_echo True \<lparr> ioc_corr_id = sb_corr_id ?e, ioc_result = of_nat (length ''ab''), ioc_flags = 0 \<rparr> ?st1 =
      Some (st, [echo_send demo_echo demo_conn1 0])" "slots (eo_conns st) = [Some demo_conn1]"
    using assms echo_corr[of 0] by (simp add: echo_cqe_def echo_on_recv_def echo_get_def echo_put_def demo_conn1_def Let_def)
  have "?e \<in># es_pending s" "echo_get 0 (eo_conns (es_state s)) = Some (EchoConn_new 5)"
    using assms by (simp_all add: echo_get_def)
  from echo_step.Received[OF this(1) refl this(2) _ _ refl st(1), of full]
  have "echo_step full demo_echo s \<lparr> es_state = st, es_pending = es_pending s - {# ?e #} + mset [echo_send demo_echo demo_conn1 0],
      es_in = (es_in s)(0 := es_in s 0 @ ''ab''), es_out = es_out s \<rparr>"
    by simp
  then show ?thesis
    using st(2) assms by (intro exI[of _ "\<lparr> es_state = st, es_pending = es_pending s - {# ?e #} + mset [echo_send demo_echo demo_conn1 0],
      es_in = (es_in s)(0 := es_in s 0 @ ''ab''), es_out = es_out s \<rparr>"]) simp
qed

lemma demo_send:
  assumes "echo_at (Some demo_conn1) {# echo_send demo_echo demo_conn1 0, echo_accept demo_echo #} ''ab'' [] s"
    and "0 < k" "k \<le> 2" "full \<longrightarrow> k = 2"
  shows "\<exists>s'. echo_step full demo_echo s s' \<and>
    echo_at (Some demo_conn1) {# echo_recv demo_echo demo_conn1 0, echo_accept demo_echo #} ''ab'' (take k ''ab'') s'"
proof -
  let ?e = "echo_send demo_echo demo_conn1 0"
  have p: "eo_pending demo_conn1 = 2" "take k (eo_buf demo_conn1) = take k ''ab''"
    using assms(2,3) by (auto simp: demo_conn1_def le_Suc_eq numeral_2_eq_2)
  have k: "0 < sint (of_nat k :: i64)"
    using sint_small[OF assms(2)] assms(3) by simp
  obtain st where st: "echo_cqe demo_echo True \<lparr> ioc_corr_id = sb_corr_id ?e, ioc_result = of_nat k, ioc_flags = 0 \<rparr> (es_state s) =
      Some (st, [echo_recv demo_echo demo_conn1 0])" "slots (eo_conns st) = [Some demo_conn1]"
    using assms(1) echo_corr[of 0] k by (simp add: echo_cqe_def echo_on_send_def echo_get_def Let_def)
  have "?e \<in># es_pending s" "echo_get 0 (eo_conns (es_state s)) = Some demo_conn1"
    using assms(1) by (simp_all add: echo_get_def)
  from echo_step.Sent[OF this(1) refl this(2) assms(2) _ _ st(1), of full]
  have "echo_step full demo_echo s \<lparr> es_state = st, es_pending = es_pending s - {# ?e #} + mset [echo_recv demo_echo demo_conn1 0],
      es_in = es_in s, es_out = (es_out s)(0 := es_out s 0 @ take k ''ab'') \<rparr>"
    using assms(3,4) p by simp
  then show ?thesis
    using st(2) assms(1) by (intro exI[of _ "\<lparr> es_state = st, es_pending = es_pending s - {# ?e #} + mset [echo_recv demo_echo demo_conn1 0],
      es_in = es_in s, es_out = (es_out s)(0 := es_out s 0 @ take k ''ab'') \<rparr>"]) simp
qed

theorem echo_faithful_witness:
  "\<exists>s. (echo_step True demo_echo)\<^sup>*\<^sup>* (echo_init demo_echo 1) s \<and> echo_recv demo_echo demo_conn1 0 \<in># es_pending s \<and>
     es_in s 0 = ''ab'' \<and> es_out s 0 = es_in s 0"
proof -
  obtain s1 where 1: "echo_step True demo_echo (echo_init demo_echo 1) s1"
      "echo_at (Some (EchoConn_new 5)) {# echo_recv demo_echo (EchoConn_new 5) 0, echo_accept demo_echo #} [] [] s1"
    using demo_accept by blast
  obtain s2 where 2: "echo_step True demo_echo s1 s2"
      "echo_at (Some demo_conn1) {# echo_send demo_echo demo_conn1 0, echo_accept demo_echo #} ''ab'' [] s2"
    using demo_receive[OF 1(2)] by blast
  obtain s3 where 3: "echo_step True demo_echo s2 s3"
      "echo_at (Some demo_conn1) {# echo_recv demo_echo demo_conn1 0, echo_accept demo_echo #} ''ab'' (take 2 ''ab'') s3"
    using demo_send[OF 2(2), of 2 True] by auto
  have r: "(echo_step True demo_echo)\<^sup>*\<^sup>* (echo_init demo_echo 1) s3"
    using 1(1) 2(1) 3(1) by (meson converse_rtranclp_into_rtranclp r_into_rtranclp)
  have "echo_get 0 (eo_conns (es_state s3)) = Some demo_conn1"
    using 3(2) by (simp add: echo_get_def)
  from echo_faithful[OF r _ this] show ?thesis
    using 3(2) r by (intro exI[of _ s3]) simp
qed

text \<open>
  a send that the kernel takes in part loses the rest: the server goes on to receive, with one byte of the
  two it received sent back.
\<close>

theorem partial_send_loses:
  "\<exists>s. (echo_step False demo_echo)\<^sup>*\<^sup>* (echo_init demo_echo 1) s \<and> echo_get 0 (eo_conns (es_state s)) = Some demo_conn1 \<and>
     es_pending s = {# echo_recv demo_echo demo_conn1 0, echo_accept demo_echo #} \<and> es_in s 0 = ''ab'' \<and> es_out s 0 = ''a''"
proof -
  obtain s1 where 1: "echo_step False demo_echo (echo_init demo_echo 1) s1"
      "echo_at (Some (EchoConn_new 5)) {# echo_recv demo_echo (EchoConn_new 5) 0, echo_accept demo_echo #} [] [] s1"
    using demo_accept by blast
  obtain s2 where 2: "echo_step False demo_echo s1 s2"
      "echo_at (Some demo_conn1) {# echo_send demo_echo demo_conn1 0, echo_accept demo_echo #} ''ab'' [] s2"
    using demo_receive[OF 1(2)] by blast
  obtain s3 where 3: "echo_step False demo_echo s2 s3"
      "echo_at (Some demo_conn1) {# echo_recv demo_echo demo_conn1 0, echo_accept demo_echo #} ''ab'' (take 1 ''ab'') s3"
    using demo_send[OF 2(2), of 1 False] by auto
  have "(echo_step False demo_echo)\<^sup>*\<^sup>* (echo_init demo_echo 1) s3"
    using 1(1) 2(1) 3(1) by (meson converse_rtranclp_into_rtranclp r_into_rtranclp)
  then show ?thesis
    using 3(2) by (intro exI[of _ s3]) (simp add: echo_get_def)
qed

end
