(* ===== verification/Kprint.thy ===== *)
theory Kprint
  imports Config
begin

text \<open>
  The logging of \<open>kprint.rs\<close>: levels, the lazily initialised settings, the context of a thread and the line
  that a logging call writes. \<open>env\<close> is the environment, \<open>now\<close> the nanoseconds since the start.
\<close>

section \<open>Levels and settings\<close>

datatype LogLevel = LogOff | LogError | LogWarn | LogInfo | LogDebug | LogTrace

fun LogLevel_to_u8 :: "LogLevel \<Rightarrow> u8" where
  "LogLevel_to_u8 LogOff = 0" | "LogLevel_to_u8 LogError = 1" | "LogLevel_to_u8 LogWarn = 2"
| "LogLevel_to_u8 LogInfo = 3" | "LogLevel_to_u8 LogDebug = 4" | "LogLevel_to_u8 LogTrace = 5"

definition LogLevel_from_u8 :: "u8 \<Rightarrow> LogLevel" where
  "LogLevel_from_u8 v =
     (if v = 0 then LogOff else if v = 1 then LogError else if v = 2 then LogWarn else if v = 3 then LogInfo
      else if v = 4 then LogDebug else LogTrace)"

fun prefix :: "LogLevel \<Rightarrow> string" where
  "prefix LogOff = []"
| "prefix LogError = ''[ERROR]''"
| "prefix LogWarn = ''[WARN] ''"
| "prefix LogInfo = ''[INFO] ''"
| "prefix LogDebug = ''[DEBUG]''"
| "prefix LogTrace = ''[TRACE]''"

record KprintState =
  kp_flush :: bool
  kp_time :: bool
  kp_level :: u8
  kp_initialized :: bool

definition Kprint_initial :: KprintState where
  "Kprint_initial = \<lparr> kp_flush = False, kp_time = False, kp_level = LogLevel_to_u8 LogInfo, kp_initialized = False \<rparr>"

definition level_of_text :: "string \<Rightarrow> LogLevel" where
  "level_of_text val =
     (let v = map to_lower val in
      if v = ''off'' \<or> v = ''0'' then LogOff
      else if v = ''error'' \<or> v = ''1'' then LogError
      else if v = ''warn'' \<or> v = ''2'' then LogWarn
      else if v = ''info'' \<or> v = ''3'' then LogInfo
      else if v = ''debug'' \<or> v = ''4'' then LogDebug
      else if v = ''trace'' \<or> v = ''5'' then LogTrace
      else LogInfo)"

definition kprint_init :: "env \<Rightarrow> KprintState \<Rightarrow> KprintState" where
  "kprint_init env k =
     (if kp_initialized k then k
      else
        \<lparr> kp_flush = env_get_bool env ''GVT_FLUSH_EPRINT'' False, kp_time = env_get_bool env ''GVT_KPRINT_TIME'' False,
          kp_level = (case env ''GVT_LOG_LEVEL'' of None \<Rightarrow> kp_level k | Some val \<Rightarrow> LogLevel_to_u8 (level_of_text val)),
          kp_initialized = True \<rparr>)"

definition set_log_level :: "LogLevel \<Rightarrow> KprintState \<Rightarrow> KprintState" where
  "set_log_level l k = k\<lparr> kp_level := LogLevel_to_u8 l \<rparr>"

definition set_flush_enabled :: "bool \<Rightarrow> KprintState \<Rightarrow> KprintState" where
  "set_flush_enabled b k = k\<lparr> kp_flush := b \<rparr>"

definition set_time_enabled :: "bool \<Rightarrow> KprintState \<Rightarrow> KprintState" where
  "set_time_enabled b k = k\<lparr> kp_time := b \<rparr>"

text \<open>Every query initialises first.\<close>

definition flush_enabled :: "env \<Rightarrow> KprintState \<Rightarrow> bool \<times> KprintState" where
  "flush_enabled env k = (let k' = kprint_init env k in (kp_flush k', k'))"

definition time_enabled :: "env \<Rightarrow> KprintState \<Rightarrow> bool \<times> KprintState" where
  "time_enabled env k = (let k' = kprint_init env k in (kp_time k', k'))"

definition log_level :: "env \<Rightarrow> KprintState \<Rightarrow> LogLevel \<times> KprintState" where
  "log_level env k = (let k' = kprint_init env k in (LogLevel_from_u8 (kp_level k'), k'))"

definition level_enabled :: "env \<Rightarrow> LogLevel \<Rightarrow> KprintState \<Rightarrow> bool \<times> KprintState" where
  "level_enabled env l k = (case log_level env k of (cur, k') \<Rightarrow> (LogLevel_to_u8 l \<le> LogLevel_to_u8 cur, k'))"

section \<open>Output\<close>

text \<open>The worker and the green thread of the calling thread, as its thread-local cells have them.\<close>

record KprintTls =
  kt_worker :: "u32 option"
  kt_gvthread :: "u32 option"

definition set_worker_id :: "u32 \<Rightarrow> KprintTls \<Rightarrow> KprintTls" where
  "set_worker_id i t = t\<lparr> kt_worker := Some i \<rparr>"

definition clear_worker_id :: "KprintTls \<Rightarrow> KprintTls" where
  "clear_worker_id t = t\<lparr> kt_worker := None \<rparr>"

definition set_gvthread_id :: "u32 \<Rightarrow> KprintTls \<Rightarrow> KprintTls" where
  "set_gvthread_id i t = t\<lparr> kt_gvthread := Some i \<rparr>"

definition clear_gvthread_id :: "KprintTls \<Rightarrow> KprintTls" where
  "clear_gvthread_id t = t\<lparr> kt_gvthread := None \<rparr>"

definition context_text :: "KprintTls \<Rightarrow> string" where
  "context_text t =
     (let part = (\<lambda>v. case v of Some i \<Rightarrow> show_nat (unat i) | None \<Rightarrow> ''--'')
      in ''[w'' @ part (kt_worker t) @ '':g'' @ part (kt_gvthread t) @ ''] '')"

text \<open>What is written, whether it is flushed, and the settings afterwards.\<close>

definition kprint :: "env \<Rightarrow> string \<Rightarrow> KprintState \<Rightarrow> string \<times> bool \<times> KprintState" where
  "kprint env msg k = (case flush_enabled env k of (fl, k') \<Rightarrow> (msg, fl, k'))"

definition kprintln :: "env \<Rightarrow> string \<Rightarrow> KprintState \<Rightarrow> string \<times> bool \<times> KprintState" where
  "kprintln env msg k = (case flush_enabled env k of (fl, k') \<Rightarrow> (msg @ [CHR 0x0A], fl, k'))"

definition klog :: "env \<Rightarrow> u64 \<Rightarrow> KprintTls \<Rightarrow> LogLevel \<Rightarrow> string \<Rightarrow> KprintState \<Rightarrow> string \<times> bool \<times> KprintState" where
  "klog env now t l msg k =
     (case level_enabled env l k of
        (False, k1) \<Rightarrow> ([], False, k1)
      | (True, k1) \<Rightarrow>
          (case time_enabled env k1 of
             (tm, k2) \<Rightarrow>
               (case flush_enabled env k2 of
                  (fl, k3) \<Rightarrow>
                    (prefix l @ '' '' @ (if tm then ''['' @ show_nat (unat now) @ ''] '' else []) @ context_text t @ msg @ [CHR 0x0A],
                     fl, k3))))"

section \<open>Properties\<close>

lemma LogLevel_roundtrip: "LogLevel_from_u8 (LogLevel_to_u8 l) = l"
  by (cases l) (simp_all add: LogLevel_from_u8_def)

lemma init_idempotent: "kprint_init env (kprint_init env k) = kprint_init env k"
  by (simp add: kprint_init_def)

text \<open>After initialisation, a call writes one line exactly when its level is at most the current one.\<close>

lemma klog_line:
  assumes "kp_initialized k"
  shows "klog env now t l msg k =
    (if LogLevel_to_u8 l \<le> LogLevel_to_u8 (LogLevel_from_u8 (kp_level k))
     then (prefix l @ '' '' @ (if kp_time k then ''['' @ show_nat (unat now) @ ''] '' else []) @ context_text t @ msg @ [CHR 0x0A], kp_flush k, k)
     else ([], False, k))"
  using assms by (simp add: klog_def level_enabled_def log_level_def time_enabled_def flush_enabled_def kprint_init_def)

text \<open>
  settings made before the first message do not last: the first logging call initialises from the environment
  and overwrites the flush and timestamp flags always, and the level when the environment has one. A level set
  in an environment without one does last.
\<close>

theorem early_settings_lost:
  assumes "klog env now t l msg (set_flush_enabled fl (set_time_enabled tm (set_log_level lv Kprint_initial))) = (out, flushed, k)"
  shows "kp_flush k = env_get_bool env ''GVT_FLUSH_EPRINT'' False \<and> kp_time k = env_get_bool env ''GVT_KPRINT_TIME'' False \<and>
    kp_level k = (case env ''GVT_LOG_LEVEL'' of None \<Rightarrow> LogLevel_to_u8 lv | Some val \<Rightarrow> LogLevel_to_u8 (level_of_text val))"
proof -
  have "k = kprint_init env (set_flush_enabled fl (set_time_enabled tm (set_log_level lv Kprint_initial)))"
    using assms
    by (auto simp: klog_def level_enabled_def log_level_def time_enabled_def flush_enabled_def init_idempotent Let_def split: bool.splits)
  then show ?thesis
    by (simp add: kprint_init_def Kprint_initial_def set_flush_enabled_def set_time_enabled_def set_log_level_def split: option.split)
qed

theorem early_settings_lost_witness:
  "\<exists>out flushed k. klog (\<lambda>_. None) 0 \<lparr> kt_worker = None, kt_gvthread = None \<rparr> LogInfo ''up''
      (set_flush_enabled True (set_time_enabled True (set_log_level LogInfo Kprint_initial))) = (out, flushed, k) \<and>
     \<not> kp_flush k \<and> \<not> kp_time k"
proof -
  obtain out flushed k where r: "klog (\<lambda>_. None) 0 \<lparr> kt_worker = None, kt_gvthread = None \<rparr> LogInfo ''up''
      (set_flush_enabled True (set_time_enabled True (set_log_level LogInfo Kprint_initial))) = (out, flushed, k)"
    by (metis prod_cases3)
  from early_settings_lost[OF this] r show ?thesis
    by (simp add: env_get_bool_def)
qed

end
