(* ===== verification/Runtime_Api.thy ===== *)
theory Runtime_Api
  imports Sched_Safety
begin

text \<open>
  The runtime handle of the crate \<open>gvthread\<close> over the global scheduler: creation, start, \<open>block_on\<close>, shutdown
  and drop. \<open>None\<close> is a panic. The spawning and yielding functions of the crate forward to the scheduler.
\<close>

section \<open>The handle\<close>

record Runtime =
  rt_started :: bool

definition Runtime_new :: "SchedulerConfig \<Rightarrow> Global \<Rightarrow> (Runtime \<times> Global) option" where
  "Runtime_new config g =
     (case init_global_scheduler config g of
        (Inl e, g') \<Rightarrow> None
      | (Inr _, g') \<Rightarrow> Some (\<lparr> rt_started = False \<rparr>, g'))"

definition Runtime_start :: "Os \<Rightarrow> Runtime \<Rightarrow> Global \<Rightarrow> (failure, unit) result \<times> Runtime \<times> Global" where
  "Runtime_start os r g =
     (if rt_started r then (Err (Fail AlreadyInitialized), r, g)
      else case start_global_scheduler os g of (res, g') \<Rightarrow> (res, r\<lparr> rt_started := True \<rparr>, g'))"

definition Runtime_shutdown :: "Runtime \<Rightarrow> Global \<Rightarrow> Runtime \<times> Global" where
  "Runtime_shutdown r g =
     (if rt_started r then (r\<lparr> rt_started := False \<rparr>, shutdown_global_scheduler g) else (r, g))"

text \<open>
  \<open>f\<close> is the closure: its result and what it and the threads it starts do to the scheduler. An error of \<open>start\<close>
  is discarded, a panic is not.
\<close>

definition block_on :: "Os \<Rightarrow> (Global \<Rightarrow> 'a \<times> Global) \<Rightarrow> Runtime \<Rightarrow> Global \<Rightarrow> ('a \<times> Runtime \<times> Global) option" where
  "block_on os f r g =
     (case Runtime_start os r g of
        (Inl (Panic m), r1, g1) \<Rightarrow> None
      | (_, r1, g1) \<Rightarrow> (case f g1 of (x, g2) \<Rightarrow> (case Runtime_shutdown r1 g2 of (r3, g3) \<Rightarrow> Some (x, r3, g3))))"

definition Runtime_drop :: "Runtime \<Rightarrow> Global \<Rightarrow> Global" where
  "Runtime_drop r g = snd (Runtime_shutdown r g)"

section \<open>Properties\<close>

text \<open>The process has one scheduler for its whole life: a second handle cannot be made, not even after a drop.\<close>

lemma second_runtime_panics: "Runtime_new c g = Some (r, g') \<Longrightarrow> Runtime_new c' (Runtime_drop r' g') = None"
  by (auto simp: Runtime_new_def init_global_scheduler_def Runtime_drop_def Runtime_shutdown_def shutdown_global_scheduler_def Let_def
      split: prod.splits sum.splits if_splits)

lemma shutdown_rest [simp]: "s_region (shutdown s) = s_region s" "s_config (shutdown s) = s_config s"
  by (simp_all add: shutdown_def)

lemma start_remapped:
  assumes "\<not> s_running s" "mr_initialized (s_region s)"
  shows "start os s = (Err (Fail (SchedError_from_MemoryError MemoryAlreadyInitialized)), s\<lparr> s_running := True \<rparr>)"
  using assms by (simp add: start_def region_init_def)

text \<open>
  a runtime works for one \<open>block_on\<close>. After a \<open>block_on\<close> that started the scheduler and whose closure returned with
  the scheduler still running, the next one finds the memory region mapped already, discards the error of \<open>start\<close>,
  and runs its closure on a scheduler that has no worker and no timer thread and whose global running flag is off.
\<close>

theorem second_block_on_unserved:
  assumes new: "Runtime_start os r g = (Ok (), r1, g1)"
    and f: "f g1 = (x, g2)" "g_sched g2 = Some s2" "s_running s2" "mr_initialized (s_region s2)"
  shows "\<exists>r3 g3 seen r4 g4 s. block_on os f r g = Some (x, r3, g3) \<and> block_on os (\<lambda>g. (g, g)) r3 g3 = Some (seen, r4, g4) \<and>
    g_sched seen = Some s \<and> s_worker_threads s = 0 \<and> \<not> s_timer_thread s \<and> \<not> s_global_running s"
proof -
  have st: "rt_started r1"
    using new by (auto simp: Runtime_start_def split: if_splits prod.splits)
  let ?r3 = "r1\<lparr> rt_started := False \<rparr>" and ?g3 = "g2\<lparr> g_sched := Some (shutdown s2) \<rparr>"
  have one: "block_on os f r g = Some (x, ?r3, ?g3)"
    using new f st by (simp add: block_on_def Runtime_shutdown_def shutdown_global_scheduler_def)
  have "\<not> s_running (shutdown s2)" "s_worker_threads (shutdown s2) = 0" "\<not> s_timer_thread (shutdown s2)"
    "\<not> s_global_running (shutdown s2)"
    using f(3) by (simp_all add: shutdown_def)
  moreover from this f(4) have "Runtime_start os ?r3 ?g3 =
      (Err (Fail (SchedError_from_MemoryError MemoryAlreadyInitialized)), r1\<lparr> rt_started := True \<rparr>,
       ?g3\<lparr> g_sched := Some ((shutdown s2)\<lparr> s_running := True \<rparr>) \<rparr>)"
    by (simp add: Runtime_start_def start_global_scheduler_def start_remapped)
  ultimately have "\<exists>seen r4 g4 s. block_on os (\<lambda>g. (g, g)) ?r3 ?g3 = Some (seen, r4, g4) \<and>
    g_sched seen = Some s \<and> s_worker_threads s = 0 \<and> \<not> s_timer_thread s \<and> \<not> s_global_running s"
    by (simp add: block_on_def Runtime_shutdown_def)
  with one show ?thesis
    by blast
qed

theorem second_block_on_unserved_witness:
  "\<exists>r g g1 r3 g3 seen r4 g4 s. Runtime_new demo_config \<lparr> g_init = False, g_sched = None \<rparr> = Some (r, g) \<and>
     Runtime_start demo_os r g = (Ok (), \<lparr> rt_started = True \<rparr>, g1) \<and>
     block_on demo_os (\<lambda>g. ((), g)) r g = Some ((), r3, g3) \<and>
     block_on demo_os (\<lambda>g. (g, g)) r3 g3 = Some (seen, r4, g4) \<and> g_sched seen = Some s \<and> s_worker_threads s = 0"
proof -
  obtain s where s: "Scheduler_new demo_config = Inr s" "c_num_workers (s_config s) = 2" "c_max_gvthreads (s_config s) = 4"
      "\<not> s_running s" "s_region s = MemoryRegion_new"
    by (simp add: demo_start_simps)
  let ?r = "\<lparr> rt_started = False \<rparr>" and ?g = "\<lparr> g_init = True, g_sched = Some (s\<lparr> s_sleep := Some [] \<rparr>) \<rparr>"
  have n: "Runtime_new demo_config \<lparr> g_init = False, g_sched = None \<rparr> = Some (?r, ?g)"
    using s(1) by (simp add: Runtime_new_def init_global_scheduler_def)
  have upt2: "[0 ..< 2] = [0, Suc 0]"
    by (simp add: upt_rec)
  obtain s1 where s1: "start demo_os (s\<lparr> s_sleep := Some [] \<rparr>) = (Ok (), s1)" "s_running s1" "mr_initialized (s_region s1)"
    using s(2-) upt2
    by (simp add: start_def region_init_def MemoryRegion_new_def demo_os_def SLOT_SIZE_def MAX_WORKERS_def)
  let ?g1 = "\<lparr> g_init = True, g_sched = Some s1 \<rparr>"
  have st: "Runtime_start demo_os ?r ?g = (Ok (), \<lparr> rt_started = True \<rparr>, ?g1)"
    using s1(1) by (simp add: Runtime_start_def start_global_scheduler_def)
  show ?thesis
    using n st second_block_on_unserved[OF st, of "\<lambda>g. ((), g)" "()" ?g1 s1] s1(2,3) by auto
qed

end
