(* ===== verification/Instance.thy ===== *)
theory Instance
  imports Fixed_Pool
begin

text \<open>
  The compositor of the user-space service (\<open>instance.rs\<close>) with the two parts only it creates: the eventfd notifier
  and the heap buffers. Queues of the pool come from the \<open>crossbeam\<close> crate and the ring from the \<open>io_uring\<close> crate;
  they, \<open>eventfd\<close>, \<open>write\<close> and the allocator are parameters. \<open>None\<close> is a panic.
\<close>

section \<open>Notifier\<close>

record EventFdNotifier =
  en_fd :: i32
  en_owned :: bool

definition EventFdNotifier_new :: "i32 \<Rightarrow> EventFdNotifier" where
  "EventFdNotifier_new efd = \<lparr> en_fd = efd, en_owned = False \<rparr>"

text \<open>\<open>(fd, errno)\<close>: what \<open>eventfd\<close> returns and leaves in errno.\<close>

definition EventFdNotifier_create :: "i32 \<times> i32 \<Rightarrow> (KsvcError, EventFdNotifier) result" where
  "EventFdNotifier_create r =
     (case r of (fd, errno) \<Rightarrow> if fd <s 0 then Err (Os errno) else Ok \<lparr> en_fd = fd, en_owned = True \<rparr>)"

text \<open>\<open>wr fd val\<close>: the result of \<open>write\<close>, its errno and the kernel afterwards.\<close>

definition notify :: "(i32 \<Rightarrow> u64 \<Rightarrow> 'k \<Rightarrow> i64 \<times> i32 \<times> 'k) \<Rightarrow> EventFdNotifier \<Rightarrow> 'k \<Rightarrow> (KsvcError, unit) result \<times> 'k" where
  "notify wr n k =
     (case wr (en_fd n) 1 k of
        (ret, errno, k') \<Rightarrow>
          if ret <s 0 then (if errno = 11 then (Ok (), k') else (Err (Os errno), k')) else (Ok (), k'))"

text \<open>The descriptors a drop closes, and the notifier afterwards.\<close>

definition EventFdNotifier_drop :: "EventFdNotifier \<Rightarrow> i32 list \<times> EventFdNotifier" where
  "EventFdNotifier_drop n =
     (if en_owned n \<and> 0 \<le>s en_fd n then ([en_fd n], n\<lparr> en_fd := -1 \<rparr>) else ([], n))"

section \<open>Buffers\<close>

record BufferHandle =
  bh_ptr :: nat
  bh_len :: usize
  bh_index :: u16

record HeapBuffers =
  hb_default :: usize
  hb_in_use :: u64
  hb_total :: u64

definition HeapBuffers_new :: "usize \<Rightarrow> HeapBuffers" where
  "HeapBuffers_new n = \<lparr> hb_default = n, hb_in_use = 0, hb_total = 0 \<rparr>"

text \<open>\<open>alloc size\<close> is the pointer and capacity that \<open>Vec::with_capacity\<close> returns.\<close>

definition hb_acquire :: "(usize \<Rightarrow> nat \<times> usize) \<Rightarrow> usize \<Rightarrow> HeapBuffers \<Rightarrow> BufferHandle option \<times> HeapBuffers" where
  "hb_acquire alloc min_size h =
     (case alloc (max min_size (hb_default h)) of
        (p, cap) \<Rightarrow> (Some \<lparr> bh_ptr = p, bh_len = cap, bh_index = 0xFFFF \<rparr>,
                     h\<lparr> hb_in_use := hb_in_use h + 1, hb_total := hb_total h + 1 \<rparr>))"

text \<open>The block given back to the allocator.\<close>

definition hb_release :: "BufferHandle \<Rightarrow> HeapBuffers \<Rightarrow> (nat \<times> usize) \<times> HeapBuffers" where
  "hb_release b h = ((bh_ptr b, bh_len b), h\<lparr> hb_in_use := hb_in_use h - 1 \<rparr>)"

section \<open>Building and dropping an instance\<close>

record ('i, 'q, 'c) KsvcInstance =
  ki_router :: ProbeRouter
  ki_io :: "'i BasicIoUring"
  ki_pool :: "('q, 'c) PoolInner"
  ki_notifier :: EventFdNotifier
  ki_buffers :: HeapBuffers
  ki_eventfd :: i32

record InstanceBuilder =
  ib_sq_entries :: u32
  ib_worker_count :: usize
  ib_worker_queue_depth :: usize
  ib_buffer_size :: usize

definition InstanceBuilder_default :: InstanceBuilder where
  "InstanceBuilder_default =
     \<lparr> ib_sq_entries = 256, ib_worker_count = 0, ib_worker_queue_depth = 256, ib_buffer_size = 8192 \<rparr>"

definition with_sq_entries :: "u32 \<Rightarrow> InstanceBuilder \<Rightarrow> InstanceBuilder" where
  "with_sq_entries n b = b\<lparr> ib_sq_entries := n \<rparr>"

definition with_worker_count :: "usize \<Rightarrow> InstanceBuilder \<Rightarrow> InstanceBuilder" where
  "with_worker_count n b = b\<lparr> ib_worker_count := n \<rparr>"

definition with_queue_depth :: "usize \<Rightarrow> InstanceBuilder \<Rightarrow> InstanceBuilder" where
  "with_queue_depth n b = b\<lparr> ib_worker_queue_depth := n \<rparr>"

definition with_buffer_size :: "usize \<Rightarrow> InstanceBuilder \<Rightarrow> InstanceBuilder" where
  "with_buffer_size n b = b\<lparr> ib_buffer_size := n \<rparr>"

text \<open>
  What \<open>build\<close> calls: the ring by its number of entries, \<open>available_parallelism\<close>, the two queue constructors
  (\<open>None\<close> is their panic) and \<open>eventfd\<close>.
\<close>

record ('i, 'q, 'c) BuildEnv =
  be_uring :: "u32 \<Rightarrow> (i32 option, 'i) result"
  be_parallelism :: "usize option"
  be_work_queue :: "usize \<Rightarrow> 'q option"
  be_result_queue :: "usize \<Rightarrow> 'c option"
  be_eventfd :: "i32 \<times> i32"

definition FixedPool_drop :: "('q, 'c) PoolInner \<Rightarrow> ('q, 'c) PoolInner" where
  "FixedPool_drop p = p\<lparr> pool_shutdown_flag := True \<rparr>"

text \<open>The result, and the pool that an early return drops after its workers have been started.\<close>

definition build ::
  "('i, 'q, 'c) BuildEnv \<Rightarrow> 'i Uring \<Rightarrow> InstanceBuilder \<Rightarrow>
    ((KsvcError, ('i, 'q, 'c) KsvcInstance) result \<times> ('q, 'c) PoolInner option) option" where
  "build env u b =
     (case BasicIoUring_new (be_uring env (ib_sq_entries b)) of
        Inl e \<Rightarrow> Some (Err e, None)
      | Inr io \<Rightarrow>
          let supported = probe_opcodes_static u io;
              router = ProbeRouter_new supported
          in case (be_work_queue env (ib_worker_queue_depth b), be_result_queue env (ib_worker_queue_depth b)) of
               (Some q, Some c) \<Rightarrow>
                 let pool = (if ib_worker_count b = 0 then auto_sized (be_parallelism env) q c
                             else FixedPool_new (ib_worker_count b) q c)
                 in (case EventFdNotifier_create (be_eventfd env) of
                       Inl e \<Rightarrow> Some (Err e, Some (FixedPool_drop pool))
                     | Inr n \<Rightarrow>
                         Some (Ok \<lparr> ki_router = router, ki_io = io, ki_pool = pool, ki_notifier = n,
                                   ki_buffers = HeapBuffers_new (ib_buffer_size b), ki_eventfd = en_fd n \<rparr>, None))
             | _ \<Rightarrow> None)"

text \<open>
  The drop of an instance: the pool, the ring (within \<open>fuel\<close> rounds), then the fields. The pool's shared state
  outlives it, its workers hold it.
\<close>

definition instance_drop ::
  "nat \<Rightarrow> 'i Uring \<Rightarrow> ('i, 'q, 'c) KsvcInstance \<Rightarrow> (('q, 'c) PoolInner \<times> 'i BasicIoUring \<times> i32 list) option" where
  "instance_drop fuel u i =
     (let p = pool_shutdown (ki_pool i) in
      case iouring_shutdown fuel u (ki_io i) of
        None \<Rightarrow> None
      | Some io \<Rightarrow> Some (FixedPool_drop p, io, fst (EventFdNotifier_drop (ki_notifier i))))"

section \<open>Properties\<close>

text \<open>
  An eventfd as the kernel documents it: \<open>cnt\<close> is its counter, a write of one adds one, and fails with \<open>EAGAIN\<close>
  when the counter is at its maximum.
\<close>

definition eventfd_like :: "('k \<Rightarrow> nat) \<Rightarrow> i32 \<Rightarrow> (i32 \<Rightarrow> u64 \<Rightarrow> 'k \<Rightarrow> i64 \<times> i32 \<times> 'k) \<Rightarrow> bool" where
  "eventfd_like cnt fd wr \<longleftrightarrow>
     (\<forall>k. (cnt k < 2 ^ 64 - 2 \<longrightarrow> (\<exists>e k'. wr fd 1 k = (8, e, k') \<and> cnt k' = cnt k + 1)) \<and>
          (cnt k \<ge> 2 ^ 64 - 2 \<longrightarrow> wr fd 1 k = (- 1, 11, k)))"

lemma notify_leaves_pending:
  assumes "eventfd_like cnt (en_fd n) wr"
  shows "fst (notify wr n k) = Ok () \<and> 0 < cnt (snd (notify wr n k))"
proof (cases "cnt k < 2 ^ 64 - 2")
  case True
  then obtain e k' where "wr (en_fd n) 1 k = (8, e, k')" "cnt k' = cnt k + 1"
    using assms unfolding eventfd_like_def by blast
  then show ?thesis
    by (simp add: notify_def word_sless_alt)
next
  case False
  then have "wr (en_fd n) 1 k = (- 1, 11, k)"
    using assms unfolding eventfd_like_def by (meson not_less)
  with False show ?thesis
    by (simp add: notify_def word_sless_alt)
qed

text \<open>Acquiring (\<open>Inl\<close> the size) and releasing (\<open>Inr\<close> the position of a handle still held), in any order.\<close>

fun buffer_run :: "(usize \<Rightarrow> nat \<times> usize) \<Rightarrow> (usize + nat) list \<Rightarrow> HeapBuffers \<Rightarrow> BufferHandle list \<Rightarrow> HeapBuffers \<times> BufferHandle list" where
  "buffer_run alloc [] h bs = (h, bs)"
| "buffer_run alloc (Inl n # xs) h bs =
     (case hb_acquire alloc n h of
        (Some b, h') \<Rightarrow> buffer_run alloc xs h' (b # bs)
      | (None, h') \<Rightarrow> buffer_run alloc xs h' bs)"
| "buffer_run alloc (Inr k # xs) h bs =
     (if k < length bs then buffer_run alloc xs (snd (hb_release (bs ! k) h)) (take k bs @ drop (Suc k) bs)
      else buffer_run alloc xs h bs)"

lemma buffers_accounted:
  assumes "\<And>n. n \<le> snd (alloc n)"
  shows "hb_in_use h = of_nat (length bs) \<Longrightarrow> \<forall>b \<in> set bs. hb_default h \<le> bh_len b \<Longrightarrow>
    buffer_run alloc xs h bs = (h', bs') \<Longrightarrow>
    hb_in_use h' = of_nat (length bs') \<and> (\<forall>b \<in> set bs'. hb_default h' \<le> bh_len b)"
proof (induction xs arbitrary: h bs)
  case (Cons x xs)
  show ?case
  proof (cases x)
    case (Inl n)
    obtain p cap where a: "alloc (max n (hb_default h)) = (p, cap)" by fastforce
    then have "hb_default h \<le> cap"
      using assms[of "max n (hb_default h)"] by simp
    with Inl a Cons.prems show ?thesis
      by (intro Cons.IH[of "h\<lparr> hb_in_use := hb_in_use h + 1, hb_total := hb_total h + 1 \<rparr>"
            "\<lparr> bh_ptr = p, bh_len = cap, bh_index = 0xFFFF \<rparr> # bs"]) (auto simp: hb_acquire_def add.commute)
  next
    case (Inr k)
    show ?thesis
    proof (cases "k < length bs")
      case True
      let ?h = "h\<lparr> hb_in_use := hb_in_use h - 1 \<rparr>" and ?bs = "take k bs @ drop (Suc k) bs"
      obtain n where n: "length bs = Suc n" "length ?bs = n"
        using True by (cases "length bs") auto
      have "hb_in_use ?h = of_nat (length ?bs)"
        unfolding n(2) using Cons.prems(1) n(1) by simp
      moreover have "\<forall>b \<in> set ?bs. hb_default ?h \<le> bh_len b"
        using Cons.prems(2) by (auto dest: in_set_takeD in_set_dropD)
      moreover have "buffer_run alloc xs ?h ?bs = (h', bs')"
        using Inr True Cons.prems(3) by (simp add: hb_release_def)
      ultimately show ?thesis
        by (rule Cons.IH)
    next
      case False
      with Inr Cons.prems show ?thesis
        by (intro Cons.IH[of h bs]) auto
    qed
  qed
qed simp

text \<open>
  dropping a built instance does not wait for its workers: the completion queue is drained, the eventfd is
  closed, and the pool is left with the requests it had queued and the calls its workers had running.
\<close>

theorem drop_leaves_workers_running:
  assumes "build env u b = Some (Ok i0, left)" "ki_notifier i = ki_notifier i0"
    and "cq_yields u (ring (ki_io i)) cs" "length cs < fuel"
  shows "\<exists>p io. instance_drop fuel u i = Some (p, io, [ki_eventfd i0]) \<and> next_cqe u (ring io) = None \<and>
    work_queue p = work_queue (ki_pool i) \<and> active_workers p = active_workers (ki_pool i) \<and> pool_shutdown_flag p"
proof -
  obtain fd where n: "ki_notifier i = \<lparr> en_fd = fd, en_owned = True \<rparr>" "\<not> fd <s 0" "ki_eventfd i0 = fd"
    using assms(1,2)
    by (auto simp: build_def EventFdNotifier_create_def Let_def split: sum.splits option.splits prod.splits if_splits)
  then have "fst (EventFdNotifier_drop (ki_notifier i)) = [ki_eventfd i0]"
    by (simp add: EventFdNotifier_drop_def word_sless_alt word_sle_eq not_less)
  moreover obtain io where "iouring_shutdown fuel u (ki_io i) = Some io" "next_cqe u (ring io) = None"
    using drain_cqes_yields[OF assms(3,4)] by (auto simp: iouring_shutdown_def)
  ultimately show ?thesis
    by (simp add: instance_drop_def FixedPool_drop_def pool_shutdown_def active_workers_def)
qed

definition demo_env :: "(Sqe list \<times> Cqe list, SubmitEntry RingMem, WorkerCompletion RingMem) BuildEnv" where
  "demo_env = \<lparr> be_uring = (\<lambda>_. Ok ([], [])), be_parallelism = Some 4, be_work_queue = (\<lambda>_. Some (work_queue demo_pool)),
     be_result_queue = (\<lambda>_. Some (result_queue demo_pool)), be_eventfd = (5, 0) \<rparr>"

theorem drop_leaves_workers_running_witness:
  "\<exists>i p io. build demo_env list_ring (with_worker_count 1 InstanceBuilder_default) = Some (Ok i, None) \<and>
     instance_drop 3 list_ring (i\<lparr> ki_pool := pw_pool demo_queued, ki_io := (ki_io i)\<lparr> ring := ([], [cqe_for 1, cqe_for 2]) \<rparr> \<rparr>) =
       Some (p, io, [5]) \<and> work_queue p = work_queue (pw_pool demo_queued) \<and> next_cqe list_ring (ring io) = None"
proof -
  obtain i where i: "build demo_env list_ring (with_worker_count 1 InstanceBuilder_default) = Some (Ok i, None)" "ki_eventfd i = 5"
    by (simp add: build_def demo_env_def BasicIoUring_new_def EventFdNotifier_create_def with_worker_count_def
        InstanceBuilder_default_def word_sless_alt)
  show ?thesis
    using drop_leaves_workers_running[OF i(1), of "i\<lparr> ki_pool := pw_pool demo_queued, ki_io := (ki_io i)\<lparr> ring := ([], [cqe_for 1, cqe_for 2]) \<rparr> \<rparr>"
        "[cqe_for 1, cqe_for 2]" 3] i list_ring_yields[of "[]" "[cqe_for 1, cqe_for 2]"]
    by auto
qed

end
