(* ===== verification/Gvt_Httpd.thy ===== *)
theory Gvt_Httpd
  imports Gvt_Net
begin

text \<open>
  The HTTP server with one green thread per connection, \<open>cmd/httpd/rust/gvthread1/src/main.rs\<close>: its command line,
  the accept loop and the handler of a connection, on the streams of \<open>Gvt_Net\<close>. The statistics thread and
  signals are left out; \<open>running s\<close> is the flag that the signal handler clears.
\<close>

section \<open>Options\<close>

record ServerOpts =
  so_port :: nat
  so_workers :: nat
  so_max_gvthreads :: nat
  so_sq_entries :: nat

definition ServerOpts_default :: ServerOpts where
  "ServerOpts_default = \<lparr> so_port = 8080, so_workers = 4, so_max_gvthreads = 100000, so_sq_entries = 1024 \<rparr>"

text \<open>A value that is missing or does not parse leaves the option as it is.\<close>

definition override :: "nat \<Rightarrow> string option \<Rightarrow> nat \<Rightarrow> nat" where
  "override width v old = (case Option.bind v (parse_unsigned width) of None \<Rightarrow> old | Some n \<Rightarrow> n)"

definition opts_env :: "env \<Rightarrow> ServerOpts \<Rightarrow> ServerOpts" where
  "opts_env env o1 =
     \<lparr> so_port = override 16 (env ''gvt_app_port'') (so_port o1),
       so_workers = override 64 (env ''gvt_parallelism'') (so_workers o1),
       so_max_gvthreads = override 64 (env ''gvt_app_max_gvthreads'') (so_max_gvthreads o1),
       so_sq_entries = override 32 (env ''gvt_app_sq_entries'') (so_sq_entries o1) \<rparr>"

abbreviation arg_value :: "string list \<Rightarrow> string option" where
  "arg_value as \<equiv> (case as of [] \<Rightarrow> None | a # _ \<Rightarrow> Some a)"

fun opts_args :: "string list \<Rightarrow> ServerOpts \<Rightarrow> ServerOpts" where
  "opts_args [] o1 = o1"
| "opts_args (a # as) o1 =
     (if a = ''--port'' \<or> a = ''-p'' then opts_args (drop 1 as) (o1\<lparr> so_port := override 16 (arg_value as) (so_port o1) \<rparr>)
      else if a = ''--workers'' \<or> a = ''-w'' then
        opts_args (drop 1 as) (o1\<lparr> so_workers := override 64 (arg_value as) (so_workers o1) \<rparr>)
      else if a = ''--max-gvthreads'' then
        opts_args (drop 1 as) (o1\<lparr> so_max_gvthreads := override 64 (arg_value as) (so_max_gvthreads o1) \<rparr>)
      else if a = ''--sq'' then opts_args (drop 1 as) (o1\<lparr> so_sq_entries := override 32 (arg_value as) (so_sq_entries o1) \<rparr>)
      else opts_args as (o1\<lparr> so_port := override 16 (Some a) (so_port o1) \<rparr>))"

text \<open>The arguments without the program name.\<close>

definition server_opts :: "env \<Rightarrow> string list \<Rightarrow> ServerOpts" where
  "server_opts env as = opts_args as (opts_env env ServerOpts_default)"

section \<open>Responses and requests\<close>

abbreviation CRLF :: string where "CRLF \<equiv> [CHR 0x0D, CHR 0x0A]"

definition GVT_BODY :: string where
  "GVT_BODY = ''Hello from GVThread!'' @ [CHR 0x0A]"

definition gvt_response :: string where
  "gvt_response =
     ''HTTP/1.1 200 OK'' @ CRLF @ ''Content-Type: text/plain'' @ CRLF @ ''Content-Length: '' @ show_nat (length GVT_BODY) @ CRLF @
     ''Connection: keep-alive'' @ CRLF @ ''Server: gvthread-httpd'' @ CRLF @ CRLF @ GVT_BODY"

definition has_complete_request :: "string \<Rightarrow> usize \<Rightarrow> bool" where
  "has_complete_request buf len \<longleftrightarrow>
     4 \<le> len \<and> list_ex (\<lambda>i. take 4 (drop i (take len buf)) = CRLF @ CRLF) [0..<len - 3]"

section \<open>Connections\<close>

abbreviation GVT_RECV_BUF :: usize where "GVT_RECV_BUF \<equiv> 4096"

record HttpTotals =
  ht_requests :: u64
  ht_connections :: u64
  ht_active :: u64

text \<open>\<open>rd s\<close> is the memory; the handler's buffer starts at \<open>buf\<close>.\<close>

definition buffer_at :: "('s \<Rightarrow> u64 \<Rightarrow> char) \<Rightarrow> u64 \<Rightarrow> nat \<Rightarrow> 's \<Rightarrow> string" where
  "buffer_at rd buf n s = map (\<lambda>i. rd s (buf + of_nat i)) [0..<n]"

text \<open>
  What the handler uses: the primitives, the yield, the flag, the memory, its buffer and the address of the
  response.
\<close>

record ('sh, 's) HttpEnv =
  he_parks :: "('sh, 's) Parks"
  he_libc :: "'s Libc"
  he_yield :: "'s \<Rightarrow> 's"
  he_running :: "'s \<Rightarrow> bool"
  he_rd :: "'s \<Rightarrow> u64 \<Rightarrow> char"
  he_buf :: u64
  he_response :: u64

text \<open>
  The keep-alive loop, at most \<open>fuel\<close> turns with at most \<open>wfuel\<close> turns for a write; \<open>None\<close> when they do not
  suffice.
\<close>

fun conn_loop ::
  "nat \<Rightarrow> nat \<Rightarrow> ('sh, 's) HttpEnv \<Rightarrow> 'sh GvtStream \<Rightarrow> usize \<Rightarrow> HttpTotals \<Rightarrow> 's \<Rightarrow>
    ((failure, unit) result \<times> HttpTotals \<times> 's) option" where
  "conn_loop 0 wfuel H t recv_len c s = None"
| "conn_loop (Suc fuel) wfuel H t recv_len c s =
     (if \<not> he_running H s then Some (Ok (), c, s)
      else case stream_read (he_parks H) t (he_buf H + of_nat recv_len) (GVT_RECV_BUF - recv_len) s of
        (n, s1) \<Rightarrow>
          if sint n \<le> 0 then Some (Ok (), c, s1)
          else
            let recv_len1 = recv_len + unat n in
            if recv_len1 > GVT_RECV_BUF then Some (Err (Panic ''range end index out of range for slice''), c, s1)
            else if \<not> has_complete_request (buffer_at (he_rd H) (he_buf H) GVT_RECV_BUF s1) recv_len1 then
              if recv_len1 \<ge> GVT_RECV_BUF then Some (Ok (), c, s1) else conn_loop fuel wfuel H t recv_len1 c s1
            else
              let c1 = c\<lparr> ht_requests := ht_requests c + 1 \<rparr> in
              case write_all wfuel (he_parks H) (he_yield H) t (he_response H) (length gvt_response) s1 of
                None \<Rightarrow> None
              | Some (Inl e, s2) \<Rightarrow> Some (Err e, c1, s2)
              | Some (Inr sent, s2) \<Rightarrow> if sint sent < 0 then Some (Ok (), c1, s2) else conn_loop fuel wfuel H t 0 c1 s2)"

text \<open>The handler: the loop between the updates of the active count, then the stream is dropped.\<close>

definition handle_connection ::
  "nat \<Rightarrow> nat \<Rightarrow> ('sh, 's) HttpEnv \<Rightarrow> 'sh GvtStream \<Rightarrow> HttpTotals \<Rightarrow> 's \<Rightarrow> ((failure, unit) result \<times> HttpTotals \<times> 's) option" where
  "handle_connection fuel wfuel H t c s =
     (case conn_loop fuel wfuel H t 0 (c\<lparr> ht_active := ht_active c + 1 \<rparr>) s of
        None \<Rightarrow> None
      | Some (Inl e, c1, s1) \<Rightarrow> Some (Err e, c1, GvtStream_drop (he_libc H) t s1)
      | Some (Inr _, c1, s1) \<Rightarrow>
          Some (Ok (), c1\<lparr> ht_active := ht_active c1 - 1 \<rparr>, GvtStream_drop (he_libc H) t s1))"

text \<open>
  The accept loop: \<open>begin_conn t\<close> starts a thread with the handler for \<open>t\<close>; \<open>addr\<close> and \<open>addrlen\<close> are the locals of
  \<open>accept\<close>. The streams handed out are returned.
\<close>

fun accept_turns ::
  "nat \<Rightarrow> ('sh, 's) HttpEnv \<Rightarrow> ('sh GvtStream \<Rightarrow> 's \<Rightarrow> 's) \<Rightarrow> u64 \<Rightarrow> u64 \<Rightarrow> 'sh GvtListener \<Rightarrow> HttpTotals \<Rightarrow> 's \<Rightarrow>
    ('sh GvtStream list \<times> HttpTotals \<times> 's) option" where
  "accept_turns 0 H begin_conn addr addrlen l c s = None"
| "accept_turns (Suc fuel) H begin_conn addr addrlen l c s =
     (if \<not> he_running H s then Some ([], c, s)
      else case accept (he_libc H) (he_parks H) addr addrlen l s of
        (Inr t, s1) \<Rightarrow>
          map_option (\<lambda>(ts, r). (t # ts, r))
            (accept_turns fuel H begin_conn addr addrlen l (c\<lparr> ht_connections := ht_connections c + 1 \<rparr>) (begin_conn t s1))
      | (Inl e, s1) \<Rightarrow>
          if e = - EAGAIN \<or> e = - EINTR then accept_turns fuel H begin_conn addr addrlen l c (he_yield H s1)
          else if \<not> he_running H s1 then Some ([], c, s1)
          else accept_turns fuel H begin_conn addr addrlen l c s1)"

definition accept_loop ::
  "nat \<Rightarrow> ('sh, 's) HttpEnv \<Rightarrow> ('sh GvtStream \<Rightarrow> 's \<Rightarrow> 's) \<Rightarrow> u64 \<Rightarrow> u64 \<Rightarrow> 'sh GvtListener \<Rightarrow> HttpTotals \<Rightarrow> 's \<Rightarrow>
    ('sh GvtStream list \<times> HttpTotals \<times> 's) option" where
  "accept_loop fuel H begin_conn addr addrlen l c s =
     map_option (\<lambda>(ts, c1, s1). (ts, c1, GvtListener_drop (he_libc H) l s1))
       (accept_turns fuel H begin_conn addr addrlen l c s)"

text \<open>A flag without a value and a value out of range leave what the environment said.\<close>

lemma server_opts_port:
  "so_port (server_opts env [''--port'', v]) = override 16 (Some v) (override 16 (env ''gvt_app_port'') 8080)"
  "so_port (server_opts env [''--port'']) = override 16 (env ''gvt_app_port'') 8080"
  by (simp_all add: server_opts_def opts_env_def ServerOpts_default_def override_def)

section \<open>A peer that sends requests one by one\<close>

text \<open>
  The connection as the handler's calls see it: \<open>inp s\<close> are the pieces still to arrive, \<open>sent s\<close> the addresses of
  the bytes sent. A read into the handler's buffer that has room delivers the next piece, or 0 at the end of the stream; a send keeps
  its contract, fails only with a request to retry, and does not touch the other direction or the flag.
\<close>

definition http_peer ::
  "('sh, 's) HttpEnv \<Rightarrow> 'sh GvtStream \<Rightarrow> ('s \<Rightarrow> string list) \<Rightarrow> ('s \<Rightarrow> u64 list) \<Rightarrow> ('s \<Rightarrow> nat) \<Rightarrow> bool" where
  "http_peer H t inp sent retries \<longleftrightarrow>
     (\<forall>p len s. inp s = [] \<longrightarrow> (\<exists>s'. stream_read (he_parks H) t p len s = (0, s') \<and> sent s' = sent s)) \<and>
     (\<forall>p len s x xs. inp s = x # xs \<and> length x \<le> len \<and> len \<le> GVT_RECV_BUF \<longrightarrow>
        (\<exists>s'. stream_read (he_parks H) t p len s = (of_nat (length x), s') \<and> inp s' = xs \<and> sent s' = sent s \<and>
           he_running H s' = he_running H s \<and> retries s' \<le> retries s \<and>
           (\<forall>i < length x. he_rd H s' (p + of_nat i) = x ! i) \<and>
           (\<forall>a. a \<notin> set (bytes_at p (length x)) \<longrightarrow> he_rd H s' a = he_rd H s a))) \<and>
     stream_send (stream_write (he_parks H) t) (he_yield H) sent \<and>
     send_progress (stream_write (he_parks H) t) (he_yield H) retries \<and>
     (\<forall>p len s n s'. stream_write (he_parks H) t p len s = (n, s') \<longrightarrow>
        (sint n < 0 \<longrightarrow> n = - EAGAIN \<or> n = - EINTR) \<and> (inp s', he_running H s') = (inp s, he_running H s)) \<and>
     (\<forall>s. (inp (he_yield H s), he_running H (he_yield H s)) = (inp s, he_running H s))"

text \<open>A request in pieces: complete with its last piece and not before, and it fits the buffer.\<close>

definition complete :: "string \<Rightarrow> bool" where
  "complete r \<longleftrightarrow> has_complete_request r (length r)"

definition pieces_ok :: "string \<Rightarrow> string list \<Rightarrow> bool" where
  "pieces_ok got xs \<longleftrightarrow>
     xs \<noteq> [] \<and> [] \<notin> set xs \<and> length (got @ concat xs) \<le> GVT_RECV_BUF \<and> complete (got @ concat xs) \<and>
     (\<forall>k < length xs. \<not> complete (got @ concat (take k xs)))"

lemma has_complete_take: "len \<le> length b \<Longrightarrow> has_complete_request b len = complete (take len b)"
  by (simp add: has_complete_request_def complete_def min_absorb2)

lemma buffer_at_length [simp]: "length (buffer_at rd buf n s) = n"
  by (simp add: buffer_at_def)

lemma take_buffer_at: "k \<le> n \<Longrightarrow> take k (buffer_at rd buf n s) = buffer_at rd buf k s"
  by (simp add: buffer_at_def take_map)

lemma buffer_at_read:
  assumes "k + length x < 2 ^ 64" "\<forall>i < length x. rd s' (buf + of_nat k + of_nat i) = x ! i"
    and "\<forall>a. a \<notin> set (bytes_at (buf + of_nat k) (length x)) \<longrightarrow> rd s' a = rd s a"
  shows "buffer_at rd buf (k + length x) s' = buffer_at rd buf k s @ x"
proof (rule nth_equalityI)
  fix i assume "i < length (buffer_at rd buf (k + length x) s')"
  then have i: "i < k + length x" by simp
  show "buffer_at rd buf (k + length x) s' ! i = (buffer_at rd buf k s @ x) ! i"
  proof (cases "i < k")
    case True
    have "buf + of_nat i \<notin> set (bytes_at (buf + of_nat k) (length x))"
    proof
      assume "buf + of_nat i \<in> set (bytes_at (buf + of_nat k) (length x))"
      then obtain j where j: "j < length x" "of_nat i = (of_nat (k + j) :: u64)"
        by (auto simp: bytes_at_def)
      then show False
        using True assms(1) by (simp add: word_unat_eq_iff unat_of_nat_lt del: of_nat_add)
    qed
    then show ?thesis
      using True i assms(3) by (simp add: buffer_at_def nth_append)
  next
    case False
    then obtain j where "i = k + j" "j < length x"
      using i by (metis add_diff_inverse_nat nat_add_left_cancel_less)
    then show ?thesis
      using assms(2) by (simp add: buffer_at_def nth_append ac_simps)
  qed
qed simp

lemma pieces_ok_step:
  assumes "pieces_ok got (x # xs)"
  shows "x \<noteq> []" "length got + length x \<le> GVT_RECV_BUF"
    "xs = [] \<Longrightarrow> complete (got @ x)" "xs \<noteq> [] \<Longrightarrow> \<not> complete (got @ x) \<and> length got + length x < GVT_RECV_BUF \<and> pieces_ok (got @ x) xs"
proof -
  show "x \<noteq> []" "length got + length x \<le> GVT_RECV_BUF" "xs = [] \<Longrightarrow> complete (got @ x)"
    using assms by (auto simp: pieces_ok_def)
  assume xs: "xs \<noteq> []"
  have nc: "\<not> complete (got @ x)"
    using assms xs unfolding pieces_ok_def by (elim conjE allE[of _ 1]) simp
  have "0 < length (concat xs)" "length got + length x + length (concat xs) \<le> GVT_RECV_BUF"
    using assms xs by (cases xs, auto simp: pieces_ok_def)
  then have "length got + length x < GVT_RECV_BUF"
    by linarith
  moreover have "\<not> complete ((got @ x) @ concat (take k xs))" if "k < length xs" for k
    using assms that unfolding pieces_ok_def by (elim conjE allE[of _ "Suc k"]) simp
  moreover have "length got + (length x + length (concat xs)) \<le> GVT_RECV_BUF" "complete (got @ x @ concat xs)" "[] \<notin> set xs"
    using assms by (simp_all add: pieces_ok_def)
  ultimately show "\<not> complete (got @ x) \<and> length got + length x < GVT_RECV_BUF \<and> pieces_ok (got @ x) xs"
    using xs nc by (simp add: pieces_ok_def)
qed

lemma http_peerD:
  assumes "http_peer H t inp sent retries"
  shows "inp s = [] \<Longrightarrow> \<exists>s'. stream_read (he_parks H) t p len s = (0, s') \<and> sent s' = sent s"
    and "inp s = x # xs \<Longrightarrow> length x \<le> len \<Longrightarrow> len \<le> GVT_RECV_BUF \<Longrightarrow>
      \<exists>s'. stream_read (he_parks H) t p len s = (of_nat (length x), s') \<and> inp s' = xs \<and> sent s' = sent s \<and>
        he_running H s' = he_running H s \<and> retries s' \<le> retries s \<and>
        (\<forall>i < length x. he_rd H s' (p + of_nat i) = x ! i) \<and>
        (\<forall>a. a \<notin> set (bytes_at p (length x)) \<longrightarrow> he_rd H s' a = he_rd H s a)"
    and "length gvt_response + retries s < wfuel \<Longrightarrow>
      \<exists>e s'. write_all wfuel (he_parks H) (he_yield H) t buf (length gvt_response) s = Some (Ok e, s') \<and> \<not> sint e < 0 \<and>
        sent s' = sent s @ bytes_at buf (length gvt_response) \<and> retries s' \<le> retries s \<and>
        inp s' = inp s \<and> he_running H s' = he_running H s"
proof -
  note p = assms[unfolded http_peer_def]
  show "inp s = [] \<Longrightarrow> \<exists>s'. stream_read (he_parks H) t p len s = (0, s') \<and> sent s' = sent s"
    using p by blast
  show "inp s = x # xs \<Longrightarrow> length x \<le> len \<Longrightarrow> len \<le> GVT_RECV_BUF \<Longrightarrow>
      \<exists>s'. stream_read (he_parks H) t p len s = (of_nat (length x), s') \<and> inp s' = xs \<and> sent s' = sent s \<and>
        he_running H s' = he_running H s \<and> retries s' \<le> retries s \<and>
        (\<forall>i < length x. he_rd H s' (p + of_nat i) = x ! i) \<and>
        (\<forall>a. a \<notin> set (bytes_at p (length x)) \<longrightarrow> he_rd H s' a = he_rd H s a)"
    using p by blast
  assume "length gvt_response + retries s < wfuel"
  moreover have "length gvt_response < 2 ^ 32"
    by (simp add: gvt_response_def GVT_BODY_def show_nat.simps)
  ultimately have "\<exists>e s'. write_all wfuel (he_parks H) (he_yield H) t buf (length gvt_response) s = Some (Ok e, s') \<and>
      \<not> sint e < 0 \<and> sent s' = sent s @ bytes_at buf (length gvt_response) \<and> retries s' \<le> retries s \<and>
      (inp s', he_running H s') = (inp s, he_running H s)"
    using p by (intro write_all_whole) blast+
  then show "\<exists>e s'. write_all wfuel (he_parks H) (he_yield H) t buf (length gvt_response) s = Some (Ok e, s') \<and>
      \<not> sint e < 0 \<and> sent s' = sent s @ bytes_at buf (length gvt_response) \<and> retries s' \<le> retries s \<and>
      inp s' = inp s \<and> he_running H s' = he_running H s"
    by simp
qed

text \<open>One turn of the loop that reads a piece: on to the next piece, or the response is written.\<close>

lemma conn_loop_read:
  assumes "he_running H s" "stream_read (he_parks H) t (he_buf H + of_nat (length got)) (GVT_RECV_BUF - length got) s = (of_nat (length x), s1)"
    and "x \<noteq> []" "length got + length x \<le> GVT_RECV_BUF"
    and "buffer_at (he_rd H) (he_buf H) (length got + length x) s1 = got @ x"
  shows "\<not> complete (got @ x) \<Longrightarrow> length got + length x < GVT_RECV_BUF \<Longrightarrow>
      conn_loop (Suc fuel) wfuel H t (length got) c s = conn_loop fuel wfuel H t (length (got @ x)) c s1"
    and "complete (got @ x) \<Longrightarrow>
      write_all wfuel (he_parks H) (he_yield H) t (he_response H) (length gvt_response) s1 = Some (Ok e, s2) \<Longrightarrow> \<not> sint e < 0 \<Longrightarrow>
      conn_loop (Suc fuel) wfuel H t (length got) c s = conn_loop fuel wfuel H t 0 (c\<lparr> ht_requests := ht_requests c + 1 \<rparr>) s2"
proof -
  have n: "sint (of_nat (length x) :: i64) = int (length x)" "unat (of_nat (length x) :: i64) = length x"
    using assms(4) by (simp_all add: signed_of_nat signed_take_bit_int_eq_self unat_of_nat_lt)
  have r: "has_complete_request (buffer_at (he_rd H) (he_buf H) GVT_RECV_BUF s1) (length got + length x) = complete (got @ x)"
    using assms(4,5) by (simp add: has_complete_take take_buffer_at)
  show "\<not> complete (got @ x) \<Longrightarrow> length got + length x < GVT_RECV_BUF \<Longrightarrow>
      conn_loop (Suc fuel) wfuel H t (length got) c s = conn_loop fuel wfuel H t (length (got @ x)) c s1"
    using assms(1-4) n r by simp
  show "complete (got @ x) \<Longrightarrow>
      write_all wfuel (he_parks H) (he_yield H) t (he_response H) (length gvt_response) s1 = Some (Ok e, s2) \<Longrightarrow> \<not> sint e < 0 \<Longrightarrow>
      conn_loop (Suc fuel) wfuel H t (length got) c s = conn_loop fuel wfuel H t 0 (c\<lparr> ht_requests := ht_requests c + 1 \<rparr>) s2"
    using assms(1-4) n r by (simp add: not_less)
qed

lemma conn_loop_request:
  assumes "http_peer H t inp sent retries"
  shows "pieces_ok got xs \<Longrightarrow> inp s = xs @ rest \<Longrightarrow> buffer_at (he_rd H) (he_buf H) (length got) s = got \<Longrightarrow>
    he_running H s \<Longrightarrow> length gvt_response + retries s < wfuel \<Longrightarrow>
    \<exists>s'. conn_loop (length xs + fuel) wfuel H t (length got) c s =
        conn_loop fuel wfuel H t 0 (c\<lparr> ht_requests := ht_requests c + 1 \<rparr>) s' \<and>
      inp s' = rest \<and> sent s' = sent s @ bytes_at (he_response H) (length gvt_response) \<and>
      he_running H s' \<and> retries s' \<le> retries s"
proof (induction xs arbitrary: got s)
  case (Cons x xs)
  note ok = pieces_ok_step[OF Cons.prems(1)]
  have room: "length x \<le> GVT_RECV_BUF - length got"
    using ok(2) by simp
  obtain s1 where s1: "stream_read (he_parks H) t (he_buf H + of_nat (length got)) (GVT_RECV_BUF - length got) s = (of_nat (length x), s1)"
      "inp s1 = xs @ rest" "sent s1 = sent s" "he_running H s1" "retries s1 \<le> retries s"
    and mem: "\<forall>i < length x. he_rd H s1 (he_buf H + of_nat (length got) + of_nat i) = x ! i"
      "\<forall>a. a \<notin> set (bytes_at (he_buf H + of_nat (length got)) (length x)) \<longrightarrow> he_rd H s1 a = he_rd H s a"
    using http_peerD(2)[OF assms, of s x "xs @ rest" "GVT_RECV_BUF - length got" "he_buf H + of_nat (length got)"]
      room Cons.prems(2,4) by auto
  have s6: "buffer_at (he_rd H) (he_buf H) (length got + length x) s1 = got @ x"
    using buffer_at_read[OF _ mem] ok(2) Cons.prems(3) by simp
  note turn = conn_loop_read[OF Cons.prems(4) s1(1) ok(1,2) s6]
  show ?case
  proof (cases "xs = []")
    case True
    obtain e s2 where "write_all wfuel (he_parks H) (he_yield H) t (he_response H) (length gvt_response) s1 = Some (Ok e, s2)"
        "\<not> sint e < 0" "sent s2 = sent s1 @ bytes_at (he_response H) (length gvt_response)" "retries s2 \<le> retries s1"
        "inp s2 = inp s1" "he_running H s2 = he_running H s1"
      using http_peerD(3)[OF assms, of s1 wfuel "he_response H"] Cons.prems(5) s1(5) by auto
    with turn(2) ok(3) True s1 show ?thesis
      by (intro exI[of _ s2]) simp
  next
    case False
    have "buffer_at (he_rd H) (he_buf H) (length (got @ x)) s1 = got @ x"
      using s6 by simp
    from Cons.IH[OF conjunct2[OF conjunct2[OF ok(4)[OF False]]] s1(2) this s1(4)] Cons.prems(5) s1(3,5)
    obtain s' where "conn_loop (length xs + fuel) wfuel H t (length (got @ x)) c s1 =
        conn_loop fuel wfuel H t 0 (c\<lparr> ht_requests := ht_requests c + 1 \<rparr>) s'"
      "inp s' = rest" "sent s' = sent s @ bytes_at (he_response H) (length gvt_response)"
      "he_running H s'" "retries s' \<le> retries s1"
      by auto
    with turn(1) ok(4)[OF False] s1(5) show ?thesis
      by (intro exI[of _ s']) simp
  qed
qed (simp add: pieces_ok_def)

section \<open>Properties\<close>

text \<open>
  C36: a peer that sends complete requests one by one, each in any pieces that arrive separately, and then closes
  gets exactly one response per request, in full; the handler returns, counts each request once, restores the
  active count and closes the descriptor.
\<close>

theorem each_request_answered:
  assumes "http_peer H t inp sent retries" "inp s = concat rs" "list_all (pieces_ok []) rs" "he_running H s"
    and "length gvt_response + retries s < wfuel" "length (concat rs) < fuel"
  shows "\<exists>s'. handle_connection fuel wfuel H t c s =
      Some (Ok (), c\<lparr> ht_requests := ht_requests c + of_nat (length rs) \<rparr>, lc_close (he_libc H) (gs_fd t) s') \<and>
    sent s' = sent s @ concat (replicate (length rs) (bytes_at (he_response H) (length gvt_response)))"
proof -
  have "\<exists>s'. conn_loop fuel wfuel H t 0 c s = Some (Ok (), c\<lparr> ht_requests := ht_requests c + of_nat (length rs) \<rparr>, s') \<and>
    sent s' = sent s @ concat (replicate (length rs) (bytes_at (he_response H) (length gvt_response)))" for c
    using assms(2-)
  proof (induction rs arbitrary: s c fuel)
    case Nil
    then obtain f where "fuel = Suc f"
      by (cases fuel) auto
    with Nil http_peerD(1)[OF assms(1), of s "he_buf H" GVT_RECV_BUF] show ?case
      by auto
  next
    case (Cons r rs)
    obtain f where f: "fuel = length r + f" "length (concat rs) < f"
      using Cons.prems(5) by (metis add_less_cancel_left concat.simps(2) length_append less_imp_add_positive add.assoc less_add_same_cancel1)
    from Cons.prems f obtain s1 where s1: "conn_loop fuel wfuel H t 0 c s =
        conn_loop f wfuel H t 0 (c\<lparr> ht_requests := ht_requests c + 1 \<rparr>) s1"
      "inp s1 = concat rs" "sent s1 = sent s @ bytes_at (he_response H) (length gvt_response)"
      "he_running H s1" "retries s1 \<le> retries s"
      using conn_loop_request[OF assms(1), of "[]" r s "concat rs" wfuel f c] by (auto simp: buffer_at_def)
    from Cons.IH[OF s1(2) _ s1(4) _ f(2), of "c\<lparr> ht_requests := ht_requests c + 1 \<rparr>"] Cons.prems s1 show ?case
      by (simp add: ac_simps)
  qed
  from this[of "c\<lparr> ht_active := ht_active c + 1 \<rparr>"] show ?thesis
    by (auto simp: handle_connection_def GvtStream_drop_def)
qed

text \<open>A connection on which the kernel takes at most 1024 bytes at a time.\<close>

type_synonym demo_conn = "string list \<times> u64 list \<times> (u64 \<Rightarrow> char)"

definition demo_recv :: "u64 \<Rightarrow> u64 \<Rightarrow> demo_conn \<Rightarrow> i64 \<times> demo_conn" where
  "demo_recv p len s =
     (case s of
        (x # xs, out, m) \<Rightarrow>
          if length x \<le> unat len
          then (of_nat (length x), (xs, out, \<lambda>a. if unat (a - p) < length x then x ! unat (a - p) else m a)) else (0, s)
      | ([], out, m) \<Rightarrow> (0, s))"

definition demo_send :: "u64 \<Rightarrow> u64 \<Rightarrow> demo_conn \<Rightarrow> i64 \<times> demo_conn" where
  "demo_send p len s = (case s of (xs, out, m) \<Rightarrow> (of_nat (min 1024 (unat len)), (xs, out @ bytes_at p (min 1024 (unat len)), m)))"

definition demo_http :: "(unit, demo_conn) HttpEnv" where
  "demo_http =
     \<lparr> he_parks = \<lparr> pk_shared = (\<lambda>_ _ _ s. (0, s)),
         pk_local = (\<lambda>n a. if n = NR_RECVFROM then demo_recv (a ! 1) (a ! 2) else demo_send (a ! 1) (a ! 2)) \<rparr>,
       he_libc = \<lparr> lc_socket = (\<lambda>_ _ _ s. (3, s)), lc_setsockopt = (\<lambda>_ _ _ _ s. s), lc_bind = (\<lambda>_ _ _ _ s. (0, s)),
         lc_listen = (\<lambda>_ _ s. s), lc_close = (\<lambda>_ s. s), lc_errno = (\<lambda>_. 0) \<rparr>,
       he_yield = id, he_running = (\<lambda>_. True), he_rd = (\<lambda>s. snd (snd s)), he_buf = 0x1000, he_response = 0x9000 \<rparr>"

abbreviation demo_stream :: "unit GvtStream" where
  "demo_stream \<equiv> \<lparr> gs_fd = 5, gs_shared = None \<rparr>"

lemma demo_calls:
  "stream_read (he_parks demo_http) demo_stream p len = demo_recv p (of_nat len)"
  "stream_write (he_parks demo_http) demo_stream p len = demo_send p (of_nat len)"
  by (simp_all add: stream_read_def stream_write_def wr_recv_def wr_send_def demo_http_def)

lemma demo_fields:
  "he_yield demo_http = id" "he_running demo_http = (\<lambda>_. True)" "he_rd demo_http = (\<lambda>s. snd (snd s))"
  by (simp_all add: demo_http_def)

lemma demo_peer: "http_peer demo_http demo_stream fst (\<lambda>s. fst (snd s)) (\<lambda>_. 0)"
proof -
  have m: "unat (of_nat len :: u64) \<le> len" for len
    by (simp add: unsigned_of_nat take_bit_nat_eq_self_iff take_bit_nat_less_eq_self)
  have c: "unat (of_nat (min 1024 k) :: i64) = min 1024 k" "sint (of_nat (min 1024 k) :: i64) = int (min 1024 k)" for k :: nat
    by (simp_all add: unat_of_nat_lt signed_of_nat signed_take_bit_int_eq_self min_def)
  have rd: "fst s = x # xs \<Longrightarrow> length x \<le> len \<Longrightarrow> len \<le> GVT_RECV_BUF \<Longrightarrow>
      \<exists>s'. demo_recv p (of_nat len) s = (of_nat (length x), s') \<and> fst s' = xs \<and> fst (snd s') = fst (snd s) \<and>
        (\<forall>i < length x. snd (snd s') (p + of_nat i) = x ! i) \<and>
        (\<forall>a. a \<notin> set (bytes_at p (length x)) \<longrightarrow> snd (snd s') a = snd (snd s) a)" for p len s x xs
  proof -
    assume a: "fst s = x # xs" "length x \<le> len" "len \<le> GVT_RECV_BUF"
    obtain out m where s: "s = (x # xs, out, m)"
      using a(1) by (cases s) auto
    have "unat (of_nat len :: u64) = len" "unat (of_nat i :: u64) = i" if "i < length x" for i
      using a(2,3) that by (simp_all add: unat_of_nat_lt)
    moreover have "unat (of_nat len :: u64) = len"
      using a(3) by (simp add: unat_of_nat_lt)
    moreover have "b \<in> set (bytes_at p (length x))" if "unat (b - p) < length x" for b
      using that by (auto simp: bytes_at_def image_iff intro!: bexI[of _ "unat (b - p)"])
    ultimately show ?thesis
      using a(2) by (auto simp: s demo_recv_def)
  qed
  have nz: "(of_nat n :: i64) \<noteq> 0 \<and> (of_nat n :: i64) \<noteq> - EAGAIN \<and> (of_nat n :: i64) \<noteq> - EINTR" if "0 < n" "n \<le> 1024" for n
    using that by (simp add: word_unat_eq_iff unat_of_nat_lt EAGAIN_def EINTR_def)
  have ss: "stream_send (\<lambda>p len. demo_send p (of_nat len)) id (\<lambda>s. fst (snd s))"
    using m by (auto simp: stream_send_def demo_send_def c split: prod.splits) (meson min.coboundedI2)
  have sp: "send_progress (\<lambda>p len. demo_send p (of_nat len)) id (\<lambda>_. 0)"
    unfolding send_progress_def demo_send_def
  proof (clarsimp, intro conjI)
    fix len :: nat assume "0 < len" "len < 4294967296"
    then have "0 < min 1024 (unat (of_nat len :: u64))"
      by (simp add: unat_of_nat_lt)
    from nz[OF this] show "of_nat (min 1024 (unat (of_nat len :: u64))) \<noteq> (0 :: i64)"
      "of_nat (min 1024 (unat (of_nat len :: u64))) \<noteq> - EAGAIN" "of_nat (min 1024 (unat (of_nat len :: u64))) \<noteq> - EINTR"
      by simp_all
  qed
  have "demo_recv p len ([], out, m) = (0, ([], out, m))" for p len out m
    by (simp add: demo_recv_def)
  moreover have "\<not> sint n < 0 \<and> fst s' = fst s" if "demo_send p len s = (n, s')" for p len s n s'
    using that by (auto simp: demo_send_def c split: prod.splits)
  ultimately show ?thesis
    unfolding http_peer_def demo_calls demo_fields using rd ss sp by fastforce
qed

definition demo_pieces :: "string list" where
  "demo_pieces = [''GET / HTTP/1.1'' @ CRLF, CRLF]"

lemma demo_pieces_ok: "pieces_ok [] demo_pieces"
proof -
  have c: "complete (concat demo_pieces)" "\<not> complete []" "\<not> complete (concat (take 1 demo_pieces))"
    by code_simp+
  have "\<not> complete (concat (take k demo_pieces))" if "k < length demo_pieces" for k
  proof -
    have "k = 0 \<or> k = 1"
      using that by (auto simp: demo_pieces_def)
    then show ?thesis
      using c by auto
  qed
  moreover have "demo_pieces \<noteq> []" "[] \<notin> set demo_pieces" "length (concat demo_pieces) \<le> GVT_RECV_BUF"
    by (simp_all add: demo_pieces_def)
  ultimately show ?thesis
    using c(1) by (simp add: pieces_ok_def)
qed

theorem each_request_answered_witness:
  "\<exists>s'. handle_connection 5 300 demo_http demo_stream \<lparr> ht_requests = 0, ht_connections = 1, ht_active = 0 \<rparr>
      (demo_pieces @ demo_pieces, [], \<lambda>_. CHR 0x00) =
      Some (Ok (), \<lparr> ht_requests = 2, ht_connections = 1, ht_active = 0 \<rparr>, s') \<and>
    fst (snd s') = bytes_at 0x9000 (length gvt_response) @ bytes_at 0x9000 (length gvt_response)"
proof -
  have "length gvt_response < 300"
    by (simp add: gvt_response_def GVT_BODY_def show_nat.simps)
  moreover have "length demo_pieces = 2" "lc_close (he_libc demo_http) = (\<lambda>_ s. s)" "he_response demo_http = 0x9000"
    by (simp_all add: demo_pieces_def demo_http_def)
  ultimately show ?thesis
    using each_request_answered[OF demo_peer, of "(demo_pieces @ demo_pieces, [], \<lambda>_. CHR 0x00)" "[demo_pieces, demo_pieces]" 300 5
        "\<lparr> ht_requests = 0, ht_connections = 1, ht_active = 0 \<rparr>"] demo_pieces_ok
    by (simp add: demo_fields numeral_2_eq_2)
qed

text \<open>
  Requests that arrive together are answered once: what follows the first in the buffer is dropped with it.
\<close>

lemma pipelined_answered_once:
  assumes "http_peer H t inp sent retries" "inp s = [r @ r]" "complete (r @ r)" "0 < length r" "length (r @ r) \<le> GVT_RECV_BUF"
    and "he_running H s" "length gvt_response + retries s < wfuel"
  shows "\<exists>s'. conn_loop 2 wfuel H t 0 c s = Some (Ok (), c\<lparr> ht_requests := ht_requests c + 1 \<rparr>, s') \<and>
    sent s' = sent s @ bytes_at (he_response H) (length gvt_response)"
proof -
  have "pieces_ok [] [r @ r]"
    using assms(3-5) by (auto simp: pieces_ok_def complete_def has_complete_request_def)
  from conn_loop_request[OF assms(1) this, of s "[]" wfuel 1 c] assms(2,6,7) obtain s1 where s1:
    "conn_loop 2 wfuel H t 0 c s = conn_loop (Suc 0) wfuel H t 0 (c\<lparr> ht_requests := ht_requests c + 1 \<rparr>) s1"
    "inp s1 = []" "sent s1 = sent s @ bytes_at (he_response H) (length gvt_response)" "he_running H s1"
    by (auto simp: buffer_at_def numeral_2_eq_2)
  then show ?thesis
    using http_peerD(1)[OF assms(1), of s1 "he_buf H" GVT_RECV_BUF] by auto
qed

end
