(* ===== verification/Fallback_Park.thy ===== *)
theory Fallback_Park
  imports Parking
begin

text \<open>
  The parking interface (\<open>parking/mod.rs\<close>) and its implementation by a mutex and a condition variable
  (\<open>parking/fallback.rs\<close>): any number of threads that park, with or without a timeout, and wake, interleaved
  at their atomic accesses, the acquisitions and releases of the mutex and the waits and notifications of
  the condition variable. The interface's contract on the count of parked workers is a locale that both
  implementations interpret.
\<close>

section \<open>State\<close>

text \<open>
  The mutex holds the flag \<open>wake_pending\<close>; \<open>fb_owner\<close> is the thread that has it locked.
\<close>

record FallbackParking =
  fb_flag :: bool
  fb_owner :: "nat option"
  fb_parked :: usize

definition FallbackParking_new :: FallbackParking where
  "FallbackParking_new = \<lparr> fb_flag = False, fb_owner = None, fb_parked = 0 \<rparr>"

definition FallbackParking_parked_count :: "FallbackParking \<Rightarrow> usize" where
  "FallbackParking_parked_count f = fb_parked f"

text \<open>
  Where a thread is. In \<open>park\<close>, with whether it has a timeout: before the lock, at the check of the flag,
  in the wait set; then, with the result it will return: taking the mutex back, at the second look at the
  flag, before the decrement, before the guard is dropped. In \<open>wake_one\<close> (\<open>False\<close>) and \<open>wake_all\<close> (\<open>True\<close>):
  before the lock, before the store, before the guard is dropped, before the notification.
\<close>

datatype FbPc =
    FbIdle
  | FbLock bool | FbCheck bool | FbWaiting bool | FbRelock bool | FbConsume bool | FbDec bool | FbUnlock bool
  | FwLock bool | FwStore bool | FwUnlock bool | FwNotify bool

text \<open>
  Counters beside the state: the wakes that found a parked thread and have notified, and the calls of \<open>park\<close>
  that returned true.
\<close>

record FbSys =
  fs_park :: FallbackParking
  fs_pc :: "FbPc list"
  fs_woke :: nat
  fs_true :: nat

definition fb_init :: "nat \<Rightarrow> FbSys" where
  "fb_init n = \<lparr> fs_park = FallbackParking_new, fs_pc = replicate n FbIdle, fs_woke = 0, fs_true = 0 \<rparr>"

abbreviation fb_at :: "FbSys \<Rightarrow> nat \<Rightarrow> FbPc \<Rightarrow> bool" where
  "fb_at s t p \<equiv> t < length (fs_pc s) \<and> fs_pc s ! t = p"

abbreviation fb_goto :: "nat \<Rightarrow> FbPc \<Rightarrow> FbSys \<Rightarrow> FbSys" where
  "fb_goto t p s \<equiv> s\<lparr> fs_pc := (fs_pc s)[t := p] \<rparr>"

abbreviation fb_set_flag :: "bool \<Rightarrow> FbSys \<Rightarrow> FbSys" where
  "fb_set_flag b s \<equiv> s\<lparr> fs_park := (fs_park s)\<lparr> fb_flag := b \<rparr> \<rparr>"

abbreviation fb_set_owner :: "nat option \<Rightarrow> FbSys \<Rightarrow> FbSys" where
  "fb_set_owner ow s \<equiv> s\<lparr> fs_park := (fs_park s)\<lparr> fb_owner := ow \<rparr> \<rparr>"

abbreviation fb_set_parked :: "nat \<Rightarrow> FbSys \<Rightarrow> FbSys" where
  "fb_set_parked n s \<equiv> s\<lparr> fs_park := (fs_park s)\<lparr> fb_parked := n \<rparr> \<rparr>"

abbreviation fb_pending :: "FbSys \<Rightarrow> bool" where
  "fb_pending s \<equiv> fb_flag (fs_park s)"

abbreviation fb_unlocked :: "FbSys \<Rightarrow> bool" where
  "fb_unlocked s \<equiv> fb_owner (fs_park s) = None"

text \<open>\<open>notify_all\<close> moves every thread of the wait set to the mutex.\<close>

primrec fb_release :: "FbPc \<Rightarrow> FbPc" where
  "fb_release FbIdle = FbIdle"
| "fb_release (FbLock b) = FbLock b"
| "fb_release (FbCheck b) = FbCheck b"
| "fb_release (FbWaiting b) = FbRelock True"
| "fb_release (FbRelock b) = FbRelock b"
| "fb_release (FbConsume b) = FbConsume b"
| "fb_release (FbDec b) = FbDec b"
| "fb_release (FbUnlock b) = FbUnlock b"
| "fb_release (FwLock b) = FwLock b"
| "fb_release (FwStore b) = FwStore b"
| "fb_release (FwUnlock b) = FwUnlock b"
| "fb_release (FwNotify b) = FwNotify b"

definition fb_asleep :: "FbPc \<Rightarrow> bool" where
  "fb_asleep p \<longleftrightarrow> p = FbWaiting True \<or> p = FbWaiting False"

section \<open>Steps\<close>

text \<open>
  \<open>Condvar::wait\<close> releases the mutex and joins the wait set in one step. A thread leaves the wait set
  notified, or for no reason, both of which the code reports as true, or, with a timeout, because it passed.
\<close>

inductive fb_step :: "FbSys \<Rightarrow> FbSys \<Rightarrow> bool" where
  Park: "fb_at s t FbIdle \<Longrightarrow>
    fb_step s (fb_goto t (FbLock timed) (fb_set_parked (fb_parked (fs_park s) + 1) s))"
| Lock: "fb_at s t (FbLock timed) \<Longrightarrow> fb_unlocked s \<Longrightarrow> fb_step s (fb_goto t (FbCheck timed) (fb_set_owner (Some t) s))"
| Pending: "fb_at s t (FbCheck timed) \<Longrightarrow> fb_pending s \<Longrightarrow> fb_step s (fb_goto t (FbDec True) (fb_set_flag False s))"
| Wait: "fb_at s t (FbCheck timed) \<Longrightarrow> \<not> fb_pending s \<Longrightarrow> fb_step s (fb_goto t (FbWaiting timed) (fb_set_owner None s))"
| Spurious: "fb_at s t (FbWaiting timed) \<Longrightarrow> fb_step s (fb_goto t (FbRelock True) s)"
| Timeout: "fb_at s t (FbWaiting True) \<Longrightarrow> fb_step s (fb_goto t (FbRelock False) s)"
| Relock: "fb_at s t (FbRelock r) \<Longrightarrow> fb_unlocked s \<Longrightarrow> fb_step s (fb_goto t (FbConsume r) (fb_set_owner (Some t) s))"
| Consume: "fb_at s t (FbConsume r) \<Longrightarrow> fb_step s (fb_goto t (FbDec r) (fb_set_flag False s))"
| Dec: "fb_at s t (FbDec r) \<Longrightarrow> fb_step s (fb_goto t (FbUnlock r) (fb_set_parked (fb_parked (fs_park s) - 1) s))"
| Unlock: "fb_at s t (FbUnlock r) \<Longrightarrow>
    fb_step s (fb_goto t FbIdle (fb_set_owner None (s\<lparr> fs_true := fs_true s + (if r then 1 else 0) \<rparr>)))"
| Wake_none: "fb_at s t FbIdle \<Longrightarrow> fb_parked (fs_park s) = 0 \<Longrightarrow> fb_step s s"
| Wake_some: "fb_at s t FbIdle \<Longrightarrow> fb_parked (fs_park s) \<noteq> 0 \<Longrightarrow> fb_step s (fb_goto t (FwLock every) s)"
| Wake_lock: "fb_at s t (FwLock every) \<Longrightarrow> fb_unlocked s \<Longrightarrow> fb_step s (fb_goto t (FwStore every) (fb_set_owner (Some t) s))"
| Wake_store: "fb_at s t (FwStore every) \<Longrightarrow> fb_step s (fb_goto t (FwUnlock every) (fb_set_flag True s))"
| Wake_unlock: "fb_at s t (FwUnlock every) \<Longrightarrow> fb_step s (fb_goto t (FwNotify every) (fb_set_owner None s))"
| Notify_nobody: "fb_at s t (FwNotify False) \<Longrightarrow> \<not> list_ex fb_asleep (fs_pc s) \<Longrightarrow>
    fb_step s (fb_goto t FbIdle (s\<lparr> fs_woke := fs_woke s + 1 \<rparr>))"
| Notify_one: "fb_at s t (FwNotify False) \<Longrightarrow> fb_at s v (FbWaiting timed) \<Longrightarrow>
    fb_step s (fb_goto t FbIdle (fb_goto v (FbRelock True) (s\<lparr> fs_woke := fs_woke s + 1 \<rparr>)))"
| Notify_all: "fb_at s t (FwNotify True) \<Longrightarrow>
    fb_step s (fb_goto t FbIdle (s\<lparr> fs_pc := map fb_release (fs_pc s), fs_woke := fs_woke s + 1 \<rparr>))"

section \<open>The interface\<close>

text \<open>
  What \<open>WorkerParking\<close> promises of its count: it is the number of threads between the increment and the
  decrement of \<open>park\<close>, and a sleeping thread is one of them. So a waker that reads zero and returns misses
  no sleeper.
\<close>

locale worker_parking =
  fixes step :: "'s \<Rightarrow> 's \<Rightarrow> bool"
    and init :: "nat \<Rightarrow> 's"
    and count :: "'s \<Rightarrow> nat"
    and inside :: "'s \<Rightarrow> nat"
    and asleep :: "'s \<Rightarrow> bool"
  assumes count_init: "count (init n) = inside (init n)"
    and count_step: "step s s' \<Longrightarrow> count s = inside s \<Longrightarrow> count s' = inside s'"
    and asleep_inside: "asleep s \<Longrightarrow> 0 < inside s"
begin

lemma count_exact: "step\<^sup>*\<^sup>* (init n) s \<Longrightarrow> count s = inside s"
  by (induction rule: rtranclp_induct) (auto simp: count_init intro: count_step)

lemma no_sleeper_skipped: "step\<^sup>*\<^sup>* (init n) s \<Longrightarrow> count s = 0 \<Longrightarrow> \<not> asleep s"
  using count_exact asleep_inside by fastforce

end

lemma futex_count_step:
  assumes "park_step s s'" "fp_parked (ps_park s) = tally w_parked (ps_pc s)"
  shows "fp_parked (ps_park s') = tally w_parked (ps_pc s')"
  using assms
proof (induction rule: park_step.induct)
  case (Wake_some s t v)
  then have "t \<noteq> v"
    by auto
  with Wake_some show ?case
    using tally_ge[of v "ps_pc s" w_parked] by (simp add: tally_goto)
next
  case (All_wake s t n)
  have "map release_pc (ps_pc s) ! t = WaWake n"
    using All_wake by (simp add: release_pc_def)
  then show ?case
    using All_wake by (simp add: tally_goto tally_release del: nth_map)
next
  case (Dec_woken s t)
  then show ?case
    using tally_ge[of t "ps_pc s" w_parked] by (simp add: tally_goto)
next
  case (Dec_error s t)
  then show ?case
    using tally_ge[of t "ps_pc s" w_parked] by (simp add: tally_goto)
qed (auto simp: tally_goto take_wake_def dest: tally_ge[where w = w_parked])

interpretation fk: worker_parking park_step park_init "\<lambda>s. FutexParking_parked_count (ps_park s)"
  "\<lambda>s. tally w_parked (ps_pc s)" "\<lambda>s. PkAsleep \<in> set (ps_pc s)"
proof unfold_locales
  fix n
  show "FutexParking_parked_count (ps_park (park_init n)) = tally w_parked (ps_pc (park_init n))"
    by (simp add: park_init_def FutexParking_parked_count_def FutexParking_new_def tally_def sum_list_replicate)
qed (auto simp: FutexParking_parked_count_def intro: futex_count_step dest: asleep_counted)

primrec fb_inside :: "FbPc \<Rightarrow> nat" where
  "fb_inside FbIdle = 0"
| "fb_inside (FbLock b) = 1"
| "fb_inside (FbCheck b) = 1"
| "fb_inside (FbWaiting b) = 1"
| "fb_inside (FbRelock b) = 1"
| "fb_inside (FbConsume b) = 1"
| "fb_inside (FbDec b) = 1"
| "fb_inside (FbUnlock b) = 0"
| "fb_inside (FwLock b) = 0"
| "fb_inside (FwStore b) = 0"
| "fb_inside (FwUnlock b) = 0"
| "fb_inside (FwNotify b) = 0"

definition fb_count :: "FbPc list \<Rightarrow> nat" where
  "fb_count pcs = sum_list (map fb_inside pcs)"

lemma fb_count_goto: "t < length pcs \<Longrightarrow> fb_count (pcs[t := q]) = fb_count pcs + fb_inside q - fb_inside (pcs ! t)"
  by (simp add: fb_count_def map_update sum_list_update)

lemma fb_count_ge: "t < length pcs \<Longrightarrow> fb_inside (pcs ! t) \<le> fb_count pcs"
  unfolding fb_count_def by (metis elem_le_sum_list length_map nth_map)

lemma fb_inside_release [simp]: "fb_inside (fb_release p) = fb_inside p"
  by (cases p) simp_all

lemma fb_count_release [simp]: "fb_count (map fb_release pcs) = fb_count pcs"
  by (simp add: fb_count_def comp_def)

lemma fb_count_step:
  assumes "fb_step s s'" "fb_parked (fs_park s) = fb_count (fs_pc s)"
  shows "fb_parked (fs_park s') = fb_count (fs_pc s')"
  using assms
proof (induction rule: fb_step.induct)
  case (Notify_one s t v timed)
  then have "t \<noteq> v"
    by auto
  with Notify_one show ?case
    using fb_count_ge[of v "fs_pc s"] by (simp add: fb_count_goto)
next
  case (Dec s t r)
  then show ?case
    using fb_count_ge[of t "fs_pc s"] by (simp add: fb_count_goto)
qed (auto simp: fb_count_goto)

lemma fb_asleep_inside: "list_ex fb_asleep pcs \<Longrightarrow> 0 < fb_count pcs"
  by (induction pcs) (auto simp: fb_count_def fb_asleep_def)

interpretation fb: worker_parking fb_step fb_init "\<lambda>s. FallbackParking_parked_count (fs_park s)"
  "\<lambda>s. fb_count (fs_pc s)" "\<lambda>s. list_ex fb_asleep (fs_pc s)"
proof unfold_locales
  fix n
  show "FallbackParking_parked_count (fs_park (fb_init n)) = fb_count (fs_pc (fb_init n))"
    by (simp add: fb_init_def FallbackParking_parked_count_def FallbackParking_new_def fb_count_def sum_list_replicate)
qed (auto simp: FallbackParking_parked_count_def intro: fb_count_step fb_asleep_inside)

section \<open>The mutex and the pending wake\<close>

text \<open>Between the lock and the release of the mutex; and the threads that a pending wake can reach a sleeper through.\<close>

primrec fb_crit :: "FbPc \<Rightarrow> bool" where
  "fb_crit FbIdle = False"
| "fb_crit (FbLock b) = False"
| "fb_crit (FbCheck b) = True"
| "fb_crit (FbWaiting b) = False"
| "fb_crit (FbRelock b) = False"
| "fb_crit (FbConsume b) = True"
| "fb_crit (FbDec b) = True"
| "fb_crit (FbUnlock b) = True"
| "fb_crit (FwLock b) = False"
| "fb_crit (FwStore b) = True"
| "fb_crit (FwUnlock b) = True"
| "fb_crit (FwNotify b) = False"

primrec fb_carries :: "FbPc \<Rightarrow> bool" where
  "fb_carries FbIdle = False"
| "fb_carries (FbLock b) = False"
| "fb_carries (FbCheck b) = False"
| "fb_carries (FbWaiting b) = False"
| "fb_carries (FbRelock b) = True"
| "fb_carries (FbConsume b) = True"
| "fb_carries (FbDec b) = False"
| "fb_carries (FbUnlock b) = False"
| "fb_carries (FwLock b) = False"
| "fb_carries (FwStore b) = False"
| "fb_carries (FwUnlock b) = True"
| "fb_carries (FwNotify b) = True"

definition fb_mutex_inv :: "FbSys \<Rightarrow> bool" where
  "fb_mutex_inv s \<longleftrightarrow>
     (\<forall>t < length (fs_pc s). fb_crit (fs_pc s ! t) \<longleftrightarrow> fb_owner (fs_park s) = Some t)"

definition fb_wake_inv :: "FbSys \<Rightarrow> bool" where
  "fb_wake_inv s \<longleftrightarrow> (fb_pending s \<and> list_ex fb_asleep (fs_pc s) \<longrightarrow> list_ex fb_carries (fs_pc s))"

lemma fb_crit_release [simp]: "fb_crit (fb_release p) = fb_crit p"
  by (cases p) simp_all

lemma fb_asleep_simps [simp]:
  "\<not> fb_asleep FbIdle" "\<not> fb_asleep (FbLock b)" "\<not> fb_asleep (FbCheck b)" "fb_asleep (FbWaiting b)"
  "\<not> fb_asleep (FbRelock b)" "\<not> fb_asleep (FbConsume b)" "\<not> fb_asleep (FbDec b)" "\<not> fb_asleep (FbUnlock b)"
  "\<not> fb_asleep (FwLock b)" "\<not> fb_asleep (FwStore b)" "\<not> fb_asleep (FwUnlock b)" "\<not> fb_asleep (FwNotify b)"
  by (cases b; simp add: fb_asleep_def)+

lemma fb_release_awake [simp]: "\<not> fb_asleep (fb_release p)"
  by (cases p) simp_all

lemma fb_mutex_step:
  assumes "fb_step s s'" "fb_mutex_inv s"
  shows "fb_mutex_inv s'"
  using assms by (induction rule: fb_step.induct) (auto simp: fb_mutex_inv_def nth_list_update)

lemma list_ex_other: "list_ex P xs \<Longrightarrow> \<not> P (xs ! t) \<Longrightarrow> list_ex P (xs[t := q])"
  by (metis list_ex_length length_list_update nth_list_update_neq)

lemma list_ex_new: "t < length xs \<Longrightarrow> P q \<Longrightarrow> list_ex P (xs[t := q])"
  by (metis list_ex_length length_list_update nth_list_update_eq)

lemma list_ex_back: "list_ex P (xs[t := q]) \<Longrightarrow> \<not> P q \<Longrightarrow> list_ex P xs"
  by (metis list_ex_length length_list_update nth_list_update_eq nth_list_update_neq)

lemma fb_wake_step:
  assumes "fb_step s s'" "fb_wake_inv s"
  shows "fb_wake_inv s'"
  using assms
proof (induction rule: fb_step.induct)
  case (Notify_one s t v timed)
  then have "t \<noteq> v"
    by auto
  then have "list_ex fb_carries ((fs_pc s)[v := FbRelock True, t := FbIdle])"
    using Notify_one by (subst list_update_swap) (auto intro!: list_ex_new)
  then show ?case
    by (simp add: fb_wake_inv_def)
next
  case (Notify_all s t)
  have "\<not> list_ex fb_asleep (map fb_release (fs_pc s))"
    by (simp add: list_ex_iff)
  then show ?case
    using list_ex_back[of fb_asleep "map fb_release (fs_pc s)" t FbIdle] by (auto simp: fb_wake_inv_def)
next
  case (Notify_nobody s t)
  then show ?case
    using list_ex_back[of fb_asleep "fs_pc s" t FbIdle] by (auto simp: fb_wake_inv_def)
next
  case (Wait s t timed)
  then show ?case
    by (simp add: fb_wake_inv_def)
qed (auto simp: fb_wake_inv_def intro: list_ex_new list_ex_other dest: list_ex_back)

lemma fb_invs_init: "fb_mutex_inv (fb_init n)" "fb_wake_inv (fb_init n)"
  by (simp_all add: fb_mutex_inv_def fb_wake_inv_def fb_init_def FallbackParking_new_def)

lemma fb_invs_reachable:
  assumes "fb_step\<^sup>*\<^sup>* (fb_init n) s"
  shows "fb_mutex_inv s \<and> fb_wake_inv s"
  using assms by (induction rule: rtranclp_induct) (auto simp: fb_invs_init intro: fb_mutex_step fb_wake_step)

section \<open>Two wakes, one answer\<close>

text \<open>The state with its parts written out, for runs.\<close>

abbreviation fb_state :: "bool \<Rightarrow> nat option \<Rightarrow> nat \<Rightarrow> FbPc list \<Rightarrow> nat \<Rightarrow> nat \<Rightarrow> FbSys" where
  "fb_state b ow k pcs wk tr \<equiv>
     \<lparr> fs_park = \<lparr> fb_flag = b, fb_owner = ow, fb_parked = k \<rparr>, fs_pc = pcs, fs_woke = wk, fs_true = tr \<rparr>"

text \<open>A whole \<open>wake_one\<close> of thread \<open>t\<close> while nobody is in the wait set or holds the mutex.\<close>

lemma fb_wake_one_run:
  assumes "t < length pcs" "pcs ! t = FbIdle" "k \<noteq> 0" "\<not> list_ex fb_asleep pcs"
  shows "fb_step\<^sup>*\<^sup>* (fb_state b None k pcs wk tr) (fb_state True None k pcs (wk + 1) tr)"
proof -
  have "fb_step (fb_state b None k pcs wk tr) (fb_state b None k (pcs[t := FwLock False]) wk tr)"
    using Wake_some[of t "fb_state b None k pcs wk tr" False] assms by simp
  moreover have "fb_step (fb_state b None k (pcs[t := FwLock False]) wk tr)
      (fb_state b (Some t) k (pcs[t := FwStore False]) wk tr)"
    using Wake_lock[of t "fb_state b None k (pcs[t := FwLock False]) wk tr" False] assms by simp
  moreover have "fb_step (fb_state b (Some t) k (pcs[t := FwStore False]) wk tr)
      (fb_state True (Some t) k (pcs[t := FwUnlock False]) wk tr)"
    using Wake_store[of t "fb_state b (Some t) k (pcs[t := FwStore False]) wk tr" False] assms by simp
  moreover have "fb_step (fb_state True (Some t) k (pcs[t := FwUnlock False]) wk tr)
      (fb_state True None k (pcs[t := FwNotify False]) wk tr)"
    using Wake_unlock[of t "fb_state True (Some t) k (pcs[t := FwUnlock False]) wk tr" False] assms by simp
  moreover have "fb_step (fb_state True None k (pcs[t := FwNotify False]) wk tr)
      (fb_state True None k pcs (wk + 1) tr)"
  proof -
    have "\<not> list_ex fb_asleep (pcs[t := FwNotify False])"
      using assms(4) list_ex_back[of fb_asleep pcs t "FwNotify False"] by auto
    moreover have "pcs[t := FbIdle] = pcs"
      using assms(2) by (metis list_update_id)
    ultimately show ?thesis
      using Notify_nobody[of t "fb_state True None k (pcs[t := FwNotify False]) wk tr"] assms by simp
  qed
  ultimately show ?thesis
    by (meson converse_rtranclp_into_rtranclp rtranclp.rtrancl_refl)
qed

lemma fb_both_parking:
  "fb_step\<^sup>*\<^sup>* (fb_init 4) (fb_state False None 2 [FbLock False, FbLock False, FbIdle, FbIdle] 0 0)"
proof -
  have i: "fb_init 4 = fb_state False None 0 [FbIdle, FbIdle, FbIdle, FbIdle] 0 0"
    by (simp add: fb_init_def FallbackParking_new_def eval_nat_numeral)
  have "fb_step (fb_init 4) (fb_state False None 1 [FbLock False, FbIdle, FbIdle, FbIdle] 0 0)"
    using Park[of 0 "fb_init 4" False] by (simp add: i)
  moreover have "fb_step (fb_state False None 1 [FbLock False, FbIdle, FbIdle, FbIdle] 0 0)
      (fb_state False None 2 [FbLock False, FbLock False, FbIdle, FbIdle] 0 0)"
    using Park[of 1 "fb_state False None 1 [FbLock False, FbIdle, FbIdle, FbIdle] 0 0" False]
    by (simp add: numeral_2_eq_2)
  ultimately show ?thesis
    by (meson converse_rtranclp_into_rtranclp rtranclp.rtrancl_refl)
qed

lemma fb_first_answered:
  "fb_step\<^sup>*\<^sup>* (fb_state True None 2 [FbLock False, FbLock False, FbIdle, FbIdle] 2 0)
     (fb_state False None 1 [FbIdle, FbLock False, FbIdle, FbIdle] 2 1)"
proof -
  have "fb_step (fb_state True None 2 [FbLock False, FbLock False, FbIdle, FbIdle] 2 0)
      (fb_state True (Some 0) 2 [FbCheck False, FbLock False, FbIdle, FbIdle] 2 0)"
    using Lock[of 0 "fb_state True None 2 [FbLock False, FbLock False, FbIdle, FbIdle] 2 0" False] by simp
  moreover have "fb_step (fb_state True (Some 0) 2 [FbCheck False, FbLock False, FbIdle, FbIdle] 2 0)
      (fb_state False (Some 0) 2 [FbDec True, FbLock False, FbIdle, FbIdle] 2 0)"
    using Pending[of 0 "fb_state True (Some 0) 2 [FbCheck False, FbLock False, FbIdle, FbIdle] 2 0" False] by simp
  moreover have "fb_step (fb_state False (Some 0) 2 [FbDec True, FbLock False, FbIdle, FbIdle] 2 0)
      (fb_state False (Some 0) 1 [FbUnlock True, FbLock False, FbIdle, FbIdle] 2 0)"
    using Dec[of 0 "fb_state False (Some 0) 2 [FbDec True, FbLock False, FbIdle, FbIdle] 2 0" True] by simp
  moreover have "fb_step (fb_state False (Some 0) 1 [FbUnlock True, FbLock False, FbIdle, FbIdle] 2 0)
      (fb_state False None 1 [FbIdle, FbLock False, FbIdle, FbIdle] 2 1)"
    using Unlock[of 0 "fb_state False (Some 0) 1 [FbUnlock True, FbLock False, FbIdle, FbIdle] 2 0" True] by simp
  ultimately show ?thesis
    by (meson converse_rtranclp_into_rtranclp rtranclp.rtrancl_refl)
qed

lemma fb_second_sleeps:
  "fb_step\<^sup>*\<^sup>* (fb_state False None 1 [FbIdle, FbLock False, FbIdle, FbIdle] 2 1)
     (fb_state False None 1 [FbIdle, FbWaiting False, FbIdle, FbIdle] 2 1)"
proof -
  have "fb_step (fb_state False None 1 [FbIdle, FbLock False, FbIdle, FbIdle] 2 1)
      (fb_state False (Some 1) 1 [FbIdle, FbCheck False, FbIdle, FbIdle] 2 1)"
    using Lock[of 1 "fb_state False None 1 [FbIdle, FbLock False, FbIdle, FbIdle] 2 1" False] by simp
  moreover have "fb_step (fb_state False (Some 1) 1 [FbIdle, FbCheck False, FbIdle, FbIdle] 2 1)
      (fb_state False None 1 [FbIdle, FbWaiting False, FbIdle, FbIdle] 2 1)"
    using Wait[of 1 "fb_state False (Some 1) 1 [FbIdle, FbCheck False, FbIdle, FbIdle] 2 1" False] by simp
  ultimately show ?thesis
    by (meson converse_rtranclp_into_rtranclp rtranclp.rtrancl_refl)
qed

lemma fb_two_wakes:
  "fb_step\<^sup>*\<^sup>* (fb_init 4) (fb_state True None 2 [FbLock False, FbLock False, FbIdle, FbIdle] 2 0)"
  using fb_both_parking
    fb_wake_one_run[of 2 "[FbLock False, FbLock False, FbIdle, FbIdle]" 2 False 0 0]
    fb_wake_one_run[of 3 "[FbLock False, FbLock False, FbIdle, FbIdle]" 2 True 1 0]
  by (simp add: numeral_2_eq_2 numeral_3_eq_3)

section \<open>Properties\<close>

text \<open>C18: The parking by condition variable keeps, in every reachable state of any number of threads, its
  count of parked threads exact; at most one thread holds the mutex; and a pending wake is never stuck: while
  a thread sleeps and the flag is set, some thread is still on its way to notify a sleeper, or has been
  taken off the wait set and not yet looked at the flag.\<close>

theorem fallback_parking_safe:
  assumes "fb_step\<^sup>*\<^sup>* (fb_init n) s"
  shows "FallbackParking_parked_count (fs_park s) = fb_count (fs_pc s)
    \<and> (\<forall>t u. t < length (fs_pc s) \<and> u < length (fs_pc s) \<and> fb_crit (fs_pc s ! t) \<and> fb_crit (fs_pc s ! u) \<longrightarrow> t = u)
    \<and> (fb_pending s \<and> list_ex fb_asleep (fs_pc s) \<longrightarrow> list_ex fb_carries (fs_pc s))"
  using fb_invs_reachable[OF assms] fb.count_exact[OF assms] by (auto simp: fb_mutex_inv_def fb_wake_inv_def)

theorem fallback_parking_safe_witness:
  "FallbackParking_parked_count (fs_park (fb_state True None 2 [FbLock False, FbLock False, FbIdle, FbIdle] 2 0)) = 2"
  using fallback_parking_safe[OF fb_two_wakes] by (simp add: fb_count_def)

text \<open>Wakes of the condition-variable parking coalesce: two workers have announced that they park,
  two calls of \<open>wake_one\<close> both see them and complete, and yet one of the workers goes to sleep without a
  timeout, with no wake pending and nobody left to wake it.\<close>

theorem fallback_wakes_coalesce:
  "\<exists>s s'. fb_step\<^sup>*\<^sup>* (fb_init 4) s \<and> fb_step\<^sup>*\<^sup>* s s'
     \<and> FallbackParking_parked_count (fs_park s) = 2 \<and> fs_woke s = 2 \<and> fs_true s = 0
     \<and> fs_true s' = 1 \<and> fs_pc s' = [FbIdle, FbWaiting False, FbIdle, FbIdle]
     \<and> \<not> fb_pending s' \<and> fs_woke s' = 2"
proof (intro exI conjI)
  show "fb_step\<^sup>*\<^sup>* (fb_init 4) (fb_state True None 2 [FbLock False, FbLock False, FbIdle, FbIdle] 2 0)"
    by (rule fb_two_wakes)
  show "fb_step\<^sup>*\<^sup>* (fb_state True None 2 [FbLock False, FbLock False, FbIdle, FbIdle] 2 0)
      (fb_state False None 1 [FbIdle, FbWaiting False, FbIdle, FbIdle] 2 1)"
    using fb_first_answered fb_second_sleeps by (meson rtranclp_trans)
qed (simp_all add: FallbackParking_parked_count_def)

end
