(* ===== verification/Lifecycle.thy ===== *)
theory Lifecycle
  imports Scheduler Timer_Heap Cancel Kprint
begin

text \<open>
  The life of the runtime's threads: the process clock and the timer thread of the scheduler
  (\<open>timer/mod.rs\<close>), the handle of the polling timer thread (\<open>timer/worker.rs\<close>), the worker pool and the
  worker's own identity (\<open>worker.rs\<close>), the entry of a green thread and the main loop of a worker
  (\<open>scheduler.rs\<close>), the builder of the configuration (\<open>config/mod.rs\<close>), and the protocol by which
  \<open>Scheduler::shutdown\<close> ends them all.
\<close>

section \<open>Clock\<close>

text \<open>\<open>START_INSTANT\<close> and \<open>COARSE_TIME_NS\<close>. Instants are nanoseconds since a fixed origin.\<close>

record Clock =
  ck_start :: "nat option"
  ck_coarse :: u64

definition Clock_initial :: Clock where
  "Clock_initial = \<lparr> ck_start = None, ck_coarse = 0 \<rparr>"

definition update_coarse_time :: "nat \<Rightarrow> Clock \<Rightarrow> Clock" where
  "update_coarse_time now c =
     (case ck_start c of
        Some st \<Rightarrow> c\<lparr> ck_coarse := of_nat (now - st) \<rparr>
      | None \<Rightarrow> c)"

definition init_time :: "nat \<Rightarrow> nat \<Rightarrow> Clock \<Rightarrow> Clock" where
  "init_time t0 t1 c =
     update_coarse_time t1 (case ck_start c of None \<Rightarrow> c\<lparr> ck_start := Some t0 \<rparr> | Some _ \<Rightarrow> c)"

definition coarse_now_ns :: "Clock \<Rightarrow> u64" where
  "coarse_now_ns c = ck_coarse c"

definition now_ns :: "nat \<Rightarrow> Clock \<Rightarrow> u64" where
  "now_ns now c = (case ck_start c of Some st \<Rightarrow> of_nat (now - st) | None \<Rightarrow> 0)"

definition now_us :: "nat \<Rightarrow> Clock \<Rightarrow> u64" where
  "now_us now c = now_ns now c div 1000"

definition now_ms :: "nat \<Rightarrow> Clock \<Rightarrow> u64" where
  "now_ms now c = now_ns now c div 1000000"

text \<open>The coarse clock at time \<open>now\<close>: started, not ahead of the precise clock, within 64 bits.\<close>

definition clock_ok :: "nat \<Rightarrow> Clock \<Rightarrow> bool" where
  "clock_ok now c \<longleftrightarrow>
     (\<exists>st. ck_start c = Some st \<and> st \<le> now \<and> now - st < 2 ^ 64 \<and> unat (ck_coarse c) \<le> now - st)"

lemma elapsed_unat: "now - st < 2 ^ 64 \<Longrightarrow> unat (of_nat (now - st) :: u64) = now - st"
  by (rule unat_of_nat_lt) simp

lemma clock_ok_coarse: "clock_ok now c \<Longrightarrow> coarse_now_ns c \<le> now_ns now c"
  by (auto simp: clock_ok_def coarse_now_ns_def now_ns_def word_le_nat_alt elapsed_unat simp del: of_nat_diff)

lemma clock_ok_later: "clock_ok t c \<Longrightarrow> t \<le> now \<Longrightarrow> ck_start c = Some st \<Longrightarrow> now - st < 2 ^ 64 \<Longrightarrow> clock_ok now c"
  by (auto simp: clock_ok_def)

lemma clock_ok_update:
  assumes "clock_ok t c" "t \<le> now" "ck_start c = Some st" "now - st < 2 ^ 64"
  shows "clock_ok now (update_coarse_time now c)" "coarse_now_ns c \<le> coarse_now_ns (update_coarse_time now c)"
  using assms by (auto simp: clock_ok_def update_coarse_time_def coarse_now_ns_def word_le_nat_alt elapsed_unat simp del: of_nat_diff)

lemma update_coarse_start [simp]: "ck_start (update_coarse_time now c) = ck_start c"
  by (simp add: update_coarse_time_def split: option.split)

lemma init_time_ok: "t0 \<le> t1 \<Longrightarrow> t1 - t0 < 2 ^ 64 \<Longrightarrow> clock_ok t1 (init_time t0 t1 Clock_initial)"
  by (simp add: init_time_def Clock_initial_def update_coarse_time_def clock_ok_def elapsed_unat del: of_nat_diff)

definition init_sleep_queue :: "Sched \<Rightarrow> Sched" where
  "init_sleep_queue s = init_sleep_queue_with_capacity 65536 s"

definition sleep_ms :: "nat \<Rightarrow> u64 \<Rightarrow> nat \<Rightarrow> Sched \<Rightarrow> Sched" where
  "sleep_ms w now ms s = sched_sleep w now (of_nat (from_millis ms)) s"

definition sleep_us :: "nat \<Rightarrow> u64 \<Rightarrow> nat \<Rightarrow> Sched \<Rightarrow> Sched" where
  "sleep_us w now us s = sched_sleep w now (of_nat (us * 1000)) s"

definition sleep_ns :: "nat \<Rightarrow> u64 \<Rightarrow> nat \<Rightarrow> Sched \<Rightarrow> Sched" where
  "sleep_ns w now ns s = sched_sleep w now (of_nat ns) s"

section \<open>The scheduler's timer thread\<close>

text \<open>
  One pass of the loop: whether it finds the shutdown flag set, what other threads did before it, and the
  readings of the clock it makes.
\<close>

record TimerPass =
  tp_shutdown :: bool
  tp_env :: "Sched \<Rightarrow> Sched"
  tp_before :: nat
  tp_coarse :: nat
  tp_queue :: nat
  tp_watch :: nat

definition max_sleep_ms :: "env \<Rightarrow> nat" where
  "max_sleep_ms env = env_get env (parse_unsigned 64) ''GVT_TIMER_MAX_MS'' 10"

text \<open>The result has the sleeps it asked for and the threads it signalled, pass by pass.\<close>

fun sched_timer_loop ::
  "Tls \<Rightarrow> nat \<Rightarrow> TimerPass list \<Rightarrow> Clock \<Rightarrow> WorkerWatch list \<Rightarrow> Sched \<Rightarrow>
   nat list \<times> u64 list list \<times> Clock \<times> WorkerWatch list \<times> Sched"
where
  "sched_timer_loop tls max_ms [] c ws s = ([], [], c, ws, s)"
| "sched_timer_loop tls max_ms (p # ps) c ws s =
     (if tp_shutdown p then ([], [], c, ws, s)
      else
        let s0 = tp_env p s;
            d = timer_sleep_duration max_ms (time_until_next_wake (now_ns (tp_before p) c) s0);
            c1 = update_coarse_time (tp_coarse p) c
        in case timer_tick tls (now_ns (tp_queue p) c1) (tp_watch p) ws s0 of
             (sigs, ws1, s1) \<Rightarrow>
               (case sched_timer_loop tls max_ms ps c1 ws1 s1 of
                  (ds, sgs, res) \<Rightarrow> (d # ds, sigs # sgs, res)))"

record TimerThread =
  tt_handle :: "nat option"
  tt_shutdown :: bool
  tt_time_slice_ns :: u64
  tt_grace_period_ns :: u64
  tt_enable_forced_preempt :: bool

definition TimerThread_new :: "SchedulerConfig \<Rightarrow> TimerThread" where
  "TimerThread_new cfg =
     \<lparr> tt_handle = None, tt_shutdown = False, tt_time_slice_ns = of_nat (c_time_slice cfg),
       tt_grace_period_ns = of_nat (c_grace_period cfg), tt_enable_forced_preempt = c_enable_forced_preempt cfg \<rparr>"

text \<open>\<open>spawned\<close> is the answer of \<open>thread::Builder::spawn\<close>, a thread or an error.\<close>

definition TimerThread_start :: "nat option \<Rightarrow> TimerThread \<Rightarrow> (failure, unit) result \<times> TimerThread" where
  "TimerThread_start spawned t =
     (case spawned of
        None \<Rightarrow> (Err (Panic ''Failed to spawn timer thread''), t)
      | Some h \<Rightarrow> (Ok (), t\<lparr> tt_handle := Some h \<rparr>))"

definition TimerThread_shutdown :: "TimerThread \<Rightarrow> TimerThread" where
  "TimerThread_shutdown t = t\<lparr> tt_shutdown := True \<rparr>"

text \<open>The thread that was joined, if any.\<close>

definition TimerThread_join :: "TimerThread \<Rightarrow> nat option \<times> TimerThread" where
  "TimerThread_join t = (tt_handle t, t\<lparr> tt_handle := None \<rparr>)"

section \<open>The handle of the polling timer thread\<close>

record TimerThreadHandle =
  th_handle :: "nat option"
  th_shutdown :: bool

definition TimerThreadHandle_shutdown :: "TimerThreadHandle \<Rightarrow> TimerThreadHandle" where
  "TimerThreadHandle_shutdown h = h\<lparr> th_shutdown := True \<rparr>"

text \<open>\<open>outcome\<close> is what a thread ended with: the value of its closure, or a panic.\<close>

definition TimerThreadHandle_join ::
  "(nat \<Rightarrow> TimerStats option) \<Rightarrow> TimerThreadHandle \<Rightarrow> (failure, TimerStats) result \<times> TimerThreadHandle" where
  "TimerThreadHandle_join outcome h =
     (case th_handle h of
        None \<Rightarrow> (Err (Panic ''join() called twice or handle missing''), h)
      | Some t \<Rightarrow>
          (case outcome t of
             None \<Rightarrow> Err (Panic ''timer thread panicked'')
           | Some st \<Rightarrow> Ok st, h\<lparr> th_handle := None \<rparr>))"

definition TimerThreadHandle_stop ::
  "(nat \<Rightarrow> TimerStats option) \<Rightarrow> TimerThreadHandle \<Rightarrow> (failure, TimerStats) result \<times> TimerThreadHandle" where
  "TimerThreadHandle_stop outcome h = TimerThreadHandle_join outcome (TimerThreadHandle_shutdown h)"

definition is_shutdown_requested :: "TimerThreadHandle \<Rightarrow> bool" where
  "is_shutdown_requested h = th_shutdown h"

definition TimerThreadHandle_is_running :: "TimerThreadHandle \<Rightarrow> bool" where
  "TimerThreadHandle_is_running h \<longleftrightarrow> th_handle h \<noteq> None \<and> \<not> is_shutdown_requested h"

definition spawn_timer_thread :: "nat option \<Rightarrow> bool \<Rightarrow> (failure, TimerThreadHandle) result" where
  "spawn_timer_thread spawned shutdown_flag =
     (case spawned of
        None \<Rightarrow> Err (Panic ''failed to spawn timer thread'')
      | Some t \<Rightarrow> Ok \<lparr> th_handle = Some t, th_shutdown = shutdown_flag \<rparr>)"

text \<open>What the thread ends with: the statistics of its loop over the passes it made.\<close>

definition timer_thread_outcome :: "TimerThreadConfig \<Rightarrow> TimerRound list \<Rightarrow> u64 \<Rightarrow> HeapInner \<Rightarrow> TimerStats option" where
  "timer_thread_outcome cfg rs ctr hp = Some (fst (snd (timer_loop cfg rs ctr TimerStats_default hp)))"

lemma timer_loop_rounds:
  "length (fst (timer_loop cfg rs ctr st hp)) = length (takeWhile (\<lambda>r. \<not> tr_shutdown r) rs)"
  by (induction rs arbitrary: ctr st hp) (simp_all add: case_prod_beta)

lemma timer_stats_zero: "ts_poll_count TimerStats_default = 0" "ts_timers_fired TimerStats_default = 0"
  by (simp_all add: TimerStats_default_def)

section \<open>Worker pool and worker identity\<close>

record WorkerPool =
  wp_handles :: "nat list"
  wp_num_workers :: usize
  wp_num_low_priority_workers :: usize
  wp_shutdown :: bool
  wp_started_count :: usize

definition WorkerPool_new :: "usize \<Rightarrow> usize \<Rightarrow> WorkerPool" where
  "WorkerPool_new n low =
     \<lparr> wp_handles = [], wp_num_workers = n, wp_num_low_priority_workers = low, wp_shutdown = False, wp_started_count = 0 \<rparr>"

definition WorkerPool_shutdown :: "WorkerPool \<Rightarrow> WorkerPool" where
  "WorkerPool_shutdown p = p\<lparr> wp_shutdown := True \<rparr>"

text \<open>\<open>CURRENT_WORKER_ID\<close>, \<open>usize::MAX\<close> until it is set.\<close>

definition worker_id_unset :: nat where
  "worker_id_unset = 2 ^ 64 - 1"

definition current_worker_state :: "nat \<Rightarrow> Sched \<Rightarrow> (failure, WorkerState) result" where
  "current_worker_state cell s =
     (if cell < MAX_WORKERS then Ok (s_workers s cell) else Err (Panic ''index out of bounds''))"

section \<open>Entry of a green thread\<close>

text \<open>
  The token the closure gets, from the metadata of the running thread; \<open>cancelled_at\<close> is the address of the
  field \<open>cancelled\<close> in the metadata block at a base address.
\<close>

definition cancelled_at :: "nat \<Rightarrow> nat" where
  "cancelled_at base = base + 1"

definition gvthread_entry :: "Tls \<Rightarrow> (u64 \<Rightarrow> CancellationToken \<Rightarrow> 's \<Rightarrow> 's) \<Rightarrow> u64 \<Rightarrow> 's \<Rightarrow> 's" where
  "gvthread_entry tls run closure s =
     run closure (if tls_base tls \<noteq> 0 then token_from_metadata (cancelled_at (tls_base tls)) else token_dummy) s"

section \<open>Main loop of a worker\<close>

text \<open>The thread-locals a worker sets: its index (\<open>worker.rs\<close>) and its name in the log.\<close>

record WorkerIdent =
  wi_cell :: nat
  wi_kprint :: KprintTls

definition spin_limit :: "env \<Rightarrow> u32" where
  "spin_limit env = of_nat (env_get env (parse_unsigned 32) ''GVT_IDLE_SPINS'' 10)"

definition park_timeout_ms :: "env \<Rightarrow> nat" where
  "park_timeout_ms env = env_get env (parse_unsigned 64) ''GVT_PARK_TIMEOUT_MS'' 100"

text \<open>
  A pass: what other threads did before it, what running a thread does, and what others do to the queue
  while the worker is parked for at most a number of milliseconds.
\<close>

record WorkerPass =
  wq_env :: "Sched \<Rightarrow> Sched"
  wq_run :: "GVThreadId \<Rightarrow> Priority \<Rightarrow> Sched \<Rightarrow> Sched"
  wq_park :: "nat \<Rightarrow> GlobalQueue \<Rightarrow> GlobalQueue"

fun worker_loop ::
  "env \<Rightarrow> Hooks \<Rightarrow> nat \<Rightarrow> WorkerPass list \<Rightarrow> u32 \<Rightarrow> Sched \<Rightarrow> WorkerAction list \<times> Sched" where
  "worker_loop env hk w [] idle s = ([], s)"
| "worker_loop env hk w (p # ps) idle s =
     (case worker_round hk (wq_run p) (wq_park p (park_timeout_ms env)) (spin_limit env) w idle (wq_env p s) of
        (a, idle', s') \<Rightarrow>
          if a = WExit then ([WExit], s')
          else (case worker_loop env hk w ps idle' s' of (acts, res) \<Rightarrow> (a # acts, res)))"

text \<open>\<open>self\<close> is what \<open>pthread_self\<close> returned. The name in the log is cleared when the loop has ended.\<close>

definition worker_main_loop ::
  "env \<Rightarrow> Hooks \<Rightarrow> u64 \<Rightarrow> nat \<Rightarrow> WorkerPass list \<Rightarrow> WorkerIdent \<Rightarrow> Sched \<Rightarrow>
   (failure, WorkerAction list \<times> WorkerIdent) result \<times> Sched"
where
  "worker_main_loop env hk self w ps ident s =
     (let ident1 = ident\<lparr> wi_cell := w, wi_kprint := set_worker_id (of_nat w) (wi_kprint ident) \<rparr>
      in case current_worker_state (wi_cell ident1) s of
           Inl e \<Rightarrow> (Err e, s)
         | Inr _ \<Rightarrow>
             (case worker_loop env hk w ps 0 (upd_worker w (\<lambda>x. x\<lparr> w_thread_id := self \<rparr>) s) of
                (acts, s') \<Rightarrow>
                  (Ok (acts, if WExit \<in> set acts then ident1\<lparr> wi_kprint := clear_worker_id (wi_kprint ident1) \<rparr> else ident1),
                   s')))"

lemma worker_round_exit: "fst (worker_round hk run park limit w idle s) = WExit \<longleftrightarrow> \<not> s_global_running s"
  by (auto simp: worker_round_def Let_def split: option.splits prod.splits)

lemma worker_loop_exit_last: "WExit \<notin> set (butlast (fst (worker_loop env hk w ps idle s)))"
  by (induction ps arbitrary: idle s) (auto simp: case_prod_beta)

lemma worker_loop_stops:
  "\<not> s_global_running (wq_env p s) \<Longrightarrow> fst (worker_loop env hk w (p # ps) idle s) = [WExit]"
  using worker_round_exit[of hk "wq_run p" "wq_park p (park_timeout_ms env)" "spin_limit env" w idle "wq_env p s"]
  by (simp add: case_prod_beta)

section \<open>Builder of the configuration\<close>

datatype ConfigSetting =
    SetNumWorkers usize | SetNumLowPriorityWorkers usize | SetMaxGvthreads usize
  | SetTimeSlice nat | SetGracePeriod nat | SetTimerInterval nat
  | SetEnableForcedPreempt bool | SetDebugLogging bool | SetStackSize usize
  | SetLocalQueueCapacity usize | SetGlobalQueueCapacity usize | SetIdleSpins u32 | SetParkTimeout nat

text \<open>The builder method each setting stands for.\<close>

primrec config_set :: "ConfigSetting \<Rightarrow> SchedulerConfig \<Rightarrow> SchedulerConfig" where
  "config_set (SetNumWorkers n) c = c\<lparr> c_num_workers := n \<rparr>"
| "config_set (SetNumLowPriorityWorkers n) c = c\<lparr> c_num_low_priority_workers := n \<rparr>"
| "config_set (SetMaxGvthreads n) c = c\<lparr> c_max_gvthreads := n \<rparr>"
| "config_set (SetTimeSlice d) c = c\<lparr> c_time_slice := d \<rparr>"
| "config_set (SetGracePeriod d) c = c\<lparr> c_grace_period := d \<rparr>"
| "config_set (SetTimerInterval d) c = c\<lparr> c_timer_interval := d \<rparr>"
| "config_set (SetEnableForcedPreempt b) c = c\<lparr> c_enable_forced_preempt := b \<rparr>"
| "config_set (SetDebugLogging b) c = c\<lparr> c_debug_logging := b \<rparr>"
| "config_set (SetStackSize n) c = c\<lparr> c_stack_size := n \<rparr>"
| "config_set (SetLocalQueueCapacity n) c = c\<lparr> c_local_queue_capacity := n \<rparr>"
| "config_set (SetGlobalQueueCapacity n) c = c\<lparr> c_global_queue_capacity := n \<rparr>"
| "config_set (SetIdleSpins n) c = c\<lparr> c_idle_spins := n \<rparr>"
| "config_set (SetParkTimeout d) c = c\<lparr> c_park_timeout := d \<rparr>"

text \<open>Settings of different parameters commute, and the last setting of one counts.\<close>

definition same_param :: "ConfigSetting \<Rightarrow> ConfigSetting \<Rightarrow> bool" where
  "same_param a b \<longleftrightarrow> (\<forall>c. config_set a (config_set b c) = config_set a c)"

lemma config_set_swap: "\<not> same_param a b \<Longrightarrow> config_set a (config_set b c) = config_set b (config_set a c)"
  by (cases a; cases b) (auto simp: same_param_def)

text \<open>
  The settings the runtime never reads: changing them changes neither the scheduler that is created, its
  configuration apart, nor how it is started.
\<close>

fun setting_unread :: "ConfigSetting \<Rightarrow> bool" where
  "setting_unread (SetTimerInterval d) = True"
| "setting_unread (SetIdleSpins n) = True"
| "setting_unread (SetParkTimeout d) = True"
| "setting_unread (SetGracePeriod d) = True"
| "setting_unread _ = False"

definition with_config :: "SchedulerConfig \<Rightarrow> Sched \<Rightarrow> Sched" where
  "with_config c s = s\<lparr> s_config := c \<rparr>"

lemma unread_new:
  assumes "setting_unread a"
  shows "Scheduler_new (config_set a c) = map_sum id (with_config (config_set a c)) (Scheduler_new c)"
  using assms by (cases a) (auto simp: Scheduler_new_def validate_def with_config_def)

lemma WorkerPool_start_config:
  "WorkerPool_start n low is (with_config c s) = map_prod id (with_config c) (WorkerPool_start n low is s)"
proof (induction "is" arbitrary: s)
  case Nil
  then show ?case by simp
next
  case (Cons i "is")
  let ?u = "\<lambda>s. (upd_worker i (WorkerState_init (of_nat i) (i \<ge> n - low)) s)\<lparr> s_worker_threads := s_worker_threads s + 1 \<rparr>"
  have "?u (with_config c s) = with_config c (?u s)"
    by (simp add: with_config_def)
  then show ?case
    by (simp add: Cons)
qed

lemma start_config:
  assumes "c_num_workers c = c_num_workers (s_config s)"
    and "c_num_low_priority_workers c = c_num_low_priority_workers (s_config s)"
    and "c_max_gvthreads c = c_max_gvthreads (s_config s)"
  shows "start os (with_config c s) = map_prod id (with_config c) (start os s)"
proof (cases "s_running s")
  case True
  then show ?thesis by (simp add: start_def with_config_def)
next
  case False
  obtain res r where m: "region_init (os_mmap os) (c_max_gvthreads (s_config s)) (s_region s) = (res, r)"
    by fastforce
  have w: "s_running (with_config c s) = s_running s" "s_config (with_config c s) = c" "s_region (with_config c s) = s_region s"
    by (simp_all add: with_config_def)
  show ?thesis
  proof (cases res)
    case (Inl e)
    then show ?thesis
      using False assms(3) m by (simp add: start_def w Let_def) (simp add: with_config_def)
  next
    case (Inr u)
    let ?f = "\<lambda>s. s\<lparr> s_running := True, s_region := r, s_global_running := True, s_timer_thread := True \<rparr>"
    have "?f (with_config c s) = with_config c (?f s)"
      by (simp add: with_config_def)
    then show ?thesis
      using False assms m Inr by (simp add: start_def w Let_def WorkerPool_start_config)
  qed
qed

lemma unread_start:
  assumes "setting_unread a"
  shows "start os (with_config (config_set a (s_config s)) s)
    = map_prod id (with_config (config_set a (s_config s))) (start os s)"
  by (rule start_config; cases a; use assms in simp)

section \<open>Shutdown\<close>

text \<open>
  Where a worker is in its loop: before the test of \<open>SCHEDULER_RUNNING\<close>, between that and the choice of what
  to do, inside a green thread, in the wait hook for a completion, parked, gone. Where \<open>Scheduler::shutdown\<close>
  is: not called, before \<open>wake_all\<close>, before it stops the timer thread, joining it, joining the workers, done.
\<close>

datatype WorkerPc = WkCheck | WkNext | WkRunning | WkIoWait | WkParked | WkExited

datatype ShutPc = ShIdle | ShWake | ShTimer | ShJoinTimer | ShJoinWorkers | ShDone

record Life =
  lf_running :: bool
  lf_timer_shutdown :: bool
  lf_timer_exited :: bool
  lf_workers :: "WorkerPc list"
  lf_inflight :: "nat list"
  lf_shut :: ShutPc

definition life_init :: "nat \<Rightarrow> Life" where
  "life_init n = \<lparr> lf_running = True, lf_timer_shutdown = False, lf_timer_exited = False,
                   lf_workers = replicate n WkCheck, lf_inflight = replicate n 0,
                   lf_shut = ShIdle \<rparr>"

definition unpark :: "WorkerPc \<Rightarrow> WorkerPc" where
  "unpark p = (if p = WkParked then WkCheck else p)"

abbreviation wk_at :: "Life \<Rightarrow> nat \<Rightarrow> WorkerPc \<Rightarrow> bool" where
  "wk_at s w p \<equiv> w < length (lf_workers s) \<and> lf_workers s ! w = p"

abbreviation wk_goto :: "nat \<Rightarrow> WorkerPc \<Rightarrow> Life \<Rightarrow> Life" where
  "wk_goto w p s \<equiv> s\<lparr> lf_workers := (lf_workers s)[w := p] \<rparr>"

abbreviation set_inflight :: "nat \<Rightarrow> nat \<Rightarrow> Life \<Rightarrow> Life" where
  "set_inflight w k s \<equiv> s\<lparr> lf_inflight := (lf_inflight s)[w := k] \<rparr>"

text \<open>
  What a worker may do after it has looked for work, as in \<open>worker_main_loop\<close>: run a thread; with none
  ready, wait for a completion if its ring has operations in flight, and spin or park if it has none.
\<close>

definition may_choose :: "nat \<Rightarrow> WorkerPc \<Rightarrow> bool" where
  "may_choose inflight p \<longleftrightarrow>
     p = WkRunning \<or> (if inflight > 0 then p = WkIoWait else p = WkCheck \<or> p = WkParked)"

text \<open>
  The steps of the runtime itself. Before it looks for work a worker polls its ring, which may end some of
  the operations in flight; which thread is ready is left open; a parked worker comes back, woken or after
  its timeout.
\<close>

inductive life_step :: "Life \<Rightarrow> Life \<Rightarrow> bool" where
  Exit: "wk_at s w WkCheck \<Longrightarrow> \<not> lf_running s \<Longrightarrow> life_step s (wk_goto w WkExited s)"
| Go: "wk_at s w WkCheck \<Longrightarrow> lf_running s \<Longrightarrow> k \<le> lf_inflight s ! w \<Longrightarrow>
    life_step s (set_inflight w k (wk_goto w WkNext s))"
| Choose: "wk_at s w WkNext \<Longrightarrow> may_choose (lf_inflight s ! w) p \<Longrightarrow> life_step s (wk_goto w p s)"
| Unpark: "wk_at s w WkParked \<Longrightarrow> life_step s (wk_goto w WkCheck s)"
| Timer_exit: "lf_timer_shutdown s \<Longrightarrow> \<not> lf_timer_exited s \<Longrightarrow> life_step s (s\<lparr> lf_timer_exited := True \<rparr>)"
| Shutdown: "lf_shut s = ShIdle \<Longrightarrow> life_step s (s\<lparr> lf_running := False, lf_shut := ShWake \<rparr>)"
| Wake: "lf_shut s = ShWake \<Longrightarrow>
    life_step s (s\<lparr> lf_workers := map unpark (lf_workers s), lf_shut := ShTimer \<rparr>)"
| Stop_timer: "lf_shut s = ShTimer \<Longrightarrow> life_step s (s\<lparr> lf_timer_shutdown := True, lf_shut := ShJoinTimer \<rparr>)"
| Join_timer: "lf_shut s = ShJoinTimer \<Longrightarrow> lf_timer_exited s \<Longrightarrow> life_step s (s\<lparr> lf_shut := ShJoinWorkers \<rparr>)"
| Join_workers: "lf_shut s = ShJoinWorkers \<Longrightarrow> set (lf_workers s) \<subseteq> {WkExited} \<Longrightarrow> life_step s (s\<lparr> lf_shut := ShDone \<rparr>)"

text \<open>
  What the runtime waits for: a green thread that yields, blocks or ends and may have submitted operations
  on its worker's ring, and a completion that arrives.
\<close>

inductive life_env :: "Life \<Rightarrow> Life \<Rightarrow> bool" where
  Yield: "wk_at s w WkRunning \<Longrightarrow> lf_inflight s ! w \<le> k \<Longrightarrow> life_env s (set_inflight w k (wk_goto w WkCheck s))"
| Completion: "wk_at s w WkIoWait \<Longrightarrow> k \<le> lf_inflight s ! w \<Longrightarrow> life_env s (set_inflight w k (wk_goto w WkCheck s))"

definition life_any :: "Life \<Rightarrow> Life \<Rightarrow> bool" where
  "life_any s s' \<longleftrightarrow> life_step s s' \<or> life_env s s'"

definition life_inv :: "Life \<Rightarrow> bool" where
  "life_inv s \<longleftrightarrow>
     (lf_shut s = ShIdle \<longleftrightarrow> lf_running s) \<and>
     (lf_shut s \<in> {ShIdle, ShWake, ShTimer} \<longleftrightarrow> \<not> lf_timer_shutdown s) \<and>
     (lf_timer_exited s \<longrightarrow> lf_timer_shutdown s) \<and>
     (lf_shut s \<in> {ShJoinWorkers, ShDone} \<longrightarrow> lf_timer_exited s) \<and>
     (lf_shut s = ShDone \<longrightarrow> set (lf_workers s) \<subseteq> {WkExited})"

lemma exited_update: "set xs \<subseteq> {WkExited} \<Longrightarrow> w < length xs \<Longrightarrow> xs ! w = p \<Longrightarrow> p = WkExited"
  using nth_mem by fastforce

lemma life_inv_step: "life_any s s' \<Longrightarrow> life_inv s \<Longrightarrow> life_inv s'"
  unfolding life_any_def
proof (elim disjE)
  assume "life_step s s'" "life_inv s"
  then show "life_inv s'"
  proof (induction rule: life_step.induct)
    case (Choose s w p)
    then show ?case
      using exited_update[of "lf_workers s" w WkNext] by (auto simp: life_inv_def)
  next
    case (Unpark s w)
    then show ?case
      using exited_update[of "lf_workers s" w WkParked] by (auto simp: life_inv_def)
  next
    case (Exit s w)
    then show ?case
      using exited_update[of "lf_workers s" w WkCheck] by (auto simp: life_inv_def)
  qed (auto simp: life_inv_def)
next
  assume "life_env s s'" "life_inv s"
  then show "life_inv s'"
    using exited_update by (induction rule: life_env.induct) (auto simp: life_inv_def)
qed

lemma life_inv_reachable: "life_any\<^sup>*\<^sup>* (life_init n) s \<Longrightarrow> life_inv s"
proof (induction rule: rtranclp_induct)
  case base
  then show ?case by (auto simp: life_init_def life_inv_def)
next
  case (step u v)
  then show ?case using life_inv_step by blast
qed

text \<open>How far the shutdown is from its end.\<close>

primrec wk_weight :: "WorkerPc \<Rightarrow> nat" where
  "wk_weight WkExited = 0"
| "wk_weight WkCheck = 1"
| "wk_weight WkParked = 2"
| "wk_weight WkRunning = 2"
| "wk_weight WkIoWait = 2"
| "wk_weight WkNext = 3"

primrec sh_weight :: "ShutPc \<Rightarrow> nat" where
  "sh_weight ShDone = 0"
| "sh_weight ShJoinWorkers = 1"
| "sh_weight ShJoinTimer = 2"
| "sh_weight ShTimer = 3"
| "sh_weight ShWake = 4"
| "sh_weight ShIdle = 5"

definition life_weight :: "Life \<Rightarrow> nat" where
  "life_weight s =
     sum_list (map wk_weight (lf_workers s)) + sh_weight (lf_shut s) + (if lf_timer_exited s then 0 else 1)"

lemma weight_goto:
  assumes "w < length xs" "wk_weight q < wk_weight (xs ! w)"
  shows "sum_list (map wk_weight (xs[w := q])) < sum_list (map wk_weight xs)"
proof -
  have "wk_weight (xs ! w) \<le> sum_list (map wk_weight xs)"
    using assms(1) by (metis elem_le_sum_list length_map nth_map)
  then show ?thesis
    using assms by (simp add: map_update sum_list_update)
qed

lemma weight_unpark: "sum_list (map wk_weight (map unpark xs)) \<le> sum_list (map wk_weight xs)"
  by (induction xs) (auto simp: unpark_def)

lemma life_weight_decreases:
  assumes "life_any s s'" "\<not> lf_running s"
  shows "life_weight s' < life_weight s"
  using assms(1) unfolding life_any_def
proof (elim disjE)
  assume "life_step s s'"
  then show ?thesis
    using assms(2)
  proof (induction rule: life_step.induct)
    case (Wake s)
    then show ?case
      using weight_unpark[of "lf_workers s"] by (simp add: life_weight_def)
  qed (auto simp: life_weight_def may_choose_def intro!: weight_goto split: if_splits)
next
  assume "life_env s s'"
  then show ?thesis
    by (induction rule: life_env.induct) (auto simp: life_weight_def intro!: weight_goto)
qed

lemma stays_down: "life_any s s' \<Longrightarrow> \<not> lf_running s \<Longrightarrow> \<not> lf_running s'"
  by (auto simp: life_any_def elim!: life_step.cases life_env.cases)

lemma life_runs_bounded:
  "(life_any ^^ k) s s' \<Longrightarrow> \<not> lf_running s \<Longrightarrow> k + life_weight s' \<le> life_weight s"
proof (induction k arbitrary: s)
  case 0
  then show ?case by simp
next
  case (Suc k)
  then obtain u where u: "life_any s u" "(life_any ^^ k) u s'"
    by (meson relpowp_Suc_E2)
  then show ?case
    using Suc.IH[OF u(2)] stays_down[OF u(1)] life_weight_decreases[OF u(1)] Suc.prems(2) by force
qed

lemma life_stuck:
  assumes "life_inv s" "\<not> lf_running s" "\<nexists>s'. life_step s s'"
  shows "lf_shut s = ShDone \<or> WkRunning \<in> set (lf_workers s) \<or> WkIoWait \<in> set (lf_workers s)"
proof (rule ccontr)
  assume n: "\<not> ?thesis"
  have no: False if "life_step s s'" for s'
    using assms(3) that by (rule notE[OF _ exI])
  have "p = WkExited" if mem: "p \<in> set (lf_workers s)" for p
  proof -
    obtain w where w: "wk_at s w p"
      using mem unfolding in_set_conv_nth by auto
    show ?thesis
    proof (cases p)
      case WkCheck
      then show ?thesis using no[OF life_step.Exit[of w s]] w assms(2) by simp
    next
      case WkNext
      then show ?thesis
        using no[OF life_step.Choose[of w s WkCheck]] no[OF life_step.Choose[of w s WkIoWait]] w
        by (cases "lf_inflight s ! w > 0") (simp_all add: may_choose_def)
    next
      case WkParked
      then show ?thesis using no[OF life_step.Unpark[of w s]] w by simp
    qed (use n mem in auto)
  qed
  then have all: "set (lf_workers s) \<subseteq> {WkExited}"
    by auto
  show False
  proof (cases "lf_shut s")
    case ShIdle
    then show False using assms(1,2) by (simp add: life_inv_def)
  next
    case ShWake
    then show False by (rule no[OF life_step.Wake])
  next
    case ShTimer
    then show False by (rule no[OF life_step.Stop_timer])
  next
    case ShJoinTimer
    then have "lf_timer_shutdown s"
      using assms(1) by (simp add: life_inv_def)
    then show False
      using ShJoinTimer no[OF life_step.Join_timer] no[OF life_step.Timer_exit] by (cases "lf_timer_exited s") simp_all
  next
    case ShJoinWorkers
    then show False using all by (rule no[OF life_step.Join_workers])
  next
    case ShDone
    then show False using n by simp
  qed
qed

lemma weight_bound: "sum_list (map wk_weight xs) \<le> 3 * length xs"
proof (induction xs)
  case (Cons p xs)
  then show ?case by (cases p) simp_all
qed simp

lemma life_weight_bound: "life_inv s \<Longrightarrow> \<not> lf_running s \<Longrightarrow> life_weight s \<le> 3 * length (lf_workers s) + 5"
  using weight_bound[of "lf_workers s"] by (cases "lf_shut s") (auto simp: life_weight_def life_inv_def)

text \<open>A run to a shutdown with the only worker waiting for the completion of the one operation it has.\<close>

abbreviation life_state :: "bool \<Rightarrow> WorkerPc \<Rightarrow> nat \<Rightarrow> ShutPc \<Rightarrow> Life" where
  "life_state b p k sh \<equiv> \<lparr> lf_running = b, lf_timer_shutdown = False, lf_timer_exited = False, lf_workers = [p],
     lf_inflight = [k], lf_shut = sh \<rparr>"

lemma io_wait_run: "life_any\<^sup>*\<^sup>* (life_init 1) (life_state False WkIoWait 1 ShWake)"
proof -
  have "life_any (life_state True WkCheck k ShIdle) (life_state True WkNext k ShIdle)" for k
    using life_step.Go[of 0 "life_state True WkCheck k ShIdle" k] by (simp add: life_any_def)
  moreover have "life_any (life_state True WkNext 0 ShIdle) (life_state True WkRunning 0 ShIdle)"
    using life_step.Choose[of 0 "life_state True WkNext 0 ShIdle" WkRunning] by (simp add: life_any_def may_choose_def)
  moreover have "life_any (life_state True WkRunning 0 ShIdle) (life_state True WkCheck 1 ShIdle)"
    using life_env.Yield[of 0 "life_state True WkRunning 0 ShIdle" 1] by (simp add: life_any_def)
  moreover have "life_any (life_state True WkNext 1 ShIdle) (life_state True WkIoWait 1 ShIdle)"
    using life_step.Choose[of 0 "life_state True WkNext 1 ShIdle" WkIoWait] by (simp add: life_any_def may_choose_def)
  moreover have "life_any (life_state True WkIoWait 1 ShIdle) (life_state False WkIoWait 1 ShWake)"
    using life_step.Shutdown[of "life_state True WkIoWait 1 ShIdle"] by (simp add: life_any_def)
  ultimately have "life_any\<^sup>*\<^sup>* (life_state True WkCheck 0 ShIdle) (life_state False WkIoWait 1 ShWake)"
    by (meson converse_rtranclp_into_rtranclp rtranclp.rtrancl_refl)
  then show ?thesis
    by (simp add: life_init_def)
qed

section \<open>The coarse clock along the timer thread\<close>

text \<open>The readings of successive passes do not go back and stay within 64 bits of the start.\<close>

fun passes_ordered :: "nat \<Rightarrow> nat \<Rightarrow> TimerPass list \<Rightarrow> bool" where
  "passes_ordered st t [] = True"
| "passes_ordered st t (p # ps) \<longleftrightarrow> t \<le> tp_coarse p \<and> tp_coarse p - st < 2 ^ 64 \<and> passes_ordered st (tp_coarse p) ps"

lemma timer_loop_clock:
  assumes "sched_timer_loop tls m ps c ws s = (ds, sgs, c', ws', s')"
    and "ck_start c = Some st" "clock_ok t c" "passes_ordered st t ps"
  shows "ck_start c' = Some st \<and> coarse_now_ns c \<le> coarse_now_ns c' \<and> (\<exists>t' \<ge> t. clock_ok t' c')"
  using assms
proof (induction ps arbitrary: c ws s ds sgs t)
  case Nil
  then show ?case by auto
next
  case (Cons p ps)
  show ?case
  proof (cases "tp_shutdown p")
    case True
    then show ?thesis using Cons.prems by auto
  next
    case False
    let ?c = "update_coarse_time (tp_coarse p) c"
    obtain ws1 s1 ds1 sgs1 where r: "sched_timer_loop tls m ps ?c ws1 s1 = (ds1, sgs1, c', ws', s')"
      using Cons.prems(1) False by (auto simp: Let_def split: prod.splits)
    have u: "clock_ok (tp_coarse p) ?c" "coarse_now_ns c \<le> coarse_now_ns ?c"
      using clock_ok_update[OF Cons.prems(3) _ Cons.prems(2)] Cons.prems(4) by simp_all
    show ?thesis
      using Cons.IH[OF r _ u(1)] Cons.prems(2,4) u(2) by (auto intro: order_trans)
  qed
qed

section \<open>Properties\<close>

text \<open>C13: Once \<open>Scheduler::shutdown\<close> has cleared the running flag, at most \<open>3 n + 5\<close> further steps of any
  kind are possible with \<open>n\<close> workers, whatever the workers, the timer thread, the green threads and the
  kernel do; when the runtime can make no step of its own, the shutdown has returned or a worker is inside a
  green thread or waits for a completion; and when it has returned, every worker and the timer thread are
  gone.\<close>

theorem shutdown_ends:
  assumes "life_any\<^sup>*\<^sup>* (life_init n) s" "lf_shut s \<noteq> ShIdle"
  shows "(\<forall>k s'. (life_any ^^ k) s s' \<longrightarrow> k \<le> 3 * length (lf_workers s) + 5)
    \<and> ((\<nexists>s'. life_step s s') \<longrightarrow>
        lf_shut s = ShDone \<or> WkRunning \<in> set (lf_workers s) \<or> WkIoWait \<in> set (lf_workers s))
    \<and> (lf_shut s = ShDone \<longrightarrow> set (lf_workers s) \<subseteq> {WkExited} \<and> lf_timer_exited s)"
proof -
  have i: "life_inv s"
    by (rule life_inv_reachable[OF assms(1)])
  then have d: "\<not> lf_running s"
    using assms(2) by (simp add: life_inv_def)
  have "k \<le> 3 * length (lf_workers s) + 5" if "(life_any ^^ k) s s'" for k s'
    using life_runs_bounded[OF that d] life_weight_bound[OF i d] by linarith
  then show ?thesis
    using life_stuck[OF i d] i by (auto simp: life_inv_def)
qed

theorem shutdown_ends_witness: "\<nexists>s'. (life_any ^^ 9) (life_state False WkIoWait 1 ShWake) s'"
proof
  assume run: "\<exists>s'. (life_any ^^ 9) (life_state False WkIoWait 1 ShWake) s'"
  have "lf_shut (life_state False WkIoWait 1 ShWake) \<noteq> ShIdle"
    by simp
  from shutdown_ends[OF io_wait_run this] run
  have "(9::nat) \<le> 3 * length (lf_workers (life_state False WkIoWait 1 ShWake)) + 5"
    by blast
  then show False
    by simp
qed

text \<open>Stopping the polling timer thread returns the statistics of exactly the passes it made before it
  saw the flag, one count per pass and one per expired timer; the handle then reports that the thread is not
  running, and a second join panics.\<close>

theorem timer_stop_reports:
  assumes "spawn_timer_thread (Some t) False = Ok h"
    and "timer_loop cfg rs ctr TimerStats_default hp = (batches, st, ctr', hp')"
  shows "\<exists>h'. TimerThreadHandle_stop (\<lambda>_. timer_thread_outcome cfg rs ctr hp) h = (Ok st, h')
    \<and> ts_poll_count st = of_nat (length (takeWhile (\<lambda>r. \<not> tr_shutdown r) rs))
    \<and> ts_timers_fired st = of_nat (sum_list (map length batches))
    \<and> TimerThreadHandle_is_running h \<and> \<not> TimerThreadHandle_is_running h'
    \<and> fst (TimerThreadHandle_join (\<lambda>_. timer_thread_outcome cfg rs ctr hp) h')
        = Err (Panic ''join() called twice or handle missing'')"
  using assms(1) timer_loop_stats[OF assms(2)] timer_loop_rounds[of cfg rs ctr TimerStats_default hp] timer_stats_zero
  by (auto simp: spawn_timer_thread_def TimerThreadHandle_stop_def TimerThreadHandle_join_def TimerThreadHandle_shutdown_def
      TimerThreadHandle_is_running_def is_shutdown_requested_def timer_thread_outcome_def assms(2))

theorem timer_stop_reports_witness:
  "\<exists>h'. TimerThreadHandle_stop (\<lambda>_. timer_thread_outcome TimerThreadConfig_default [] 1 HeapInner_new)
      \<lparr> th_handle = Some 7, th_shutdown = False \<rparr> = (Ok TimerStats_default, h')"
  using timer_stop_reports[of 7 "\<lparr> th_handle = Some 7, th_shutdown = False \<rparr>" TimerThreadConfig_default "[]" 1
      HeapInner_new "[]" TimerStats_default 1 HeapInner_new]
  by (auto simp: spawn_timer_thread_def)

end
