(* ===== verification/Server_Main.thy ===== *)
theory Server_Main
  imports Gvt_Httpd
begin

text \<open>
  The main functions of the servers: command lines, environment and listener of the event-driven HTTP server
  (\<open>cmd/httpd/rust/ksvc/src/main.rs\<close>) with the division of its connections among its workers, of the echo
  server (\<open>cmd/echo/rust/ksvc/src/main.rs\<close>), and of the first version of the HTTP server on green threads
  (\<open>cmd/httpd/rust/gvthread0/src/main.rs\<close>), whose handler and accept loop are those of \<open>Gvt_Httpd\<close> on streams
  of a shared reactor.
\<close>

section \<open>The event-driven HTTP server\<close>

record KsvcOpts =
  ko_port :: nat
  ko_dir :: "string option"
  ko_max_conns :: nat
  ko_threads :: nat

definition parse_or :: "nat \<Rightarrow> nat \<Rightarrow> string \<Rightarrow> nat" where
  "parse_or width dflt v = (case parse_unsigned width v of Some n \<Rightarrow> n | None \<Rightarrow> dflt)"

definition ksvc_defaults :: "env \<Rightarrow> KsvcOpts" where
  "ksvc_defaults env =
     \<lparr> ko_port = override 16 (env ''gvt_app_port'') 8080, ko_dir = None, ko_max_conns = 4096, ko_threads = 1 \<rparr>"

definition takes_value :: "string \<Rightarrow> bool" where
  "takes_value a \<longleftrightarrow> a \<in> {''--port'', ''-p'', ''--dir'', ''-d'', ''--max-conns'', ''--threads'', ''-t''}"

definition ksvc_set :: "string \<Rightarrow> string \<Rightarrow> KsvcOpts \<Rightarrow> KsvcOpts" where
  "ksvc_set a v ko =
     (if a = ''--port'' \<or> a = ''-p'' then ko\<lparr> ko_port := parse_or 16 8080 v \<rparr>
      else if a = ''--dir'' \<or> a = ''-d'' then ko\<lparr> ko_dir := Some v \<rparr>
      else if a = ''--max-conns'' then ko\<lparr> ko_max_conns := parse_or 64 4096 v \<rparr>
      else ko\<lparr> ko_threads := parse_or 64 1 v \<rparr>)"

text \<open>\<open>args[i]\<close> after a flag that is the last argument is out of range and panics.\<close>

fun ksvc_args :: "string list \<Rightarrow> KsvcOpts \<Rightarrow> (failure, KsvcOpts) result" where
  "ksvc_args [] ko = Ok ko"
| "ksvc_args (a # as) ko =
     (if takes_value a then
        (case as of [] \<Rightarrow> Err (Panic ''index out of bounds'') | v # rest \<Rightarrow> ksvc_args rest (ksvc_set a v ko))
      else ksvc_args as (case parse_unsigned 16 a of Some p \<Rightarrow> ko\<lparr> ko_port := p \<rparr> | None \<Rightarrow> ko))"

definition ksvc_threads :: "env \<Rightarrow> nat \<Rightarrow> nat" where
  "ksvc_threads env n =
     max 1 (case Option.bind (env ''KSVC_THREADS'') (parse_unsigned 64) of
              Some m \<Rightarrow> if m \<ge> 1 then m else n
            | None \<Rightarrow> n)"

text \<open>What each worker is started with; worker 0 runs on the main thread.\<close>

record WorkerPlan =
  pl_wid :: nat
  pl_workers :: nat
  pl_port :: nat
  pl_conns :: nat
  pl_file_mode :: bool
  pl_dir :: string

definition ksvc_main :: "env \<Rightarrow> string list \<Rightarrow> (failure, WorkerPlan list) result" where
  "ksvc_main env args =
     (case ksvc_args args (ksvc_defaults env) of
        Inl e \<Rightarrow> Err e
      | Inr ko \<Rightarrow>
          let n = ksvc_threads env (ko_threads ko)
          in Ok (map (\<lambda>w. \<lparr> pl_wid = w, pl_workers = n, pl_port = ko_port ko, pl_conns = ko_max_conns ko div n,
                            pl_file_mode = (ko_dir ko \<noteq> None), pl_dir = (case ko_dir ko of Some d \<Rightarrow> d | None \<Rightarrow> '''') \<rparr>)
                  [0 ..< n]))"

text \<open>A failed \<open>socket\<close> or \<open>bind\<close> panics; the answer of \<open>listen\<close> is not looked at.\<close>

definition setup_listener :: "'s Libc \<Rightarrow> u16 \<Rightarrow> 's \<Rightarrow> (failure, i32) result \<times> 's" where
  "setup_listener L port s =
     (case lc_socket L AF_INET (SOCK_STREAM OR SOCK_CLOEXEC) 0 s of
        (fd, s1) \<Rightarrow>
          if sint fd < 0 then (Err (Panic ''socket() failed''), s1)
          else
            let s2 = lc_setsockopt L fd SOL_SOCKET SO_REUSEADDR 1 s1;
                s3 = lc_setsockopt L fd SOL_SOCKET SO_REUSEPORT 1 s2;
                s4 = lc_setsockopt L fd IPPROTO_TCP TCP_NODELAY 1 s3
            in case lc_bind L fd (ucast AF_INET) 0 (to_be port) s4 of
                 (ret, s5) \<Rightarrow>
                   if ret \<noteq> 0 then (Err (Panic ''bind() failed''), s5)
                   else (Ok fd, lc_listen L fd 4096 s5))"

section \<open>The echo server\<close>

definition echo_opts :: "string list \<Rightarrow> nat \<times> nat" where
  "echo_opts args =
     (override 16 (arg_value args) 9999, override 64 (arg_value (drop 1 args)) 1024)"

definition echo_setup_listener :: "'s Libc \<Rightarrow> u16 \<Rightarrow> 's \<Rightarrow> (failure, i32) result \<times> 's" where
  "echo_setup_listener L port s =
     (case lc_socket L AF_INET (SOCK_STREAM OR SOCK_CLOEXEC) 0 s of
        (fd, s1) \<Rightarrow>
          if sint fd < 0 then (Err (Panic ''socket() failed''), s1)
          else
            let s2 = lc_setsockopt L fd SOL_SOCKET SO_REUSEADDR 1 s1;
                s3 = lc_setsockopt L fd SOL_SOCKET SO_REUSEPORT 1 s2
            in case lc_bind L fd (ucast AF_INET) 0 (to_be port) s3 of
                 (ret, s4) \<Rightarrow>
                   if ret \<noteq> 0 then (Err (Panic ''bind() failed''), s4)
                   else (Ok fd, lc_listen L fd 4096 s4))"

section \<open>The first server on green threads\<close>

text \<open>Here a value that is missing or does not parse sets the option to its default.\<close>

definition gvt0_defaults :: "env \<Rightarrow> ServerOpts" where
  "gvt0_defaults env = ServerOpts_default\<lparr> so_port := override 16 (env ''gvt_app_port'') 8080 \<rparr>"

definition value_or :: "nat \<Rightarrow> nat \<Rightarrow> string list \<Rightarrow> nat" where
  "value_or width dflt as = override width (arg_value as) dflt"

fun gvt0_args :: "string list \<Rightarrow> ServerOpts \<Rightarrow> ServerOpts" where
  "gvt0_args [] so = so"
| "gvt0_args (a # as) so =
     (if a = ''--port'' \<or> a = ''-p'' then gvt0_args (drop 1 as) (so\<lparr> so_port := value_or 16 8080 as \<rparr>)
      else if a = ''--workers'' \<or> a = ''-w'' then gvt0_args (drop 1 as) (so\<lparr> so_workers := value_or 64 4 as \<rparr>)
      else if a = ''--max-gvthreads'' then gvt0_args (drop 1 as) (so\<lparr> so_max_gvthreads := value_or 64 100000 as \<rparr>)
      else if a = ''--sq'' then gvt0_args (drop 1 as) (so\<lparr> so_sq_entries := value_or 32 1024 as \<rparr>)
      else gvt0_args as (so\<lparr> so_port := override 16 (Some a) (so_port so) \<rparr>))"

definition gvt0_opts :: "env \<Rightarrow> string list \<Rightarrow> ServerOpts" where
  "gvt0_opts env as = gvt0_args as (gvt0_defaults env)"

text \<open>The configuration the runtime is created with, and the one of the reactor.\<close>

definition gvt0_config :: "ServerOpts \<Rightarrow> SchedulerConfig \<Rightarrow> SchedulerConfig" where
  "gvt0_config so cfg = cfg\<lparr> c_num_workers := so_workers so, c_max_gvthreads := so_max_gvthreads so \<rparr>"

section \<open>Properties of the options\<close>

lemma ksvc_plan:
  assumes "ksvc_main env args = Ok ps"
  shows "map pl_wid ps = [0 ..< length ps]" "ps \<noteq> []"
    "p \<in> set ps \<Longrightarrow> pl_workers p = length ps"
    "p \<in> set ps \<Longrightarrow> q \<in> set ps \<Longrightarrow> pl_port p = pl_port q \<and> pl_conns p = pl_conns q \<and> pl_dir p = pl_dir q"
proof -
  obtain ko where ko: "ksvc_args args (ksvc_defaults env) = Ok ko"
    using assms by (auto simp: ksvc_main_def split: sum.splits)
  define n where "n = ksvc_threads env (ko_threads ko)"
  have n: "0 < n"
    by (simp add: n_def ksvc_threads_def)
  have ps: "ps = map (\<lambda>w. \<lparr> pl_wid = w, pl_workers = n, pl_port = ko_port ko, pl_conns = ko_max_conns ko div n,
      pl_file_mode = (ko_dir ko \<noteq> None), pl_dir = (case ko_dir ko of Some d \<Rightarrow> d | None \<Rightarrow> '''') \<rparr>) [0 ..< n]"
    using assms ko by (simp add: ksvc_main_def n_def Let_def)
  show "map pl_wid ps = [0 ..< length ps]" "ps \<noteq> []"
    "p \<in> set ps \<Longrightarrow> pl_workers p = length ps"
    "p \<in> set ps \<Longrightarrow> q \<in> set ps \<Longrightarrow> pl_port p = pl_port q \<and> pl_conns p = pl_conns q \<and> pl_dir p = pl_dir q"
    using n by (auto simp: ps comp_def)
qed

lemma ksvc_plan_total:
  assumes "ksvc_main env args = Ok ps"
  shows "\<exists>ko. ksvc_args args (ksvc_defaults env) = Ok ko
    \<and> sum_list (map pl_conns ps) = length ps * (ko_max_conns ko div length ps)"
  using assms
  by (auto simp: ksvc_main_def Let_def comp_def sum_list_triv split: sum.splits)

text \<open>Every flag that takes a value panics when it comes last, whatever precedes it was accepted.\<close>

lemma ksvc_args_append:
  "ksvc_args as ko = Ok ko' \<Longrightarrow> ksvc_args (as @ bs) ko = ksvc_args bs ko'"
proof (induction as ko rule: ksvc_args.induct)
  case (1 ko)
  then show ?case by simp
next
  case (2 a as ko)
  show ?case
  proof (cases "takes_value a")
    case True
    then obtain v rest where as: "as = v # rest"
      using "2.prems" by (cases as) auto
    show ?thesis
      using "2.IH"(1)[OF True as] "2.prems" True by (simp add: as)
  next
    case False
    then show ?thesis
      using "2.IH"(2) "2.prems" by simp
  qed
qed

lemma ksvc_flag_last:
  assumes "ksvc_args as ko = Ok ko'" "takes_value a"
  shows "ksvc_args (as @ [a]) ko = Err (Panic ''index out of bounds'')"
  using assms(2) by (simp add: ksvc_args_append[OF assms(1)])

text \<open>The number of workers a benchmark asks for reaches one of the three HTTP servers.\<close>

lemma parallelism_ignored:
  "ksvc_main (env(''gvt_parallelism'' := v)) args = ksvc_main env args"
  "gvt0_opts (env(''gvt_parallelism'' := v)) args = gvt0_opts env args"
proof -
  have same: "ksvc_threads (env(''gvt_parallelism'' := v)) = ksvc_threads env" "ksvc_defaults (env(''gvt_parallelism'' := v)) = ksvc_defaults env"
    by (simp_all add: ksvc_threads_def ksvc_defaults_def fun_eq_iff)
  show "ksvc_main (env(''gvt_parallelism'' := v)) args = ksvc_main env args"
    unfolding ksvc_main_def same ..
  show "gvt0_opts (env(''gvt_parallelism'' := v)) args = gvt0_opts env args"
    by (simp add: gvt0_opts_def gvt0_defaults_def)
qed

lemma parallelism_read:
  "so_workers (server_opts env []) = override 64 (env ''gvt_parallelism'') 4"
  by (simp add: server_opts_def opts_env_def ServerOpts_default_def)

text \<open>A flag whose value is missing: a panic, the default, what the environment said.\<close>

lemma port_value_missing:
  "ksvc_main env [''--port''] = Err (Panic ''index out of bounds'')"
  "so_port (gvt0_opts env [''--port'']) = 8080"
  "so_port (server_opts env [''--port'']) = override 16 (env ''gvt_app_port'') 8080"
  by (simp_all add: ksvc_main_def takes_value_def gvt0_opts_def value_or_def override_def server_opts_def opts_env_def
      ServerOpts_default_def)

end
