(* ===== verification/Bench_Runner.thy ===== *)
theory Bench_Runner
  imports Server_Main
begin

text \<open>
  The benchmark runner, \<open>benches/bench-runner.py\<close>: the YAML reader it falls back to, the checks of the
  manifest, the environment a server is started with, the life of the server during one cell of the matrix,
  the cells of the matrix and the rows of the report. Strings are byte strings. Running programs, sockets and
  the clock are answers of the outside; floating-point values are kept as the text they were read from.
\<close>

section \<open>Python values and strings\<close>

datatype PyVal = PNone | PBool bool | PInt int | PFloat string | PStr string | PList "PyVal list" | PDict "(string \<times> PyVal) list"

type_synonym PyDict = "(string \<times> PyVal) list"

text \<open>A dictionary keeps the order of insertion; setting a key it has keeps its place.\<close>

fun dict_set :: "string \<Rightarrow> 'v \<Rightarrow> (string \<times> 'v) list \<Rightarrow> (string \<times> 'v) list" where
  "dict_set k v [] = [(k, v)]"
| "dict_set k v ((k', v') # d) = (if k = k' then (k, v) # d else (k', v') # dict_set k v d)"

lemma map_of_dict_set [simp]: "map_of (dict_set k v d) = (map_of d)(k \<mapsto> v)"
  by (induction k v d rule: dict_set.induct) auto

lemma set_dict_set: "set (dict_set k v d) \<subseteq> insert (k, v) (set d)"
  by (induction k v d rule: dict_set.induct) auto

definition py_space :: "char \<Rightarrow> bool" where
  "py_space c \<longleftrightarrow> c \<in> {CHR '' '', CHR 0x09, CHR 0x0A, CHR 0x0B, CHR 0x0C, CHR 0x0D}"

definition py_lstrip :: "string \<Rightarrow> string" where
  "py_lstrip s = dropWhile py_space s"

definition py_rstrip :: "string \<Rightarrow> string" where
  "py_rstrip s = rev (dropWhile py_space (rev s))"

definition py_strip :: "string \<Rightarrow> string" where
  "py_strip s = py_lstrip (py_rstrip s)"

definition strip_chars :: "char set \<Rightarrow> string \<Rightarrow> string" where
  "strip_chars cs s = rev (dropWhile (\<lambda>c. c \<in> cs) (rev (dropWhile (\<lambda>c. c \<in> cs) s)))"

definition before_char :: "char \<Rightarrow> string \<Rightarrow> string" where
  "before_char c s = takeWhile (\<lambda>x. x \<noteq> c) s"

definition after_char :: "char \<Rightarrow> string \<Rightarrow> string" where
  "after_char c s = drop (Suc (length (before_char c s))) s"

fun split_on :: "char \<Rightarrow> string \<Rightarrow> string \<Rightarrow> string list" where
  "split_on c acc [] = [acc]"
| "split_on c acc (x # xs) = (if x = c then acc # split_on c [] xs else split_on c (acc @ [x]) xs)"

text \<open>Digits with single underscores between them, as \<open>int\<close> and \<open>float\<close> read them.\<close>

fun digit_run :: "bool \<Rightarrow> string \<Rightarrow> bool" where
  "digit_run after_digit [] = after_digit"
| "digit_run after_digit (c # cs) =
     (if digit_val c \<noteq> None then digit_run True cs
      else if c = CHR ''_'' \<and> after_digit \<and> cs \<noteq> [] then digit_run False cs
      else False)"

definition drop_sign :: "string \<Rightarrow> string" where
  "drop_sign s = (case s of c # cs \<Rightarrow> if c = CHR ''+'' \<or> c = CHR ''-'' then cs else s | [] \<Rightarrow> s)"

definition py_int :: "string \<Rightarrow> int option" where
  "py_int s =
     (if digit_run False (drop_sign s)
      then (case parse_digits (filter (\<lambda>c. c \<noteq> CHR ''_'') (drop_sign s)) of
              Some n \<Rightarrow> Some (if hd s = CHR ''-'' then - int n else int n)
            | None \<Rightarrow> None)
      else None)"

definition float_mantissa :: "string \<Rightarrow> bool" where
  "float_mantissa s \<longleftrightarrow>
     (if CHR ''.'' \<in> set s
      then (let a = before_char (CHR ''.'') s; b = after_char (CHR ''.'') s
            in (digit_run False a \<and> (b = [] \<or> digit_run False b)) \<or> (a = [] \<and> digit_run False b))
      else digit_run False s)"

definition py_is_float :: "string \<Rightarrow> bool" where
  "py_is_float s \<longleftrightarrow>
     (let u = map to_lower (drop_sign s)
      in u \<in> {''inf'', ''infinity'', ''nan''} \<or>
         (if CHR ''e'' \<in> set u
          then float_mantissa (before_char (CHR ''e'') u) \<and> digit_run False (drop_sign (after_char (CHR ''e'') u))
          else float_mantissa u))"

definition quoted_by :: "char \<Rightarrow> string \<Rightarrow> bool" where
  "quoted_by q s \<longleftrightarrow> s \<noteq> [] \<and> hd s = q \<and> last s = q"

definition parse_value :: "string \<Rightarrow> PyVal" where
  "parse_value v =
     (if v = [] then PNone
      else if map to_lower v = ''true'' then PBool True
      else if map to_lower v = ''false'' then PBool False
      else if quoted_by (CHR 0x22) v \<or> quoted_by (CHR 0x27) v then PStr (butlast (tl v))
      else case py_int v of
             Some n \<Rightarrow> PInt n
           | None \<Rightarrow> if py_is_float v then PFloat v else PStr v)"

section \<open>The minimal YAML reader\<close>

text \<open>
  The reader keeps references to dictionaries inside the tree it builds. A reference is the path that leads
  to the dictionary from the root; while it is on the stack nothing along the path is replaced, because only
  the dictionary on top of the stack is changed.
\<close>

datatype step = Key string | Item nat

type_synonym path = "step list"

fun upd_at :: "path \<Rightarrow> (PyVal \<Rightarrow> PyVal) \<Rightarrow> PyVal \<Rightarrow> PyVal" where
  "upd_at [] f v = f v"
| "upd_at (Key k # p) f (PDict d) =
     PDict (map (\<lambda>(k', v). if k' = k then (k', upd_at p f v) else (k', v)) d)"
| "upd_at (Item i # p) f (PList xs) =
     (if i < length xs then PList (xs[i := upd_at p f (xs ! i)]) else PList xs)"
| "upd_at (_ # _) f v = v"

fun at_path :: "path \<Rightarrow> PyVal \<Rightarrow> PyVal option" where
  "at_path [] v = Some v"
| "at_path (Key k # p) (PDict d) = Option.bind (map_of d k) (at_path p)"
| "at_path (Item i # p) (PList xs) = (if i < length xs then at_path p (xs ! i) else None)"
| "at_path (_ # _) v = None"

definition set_key :: "string \<Rightarrow> PyVal \<Rightarrow> PyVal \<Rightarrow> PyVal" where
  "set_key k v parent = (case parent of PDict d \<Rightarrow> PDict (dict_set k v d) | _ \<Rightarrow> parent)"

text \<open>The last key whose value is a list, and its length.\<close>

fun last_list :: "PyDict \<Rightarrow> (string \<times> nat) option" where
  "last_list [] = None"
| "last_list ((k, v) # d) =
     (case last_list d of
        Some r \<Rightarrow> Some r
      | None \<Rightarrow> (case v of PList xs \<Rightarrow> Some (k, length xs) | _ \<Rightarrow> None))"

definition append_item :: "PyVal \<Rightarrow> PyVal \<Rightarrow> PyVal" where
  "append_item item v = (case v of PList xs \<Rightarrow> PList (xs @ [item]) | _ \<Rightarrow> v)"

record Yaml =
  y_root :: PyVal
  y_stack :: "(path \<times> int) list"

definition yaml_new :: Yaml where
  "yaml_new = \<lparr> y_root = PDict [], y_stack = [([], - 1)] \<rparr>"

fun pop_stack :: "int \<Rightarrow> (path \<times> int) list \<Rightarrow> (path \<times> int) list" where
  "pop_stack indent (a # b # st) = (if indent \<le> snd a then pop_stack indent (b # st) else a # b # st)"
| "pop_stack indent st = st"

text \<open>A line \<open>- key: value\<close>: it is appended to the last list of the dictionary on top, if there is one.\<close>

definition yaml_item :: "string \<Rightarrow> int \<Rightarrow> path \<Rightarrow> Yaml \<Rightarrow> Yaml" where
  "yaml_item item_str indent p y =
     (if CHR '':'' \<in> set item_str then
        let item = PDict [(py_strip (before_char (CHR '':'') item_str), parse_value (py_strip (after_char (CHR '':'') item_str)))]
        in case at_path p (y_root y) of
             Some (PDict d) \<Rightarrow>
               (case last_list d of
                  Some (pk, n) \<Rightarrow>
                    y\<lparr> y_root := upd_at (p @ [Key pk]) (append_item item) (y_root y),
                       y_stack := (p @ [Key pk, Item n], indent + 2) # y_stack y \<rparr>
                | None \<Rightarrow> y)
           | _ \<Rightarrow> y
      else y)"

definition inline_list :: "string \<Rightarrow> PyVal" where
  "inline_list v =
     PList (map (\<lambda>x. parse_value (strip_chars {CHR 0x27} (strip_chars {CHR 0x22} (py_strip x))))
       (filter (\<lambda>x. py_strip x \<noteq> []) (split_on (CHR '','') [] (strip_chars {CHR ''['', CHR '']''} v))))"

definition yaml_key :: "string \<Rightarrow> int \<Rightarrow> path \<Rightarrow> Yaml \<Rightarrow> Yaml" where
  "yaml_key stripped indent p y =
     (let k = py_strip (before_char (CHR '':'') stripped); v = py_strip (after_char (CHR '':'') stripped) in
      if v = [] \<or> v = ''|'' then
        y\<lparr> y_root := upd_at p (set_key k (PDict [])) (y_root y), y_stack := (p @ [Key k], indent) # y_stack y \<rparr>
      else if hd v = CHR ''['' then y\<lparr> y_root := upd_at p (set_key k (inline_list v)) (y_root y) \<rparr>
      else y\<lparr> y_root := upd_at p (set_key k (parse_value v)) (y_root y) \<rparr>)"

definition yaml_line :: "string \<Rightarrow> Yaml \<Rightarrow> Yaml" where
  "yaml_line raw y =
     (let line = py_rstrip (before_char (CHR ''#'') raw) in
      if py_strip line = [] then y
      else
        let indent = int (length line) - int (length (py_lstrip line));
            stripped = py_strip line;
            y1 = y\<lparr> y_stack := pop_stack indent (y_stack y) \<rparr>;
            p = fst (hd (y_stack y1))
        in if take 2 stripped = ''- '' then yaml_item (py_strip (drop 2 stripped)) indent p y1
           else if CHR '':'' \<in> set stripped then yaml_key stripped indent p y1
           else y1)"

definition load_yaml :: "string list \<Rightarrow> PyVal" where
  "load_yaml ls = y_root (fold yaml_line ls yaml_new)"

section \<open>The manifest\<close>

definition is_dict_with :: "string \<Rightarrow> PyVal \<Rightarrow> bool" where
  "is_dict_with k v \<longleftrightarrow> (case v of PDict d \<Rightarrow> map_of d k \<noteq> None | _ \<Rightarrow> False)"

definition is_dict_without :: "string \<Rightarrow> PyVal \<Rightarrow> bool" where
  "is_dict_without k v \<longleftrightarrow> (case v of PDict d \<Rightarrow> map_of d k = None | _ \<Rightarrow> False)"

text \<open>\<open>None\<close> is an exit with status 1 or an exception: a part that is not a dictionary has no items.\<close>

definition load_manifest :: "PyVal \<Rightarrow> (PyDict \<times> PyDict) option" where
  "load_manifest manifest =
     (case manifest of
        PDict m \<Rightarrow>
          (case (map_of m ''common'', map_of m ''apps'') of
             (Some (PDict common), Some (PDict apps)) \<Rightarrow>
               if list_ex (\<lambda>(_, v). is_dict_with ''port'' v) common then None
               else if list_ex (\<lambda>(_, v). is_dict_without ''port'' v) apps then None
               else Some (common, apps)
           | _ \<Rightarrow> None)
      | _ \<Rightarrow> None)"

definition validate_no_overlap :: "string set \<Rightarrow> PyDict \<Rightarrow> string list" where
  "validate_no_overlap common_keys app_config =
     filter (\<lambda>k. k \<noteq> ''name'' \<and> k \<in> common_keys) (map fst app_config)"

section \<open>The environment of a server\<close>

text \<open>\<open>str\<close> of a value; \<open>rep\<close> prints a floating-point number and the containers.\<close>

definition show_int :: "int \<Rightarrow> string" where
  "show_int i = (if i < 0 then CHR ''-'' # show_nat (nat (- i)) else show_nat (nat i))"

definition py_str :: "(PyVal \<Rightarrow> string) \<Rightarrow> PyVal \<Rightarrow> string" where
  "py_str rep v =
     (case v of
        PNone \<Rightarrow> ''None''
      | PBool b \<Rightarrow> if b then ''True'' else ''False''
      | PInt i \<Rightarrow> show_int i
      | PStr s \<Rightarrow> s
      | _ \<Rightarrow> rep v)"

definition export_keys :: "(PyVal \<Rightarrow> string) \<Rightarrow> string \<Rightarrow> string \<Rightarrow> PyDict \<Rightarrow> env \<Rightarrow> env" where
  "export_keys rep pre skip d env =
     fold (\<lambda>(k, v) e. if k = skip then e else e(pre @ k := Some (py_str rep v))) d env"

definition build_env :: "(PyVal \<Rightarrow> string) \<Rightarrow> PyDict \<Rightarrow> PyDict \<Rightarrow> env \<Rightarrow> env" where
  "build_env rep common_profile app_config os_environ =
     (let e1 = export_keys rep ''gvt_'' ''desc'' common_profile os_environ;
          e2 = export_keys rep ''gvt_app_'' ''name'' app_config e1
      in if e2 ''gvt_app_http'' = None then e2(''gvt_app_http'' := Some ''hyper'') else e2)"

lemma export_keys_simps [simp]:
  "export_keys rep pre skip [] env = env"
  "export_keys rep pre skip ((k, v) # d) env =
     export_keys rep pre skip d (if k = skip then env else env(pre @ k := Some (py_str rep v)))"
  by (simp_all add: export_keys_def)

lemma export_keys_other:
  "(\<And>k. k \<in> fst ` set d \<Longrightarrow> k \<noteq> skip \<Longrightarrow> x \<noteq> pre @ k) \<Longrightarrow> export_keys rep pre skip d env x = env x"
  by (induction d arbitrary: env) (fastforce split: if_splits)+

lemma export_keys_get:
  "distinct (map fst d) \<Longrightarrow> map_of d k = Some v \<Longrightarrow> k \<noteq> skip \<Longrightarrow>
   export_keys rep pre skip d env (pre @ k) = Some (py_str rep v)"
proof (induction d arbitrary: env)
  case (Cons a d)
  obtain k' v' where a: "a = (k', v')"
    by fastforce
  show ?case
  proof (cases "k' = k")
    case True
    then have "k \<notin> fst ` set d" "v' = v"
      using Cons.prems by (auto simp: a)
    then show ?thesis
      using True Cons.prems(3) by (auto simp: a intro!: export_keys_other trans[OF export_keys_other])
  next
    case False
    then show ?thesis
      using Cons by (simp add: a)
  qed
qed simp

section \<open>No lists without inline lists\<close>

fun no_list :: "PyVal \<Rightarrow> bool" where
  "no_list (PList xs) = False"
| "no_list (PDict d) \<longleftrightarrow> (\<forall>kv \<in> set d. no_list (snd kv))"
| "no_list _ = True"

lemma no_list_value: "no_list (parse_value v)"
  by (simp add: parse_value_def split: option.split)

lemma no_list_last: "no_list (PDict d) \<Longrightarrow> last_list d = None"
  by (induction d rule: last_list.induct) (auto split: PyVal.split)

lemma no_list_upd:
  "no_list v \<Longrightarrow> (\<And>w. no_list w \<Longrightarrow> no_list (f w)) \<Longrightarrow> no_list (upd_at p f v)"
  by (induction p f v rule: upd_at.induct) (auto simp: split_beta)

lemma no_list_at: "no_list v \<Longrightarrow> at_path p v = Some w \<Longrightarrow> no_list w"
proof (induction p v rule: at_path.induct)
  case (2 k p d)
  then obtain u where u: "map_of d k = Some u" "at_path p u = Some w"
    by (cases "map_of d k") auto
  then have "no_list u"
    using "2.prems"(1) map_of_SomeD by fastforce
  then show ?case
    using "2.IH"[OF u(1)] u(2) by simp
qed auto

lemma no_list_set: "no_list v \<Longrightarrow> no_list w \<Longrightarrow> no_list (set_key k v w)"
  using set_dict_set by (fastforce simp: set_key_def split: PyVal.split)

lemma set_dropWhile_sub: "set (dropWhile P xs) \<subseteq> set xs"
  by (rule subsetI) (rule set_dropWhileD)

lemma set_py_rstrip: "set (py_rstrip s) \<subseteq> set s"
  using set_dropWhile_sub[of py_space "rev s"] by (simp add: py_rstrip_def)

lemma set_py_strip: "set (py_strip s) \<subseteq> set s"
  using set_dropWhile_sub[of py_space "py_rstrip s"] set_py_rstrip[of s] by (auto simp: py_strip_def py_lstrip_def)

lemma set_after_char: "set (after_char c s) \<subseteq> set s"
  by (simp add: after_char_def set_drop_subset)

lemma set_before_char: "set (before_char c s) \<subseteq> set s"
  using set_takeWhileD by (fastforce simp: before_char_def)

lemma no_list_key:
  assumes "no_list (y_root y)" "CHR ''['' \<notin> set stripped"
  shows "no_list (y_root (yaml_key stripped indent p y))"
proof -
  let ?v = "py_strip (after_char (CHR '':'') stripped)"
  have "set ?v \<subseteq> set stripped"
    using set_py_strip[of "after_char (CHR '':'') stripped"] set_after_char[of "CHR '':''" stripped] by (rule order_trans)
  then have "hd ?v \<noteq> CHR ''[''" if "?v \<noteq> []"
    using assms(2) hd_in_set[OF that] by auto
  then show ?thesis
    using assms(1) by (auto simp: yaml_key_def Let_def no_list_value intro!: no_list_upd no_list_set)
qed

lemma no_list_item: "no_list (y_root y) \<Longrightarrow> yaml_item s indent p y = y"
  using no_list_at[of "y_root y" p] no_list_last by (auto simp: yaml_item_def Let_def split: option.split PyVal.split)

lemma no_list_line:
  assumes "no_list (y_root y)" "CHR ''['' \<notin> set raw"
  shows "no_list (y_root (yaml_line raw y))"
proof -
  let ?line = "py_rstrip (before_char (CHR ''#'') raw)"
  have "set (py_strip ?line) \<subseteq> set raw"
    using set_py_strip[of ?line] set_py_rstrip[of "before_char (CHR ''#'') raw"] set_before_char[of "CHR ''#''" raw] by blast
  then have "CHR ''['' \<notin> set (py_strip ?line)"
    using assms(2) by blast
  then show ?thesis
    using assms(1) by (simp add: yaml_line_def Let_def no_list_item no_list_key)
qed

lemma no_list_load: "list_all (\<lambda>l. CHR ''['' \<notin> set l) ls \<Longrightarrow> no_list (load_yaml ls)"
proof -
  have "no_list (y_root y) \<Longrightarrow> list_all (\<lambda>l. CHR ''['' \<notin> set l) ls \<Longrightarrow> no_list (y_root (fold yaml_line ls y))" for y
    by (induction ls arbitrary: y) (simp_all add: no_list_line)
  then show "list_all (\<lambda>l. CHR ''['' \<notin> set l) ls \<Longrightarrow> no_list (load_yaml ls)"
    by (simp add: load_yaml_def yaml_new_def)
qed

section \<open>The matrix\<close>

datatype PyError = AttributeError | TypeError

definition py_iter :: "PyVal \<Rightarrow> (PyError, PyVal list) result" where
  "py_iter v =
     (case v of
        PList xs \<Rightarrow> Ok xs
      | PDict d \<Rightarrow> Ok (map (\<lambda>kv. PStr (fst kv)) d)
      | PStr s \<Rightarrow> Ok (map (\<lambda>c. PStr [c]) s)
      | _ \<Rightarrow> Err TypeError)"

definition default_config :: PyVal where
  "default_config = PDict [(''name'', PStr ''default'')]"

definition app_configs :: "PyDict \<Rightarrow> PyVal" where
  "app_configs app_def = (case map_of app_def ''configs'' of Some v \<Rightarrow> v | None \<Rightarrow> PList [default_config])"

definition cfg_name :: "PyVal \<Rightarrow> (PyError, PyVal) result" where
  "cfg_name cfg =
     (case cfg of
        PDict d \<Rightarrow> Ok (case map_of d ''name'' of Some n \<Rightarrow> n | None \<Rightarrow> PStr ''default'')
      | _ \<Rightarrow> Err AttributeError)"

text \<open>The configurations of one application that a run goes through; \<open>only\<close> is \<open>--config\<close>.\<close>

fun select_configs :: "string option \<Rightarrow> PyVal list \<Rightarrow> (PyError, PyVal list) result" where
  "select_configs only [] = Ok []"
| "select_configs only (c # cs) =
     (case cfg_name c of
        Inl e \<Rightarrow> Err e
      | Inr n \<Rightarrow>
          (case select_configs only cs of
             Inl e \<Rightarrow> Err e
           | Inr r \<Rightarrow> Ok (if only \<noteq> None \<and> only \<noteq> Some [] \<and> n \<noteq> PStr (the only) then r else c # r)))"

definition app_cells :: "string option \<Rightarrow> PyVal \<Rightarrow> (PyError, PyVal list) result" where
  "app_cells only app =
     (case app of
        PDict app_def \<Rightarrow>
          (case py_iter (app_configs app_def) of Inl e \<Rightarrow> Err e | Inr cs \<Rightarrow> select_configs only cs)
      | _ \<Rightarrow> Err AttributeError)"

text \<open>The cells of a run, in order: profile, application, configuration, once per repetition.\<close>

fun matrix_apps :: "string option \<Rightarrow> nat \<Rightarrow> string \<Rightarrow> PyDict \<Rightarrow> (PyError, (string \<times> string \<times> PyVal) list) result" where
  "matrix_apps only repeat common [] = Ok []"
| "matrix_apps only repeat common ((name, app) # apps) =
     (case app_cells only app of
        Inl e \<Rightarrow> Err e
      | Inr cs \<Rightarrow>
          (case matrix_apps only repeat common apps of
             Inl e \<Rightarrow> Err e
           | Inr r \<Rightarrow> Ok (concat (map (\<lambda>c. replicate repeat (common, name, c)) cs) @ r)))"

fun matrix :: "string option \<Rightarrow> nat \<Rightarrow> PyDict \<Rightarrow> PyDict \<Rightarrow> (PyError, (string \<times> string \<times> PyVal) list) result" where
  "matrix only repeat [] apps = Ok []"
| "matrix only repeat ((common, p) # ps) apps =
     (case matrix_apps only repeat common apps of
        Inl e \<Rightarrow> Err e
      | Inr r \<Rightarrow>
          (case matrix only repeat ps apps of Inl e \<Rightarrow> Err e | Inr r' \<Rightarrow> Ok (r @ r')))"

section \<open>One cell\<close>

text \<open>
  What the outside answers during a cell: whether the binary and a load generator exist, the server starts and
  opens its port; whether it has exited when it is polled (after the port did not open, after the warm-up,
  after a failed measurement, before its output is read, at the end); whether it is gone in time after it was
  killed or asked to stop; and what the load generator does.
\<close>

datatype LoadResult = LrMetrics | LrNone | LrTimeout | LrError

record CellWorld =
  cw_binary_exists :: bool
  cw_load_gen :: bool
  cw_popen :: bool
  cw_port_open :: bool
  cw_exited_start :: bool
  cw_exited_warm :: bool
  cw_exited_measure :: bool
  cw_exited_dump :: bool
  cw_exited_end :: bool
  cw_kill_wait :: bool
  cw_term_wait :: bool
  cw_warmup :: LoadResult
  cw_measure :: LoadResult

datatype CellEvent = EvKillPort | EvStart | EvSawExit | EvKill | EvTerm | EvWaited | EvDump

datatype CellEnd = CellNone | CellDry | CellResult | CellRaise

definition dump_server_output :: "CellWorld \<Rightarrow> CellEvent list" where
  "dump_server_output w =
     (if cw_exited_dump w then [EvSawExit] else EvKill # (if cw_kill_wait w then [EvWaited] else [])) @ [EvDump]"

text \<open>The \<open>finally\<close> part; \<open>dumped\<close> says that the output has been read already.\<close>

definition cell_finally :: "CellWorld \<Rightarrow> bool \<Rightarrow> CellEnd \<Rightarrow> CellEvent list" where
  "cell_finally w dumped res =
     (if cw_exited_end w
      then EvSawExit # (if res \<noteq> CellResult \<and> \<not> dumped then dump_server_output w else [])
      else EvTerm # (if cw_term_wait w then [EvWaited] else [EvKill, EvWaited]))"

text \<open>The part under \<open>try\<close>: how it ends, whether the output has been read, and what happened.\<close>

definition cell_body :: "CellWorld \<Rightarrow> bool \<Rightarrow> CellEnd \<times> bool \<times> CellEvent list" where
  "cell_body w warm =
     (if warm \<and> cw_warmup w \<in> {LrTimeout, LrError} then (CellNone, False, [])
      else if cw_exited_warm w then (CellNone, True, EvSawExit # dump_server_output w)
      else case cw_measure w of
             LrTimeout \<Rightarrow> (CellNone, False, [])
           | LrError \<Rightarrow> (CellNone, False, [])
           | LrMetrics \<Rightarrow> (CellResult, False, [])
           | LrNone \<Rightarrow>
               if cw_exited_measure w then (CellNone, True, EvSawExit # dump_server_output w)
               else if cw_kill_wait w then (CellNone, True, [EvKill, EvWaited] @ dump_server_output w)
               else (CellNone, False, [EvKill]))"

definition run_server :: "CellWorld \<Rightarrow> bool \<Rightarrow> CellEnd \<times> CellEvent list" where
  "run_server w warm =
     (if \<not> cw_port_open w then
        (if cw_exited_start w then (CellNone, EvSawExit # dump_server_output w)
         else if cw_kill_wait w then (CellNone, [EvKill, EvWaited] @ dump_server_output w)
         else (CellRaise, [EvKill]))
      else
        case cell_body w warm of
          (res, dumped, evs) \<Rightarrow> (res, evs @ cell_finally w dumped res))"

definition py_truthy :: "PyVal \<Rightarrow> bool" where
  "py_truthy v =
     (case v of
        PNone \<Rightarrow> False
      | PBool b \<Rightarrow> b
      | PInt i \<Rightarrow> i \<noteq> 0
      | PFloat s \<Rightarrow> list_ex (\<lambda>c. digit_val c \<noteq> Some 0 \<and> c \<notin> {CHR ''.'', CHR ''_'', CHR ''+'', CHR ''-''})
                     (before_char (CHR ''e'') (map to_lower s))
      | PStr s \<Rightarrow> s \<noteq> []
      | PList xs \<Rightarrow> xs \<noteq> []
      | PDict d \<Rightarrow> d \<noteq> [])"

text \<open>
  \<open>warm\<close> says whether the profile asks for a warm-up. A binary that is not a string makes the construction of
  its path raise.
\<close>

definition cell_refused :: "CellWorld \<Rightarrow> bool \<Rightarrow> PyDict \<Rightarrow> PyDict \<Rightarrow> PyDict \<Rightarrow> CellEnd option" where
  "cell_refused w dry_run common app_def app_config =
     (if validate_no_overlap (fst ` set common - {''desc''}) app_config \<noteq> [] then Some CellNone
      else if map_of app_def ''port'' \<in> {None, Some PNone} then Some CellNone
      else if \<not> (case map_of app_def ''binary'' of Some b \<Rightarrow> py_truthy b | None \<Rightarrow> False) then Some CellNone
      else if \<not> (case map_of app_def ''binary'' of Some (PStr _) \<Rightarrow> True | _ \<Rightarrow> False) then Some CellRaise
      else if dry_run then Some CellDry
      else if \<not> cw_binary_exists w then Some CellNone
      else if \<not> cw_load_gen w then Some CellNone
      else None)"

definition run_one_cell :: "CellWorld \<Rightarrow> bool \<Rightarrow> bool \<Rightarrow> PyDict \<Rightarrow> PyDict \<Rightarrow> PyDict \<Rightarrow> CellEnd \<times> CellEvent list" where
  "run_one_cell w warm dry_run common app_def app_config =
     (case cell_refused w dry_run common app_def app_config of
        Some e \<Rightarrow> (e, [])
      | None \<Rightarrow>
          if \<not> cw_popen w then (CellNone, [EvKillPort])
          else case run_server w warm of (res, evs) \<Rightarrow> (res, [EvKillPort, EvStart] @ evs))"

text \<open>The environment the server of a cell gets.\<close>

definition cell_env :: "(PyVal \<Rightarrow> string) \<Rightarrow> PyDict \<Rightarrow> PyDict \<Rightarrow> PyDict \<Rightarrow> env \<Rightarrow> env" where
  "cell_env rep common app_def app_config os_environ =
     (build_env rep common app_config os_environ)
       (''gvt_app_port'' := map_option (py_str rep) (map_of app_def ''port''))"

section \<open>Rows of the report\<close>

record Row =
  rw_app :: string
  rw_config :: string
  rw_lang :: string
  rw_model :: string
  rw_io :: string
  rw_rps :: string
  rw_rps_pc :: "string option"
  rw_p50 :: "string option"
  rw_p99 :: "string option"
  rw_rss :: "string option"

abbreviation row_dash :: string where
  "row_dash \<equiv> [CHR 0xE2, CHR 0x80, CHR 0x94]"

abbreviation nl :: char where
  "nl \<equiv> CHR 0x0A"

text \<open>
  The numbers as they are formatted, \<open>None\<close> for a missing or zero one. The adjacent literals of the call are one
  string before the first \<open>if\<close> is looked at: each conditional chooses between everything before it and
  everything after it.
\<close>

definition md_row :: "Row \<Rightarrow> string" where
  "md_row r =
     (case rw_rps_pc r of
        Some pc \<Rightarrow> ''| '' @ rw_app r @ '' | '' @ rw_config r @ '' | '' @ rw_lang r @ '' | '' @ rw_model r @ '' | '' @
                   rw_io r @ '' | '' @ rw_rps r @ '' | '' @ pc @ '' ''
      | None \<Rightarrow>
          (case rw_p50 r of
             Some p50 \<Rightarrow> ''| '' @ row_dash @ '' | '' @ p50 @ '' ''
           | None \<Rightarrow>
               (case rw_p99 r of
                  Some p99 \<Rightarrow> ''| '' @ row_dash @ '' | '' @ p99 @ '' ''
                | None \<Rightarrow>
                    (case rw_rss r of
                       Some rss \<Rightarrow> ''| '' @ row_dash @ '' | '' @ rss @ '' |'' @ [nl]
                     | None \<Rightarrow> ''| '' @ row_dash @ '' |'' @ [nl]))))"

definition row_plain :: "Row \<Rightarrow> bool" where
  "row_plain r \<longleftrightarrow>
     list_all (\<lambda>s. nl \<notin> set s)
       [rw_app r, rw_config r, rw_lang r, rw_model r, rw_io r, rw_rps r, (case rw_rps_pc r of Some pc \<Rightarrow> pc | None \<Rightarrow> [])]"

section \<open>Properties\<close>

lemma cell_env_common:
  assumes "distinct (map fst common)" "map_of common k = Some v" "k \<noteq> ''desc''" "take 4 k \<noteq> ''app_''"
  shows "cell_env rep common app_def app_config env (''gvt_'' @ k) = Some (py_str rep v)"
proof -
  have ne: "''gvt_'' @ k \<noteq> ''gvt_app_'' @ x" for x
    using assms(4) by (auto dest: arg_cong[where f = "take 4"])
  have "k \<noteq> ''app_port''" "k \<noteq> ''app_http''"
    using assms(4) by auto
  then show ?thesis
    using ne export_keys_get[OF assms(1-3), of rep "''gvt_''" env]
    by (simp add: cell_env_def build_env_def Let_def export_keys_other)
qed

text \<open>C40: The common section of a benchmark is law, provided no common parameter has a name that starts with
  \<open>app_\<close>: whatever configuration an application has and whatever the environment of the runner holds, the
  server of a cell gets every common parameter with the value of the profile; and the parallelism it gives is
  the number of workers of the HTTP server on green threads.\<close>

theorem common_is_law:
  assumes "distinct (map fst common)" "list_all (\<lambda>k. take 4 k \<noteq> ''app_'') (map fst common)"
  shows "(\<forall>k v. map_of common k = Some v \<and> k \<noteq> ''desc'' \<longrightarrow>
      cell_env rep common app_def app_config env (''gvt_'' @ k) = Some (py_str rep v))
    \<and> (\<forall>n. map_of common ''parallelism'' = Some (PInt (int n)) \<and> n < 2 ^ 64 \<longrightarrow>
      so_workers (server_opts (cell_env rep common app_def app_config env) []) = n)"
proof (intro conjI allI impI)
  fix k v assume "map_of common k = Some v \<and> k \<noteq> ''desc''"
  moreover from this have "take 4 k \<noteq> ''app_''"
    using assms(2) map_of_SomeD[of common k v] by (force simp: list_all_iff)
  ultimately show "cell_env rep common app_def app_config env (''gvt_'' @ k) = Some (py_str rep v)"
    using cell_env_common[OF assms(1)] by blast
next
  fix n assume n: "map_of common ''parallelism'' = Some (PInt (int n)) \<and> n < 2 ^ 64"
  then have "cell_env rep common app_def app_config env (''gvt_'' @ ''parallelism'') = Some (show_nat n)"
    using cell_env_common[OF assms(1), of "''parallelism''"] by (simp add: py_str_def show_int_def)
  then show "so_workers (server_opts (cell_env rep common app_def app_config env) []) = n"
    using n parse_unsigned_show[of 64 n] by (simp add: parallelism_read override_def)
qed

text \<open>A cell the runner accepts: the configuration of the application shares no name with the common section.\<close>

theorem common_is_law_witness:
  "validate_no_overlap {''parallelism''} [(''name'', PStr ''deep''), (''csp_buffer'', PInt 9)] = [] \<and>
   so_workers (server_opts (cell_env (\<lambda>_. ''0.5'') [(''desc'', PStr ''light''), (''parallelism'', PInt 2)]
     [(''port'', PInt 8082)] [(''name'', PStr ''deep''), (''csp_buffer'', PInt 9)] Map.empty) []) = 2"
  using common_is_law[of "[(''desc'', PStr ''light''), (''parallelism'', PInt 2)]" "\<lambda>_. ''0.5''" "[(''port'', PInt 8082)]"
      "[(''name'', PStr ''deep''), (''csp_buffer'', PInt 9)]" Map.empty] by (simp add: validate_no_overlap_def)

text \<open>
  The check that an application does not override a common parameter compares names without their prefixes:
  it refuses overlaps that could do no harm, and accepts the one that does.
\<close>

lemma app_prefix_overrides:
  "validate_no_overlap (fst ` set [(''app_http'', PStr ''raw'')] - {''desc''}) [(''http'', PStr ''hyper'')] = []"
  "cell_env rep [(''app_http'', PStr ''raw'')] app_def [(''http'', PStr ''hyper'')] env ''gvt_app_http'' = Some ''hyper''"
  by (simp_all add: validate_no_overlap_def cell_env_def build_env_def py_str_def)

lemma select_strings: "cs \<noteq> [] \<Longrightarrow> (\<And>c. c \<in> set cs \<Longrightarrow> \<exists>s. c = PStr s) \<Longrightarrow> select_configs only cs = Err AttributeError"
  by (cases cs) (force simp: cfg_name_def)+

lemma no_list_cells:
  assumes "no_list (PDict app_def)" "map_of app_def ''configs'' \<noteq> None"
  shows "app_cells only (PDict app_def) \<in> {Ok [], Err AttributeError, Err TypeError}"
proof -
  obtain v where v: "map_of app_def ''configs'' = Some v"
    using assms(2) by blast
  then have n: "no_list v"
    using assms(1) map_of_SomeD by fastforce
  have s: "select_configs only (map (\<lambda>x. PStr (f x)) xs) \<in> {Ok [], Err AttributeError}" for f :: "'x \<Rightarrow> string" and xs
    using select_strings[of "map (\<lambda>x. PStr (f x)) xs" only] by (cases "xs = []") auto
  show ?thesis
    using n s[of fst] s[of "\<lambda>c. [c]"] by (cases v) (auto simp: app_cells_def app_configs_def v py_iter_def)
qed

lemma manifest_apps:
  assumes "load_manifest m = Some (common, apps)"
  shows "\<exists>d. m = PDict d \<and> (''apps'', PDict apps) \<in> set d"
  using assms by (auto simp: load_manifest_def split: PyVal.splits option.splits if_splits dest!: map_of_SomeD)

text \<open>Without PyYAML no benchmark with named configurations runs: a manifest without inline lists is read into
  a tree without any list, so an application that has a \<open>configs\<close> part, which the manifests write as a block of
  dash lines, has no cell in the matrix at all, or the run ends in an exception.\<close>

theorem yaml_configs_lost:
  assumes "list_all (\<lambda>l. CHR ''['' \<notin> set l) ls" "load_manifest (load_yaml ls) = Some (common, apps)"
    and "(name, PDict app_def) \<in> set apps" "map_of app_def ''configs'' \<noteq> None"
  shows "app_cells only (PDict app_def) \<in> {Ok [], Err AttributeError, Err TypeError}"
proof -
  have "no_list (load_yaml ls)"
    by (rule no_list_load[OF assms(1)])
  then have "no_list (PDict apps)"
    using manifest_apps[OF assms(2)] by fastforce
  then have "no_list (PDict app_def)"
    using assms(3) by fastforce
  then show ?thesis
    using assms(4) by (rule no_list_cells)
qed

definition demo_manifest :: "string list" where
  "demo_manifest =
     [''common:'', ''  light:'', ''    parallelism: 2'', ''apps:'', ''  ksvc-httpd:'', ''    port: 8080'',
      ''    configs:'', ''      - name: default'', ''      - name: big-ring'', ''        sq_entries: 2048'']"

lemma demo_read:
  "load_manifest (load_yaml demo_manifest) =
     Some ([(''light'', PDict [(''parallelism'', PInt 2)])],
           [(''ksvc-httpd'', PDict [(''port'', PInt 8080), (''configs'', PDict [(''sq_entries'', PInt 2048)])])])"
  by code_simp

theorem yaml_configs_lost_witness:
  "app_cells None (PDict [(''port'', PInt 8080), (''configs'', PDict [(''sq_entries'', PInt 2048)])])
     \<in> {Ok [], Err AttributeError, Err TypeError}"
  by (rule yaml_configs_lost[OF _ demo_read]) (simp_all add: demo_manifest_def)

lemma finally_gone: "EvSawExit \<in> set (cell_finally w dumped res) \<or> EvWaited \<in> set (cell_finally w dumped res)"
  by (simp add: cell_finally_def)

lemma body_end:
  "cell_body w warm = (res, dumped, evs) \<Longrightarrow> res \<noteq> CellRaise \<and> (res = CellResult \<longrightarrow> cw_measure w = LrMetrics)"
  by (auto simp: cell_body_def split: if_split_asm LoadResult.split_asm)

lemma server_gone:
  assumes "run_server w warm = (res, evs)"
  shows "(res \<noteq> CellRaise \<longrightarrow> EvSawExit \<in> set evs \<or> EvWaited \<in> set evs)
    \<and> (res = CellRaise \<longrightarrow> EvKill \<in> set evs) \<and> (res = CellResult \<longrightarrow> cw_measure w = LrMetrics)"
proof (cases "cw_port_open w")
  case True
  obtain r d e where b: "cell_body w warm = (r, d, e)"
    by (cases "cell_body w warm")
  show ?thesis
    using assms True body_end[OF b] finally_gone[of w d r] by (auto simp: run_server_def b)
next
  case False
  then show ?thesis
    using assms by (auto simp: run_server_def split: if_split_asm)
qed

text \<open>Every server that a cell starts is gone when the cell is over: however the start, the warm-up and the
  measurement go, the runner has seen the server exit or waited for its end, and when it leaves by an exception
  it has killed it; a cell that gives a result has started a server and measured, and a dry run starts none.\<close>

theorem cell_leaves_no_server:
  assumes "run_one_cell w warm dry common app_def app_config = (res, evs)"
  shows "(EvStart \<in> set evs \<and> res \<noteq> CellRaise \<longrightarrow> EvSawExit \<in> set evs \<or> EvWaited \<in> set evs)
    \<and> (EvStart \<in> set evs \<and> res = CellRaise \<longrightarrow> EvKill \<in> set evs)
    \<and> (res = CellResult \<longrightarrow> EvStart \<in> set evs \<and> cw_measure w = LrMetrics)
    \<and> (dry \<longrightarrow> evs = [])"
proof (cases "cell_refused w dry common app_def app_config")
  case (Some e)
  then have "e \<noteq> CellResult"
    unfolding cell_refused_def by (simp split: if_split_asm)
  then show ?thesis
    using assms Some by (auto simp: run_one_cell_def)
next
  case None
  then have "\<not> dry"
    unfolding cell_refused_def by (simp split: if_split_asm)
  moreover obtain r e where "run_server w warm = (r, e)"
    by fastforce
  ultimately show ?thesis
    using assms None server_gone[of w warm r e] by (auto simp: run_one_cell_def split: if_split_asm)
qed

definition demo_world :: CellWorld where
  "demo_world =
     \<lparr> cw_binary_exists = True, cw_load_gen = True, cw_popen = True, cw_port_open = True, cw_exited_start = False,
       cw_exited_warm = False, cw_exited_measure = False, cw_exited_dump = False, cw_exited_end = False,
       cw_kill_wait = True, cw_term_wait = False, cw_warmup = LrMetrics, cw_measure = LrMetrics \<rparr>"

lemma demo_cell:
  "run_one_cell demo_world True False [] [(''port'', PInt 8080), (''binary'', PStr ''x'')] [] =
     (CellResult, [EvKillPort, EvStart, EvTerm, EvKill, EvWaited])"
  by code_simp

theorem cell_leaves_no_server_witness:
  "EvSawExit \<in> set [EvKillPort, EvStart, EvTerm, EvKill, EvWaited] \<or> EvWaited \<in> set [EvKillPort, EvStart, EvTerm, EvKill, EvWaited]"
  using cell_leaves_no_server[OF demo_cell] by simp

text \<open>A report row that has the throughput per core ends after it: the 50th and 99th percentile, the memory
  and the end of the line are lost, so the rows of such a report run together in one line.\<close>

theorem report_rows_run_together:
  assumes "list_all (\<lambda>r. rw_rps_pc r \<noteq> None \<and> row_plain r) rows"
  shows "nl \<notin> set (concat (map md_row rows))
    \<and> map md_row rows = map (\<lambda>r. md_row (r\<lparr> rw_p50 := None, rw_p99 := None, rw_rss := None \<rparr>)) rows"
  using assms by (induction rows) (auto simp: md_row_def row_plain_def)


definition demo_row :: "string \<Rightarrow> Row" where
  "demo_row app =
     \<lparr> rw_app = app, rw_config = ''default'', rw_lang = ''rust'', rw_model = ''event-loop'', rw_io = ''io_uring'',
       rw_rps = ''120,000'', rw_rps_pc = Some ''60,000'', rw_p50 = Some ''80'', rw_p99 = Some ''310'', rw_rss = Some ''12.5'' \<rparr>"

theorem report_rows_run_together_witness:
  "nl \<notin> set (concat (map md_row [demo_row ''ksvc-httpd'', demo_row ''go-httpd'']))"
proof -
  have rows: "list_all (\<lambda>r. rw_rps_pc r \<noteq> None \<and> row_plain r) [demo_row ''ksvc-httpd'', demo_row ''go-httpd'']"
    by (simp add: demo_row_def row_plain_def)
  show ?thesis
    by (rule conjunct1[OF report_rows_run_together[OF rows]])
qed

end
