(* ===== verification/Wrkr.thy ===== *)
theory Wrkr
  imports Bench_Runner
begin

text \<open>
  The load generator, \<open>cmd/wrkr/rust/wrkr/src/main.rs\<close>: its command line and environment, the loop of one
  connection for each protocol, the round trip of the echo protocol, the merging of the connections' results
  and the order statistics, with the command line the benchmark runner gives it. What the HTTP clients and the
  sockets answer, the clock and the joins of the tasks are arguments; the statistics are in nanoseconds, before
  their conversion to floating point.
\<close>

section \<open>Command line\<close>

datatype HttpImpl = Hyper | Reqwest

record Cfg =
  wc_url :: string
  wc_connections :: nat
  wc_duration_sec :: nat
  wc_warmup_sec :: nat
  wc_keepalive :: bool
  wc_payload_size :: nat
  wc_http_impl :: HttpImpl

definition Cfg_default :: Cfg where
  "Cfg_default = \<lparr> wc_url = [], wc_connections = 50, wc_duration_sec = 10, wc_warmup_sec = 0, wc_keepalive = True,
     wc_payload_size = 64, wc_http_impl = Hyper \<rparr>"

definition trim_end_char :: "char \<Rightarrow> string \<Rightarrow> string" where
  "trim_end_char c s = rev (dropWhile (\<lambda>x. x = c) (rev s))"

definition arg_number :: "(string \<Rightarrow> string) \<Rightarrow> nat \<Rightarrow> string list \<Rightarrow> nat" where
  "arg_number f dflt as = override 64 (map_option f (arg_value as)) dflt"

definition starts_with :: "string \<Rightarrow> string \<Rightarrow> bool" where
  "starts_with p s \<longleftrightarrow> take (length p) s = p"

text \<open>An option that takes a value: the new configuration, or \<open>None\<close> for another argument.\<close>

definition wrkr_option :: "string \<Rightarrow> string list \<Rightarrow> Cfg \<Rightarrow> Cfg option" where
  "wrkr_option a as c =
     (if a = ''-c'' \<or> a = ''--connections'' then Some (c\<lparr> wc_connections := arg_number id 50 as \<rparr>)
      else if a = ''-d'' \<or> a = ''--duration'' then Some (c\<lparr> wc_duration_sec := arg_number (trim_end_char (CHR ''s'')) 10 as \<rparr>)
      else if a = ''--warmup'' then Some (c\<lparr> wc_warmup_sec := arg_number (trim_end_char (CHR ''s'')) 0 as \<rparr>)
      else if a = ''-H'' \<or> a = ''--header'' then
        Some (if (case as of h # _ \<Rightarrow> starts_with ''connection: close'' (map to_lower h) | [] \<Rightarrow> False)
              then c\<lparr> wc_keepalive := False \<rparr> else c)
      else if a = ''--payload'' then Some (c\<lparr> wc_payload_size := arg_number id 64 as \<rparr>)
      else None)"

text \<open>The error is the exit status of the process.\<close>

fun wrkr_args :: "string list \<Rightarrow> Cfg \<Rightarrow> (nat, Cfg) result" where
  "wrkr_args [] c = Ok c"
| "wrkr_args (a # as) c =
     (case wrkr_option a as c of
        Some c' \<Rightarrow> wrkr_args (drop 1 as) c'
      | None \<Rightarrow>
          if a = ''--no-keepalive'' then wrkr_args as (c\<lparr> wc_keepalive := False \<rparr>)
          else if a = ''-h'' \<or> a = ''--help'' then Err 0
          else if \<not> starts_with ''-'' a \<and> wc_url c = [] then wrkr_args as (c\<lparr> wc_url := a \<rparr>)
          else Err 1)"

definition wrkr_env :: "env \<Rightarrow> Cfg \<Rightarrow> (nat, Cfg) result" where
  "wrkr_env env c =
     (let c1 = c\<lparr> wc_connections := override 64 (env ''WRKR_CONNECTIONS'') (wc_connections c),
                  wc_duration_sec := override 64 (env ''WRKR_DURATION'') (wc_duration_sec c),
                  wc_warmup_sec := override 64 (env ''WRKR_WARMUP'') (wc_warmup_sec c) \<rparr>
      in case env ''gvt_app_http'' of
           None \<Rightarrow> Ok c1
         | Some v \<Rightarrow>
             if v = ''reqwest'' then Ok (c1\<lparr> wc_http_impl := Reqwest \<rparr>)
             else if v = ''hyper'' then Ok (c1\<lparr> wc_http_impl := Hyper \<rparr>)
             else Err 1)"

definition parse_args :: "env \<Rightarrow> string list \<Rightarrow> (nat, Cfg) result" where
  "parse_args env args =
     (case wrkr_args args Cfg_default of
        Inl e \<Rightarrow> Err e
      | Inr c \<Rightarrow>
          (case wrkr_env env c of
             Inl e \<Rightarrow> Err e
           | Inr c1 \<Rightarrow>
               let c2 = (if starts_with ''https://'' (wc_url c1) \<and> wc_http_impl c1 = Hyper then c1\<lparr> wc_http_impl := Reqwest \<rparr> else c1)
               in if wc_url c2 = [] then Err 1 else Ok c2))"

definition strategy_name :: "Cfg \<Rightarrow> string" where
  "strategy_name c =
     (if starts_with ''echo://'' (wc_url c) then ''echo''
      else (if starts_with ''https'' (wc_url c) then ''https'' else ''http'') @ ''+'' @
           (case wc_http_impl c of Hyper \<Rightarrow> ''hyper'' | Reqwest \<Rightarrow> ''reqwest''))"

definition parse_echo_addr :: "string \<Rightarrow> string \<times> nat" where
  "parse_echo_addr url =
     (let rest = trim_end_char (CHR ''/'') (case strip_prefix ''echo://'' url of Some r \<Rightarrow> r | None \<Rightarrow> url)
      in case rfind_char (CHR '':'') rest of
           Some i \<Rightarrow> (take i rest, parse_or 16 9000 (drop (Suc i) rest))
         | None \<Rightarrow> (rest, 9000))"

section \<open>Connections\<close>

record ConnResult =
  cr_requests :: u64
  cr_errors :: u64
  cr_latencies :: "u64 list"

definition ConnResult_new :: ConnResult where
  "ConnResult_new = \<lparr> cr_requests = 0, cr_errors = 0, cr_latencies = [] \<rparr>"

definition count_ok :: "bool \<Rightarrow> u64 \<Rightarrow> ConnResult \<Rightarrow> ConnResult" where
  "count_ok collect lat r =
     r\<lparr> cr_requests := cr_requests r + 1, cr_latencies := (if collect then cr_latencies r @ [lat] else cr_latencies r) \<rparr>"

definition count_err :: "ConnResult \<Rightarrow> ConnResult" where
  "count_err r = r\<lparr> cr_errors := cr_errors r + 1 \<rparr>"

text \<open>
  One turn of a connection: whether it finds the stop flag set, and otherwise the latency of the answer or
  \<open>None\<close> for an error of the request or of its body. The loop returns its result and how often it bumped the
  shared counter.
\<close>

record Turn =
  tn_stop :: bool
  tn_reply :: "u64 option"

fun http_conn :: "bool \<Rightarrow> Turn list \<Rightarrow> ConnResult \<Rightarrow> nat \<Rightarrow> ConnResult \<times> nat" where
  "http_conn collect [] r k = (r, k)"
| "http_conn collect (t # ts) r k =
     (if tn_stop t then (r, k)
      else case tn_reply t of
             Some lat \<Rightarrow> http_conn collect ts (count_ok collect lat r) (k + 1)
           | None \<Rightarrow> http_conn collect ts (count_err r) k)"

text \<open>
  The echo round trip: whether the write succeeded, and the answers of the reads, \<open>None\<close> for an error. The
  result is the number of bytes received.
\<close>

datatype EchoError = EchoIo | EchoEof

fun echo_reads :: "nat \<Rightarrow> nat \<Rightarrow> nat option list \<Rightarrow> (EchoError, nat) result" where
  "echo_reads len got rs =
     (if got \<ge> len then Ok got
      else case rs of
             [] \<Rightarrow> Err EchoIo
           | None # _ \<Rightarrow> Err EchoIo
           | Some n # rs' \<Rightarrow> if n = 0 then Err EchoEof else echo_reads len (got + n) rs')"

declare echo_reads.simps [simp del]

definition roundtrip :: "nat \<Rightarrow> bool \<Rightarrow> nat option list \<Rightarrow> (EchoError, nat) result" where
  "roundtrip len written reads = (if written then echo_reads len 0 reads else Err EchoIo)"

record EchoTurn =
  et_stop :: bool
  et_written :: bool
  et_reads :: "nat option list"
  et_latency :: u64
  et_reconnect :: bool

fun echo_conn_loop :: "bool \<Rightarrow> nat \<Rightarrow> EchoTurn list \<Rightarrow> ConnResult \<Rightarrow> nat \<Rightarrow> ConnResult \<times> nat" where
  "echo_conn_loop collect len [] r k = (r, k)"
| "echo_conn_loop collect len (t # ts) r k =
     (if et_stop t then (r, k)
      else case roundtrip len (et_written t) (et_reads t) of
             Inr _ \<Rightarrow> echo_conn_loop collect len ts (count_ok collect (et_latency t) r) (k + 1)
           | Inl _ \<Rightarrow>
               if et_reconnect t then echo_conn_loop collect len ts (count_err r) k else (count_err r, k))"

definition echo_conn :: "bool \<Rightarrow> nat \<Rightarrow> bool \<Rightarrow> EchoTurn list \<Rightarrow> ConnResult \<times> nat" where
  "echo_conn collect len connected ts =
     (if connected then echo_conn_loop collect len ts ConnResult_new 0 else (ConnResult_new\<lparr> cr_errors := 1 \<rparr>, 0))"

section \<open>Results\<close>

record PhaseResult =
  pr_total_requests :: u64
  pr_total_errors :: u64
  pr_latencies :: "u64 list"

text \<open>The results of the tasks; \<open>None\<close> for one whose join failed.\<close>

definition merge_one :: "bool \<Rightarrow> ConnResult option \<Rightarrow> PhaseResult \<Rightarrow> PhaseResult" where
  "merge_one collect h p =
     (case h of
        Some r \<Rightarrow> \<lparr> pr_total_requests = pr_total_requests p + cr_requests r, pr_total_errors = pr_total_errors p + cr_errors r,
                    pr_latencies = (if collect then pr_latencies p @ cr_latencies r else pr_latencies p) \<rparr>
      | None \<Rightarrow> p)"

definition merge_results :: "bool \<Rightarrow> ConnResult option list \<Rightarrow> PhaseResult" where
  "merge_results collect hs =
     fold (merge_one collect) hs \<lparr> pr_total_requests = 0, pr_total_errors = 0, pr_latencies = [] \<rparr>"

text \<open>
  The order statistics over the sorted latencies; \<open>ix p\<close> is the index that the floating-point expression gives
  for the percentile \<open>p\<close>. \<open>None\<close> stands for the zeros of an empty list.
\<close>

record OrderStats =
  os_min :: u64
  os_max :: u64
  os_sum :: u64
  os_pct :: "nat \<Rightarrow> u64"

definition compute_stats :: "(nat \<Rightarrow> nat) \<Rightarrow> u64 list \<Rightarrow> OrderStats option" where
  "compute_stats ix lat =
     (if lat = [] then None
      else let xs = sort lat; n = length xs
           in Some \<lparr> os_min = xs ! 0, os_max = xs ! (n - 1), os_sum = sum_list xs, os_pct = (\<lambda>p. xs ! min (ix p) (n - 1)) \<rparr>)"

section \<open>The runner's command line\<close>

text \<open>The arguments \<open>run_load_generator\<close> gives after the program's path.\<close>

definition load_args :: "nat \<Rightarrow> nat \<Rightarrow> nat \<Rightarrow> bool \<Rightarrow> string list" where
  "load_args port connections duration_sec keepalive =
     [''http://127.0.0.1:'' @ show_nat port @ ''/'', ''-c'', show_nat connections, ''-d'', show_nat duration_sec]
       @ (if keepalive then [] else [''--no-keepalive''])"

section \<open>Counting\<close>

definition taken :: "Turn list \<Rightarrow> Turn list" where
  "taken ts = takeWhile (\<lambda>t. \<not> tn_stop t) ts"

definition replies :: "Turn list \<Rightarrow> u64 list" where
  "replies ts = map (\<lambda>t. the (tn_reply t)) (filter (\<lambda>t. tn_reply t \<noteq> None) (taken ts))"

definition failures :: "Turn list \<Rightarrow> nat" where
  "failures ts = length (filter (\<lambda>t. tn_reply t = None) (taken ts))"

lemma http_conn_counts:
  "http_conn collect ts r k =
     (r\<lparr> cr_requests := cr_requests r + of_nat (length (replies ts)), cr_errors := cr_errors r + of_nat (failures ts),
         cr_latencies := cr_latencies r @ (if collect then replies ts else []) \<rparr>, k + length (replies ts))"
proof (induction collect ts r k rule: http_conn.induct)
  case (1 collect r k)
  then show ?case by (simp add: replies_def failures_def taken_def)
next
  case (2 collect t ts r k)
  show ?case
  proof (cases "tn_stop t")
    case True
    then show ?thesis by (simp add: replies_def failures_def taken_def)
  next
    case False
    then have t: "replies (t # ts) = (case tn_reply t of Some l \<Rightarrow> l # replies ts | None \<Rightarrow> replies ts)"
      "failures (t # ts) = (case tn_reply t of Some l \<Rightarrow> failures ts | None \<Rightarrow> Suc (failures ts))"
      by (simp_all add: replies_def failures_def taken_def split: option.split)
    show ?thesis
    proof (cases "tn_reply t")
      case None
      then show ?thesis
        using "2.IH"(1)[OF False None] False by (simp add: t count_err_def)
    next
      case (Some l)
      then show ?thesis
        using "2.IH"(2)[OF False Some] False by (simp add: t count_ok_def)
    qed
  qed
qed

lemma merge_fold:
  "fold (merge_one True) (map Some rs) p =
     \<lparr> pr_total_requests = pr_total_requests p + sum_list (map cr_requests rs),
       pr_total_errors = pr_total_errors p + sum_list (map cr_errors rs),
       pr_latencies = pr_latencies p @ concat (map cr_latencies rs) \<rparr>"
  by (induction rs arbitrary: p) (simp_all add: merge_one_def)

lemma sum_list_of_nat: "sum_list (map (\<lambda>x. of_nat (f x)) xs) = (of_nat (sum_list (map f xs)) :: 'a::semiring_1)"
  by (induction xs) simp_all

text \<open>The percentiles lie between the extremes, are latencies that were measured, and grow with their index.\<close>

lemma stats_ordered:
  assumes "compute_stats ix lat = Some st"
  shows "x \<in> set lat \<Longrightarrow> os_min st \<le> x \<and> x \<le> os_max st" "os_pct st p \<in> set lat"
    "ix p \<le> ix q \<Longrightarrow> os_pct st p \<le> os_pct st q"
proof -
  have ne: "lat \<noteq> []"
    using assms by (auto simp: compute_stats_def split: if_splits)
  then have n: "0 < length (sort lat)"
    by simp
  have st: "st = \<lparr> os_min = sort lat ! 0, os_max = sort lat ! (length (sort lat) - 1), os_sum = sum_list (sort lat),
      os_pct = (\<lambda>p. sort lat ! min (ix p) (length (sort lat) - 1)) \<rparr>"
    using assms ne by (simp add: compute_stats_def Let_def)
  have mono: "i \<le> j \<Longrightarrow> j < length (sort lat) \<Longrightarrow> sort lat ! i \<le> sort lat ! j" for i j
    by (simp add: sorted_nth_mono)
  show "os_min st \<le> x \<and> x \<le> os_max st" if x: "x \<in> set lat"
  proof -
    have "x \<in> set (sort lat)"
      using x by simp
    then obtain i where "i < length (sort lat)" "sort lat ! i = x"
      unfolding in_set_conv_nth by blast
    then show ?thesis
      using mono[of 0 i] mono[of i "length (sort lat) - 1"] by (simp add: st)
  qed
  have lt: "min i (length (sort lat) - 1) < length (sort lat)" for i
    using n by linarith
  show "os_pct st p \<in> set lat"
    using nth_mem[OF lt[of "ix p"]] by (simp add: st)
  show "os_pct st p \<le> os_pct st q" if "ix p \<le> ix q"
    using mono[of "min (ix p) (length (sort lat) - 1)" "min (ix q) (length (sort lat) - 1)"] that lt by (simp add: st min.mono)
qed

section \<open>Properties\<close>

lemma show_nat_digits: "c \<in> set (show_nat n) \<Longrightarrow> digit_val c \<noteq> None"
proof (induction n rule: show_nat.induct)
  case (1 n)
  show ?case
  proof (cases "n < 10")
    case True
    then show ?thesis
      using "1.prems" by (subst (asm) show_nat.simps) simp
  next
    case False
    then show ?thesis
      using "1.prems" "1.IH" by (subst (asm) show_nat.simps) auto
  qed
qed

lemma trim_end_other: "c \<notin> set s \<Longrightarrow> trim_end_char c s = s"
  by (cases s rule: rev_cases) (auto simp: trim_end_char_def)

lemma arg_show [simp]:
  "n < 2 ^ 64 \<Longrightarrow> arg_number id d (show_nat n # as) = n"
  "n < 2 ^ 64 \<Longrightarrow> arg_number (trim_end_char (CHR ''s'')) d (show_nat n # as) = n"
proof -
  have "CHR ''s'' \<notin> set (show_nat n)"
    using show_nat_digits[of "CHR ''s''" n] by (auto simp: digit_val_def)
  then show "n < 2 ^ 64 \<Longrightarrow> arg_number id d (show_nat n # as) = n"
    "n < 2 ^ 64 \<Longrightarrow> arg_number (trim_end_char (CHR ''s'')) d (show_nat n # as) = n"
    by (simp_all add: arg_number_def override_def parse_unsigned_show trim_end_other)
qed

lemma wrkr_args_load:
  assumes "connections < 2 ^ 64" "duration < 2 ^ 64"
  shows "wrkr_args (load_args port connections duration keepalive) Cfg_default =
    Ok \<lparr> wc_url = ''http://127.0.0.1:'' @ show_nat port @ ''/'', wc_connections = connections, wc_duration_sec = duration,
         wc_warmup_sec = 0, wc_keepalive = keepalive, wc_payload_size = 64, wc_http_impl = Hyper \<rparr>"
  using assms by (simp add: load_args_def wrkr_option_def starts_with_def Cfg_default_def)

lemma cell_env_outside: "take 4 x \<noteq> ''gvt_'' \<Longrightarrow> cell_env rep common app_def app_config env x = env x"
  by (auto simp: cell_env_def build_env_def Let_def intro!: export_keys_other trans[OF export_keys_other])

text \<open>C39: The load generator counts exactly: over all connections of a phase, whatever the servers answer and
  whenever each connection sees the stop flag, the merged total is the number of answers, the errors are the
  requests that failed, one latency is reported for each answer, and the live counter shows the same total.\<close>

theorem wrkr_counts_exact:
  "let conns = map (\<lambda>ts. http_conn True ts ConnResult_new 0) tss;
       p = merge_results True (map (\<lambda>c. Some (fst c)) conns)
   in pr_latencies p = concat (map replies tss)
      \<and> pr_total_requests p = of_nat (length (pr_latencies p))
      \<and> pr_total_errors p = of_nat (sum_list (map failures tss))
      \<and> sum_list (map snd conns) = length (pr_latencies p)"
proof -
  have m: "map (\<lambda>c. Some (fst c)) (map (\<lambda>ts. http_conn True ts ConnResult_new 0) tss) =
      map Some (map (\<lambda>ts. fst (http_conn True ts ConnResult_new 0)) tss)"
    by simp
  show ?thesis
    unfolding merge_results_def m merge_fold Let_def
    by (simp add: http_conn_counts ConnResult_new_def comp_def sum_list_of_nat length_concat)
qed

text \<open>C38: The runner and the load generator fit together: with the command line the runner builds and the
  environment of a cell, a port, a number of connections and a duration arrive at the load generator as the
  manifest has them, with HTTP by hyper, when the caller's environment does not set the variables that
  override them and the application has no option named \<open>http\<close>.\<close>

theorem runner_drives_wrkr:
  assumes "connections < 2 ^ 64" "duration < 2 ^ 64"
    and "env ''WRKR_CONNECTIONS'' = None" "env ''WRKR_DURATION'' = None" "env ''WRKR_WARMUP'' = None" "env ''gvt_app_http'' = None"
    and "''app_http'' \<notin> fst ` set common" "''http'' \<notin> fst ` set app_config"
  shows "parse_args (cell_env rep common app_def app_config env) (load_args port connections duration keepalive) =
    Ok \<lparr> wc_url = ''http://127.0.0.1:'' @ show_nat port @ ''/'', wc_connections = connections, wc_duration_sec = duration,
         wc_warmup_sec = 0, wc_keepalive = keepalive, wc_payload_size = 64, wc_http_impl = Hyper \<rparr>"
proof -
  let ?env = "cell_env rep common app_def app_config env"
  have "export_keys rep ''gvt_app_'' ''name'' app_config e ''gvt_app_http'' = e ''gvt_app_http''" for e
    by (rule export_keys_other) (use assms(8) in auto)
  moreover have "export_keys rep ''gvt_'' ''desc'' common env ''gvt_app_http'' = None"
    using assms(6) by (subst export_keys_other) (use assms(7) in auto)
  ultimately have "?env ''gvt_app_http'' = Some ''hyper''"
    by (simp add: cell_env_def build_env_def Let_def)
  then show ?thesis
    using assms(3-5) wrkr_args_load[OF assms(1,2), of port keepalive]
    by (simp add: parse_args_def wrkr_env_def cell_env_outside override_def starts_with_def)
qed


theorem runner_drives_wrkr_witness:
  "parse_args (cell_env (\<lambda>_. ''0.5'') [(''parallelism'', PInt 2)] [(''port'', PInt 8082)] [(''name'', PStr ''default'')] Map.empty)
     (load_args 8082 50 5 False) =
   Ok \<lparr> wc_url = ''http://127.0.0.1:'' @ show_nat 8082 @ ''/'', wc_connections = 50, wc_duration_sec = 5,
        wc_warmup_sec = 0, wc_keepalive = False, wc_payload_size = 64, wc_http_impl = Hyper \<rparr>"
  by (rule runner_drives_wrkr) simp_all

text \<open>
  The usage the program documents attaches the numbers to the flags, which the parser does not know; and an
  option \<open>http\<close> of the server under test ends the load generator, because it is given the server's environment.
\<close>

lemma documented_usage_refused: "parse_args env [''http://127.0.0.1:8080/'', ''-c50'', ''-d5''] = Err 1"
  by (simp add: parse_args_def wrkr_option_def starts_with_def Cfg_default_def)

lemma server_option_ends_wrkr:
  "parse_args (cell_env rep [] [(''port'', PInt 1)] [(''http'', PStr ''pipelined'')] env) (load_args 1 50 5 True) = Err 1"
  using wrkr_args_load[of 50 5 1 True]
  by (simp add: parse_args_def wrkr_env_def cell_env_def build_env_def py_str_def)

end
