(* ===== verification/Smoke.thy ===== *)
theory Smoke
  imports Kmod_Props Io_Uring Fixed_Pool
begin

text \<open>
  The end-to-end smoke test (\<open>cmd/smoke/ksvc/src/main.rs\<close>): its counters, the checks of the kernel
  module (part A) run on the model of the module, the checks of the routing table (part B) run on the
  model of the router, and the two helpers with which parts C and D run a call on the ring and on the
  worker pool and wait for its completion. Printing is left out; the file operations of parts C and D
  are not modelled.
\<close>

section \<open>The counters\<close>

record TestRunner =
  t_total :: usize
  t_passed :: usize
  t_failed :: usize

definition TestRunner_new :: TestRunner where
  "TestRunner_new = \<lparr> t_total = 0, t_passed = 0, t_failed = 0 \<rparr>"

definition t_pass :: "TestRunner \<Rightarrow> TestRunner" where
  "t_pass t = t\<lparr> t_total := t_total t + 1, t_passed := t_passed t + 1 \<rparr>"

definition t_fail :: "TestRunner \<Rightarrow> TestRunner" where
  "t_fail t = t\<lparr> t_total := t_total t + 1, t_failed := t_failed t + 1 \<rparr>"

definition t_check :: "bool \<Rightarrow> TestRunner \<Rightarrow> TestRunner" where
  "t_check ok t = (if ok then t_pass t else t_fail t)"

definition exit_status :: "TestRunner \<Rightarrow> i32" where
  "exit_status t = (if t_failed t > 0 then 1 else 0)"

section \<open>Waiting for a completion\<close>

text \<open>
  The loop both helpers have: at most \<open>n\<close> polls, the first completion of the first poll that returns
  any. What the kernel and the worker threads do during the \<open>i\<close>th pause is \<open>tick i\<close>.
\<close>

fun await_completion :: "('s \<Rightarrow> 'c list \<times> 's) \<Rightarrow> (nat \<Rightarrow> 's \<Rightarrow> 's) \<Rightarrow> nat \<Rightarrow> nat \<Rightarrow> 's \<Rightarrow> 'c option \<times> 's" where
  "await_completion poll tick 0 i s = (None, s)"
| "await_completion poll tick (Suc n) i s =
     (case poll s of
        ([], s1) \<Rightarrow> await_completion poll tick n (i + 1) (tick i s1)
      | (c # _, s1) \<Rightarrow> (Some c, s1))"

definition submit_and_wait ::
  "'r Uring \<Rightarrow> (nat \<Rightarrow> 'r \<Rightarrow> 'r) \<Rightarrow> SubmitEntry \<Rightarrow> u8 \<Rightarrow> 'r BasicIoUring \<Rightarrow> IoCompletion option \<times> 'r BasicIoUring" where
  "submit_and_wait u tick e opcode io =
     (case submit_with_opcode u e opcode io of
        (Inl _, io1) \<Rightarrow> (None, io1)
      | (Inr _, io1) \<Rightarrow>
          (case iouring_flush u io1 of
             (Inl _, io2) \<Rightarrow> (None, io2)
           | (Inr _, io2) \<Rightarrow>
               await_completion (iouring_poll_completions u 4 4) (\<lambda>i b. b\<lparr> ring := tick i (ring b) \<rparr>) 200 0 io2))"

definition worker_call_result ::
  "(SubmitEntry, 'q) ArrayQueue \<Rightarrow> (WorkerCompletion, 'r) ArrayQueue \<Rightarrow> (nat \<Rightarrow> ('q, 'r) PoolInner \<Rightarrow> ('q, 'r) PoolInner) \<Rightarrow>
    SubmitEntry \<Rightarrow> ('q, 'r) PoolInner \<Rightarrow> i64 \<times> ('q, 'r) PoolInner" where
  "worker_call_result Q R tick e p =
     (case await_completion (pool_poll_completions R 4 4) tick 200 0 (snd (pool_enqueue Q e p)) of
        (None, p1) \<Rightarrow> (of_int (- (2 ^ 63)), p1)
      | (Some c, p1) \<Rightarrow> (wkc_result c, p1))"

section \<open>Part A: the kernel module\<close>

text \<open>The fields \<open>ksvc_sys.rs\<close> declares for the shared page; their offsets follow from the rules of C.\<close>

definition KsvcSharedPageLayout :: "(string \<times> nat \<times> nat) list" where
  "KsvcSharedPageLayout =
    [(''magic'', 4, 4), (''version'', 4, 4), (''pid'', 4, 4), (''tgid'', 4, 4), (''ppid'', 4, 4), (''pgid'', 4, 4),
     (''sid'', 4, 4), (''_pad_id'', 4, 4), (''uid'', 4, 4), (''gid'', 4, 4), (''euid'', 4, 4), (''egid'', 4, 4),
     (''suid'', 4, 4), (''sgid'', 4, 4), (''kthread_cpu'', 4, 4), (''worker_state'', 4, 4),
     (''entries_processed'', 8, 8), (''batches_processed'', 8, 8)]"

definition layout_offset :: "string \<Rightarrow> nat" where
  "layout_offset nm = the (map_of (repr_C_offsets 0 KsvcSharedPageLayout) nm)"

definition KsvcCreateParams_default :: ksvc_create_params where
  "KsvcCreateParams_default = \<lparr> cp_submit = 256, cp_complete = 256, cp_flags = 0, cp_eventfd = - 1 \<rparr>"

text \<open>
  What the kernel answers: to the open, the eventfd, the \<open>CREATE\<close> (whose parameters are the test's
  own), and to the two mappings with the addresses it places them at; and the identity the process
  sees. \<open>getpid\<close> returns the thread group.
\<close>

record KmodWorld =
  kw_open :: Kapi
  kw_eventfd :: i32
  kw_create :: Kapi
  kw_shared :: "Kapi \<times> u64"
  kw_submit :: "Kapi \<times> u64"
  kw_self :: Proc

text \<open>The counters, the kernel, what is handed back (the mapped address and the file) and the ranges that were unmapped.\<close>

record KmodTest =
  kt_runner :: TestRunner
  kt_kern :: Kern
  kt_mapped :: "(u64 \<times> ksvc_file) option"
  kt_unmapped :: "(u64 \<times> u64) list"

definition submit_ring_size :: u64 where
  "submit_ring_size = 4096 + 4096 * ((64 * 64 + 4095) div 4096)"

definition smoke_mmap :: "Kapi \<times> u64 \<Rightarrow> ksvc_file \<Rightarrow> u64 \<Rightarrow> u64 \<Rightarrow> nat list option" where
  "smoke_mmap m f len off =
     (case ksvc_mmap (fst m) f (snd m) (snd m + len) (drop_bit 12 off) of
        (ret, pages) \<Rightarrow> if ret = 0 then Some (map snd pages) else None)"

definition identity_checks :: "Proc \<Rightarrow> (nat \<Rightarrow> u8) \<Rightarrow> TestRunner \<Rightarrow> TestRunner" where
  "identity_checks self pg t =
     (let pid = p_tgid self; uid = p_uid self; ppid = p_ppid self; msp = MmapSharedPage pg;
          t1 = t_check (read_u32 (layout_offset ''magic'') pg = KSVC_SHARED_MAGIC \<and>
                 read_u32 (layout_offset ''version'') pg = KSVC_VERSION) t;
          t2 = t_check (read_u32 (layout_offset ''pid'') pg = pid) t1;
          t3 = t_check (read_u32 (layout_offset ''uid'') pg = uid) t2;
          t4 = t_check (read_u32 (layout_offset ''ppid'') pg = ppid) t3
      in t_check (sp_pid msp = pid \<and> sp_uid msp = uid \<and> sp_ppid msp = ppid) t4)"

definition ring_check :: "KmodWorld \<Rightarrow> ksvc_file \<Rightarrow> Kern \<Rightarrow> TestRunner \<Rightarrow> TestRunner \<times> (u64 \<times> u64) list" where
  "ring_check w f k t =
     (case smoke_mmap (kw_submit w) f submit_ring_size 0 of
        None \<Rightarrow> (t_fail t, [])
      | Some pages \<Rightarrow>
          (t_check (case k_header k (hd pages) of
                      None \<Rightarrow> False
                    | Some h \<Rightarrow> rh_magic h = KSVC_RING_MAGIC \<and> rh_ring_size h = 64) t,
           [(snd (kw_submit w), 4096 * 4)]))"

definition test_kmod :: "KmodWorld \<Rightarrow> Kern \<Rightarrow> TestRunner \<Rightarrow> KmodTest" where
  "test_kmod w k t =
     (case ksvc_open (kw_open w) k of
        (Inl _, k1) \<Rightarrow> \<lparr> kt_runner = t_fail t, kt_kern = k1, kt_mapped = None, kt_unmapped = [] \<rparr>
      | (Inr file, k1) \<Rightarrow>
          let t2 = t_check (sint (kw_eventfd w) \<ge> 0) (t_pass t);
              params = KsvcCreateParams_default\<lparr> cp_eventfd := kw_eventfd w, cp_submit := 64, cp_complete := 64 \<rparr>
          in case ksvc_ioctl ((kw_create w)\<lparr> ka_from_user := Some params \<rparr>) KSVC_IOC_CREATE file k1 of
               (ret, file', k2) \<Rightarrow>
                 let t3 = t_check (ret = 0) t2 in
                 (case smoke_mmap (kw_shared w) file' 4096 0x200000 of
                    None \<Rightarrow> \<lparr> kt_runner = t_fail t3, kt_kern = ksvc_release file' k2, kt_mapped = None, kt_unmapped = [] \<rparr>
                  | Some pages \<Rightarrow>
                      (case ring_check w file' k2 (identity_checks (kw_self w) (k_bytes k2 (hd pages)) (t_pass t3)) of
                         (t4, un) \<Rightarrow> \<lparr> kt_runner = t4, kt_kern = k2, kt_mapped = Some (snd (kw_shared w), file'), kt_unmapped = un \<rparr>)))"

section \<open>Part B: the routing table\<close>

definition smoke_nr :: "(string \<times> u32) list" where
  "smoke_nr =
    [(''READ'', 0), (''WRITE'', 1), (''CLOSE'', 3), (''LSEEK'', 8), (''DUP'', 32), (''GETPID'', 39), (''SENDTO'', 44),
     (''RECVFROM'', 45), (''SETSOCKOPT'', 54), (''GETUID'', 102), (''GETGID'', 104), (''GETPPID'', 110),
     (''OPENAT'', 257), (''ACCEPT4'', 288), (''STATX'', 332)]"

definition all_in_tier :: "ProbeRouter \<Rightarrow> Tier \<Rightarrow> string list \<Rightarrow> bool" where
  "all_in_tier router x nms = list_all (\<lambda>nm. tier (route router (the (map_of smoke_nr nm))) = x) nms"

definition test_routing :: "ProbeRouter \<Rightarrow> TestRunner \<Rightarrow> TestRunner" where
  "test_routing router t =
     (let t0 = t_check (all_in_tier router SharedPage [''GETPID'', ''GETUID'', ''GETGID'', ''GETPPID'']) t;
          t1 = t_check (all_in_tier router IoUring
                 [''READ'', ''WRITE'', ''OPENAT'', ''CLOSE'', ''STATX'', ''ACCEPT4'', ''SENDTO'', ''RECVFROM'']) t0;
          t2 = t_check (all_in_tier router WorkerPool [''SETSOCKOPT'', ''DUP'', ''LSEEK'']) t1;
          c = tier_counts (route router) TABLE_SIZE
      in t_check (tier0 c \<ge> 5 \<and> tier1 c \<ge> 15) t2)"

section \<open>The counters count\<close>

lemma t_check_simps [simp]:
  "t_check True t = t_pass t" "t_check False t = t_fail t"
  by (simp_all add: t_check_def)

lemma t_check_balance:
  "t_total t = t_passed t + t_failed t \<Longrightarrow> t_total (t_check ok t) = t_passed (t_check ok t) + t_failed (t_check ok t)"
  by (simp add: t_check_def t_pass_def t_fail_def)

lemma await_first: "poll s = (c # cs, s1) \<Longrightarrow> 0 < n \<Longrightarrow> await_completion poll tick n i s = (Some c, s1)"
  by (cases n) simp_all

text \<open>The first poll decides: whatever the ring holds when the call has been submitted is taken for its completion.\<close>

lemma stale_completion_returned:
  assumes "submit_with_opcode u e opcode io = (Ok (), io1)" "iouring_flush u io1 = (Ok n, io2)"
    and "cq_yields u (ring io2) (c # cs)"
  shows "fst (submit_and_wait u tick e opcode io) = Some (completion_of c)"
proof -
  obtain out io3 where p: "iouring_poll_completions u 4 4 io2 = (out, io3)"
    by fastforce
  then have "out = map completion_of (take 4 (c # cs))"
    using poll_cqes_yields[OF assms(3), of 4] by (simp add: iouring_poll_completions_def)
  then have "out = completion_of c # map completion_of (take 3 cs)"
    by (simp add: numeral_eq_Suc)
  then show ?thesis
    using p by (simp add: submit_and_wait_def assms(1,2) await_first)
qed

section \<open>The checks of the kernel module pass\<close>

lemma layout_offsets:
  "layout_offset ''magic'' = 0" "layout_offset ''version'' = 4" "layout_offset ''pid'' = 8" "layout_offset ''uid'' = 32"
  "layout_offset ''ppid'' = 16"
  by (simp_all add: layout_offset_def KsvcSharedPageLayout_def align_up_def)

lemma populate_magic:
  "get_bytes 4 0 (populate p pg) = le_bytes 4 (unat KSVC_SHARED_MAGIC)"
  "get_bytes 4 4 (populate p pg) = le_bytes 4 (unat KSVC_VERSION)"
  unfolding populate_def put_u32_def put_u64_def
  by (simp_all add: shared_offsets get_put_same get_put_other get_put_uts)

lemma identity_checks_pass:
  assumes "p_pid self = p_tgid self"
  shows "identity_checks self (populate self (\<lambda>_. 0)) t = t_pass (t_pass (t_pass (t_pass (t_pass t))))"
  unfolding identity_checks_def Let_def MmapSharedPage_def layout_offsets
  by (simp add: read_u32_def populate_reads[OF refl] populate_magic from_le_u32 assms)

lemma ring_pages_64: "ring_pages_needed 64 64 = 2"
  by (simp add: ring_pages_needed_def)

lemma smoke_maps:
  assumes "kf_inst f = (i, inst)" "ki_created inst" "\<forall>p. ka_insert (fst m) p = 0"
  shows "ki_shared_page inst = Some p \<Longrightarrow> smoke_mmap m f 4096 0x200000 = Some [p]"
    and "kr_pages (ki_submit inst) = Some (arr, [q, q']) \<Longrightarrow> kr_nr_pages (ki_submit inst) = 2 \<Longrightarrow>
      smoke_mmap m f submit_ring_size 0 = Some [q, q']"
  using assms by (simp_all add: smoke_mmap_def ksvc_mmap_def ksvc_shared_mmap_def ksvc_ring_mmap_def submit_ring_size_def
    drop_bit_eq_div push_bit_eq_mult)

text \<open>
  C32: Part A of the smoke test on the module it tests: when the open, the eventfd and \<open>CREATE\<close> succeed, the kernel
  inserts the pages and the test runs in the main thread, all ten checks pass (the shared page has the magic, the
  version and the identity of the process, the submit ring's header has its magic and 64 entries), and the test
  hands back the mapping and the file. It then unmaps 16384 bytes where it had mapped 8192.
\<close>

theorem smoke_kmod_passes:
  assumes "\<forall>j \<in> k_live k. j < k_next k" "ksvc_open (kw_open w) k = (Inr f, k1)" "0 \<le> sint (kw_eventfd w)"
    and "ksvc_ioctl ((kw_create w)\<lparr> ka_from_user := Some \<lparr> cp_submit = 64, cp_complete = 64, cp_flags = 0,
           cp_eventfd = kw_eventfd w \<rparr> \<rparr>) KSVC_IOC_CREATE f k1 = (0, f', k2)"
    and "\<forall>p. ka_insert (fst (kw_shared w)) p = 0" "\<forall>p. ka_insert (fst (kw_submit w)) p = 0"
    and "kw_self w = ka_proc (kw_create w)" "p_pid (kw_self w) = p_tgid (kw_self w)"
  shows "test_kmod w k t = \<lparr> kt_runner = (t_pass ^^ 10) t, kt_kern = k2, kt_mapped = Some (snd (kw_shared w), f'),
      kt_unmapped = [(snd (kw_submit w), 16384)] \<rparr> \<and> submit_ring_size = 8192"
proof -
  let ?params = "\<lparr> cp_submit = 64, cp_complete = 64, cp_flags = 0, cp_eventfd = kw_eventfd w \<rparr>"
  let ?api = "(kw_create w)\<lparr> ka_from_user := Some ?params \<rparr>"
  have "file_inv (k_live k) (k_bad k) f k1"
    using open_inv[of k "k_live k" "k_bad k", OF _ assms(2)] assms(1) by (simp add: kst_def)
  then have k1: "\<forall>j \<in> k_live k1. j < k_next k1"
    by (auto simp: file_inv_def kst_def)
  obtain inst' where c: "ksvc_ioctl_create ?api (snd (kf_inst f)) k1 = (0, inst', k2)" "kf_inst f' = (fst (kf_inst f), inst')"
    using assms(4) by (auto simp: ksvc_ioctl_def split: prod.splits)
  obtain arr q qs p where s: "kr_pages (ki_submit inst') = Some (arr, q # qs)" "kr_nr_pages (ki_submit inst') = 2"
      "length (q # qs) = 2" "k_header k2 q = Some (new_header 64 64)" "ki_created inst'"
      "ki_shared_page inst' = Some p" "k_bytes k2 p = populate (kw_self w) (\<lambda>_. 0)"
    by (rule created_state[OF k1 c(1), of ?params]) (simp_all add: ring_pages_64 assms(7))
  obtain q' where q': "qs = [q']"
    using s(3) by (cases qs) auto
  have m: "smoke_mmap (kw_shared w) f' 4096 0x200000 = Some [p]" "smoke_mmap (kw_submit w) f' submit_ring_size 0 = Some [q, q']"
    using smoke_maps(1)[OF c(2) s(5) assms(5) s(6)] smoke_maps(2)[OF c(2) s(5) assms(6) s(1)[unfolded q'] s(2)] .
  have pow: "(t_pass ^^ 10) t = t_pass (t_pass (t_pass (t_pass (t_pass (t_pass (t_pass (t_pass (t_pass (t_pass t)))))))))"
    by (simp add: eval_nat_numeral)
  have "submit_ring_size = 8192"
    by (simp add: submit_ring_size_def)
  then show ?thesis
    unfolding pow
    by (simp add: test_kmod_def assms(2,3,4) KsvcCreateParams_default_def m ring_check_def s(4,7) new_header_def
      identity_checks_pass[OF assms(8)] Let_def)
qed

text \<open>A kernel and a process for which the ten checks run.\<close>

definition smoke_world :: KmodWorld where
  "smoke_world = \<lparr> kw_open = demo_kapi True, kw_eventfd = 3, kw_create = (demo_kapi True)\<lparr> ka_eventfd := (\<lambda>_. 0) \<rparr>,
     kw_shared = (demo_kapi True, 0x10000), kw_submit = (demo_kapi True, 0x20000), kw_self = demo_proc \<rparr>"

lemma valid_64: "valid_ring_entries 64" "unat (ring_pages_needed 64 64) = 2" "unat (ring_pages_needed 64 32) = 2"
  by (simp_all add: valid_ring_entries_def ring_pages_needed_def)

theorem smoke_kmod_passes_witness:
  "\<exists>k' m. test_kmod smoke_world demo_kern TestRunner_new =
     \<lparr> kt_runner = \<lparr> t_total = 10, t_passed = 10, t_failed = 0 \<rparr>, kt_kern = k', kt_mapped = Some m,
       kt_unmapped = [(0x20000, 16384)] \<rparr>"
proof -
  obtain f k1 where o: "ksvc_open (kw_open smoke_world) demo_kern = (Inr f, k1)"
    by (simp add: demo_kernel_simps smoke_world_def)
  obtain f' k2 where c: "ksvc_ioctl ((kw_create smoke_world)\<lparr> ka_from_user := Some \<lparr> cp_submit = 64, cp_complete = 64,
      cp_flags = 0, cp_eventfd = kw_eventfd smoke_world \<rparr> \<rparr>) KSVC_IOC_CREATE f k1 = (0, f', k2)"
    using o by (auto simp: demo_kernel_simps smoke_world_def valid_64 Let_def)
  have "(t_pass ^^ 10) TestRunner_new = \<lparr> t_total = 10, t_passed = 10, t_failed = 0 \<rparr>"
    by (simp add: eval_nat_numeral t_pass_def TestRunner_new_def)
  moreover have "test_kmod smoke_world demo_kern TestRunner_new = \<lparr> kt_runner = (t_pass ^^ 10) TestRunner_new, kt_kern = k2,
      kt_mapped = Some (snd (kw_shared smoke_world), f'), kt_unmapped = [(snd (kw_submit smoke_world), 16384)] \<rparr>"
    by (rule conjunct1[OF smoke_kmod_passes[OF _ o _ c]])
      (simp_all add: smoke_world_def demo_kapi_def demo_kern_def demo_proc_def)
  ultimately show ?thesis
    by (simp add: smoke_world_def)
qed

section \<open>The checks of the routing table\<close>

lemma tier_counts_Suc: "tier_counts r (Suc n) = count_tier (tier (r (of_nat n))) (tier_counts r n)"
  by (simp add: tier_counts_def)

lemma tier_counts_card:
  "tier0 (tier_counts r n) = card {i. i < n \<and> tier (r (of_nat i)) = SharedPage}"
  "tier1 (tier_counts r n) = card {i. i < n \<and> tier (r (of_nat i)) = IoUring}"
proof (induction n)
  case 0
  show "tier0 (tier_counts r 0) = card {i. i < 0 \<and> tier (r (of_nat i)) = SharedPage}"
    "tier1 (tier_counts r 0) = card {i. i < 0 \<and> tier (r (of_nat i)) = IoUring}"
    by (simp_all add: tier_counts_def)
next
  case (Suc n)
  have *: "{i. i < Suc n \<and> tier (r (of_nat i)) = x} = (if tier (r (of_nat n)) = x
      then insert n {i. i < n \<and> tier (r (of_nat i)) = x} else {i. i < n \<and> tier (r (of_nat i)) = x})" for x
    using less_Suc_eq by auto
  show "tier0 (tier_counts r (Suc n)) = card {i. i < Suc n \<and> tier (r (of_nat i)) = SharedPage}"
    "tier1 (tier_counts r (Suc n)) = card {i. i < Suc n \<and> tier (r (of_nat i)) = IoUring}"
    unfolding * tier_counts_Suc by (cases "tier (r (of_nat n))"; simp add: Suc)+
qed

lemma card_small_words:
  assumes "\<forall>x \<in> X. unat (x :: u32) < 512"
  shows "card {i. i < 512 \<and> of_nat i \<in> X} = card X"
proof -
  have "i = unat (of_nat i :: u32)" if "i < 512" for i
    using that by (simp add: unat_of_nat_lt)
  then have "{i. i < 512 \<and> of_nat i \<in> X} = unat ` X"
    using assms by force
  then show ?thesis
    by (simp add: card_image inj_on_def unsigned_word_eqI)
qed

text \<open>The calls that go to the ring when the opcodes \<open>S\<close> are supported.\<close>

definition ring_calls :: "u8 set \<Rightarrow> u32 set" where
  "ring_calls S = {n. tier (route_spec S n) = IoUring}"

lemma ring_calls_iff:
  "n \<in> ring_calls S \<longleftrightarrow> (\<exists>opc fb. (at_variant n, opc, fb) \<in> set tier1_candidates \<and> opc \<in> S)"
proof -
  have "n \<in> ring_calls S \<longleftrightarrow> (\<exists>opc fb. map_of tier1_candidates (at_variant n) = Some (opc, fb) \<and> opc \<in> S)"
    by (auto simp: ring_calls_def route_spec_def own_route_def split: option.splits)
  then show ?thesis
    using candidates_distinct by simp
qed

lemma ring_calls_image: "n \<in> ring_calls S \<longleftrightarrow> at_variant n \<in> fst ` {c \<in> set tier1_candidates. fst (snd c) \<in> S}"
  unfolding ring_calls_iff by force

lemma ring_calls_small:
  assumes "n \<in> ring_calls S"
  shows "unat n < 512"
proof (rule ccontr)
  assume "\<not> ?thesis"
  then have "n \<notin> set tier0_calls" "n \<notin> fst ` set tier1_candidates" "n \<notin> set tier2_always"
    "n \<notin> fst ` set (legacy_to_at @ stat_aliases)"
    using calls_in_table by blast+
  from route_spec_elsewhere[OF this] show False
    using assms by (simp add: ring_calls_def)
qed

lemma tier1_count: "tier1 (tier_counts (route (ProbeRouter_new supported)) TABLE_SIZE) = card (ring_calls (set supported))"
  using card_small_words[of "ring_calls (set supported)"] ring_calls_small
  by (simp add: tier_counts_card TABLE_SIZE_def route_by_spec ring_calls_def)

definition needed_opcodes :: "u8 set" where
  "needed_opcodes = set (map op [''READ'', ''WRITE'', ''OPENAT'', ''CLOSE'', ''STATX'', ''ACCEPT'', ''SEND'', ''RECV''])"

lemma needed_eval: "needed_opcodes = {22, 23, 18, 19, 21, 13, 26, 27}"
proof -
  have "map op [''READ'', ''WRITE'', ''OPENAT'', ''CLOSE'', ''STATX'', ''ACCEPT'', ''SEND'', ''RECV''] =
      [22, 23, 18, 19, 21, 13, 26, 27]"
    by code_simp
  then show ?thesis
    by (simp only: needed_opcodes_def) simp
qed

lemma at_variant_candidate:
  assumes "(n, x) \<in> set tier1_candidates"
  shows "at_variant n = n"
proof -
  have "fst ` set tier1_candidates \<inter> fst ` set (legacy_to_at @ stat_aliases) = {}"
    by (simp only: lists_eval) simp
  moreover have "n \<in> fst ` set tier1_candidates"
    using assms by force
  ultimately have "map_of (legacy_to_at @ stat_aliases) n = None"
    unfolding map_of_eq_None_iff by blast
  then show ?thesis
    by (simp only: at_variant_def option.case)
qed

lemma ring_calls_needed: "ring_calls needed_opcodes = {0, 1, 2, 3, 4, 5, 6, 17, 18, 44, 45, 257, 288, 332}"
proof -
  have "n \<in> ring_calls needed_opcodes \<longleftrightarrow> at_variant n \<in> {0, 1, 17, 18, 257, 3, 332, 288, 44, 45}" for n
  proof -
    have "filter (\<lambda>c. fst (snd c) \<in> {22, 23, 18, 19, 21, 13, 26, 27}) tier1_candidates =
        [(0, 22, False), (1, 23, False), (17, 22, False), (18, 23, False), (257, 18, False), (3, 19, False),
         (332, 21, False), (288, 13, False), (44, 26, False), (45, 27, False)]"
      unfolding tier1_candidates_eval by simp
    then have "fst ` {c \<in> set tier1_candidates. fst (snd c) \<in> needed_opcodes} = {0, 1, 17, 18, 257, 3, 332, 288, 44, 45}"
      unfolding needed_eval set_filter[symmetric] by (simp only: list.set image_insert image_empty fst_conv)
    then show ?thesis
      by (simp only: ring_calls_image)
  qed
  moreover have "at_variant n \<in> {0, 1, 17, 18, 257, 3, 332, 288, 44, 45} \<longleftrightarrow>
      n \<in> {0, 1, 2, 3, 4, 5, 6, 17, 18, 44, 45, 257, 288, 332}" for n
    unfolding at_variant_def aliases_eval by simp blast
  ultimately show ?thesis
    by blast
qed

lemma ring_calls_more:
  assumes "needed_opcodes \<subseteq> S"
  shows "15 \<le> card (ring_calls S) \<longleftrightarrow> (\<exists>c \<in> set tier1_candidates. fst (snd c) \<in> S - needed_opcodes)"
proof (cases "\<exists>c \<in> set tier1_candidates. fst (snd c) \<in> S - needed_opcodes")
  case True
  then obtain n opc fb where c: "(n, opc, fb) \<in> set tier1_candidates" "opc \<in> S" "opc \<notin> needed_opcodes"
    by auto
  have "n \<notin> ring_calls needed_opcodes"
    using c candidates_distinct unfolding ring_calls_iff at_variant_candidate[OF c(1)]
    by (metis Pair_inject eq_key_imp_eq_value)
  then have "card (insert n (ring_calls needed_opcodes)) = 15"
    by (simp add: ring_calls_needed)
  moreover have "insert n (ring_calls needed_opcodes) \<subseteq> ring_calls S"
    using c assms at_variant_candidate[OF c(1)] by (auto simp only: ring_calls_iff) blast+
  ultimately have "15 \<le> card (ring_calls S)"
    using card_mono[of "ring_calls S" "insert n (ring_calls needed_opcodes)"] by simp
  then show ?thesis
    using True by simp
next
  case False
  then have "{c \<in> set tier1_candidates. fst (snd c) \<in> S} = {c \<in> set tier1_candidates. fst (snd c) \<in> needed_opcodes}"
    using assms by blast
  then have "ring_calls S = ring_calls needed_opcodes"
    by (intro set_eqI) (simp only: ring_calls_image)
  then show ?thesis
    using False by (simp add: ring_calls_needed)
qed

lemma tier0_count: "5 \<le> tier0 (tier_counts (route (ProbeRouter_new supported)) TABLE_SIZE)"
proof -
  have "tier (route_spec S n) = SharedPage" if "n \<in> {39, 102, 104, 107, 110}" for S n
    using that by (auto simp: route_spec_def own_route_def at_variant_def lists_eval simp del: map_of_append)
  then have "{39, 102, 104, 107, 110} \<subseteq> {i. i < 512 \<and> tier (route_spec (set supported) (of_nat i)) = SharedPage}"
    by simp
  from card_mono[OF _ this] show ?thesis
    by (simp add: tier_counts_card TABLE_SIZE_def route_by_spec)
qed

lemma smoke_tiers:
  "all_in_tier (ProbeRouter_new supported) SharedPage [''GETPID'', ''GETUID'', ''GETGID'', ''GETPPID'']"
  "all_in_tier (ProbeRouter_new supported) WorkerPool [''SETSOCKOPT'', ''DUP'', ''LSEEK'']"
  "needed_opcodes \<subseteq> set supported \<Longrightarrow> all_in_tier (ProbeRouter_new supported) IoUring
     [''READ'', ''WRITE'', ''OPENAT'', ''CLOSE'', ''STATX'', ''ACCEPT4'', ''SENDTO'', ''RECVFROM'']"
  by (simp_all add: all_in_tier_def smoke_nr_def route_by_spec route_spec_def own_route_def at_variant_def lists_eval
    needed_eval del: map_of_append)

text \<open>
  Part B of the smoke test on a kernel whose ring supports the eight opcodes it looks at: the three tiers have the
  calls it expects, and all four checks pass exactly when at least one more opcode of the candidate table is
  supported. With those eight alone, fourteen calls go to the ring and the test, which asks for fifteen, fails.
\<close>

theorem smoke_routing_result:
  assumes "needed_opcodes \<subseteq> set supported"
  shows "test_routing (ProbeRouter_new supported) t =
    (if \<exists>c \<in> set tier1_candidates. fst (snd c) \<in> set supported - needed_opcodes
     then t_pass (t_pass (t_pass (t_pass t))) else t_fail (t_pass (t_pass (t_pass t))))"
  using smoke_tiers(1,2)[of supported] smoke_tiers(3)[OF assms] tier0_count[of supported]
  unfolding test_routing_def Let_def tier1_count ring_calls_more[OF assms] by (simp only: t_check_def simp_thms if_True)

theorem smoke_routing_result_witness:
  "test_routing (ProbeRouter_new [22, 23, 18, 19, 21, 13, 26, 27]) TestRunner_new =
     \<lparr> t_total = 4, t_passed = 3, t_failed = 1 \<rparr> \<and>
   exit_status (test_routing (ProbeRouter_new [22, 23, 18, 19, 21, 13, 26, 27, 1]) TestRunner_new) = 0"
proof -
  have "\<exists>c \<in> set tier1_candidates. fst (snd c) \<in> set [22, 23, 18, 19, 21, 13, 26, 27, 1] - needed_opcodes"
    unfolding tier1_candidates_eval needed_eval by simp
  then show ?thesis
    using smoke_routing_result[of "[22, 23, 18, 19, 21, 13, 26, 27]" TestRunner_new]
      smoke_routing_result[of "[22, 23, 18, 19, 21, 13, 26, 27, 1]" TestRunner_new]
    by (simp add: needed_eval TestRunner_new_def t_pass_def t_fail_def exit_status_def)
qed

end
